(* ===== verification/Prelude.thy ===== *)
theory Prelude
  imports
    Main
    "HOL-Library.Word"
    "HOL-Library.Char_ord"
    "HOL-Library.List_Lexorder"
begin

text \<open>
  What every component of the model shares: results that carry an \<open>anyhow\<close> error with its
  context chain, the state-and-error steps the effectful code is written in, the string
  operations of Rust's \<open>str\<close> that the code calls, and the checked and saturating
  operations of its machine integers.

  A Rust string is UTF-8 text; here it is the list of its bytes, each byte a \<open>char\<close>.
  Lengths are therefore the byte lengths that \<open>str::len\<close> returns. Where the code walks
  over Rust characters, \<open>utf8_chars\<close> cuts the bytes into the encodings of the single
  characters.
\<close>

text \<open>
  Equations that evaluate closed applications of the model: \<open>simp add: drv_eval\<close> decides a
  concrete instance.
\<close>

named_theorems drv_eval

section \<open>Results and errors\<close>

text \<open>An \<open>anyhow::Error\<close>: a message, possibly wrapped in contexts, the outermost first.\<close>

datatype anyhow = Msg string | Context string anyhow

type_synonym 'a result = "anyhow + 'a"

abbreviation Ok :: "'a \<Rightarrow> 'e + 'a" where "Ok \<equiv> Inr"
abbreviation Err :: "'e \<Rightarrow> 'e + 'a" where "Err \<equiv> Inl"

definition bail :: "string \<Rightarrow> 'a result" where
  "bail m = Err (Msg m)"

text \<open>
  An error that the standard library or another crate builds: its text is not the program's,
  so only the operation it comes from is kept.
\<close>

definition lib_error :: "string \<Rightarrow> anyhow" where
  "lib_error origin = Msg origin"

text \<open>\<open>err.to_string()\<close> is the outermost text; \<open>err.chain()\<close> is all of them.\<close>

fun err_text :: "anyhow \<Rightarrow> string" where
  "err_text (Msg m) = m"
| "err_text (Context c e) = c"

fun err_chain :: "anyhow \<Rightarrow> string list" where
  "err_chain (Msg m) = [m]"
| "err_chain (Context c e) = c # err_chain e"

fun with_context :: "string \<Rightarrow> 'a result \<Rightarrow> 'a result" where
  "with_context c (Inl e) = Inl (Context c e)"
| "with_context c (Inr x) = Inr x"

fun ok_or :: "string \<Rightarrow> 'a option \<Rightarrow> 'a result" where
  "ok_or c None = Err (Msg c)"
| "ok_or c (Some x) = Ok x"

text \<open>The \<open>?\<close> operator.\<close>

fun bind_r :: "'e + 'a \<Rightarrow> ('a \<Rightarrow> 'e + 'b) \<Rightarrow> 'e + 'b" where
  "bind_r (Inl e) f = Inl e"
| "bind_r (Inr x) f = f x"

fun is_ok :: "'e + 'a \<Rightarrow> bool" where
  "is_ok (Inl e) = False"
| "is_ok (Inr x) = True"

text \<open>\<open>iter().map(f).collect::<Result<Vec<_>>>()\<close>: the first error wins.\<close>

fun collect_r :: "('a \<Rightarrow> 'e + 'b) \<Rightarrow> 'a list \<Rightarrow> 'e + 'b list" where
  "collect_r f [] = Inr []"
| "collect_r f (x # xs) = bind_r (f x) (\<lambda>y. bind_r (collect_r f xs) (\<lambda>ys. Inr (y # ys)))"

text \<open>\<open>Option<Result<_>>::transpose\<close> after a map.\<close>

fun transpose_r :: "('a \<Rightarrow> 'e + 'b) \<Rightarrow> 'a option \<Rightarrow> 'e + 'b option" where
  "transpose_r f None = Inr None"
| "transpose_r f (Some x) = bind_r (f x) (\<lambda>y. Inr (Some y))"

lemma bail_neq_Ok [simp]: "bail m \<noteq> Inr x" "Inr x \<noteq> bail m"
  by (simp_all add: bail_def)

lemma bail_eq_Err [simp]: "bail m = Inl e \<longleftrightarrow> e = Msg m"
  by (auto simp: bail_def)

lemma is_ok_iff: "is_ok r \<longleftrightarrow> (\<exists>x. r = Inr x)"
  by (cases r) auto

lemma is_ok_bail [simp]: "\<not> is_ok (bail m)"
  by (simp add: bail_def)

lemma bind_r_Ok_iff [simp]: "bind_r r f = Inr y \<longleftrightarrow> (\<exists>x. r = Inr x \<and> f x = Inr y)"
  by (cases r) auto

lemma bind_r_Err_iff: "bind_r r f = Inl e \<longleftrightarrow> r = Inl e \<or> (\<exists>x. r = Inr x \<and> f x = Inl e)"
  by (cases r) auto

lemma with_context_Ok_iff [simp]: "with_context c r = Inr x \<longleftrightarrow> r = Inr x"
  by (cases r) auto

lemma with_context_Err_iff: "with_context c r = Inl e \<longleftrightarrow> (\<exists>e'. r = Inl e' \<and> e = Context c e')"
  by (cases r) auto

lemma ok_or_Ok_iff [simp]: "ok_or c v = Inr x \<longleftrightarrow> v = Some x"
  by (cases v) auto

lemma is_ok_with_context [simp]: "is_ok (with_context c r) = is_ok r"
  by (cases r) auto

lemma is_ok_bind_r: "is_ok (bind_r r f) \<longleftrightarrow> (\<exists>x. r = Inr x \<and> is_ok (f x))"
  by (cases r) auto

lemma collect_r_Ok_iff: "collect_r f xs = Inr ys \<longleftrightarrow> list_all2 (\<lambda>x y. f x = Inr y) xs ys"
proof (induction xs arbitrary: ys)
  case Nil
  then show ?case by auto
next
  case (Cons x xs)
  then show ?case by (cases ys) auto
qed

lemma collect_r_length: "collect_r f xs = Inr ys \<Longrightarrow> length ys = length xs"
  by (auto simp: collect_r_Ok_iff dest: list_all2_lengthD)

lemma collect_r_all_ok: "\<forall>x\<in>set xs. f x = Inr (g x) \<Longrightarrow> collect_r f xs = Inr (map g xs)"
  by (induction xs) auto

lemma is_ok_collect_r: "is_ok (collect_r f xs) \<longleftrightarrow> (\<forall>x\<in>set xs. is_ok (f x))"
  by (induction xs) (auto simp: is_ok_bind_r is_ok_iff)

section \<open>State-and-error steps\<close>

text \<open>
  Code that reads and writes its surroundings (streams, files, a clock, child processes)
  returns its result together with the surroundings it leaves behind. An early return
  through \<open>?\<close> keeps the effects made so far.
\<close>

type_synonym ('s, 'a) step = "'s \<Rightarrow> 'a result \<times> 's"

definition ret :: "'a \<Rightarrow> ('s, 'a) step" where
  "ret x s = (Ok x, s)"

definition lift_r :: "'a result \<Rightarrow> ('s, 'a) step" where
  "lift_r r s = (r, s)"

text \<open>\<open>match_s m h\<close> runs \<open>m\<close> and hands its result, error or not, to \<open>h\<close>.\<close>

definition match_s :: "('s, 'a) step \<Rightarrow> ('a result \<Rightarrow> ('s, 'b) step) \<Rightarrow> ('s, 'b) step" where
  "match_s m h s = (case m s of (r, s') \<Rightarrow> h r s')"

definition bind_s :: "('s, 'a) step \<Rightarrow> ('a \<Rightarrow> ('s, 'b) step) \<Rightarrow> ('s, 'b) step" where
  "bind_s m f s = (case m s of (Inl e, s') \<Rightarrow> (Inl e, s') | (Inr x, s') \<Rightarrow> f x s')"

text \<open>A step on a part of the state, given how to read and to replace the part.\<close>

definition on_part :: "('s \<Rightarrow> 'p) \<Rightarrow> ('p \<Rightarrow> 's \<Rightarrow> 's) \<Rightarrow> ('p, 'a) step \<Rightarrow> ('s, 'a) step" where
  "on_part get put m s = (case m (get s) of (r, p) \<Rightarrow> (r, put p s))"

definition context_s :: "string \<Rightarrow> ('s, 'a) step \<Rightarrow> ('s, 'a) step" where
  "context_s c m s = (case m s of (r, s') \<Rightarrow> (with_context c r, s'))"

lemma ret_apply [simp]: "ret x s = (Inr x, s)"
  by (simp add: ret_def)

lemma lift_r_apply [simp]: "lift_r r s = (r, s)"
  by (simp add: lift_r_def)

lemma bind_s_Ok_iff:
  "bind_s m f s = (Inr y, t) \<longleftrightarrow> (\<exists>x s'. m s = (Inr x, s') \<and> f x s' = (Inr y, t))"
  by (auto simp: bind_s_def split: prod.splits sum.splits)

lemma context_s_Ok_iff: "context_s c m s = (Inr y, t) \<longleftrightarrow> m s = (Inr y, t)"
  by (auto simp: context_s_def split: prod.splits)

lemma bind_s_ret [simp]: "bind_s (ret x) f s = f x s"
  by (simp add: bind_s_def)

lemma bind_s_lift_r: "bind_s (lift_r r) f s = (case r of Inl e \<Rightarrow> (Inl e, s) | Inr x \<Rightarrow> f x s)"
  by (simp add: bind_s_def split: sum.splits)

text \<open>A relation between the states before and after that every part of a step keeps.\<close>

definition keeps :: "('s \<Rightarrow> 's \<Rightarrow> bool) \<Rightarrow> ('s, 'a) step \<Rightarrow> bool" where
  "keeps R m \<longleftrightarrow> (\<forall>s. R s (snd (m s)))"

lemma keepsI: "(\<And>s r t. m s = (r, t) \<Longrightarrow> R s t) \<Longrightarrow> keeps R m"
  by (metis keeps_def prod.collapse)

lemma keepsD: "keeps R m \<Longrightarrow> m s = (r, t) \<Longrightarrow> R s t"
  by (metis keeps_def snd_conv)

lemma keeps_snd: "keeps R m \<Longrightarrow> R s (snd (m s))"
  by (simp add: keeps_def)

lemma keeps_ret [intro]: "reflp R \<Longrightarrow> keeps R (ret x)"
  by (simp add: keeps_def reflp_def)

lemma keeps_lift_r [intro]: "reflp R \<Longrightarrow> keeps R (lift_r r)"
  by (simp add: keeps_def reflp_def)

lemma keeps_bind_s [intro]:
  assumes "transp R" "keeps R m" "\<And>x. keeps R (f x)"
  shows "keeps R (bind_s m f)"
proof (rule keepsI)
  fix s r t
  assume eq: "bind_s m f s = (r, t)"
  obtain r1 s1 where m: "m s = (r1, s1)" by fastforce
  have R1: "R s s1" using assms(2) m by (rule keepsD)
  show "R s t"
  proof (cases r1)
    case (Inl e)
    with eq m R1 show ?thesis by (simp add: bind_s_def)
  next
    case (Inr x)
    with eq m have "f x s1 = (r, t)" by (simp add: bind_s_def)
    with assms(3) have "R s1 t" by (rule keepsD)
    with R1 assms(1) show ?thesis by (meson transpD)
  qed
qed

lemma keeps_match_s [intro]:
  assumes "transp R" "keeps R m" "\<And>x. keeps R (h x)"
  shows "keeps R (match_s m h)"
proof (rule keepsI)
  fix s r t
  assume eq: "match_s m h s = (r, t)"
  obtain r1 s1 where m: "m s = (r1, s1)" by fastforce
  with eq have "h r1 s1 = (r, t)" by (simp add: match_s_def)
  with assms(3) have "R s1 t" by (rule keepsD)
  moreover have "R s s1" using assms(2) m by (rule keepsD)
  ultimately show "R s t" using assms(1) by (meson transpD)
qed

lemma keeps_context_s [intro]: "keeps R m \<Longrightarrow> keeps R (context_s c m)"
  unfolding keeps_def context_s_def by (simp add: case_prod_unfold)

text \<open>A step on a large state that does what another step does on a part of it.\<close>

named_theorems tracking

definition tracks :: "('s \<Rightarrow> 'p) \<Rightarrow> ('s, 'a) step \<Rightarrow> ('p, 'a) step \<Rightarrow> bool" where
  "tracks get m n \<longleftrightarrow> (\<forall>s. fst (m s) = fst (n (get s)) \<and> get (snd (m s)) = snd (n (get s)))"

lemma tracksD: "tracks get m n \<Longrightarrow> m s = (r, t) \<Longrightarrow> n (get s) = (r, get t)"
  unfolding tracks_def by (auto simp: prod_eq_iff)

lemma tracksI: "(\<And>s. fst (m s) = fst (n (get s)) \<and> get (snd (m s)) = snd (n (get s))) \<Longrightarrow> tracks get m n"
  by (simp add: tracks_def)

lemma tracks_on_part: "(\<And>p s. get (put p s) = p) \<Longrightarrow> tracks get (on_part get put m) m"
  by (simp add: tracks_def on_part_def split: prod.splits)

lemma tracks_units [tracking]:
  "tracks get (ret x) (ret x)" "tracks get (lift_r r) (lift_r r)" "tracks get (Pair r) (Pair r)"
  by (simp_all add: tracks_def)

lemma tracks_match_s [tracking]:
  assumes "tracks get m n" "\<And>r. tracks get (f r) (g r)"
  shows "tracks get (match_s m f) (match_s n g)"
proof (rule tracksI)
  fix s
  obtain r1 s1 where m: "m s = (r1, s1)" by fastforce
  with assms(1) have n: "n (get s) = (r1, get s1)" by (rule tracksD)
  from assms(2) have "fst (f r1 s1) = fst (g r1 (get s1)) \<and> get (snd (f r1 s1)) = snd (g r1 (get s1))"
    unfolding tracks_def by blast
  with m n show "fst (match_s m f s) = fst (match_s n g (get s))
      \<and> get (snd (match_s m f s)) = snd (match_s n g (get s))"
    by (simp add: match_s_def)
qed

lemma bind_s_match: "bind_s m f = match_s m (\<lambda>r. case r of Inl e \<Rightarrow> lift_r (Inl e) | Inr x \<Rightarrow> f x)"
  by (auto simp: fun_eq_iff bind_s_def match_s_def split: prod.splits sum.splits)

lemma tracks_bind_s [tracking]:
  assumes "tracks get m n" "\<And>x. tracks get (f x) (g x)"
  shows "tracks get (bind_s m f) (bind_s n g)"
  unfolding bind_s_match
proof (rule tracks_match_s [OF assms(1)])
  fix r
  show "tracks get (case r of Inl e \<Rightarrow> lift_r (Inl e) | Inr x \<Rightarrow> f x)
      (case r of Inl e \<Rightarrow> lift_r (Inl e) | Inr x \<Rightarrow> g x)"
    using assms(2) by (cases r) (simp_all add: tracks_units)
qed

lemma tracks_context_s [tracking]: "tracks get m n \<Longrightarrow> tracks get (context_s c m) (context_s c n)"
  by (simp add: tracks_def context_s_def case_prod_unfold)

text \<open>Finite runs of a labelled step relation.\<close>

inductive runs :: "('s \<Rightarrow> 'e \<Rightarrow> 's \<Rightarrow> bool) \<Rightarrow> 's \<Rightarrow> 'e list \<Rightarrow> 's \<Rightarrow> bool" for R where
  runs_Nil: "runs R s [] s"
| runs_Cons: "R s e t \<Longrightarrow> runs R t es u \<Longrightarrow> runs R s (e # es) u"

inductive_cases runs_NilE: "runs R s [] t"
inductive_cases runs_ConsE: "runs R s (e # es) t"
inductive_simps runs_simps [simp]: "runs R s [] t" "runs R s (e # es) t"

lemma runs_append: "runs R s es t \<Longrightarrow> runs R t fs u \<Longrightarrow> runs R s (es @ fs) u"
  by (induction rule: runs.induct) (auto intro: runs.intros)

lemma runs_invariant: "runs R s es t \<Longrightarrow> I s \<Longrightarrow> (\<And>s e t. R s e t \<Longrightarrow> I s \<Longrightarrow> I t) \<Longrightarrow> I t"
  by (induction rule: runs.induct) blast+

declare bind_s_def [drv_eval] match_s_def [drv_eval] context_s_def [drv_eval] bail_def [drv_eval] Let_def [drv_eval]

section \<open>Chunks\<close>

text \<open>\<open>slice::chunks\<close>.\<close>

function chunks_of :: "nat \<Rightarrow> 'a list \<Rightarrow> 'a list list" where
  "chunks_of n xs = (if n = 0 \<or> xs = [] then [] else take n xs # chunks_of n (drop n xs))"
  by auto

termination
  by (relation "measure (\<lambda>(n, xs). length xs)") auto

declare chunks_of.simps [simp del]

lemma chunks_of_Nil [simp]: "chunks_of n [] = []"
  by (simp add: chunks_of.simps)

lemma chunks_of_step: "0 < n \<Longrightarrow> xs \<noteq> [] \<Longrightarrow> chunks_of n xs = take n xs # chunks_of n (drop n xs)"
  by (simp add: chunks_of.simps [of n xs])

lemma concat_chunks_of: "0 < n \<Longrightarrow> concat (chunks_of n xs) = xs"
proof (induction n xs rule: chunks_of.induct)
  case (1 n xs)
  then show ?case by (cases "xs = []") (simp_all add: chunks_of_step)
qed

lemma chunks_of_bounds: "0 < n \<Longrightarrow> c \<in> set (chunks_of n xs) \<Longrightarrow> c \<noteq> [] \<and> length c \<le> n"
proof (induction n xs rule: chunks_of.induct)
  case (1 n xs)
  then show ?case by (cases "xs = []") (auto simp: chunks_of_step)
qed

lemma chunks_of_eq_Nil [simp]: "0 < n \<Longrightarrow> chunks_of n xs = [] \<longleftrightarrow> xs = []"
  by (cases "xs = []") (simp_all add: chunks_of_step)

lemma length_chunks_of: "0 < n \<Longrightarrow> n * length (chunks_of n xs) < length xs + n"
proof (induction n xs rule: chunks_of.induct)
  case (1 n xs)
  show ?case
  proof (cases "xs = []")
    case True
    with 1 show ?thesis by simp
  next
    case False
    with 1 have ih: "n * length (chunks_of n (drop n xs)) < length (drop n xs) + n" by blast
    have c: "chunks_of n xs = take n xs # chunks_of n (drop n xs)" using 1(2) False by (rule chunks_of_step)
    show ?thesis
    proof (cases "length xs \<le> n")
      case True
      with c False 1(2) show ?thesis by simp
    next
      case False
      with c ih show ?thesis by simp
    qed
  qed
qed

lemma chunks_of_chunks: "0 < n \<Longrightarrow> list_all (\<lambda>c. length c \<le> n) (chunks_of n xs)"
  by (auto simp: list_all_iff dest: chunks_of_bounds)


end
