(* ===== verification/Rust_Str.thy ===== *)
theory Rust_Str
  imports Prelude
begin

text \<open>
  The operations of Rust's \<open>str\<close> and \<open>char\<close> that the code calls, on byte lists. Each is
  executable; the lemmas give the equation of lists each one stands for, so that the
  components never unfold them.
\<close>

section \<open>Characters\<close>

definition byte :: "char \<Rightarrow> nat" where
  "byte c = of_char c"

text \<open>The encoding of one Rust character: a lead byte and its continuation bytes.\<close>

definition is_cont :: "char \<Rightarrow> bool" where
  "is_cont c \<longleftrightarrow> 128 \<le> byte c \<and> byte c < 192"

function utf8_chars :: "string \<Rightarrow> string list" where
  "utf8_chars [] = []"
| "utf8_chars (b # bs) = (b # takeWhile is_cont bs) # utf8_chars (dropWhile is_cont bs)"
  by pat_completeness auto
termination
  by (relation "measure length") (auto simp: le_imp_less_Suc length_dropWhile_le)

lemma concat_utf8_chars [simp]: "concat (utf8_chars s) = s"
  by (induction s rule: utf8_chars.induct) simp_all

definition is_ascii :: "char \<Rightarrow> bool" where
  "is_ascii c \<longleftrightarrow> byte c < 128"

lemma is_ascii_not_cont: "is_ascii c \<Longrightarrow> \<not> is_cont c"
  by (simp add: is_ascii_def is_cont_def)

text \<open>On ASCII text every byte is a character.\<close>

lemma utf8_chars_ascii: "list_all is_ascii s \<Longrightarrow> utf8_chars s = map (\<lambda>c. [c]) s"
proof (induction s rule: utf8_chars.induct)
  case 1
  show ?case by simp
next
  case (2 b bs)
  then have "takeWhile is_cont bs = []" "dropWhile is_cont bs = bs"
    by (cases bs; auto simp: is_ascii_not_cont)+
  with 2 show ?case by simp
qed

text \<open>A test that only ASCII characters can pass, lifted to an encoded character.\<close>

fun ascii_char :: "(char \<Rightarrow> bool) \<Rightarrow> string \<Rightarrow> bool" where
  "ascii_char p [c] = (is_ascii c \<and> p c)"
| "ascii_char p _ = False"

lemma list_all_ascii_char:
  "list_all (ascii_char p) (utf8_chars s) \<longleftrightarrow> list_all (\<lambda>c. is_ascii c \<and> p c) s"
proof
  assume all: "list_all (ascii_char p) (utf8_chars s)"
  have "list_all (\<lambda>c. is_ascii c \<and> p c) (concat (utf8_chars s))"
  proof -
    have "\<forall>x\<in>set (utf8_chars s). list_all (\<lambda>c. is_ascii c \<and> p c) x"
    proof
      fix x
      assume "x \<in> set (utf8_chars s)"
      with all have "ascii_char p x" by (simp add: list_all_iff)
      then show "list_all (\<lambda>c. is_ascii c \<and> p c) x"
        by (cases "(p, x)" rule: ascii_char.cases) simp_all
    qed
    then show ?thesis by (simp only: list_all_iff set_concat) blast
  qed
  then show "list_all (\<lambda>c. is_ascii c \<and> p c) s" by simp
next
  assume "list_all (\<lambda>c. is_ascii c \<and> p c) s"
  then show "list_all (ascii_char p) (utf8_chars s)"
    by (subst utf8_chars_ascii) (auto simp: list_all_iff)
qed

definition is_ascii_digit :: "char \<Rightarrow> bool" where
  "is_ascii_digit c \<longleftrightarrow> 48 \<le> byte c \<and> byte c \<le> 57"

definition is_ascii_upper :: "char \<Rightarrow> bool" where
  "is_ascii_upper c \<longleftrightarrow> 65 \<le> byte c \<and> byte c \<le> 90"

definition is_ascii_lower :: "char \<Rightarrow> bool" where
  "is_ascii_lower c \<longleftrightarrow> 97 \<le> byte c \<and> byte c \<le> 122"

definition is_ascii_alphanumeric :: "char \<Rightarrow> bool" where
  "is_ascii_alphanumeric c \<longleftrightarrow> is_ascii_digit c \<or> is_ascii_upper c \<or> is_ascii_lower c"

lemma is_ascii_digit_ascii: "is_ascii_digit c \<Longrightarrow> is_ascii c"
  by (simp add: is_ascii_digit_def is_ascii_def)

lemma is_ascii_alphanumeric_ascii: "is_ascii_alphanumeric c \<Longrightarrow> is_ascii c"
  by (auto simp: is_ascii_alphanumeric_def is_ascii_digit_def is_ascii_upper_def
      is_ascii_lower_def is_ascii_def)

definition to_ascii_lower :: "char \<Rightarrow> char" where
  "to_ascii_lower c = (if is_ascii_upper c then char_of (byte c + 32) else c)"

definition to_ascii_lowercase :: "string \<Rightarrow> string" where
  "to_ascii_lowercase s = map to_ascii_lower s"

definition eq_ignore_ascii_case :: "string \<Rightarrow> string \<Rightarrow> bool" where
  "eq_ignore_ascii_case a b \<longleftrightarrow> to_ascii_lowercase a = to_ascii_lowercase b"

text \<open>
  \<open>str::from_utf8\<close> accepts exactly the well-formed UTF-8 sequences: no stray or missing
  continuation byte, no overlong form, no surrogate, nothing above U+10FFFF.
\<close>

definition cont_byte :: "nat \<Rightarrow> bool" where
  "cont_byte b \<longleftrightarrow> 128 \<le> b \<and> b \<le> 191"

fun utf8_ok :: "nat list \<Rightarrow> bool" where
  "utf8_ok [] = True"
| "utf8_ok (a # r) =
    (if a < 128 then utf8_ok r
     else if 194 \<le> a \<and> a \<le> 223 then
       (case r of b # r' \<Rightarrow> cont_byte b \<and> utf8_ok r' | _ \<Rightarrow> False)
     else if 224 \<le> a \<and> a \<le> 239 then
       (case r of b # c # r' \<Rightarrow>
          cont_byte b \<and> (a = 224 \<longrightarrow> 160 \<le> b) \<and> (a = 237 \<longrightarrow> b \<le> 159) \<and> cont_byte c \<and> utf8_ok r'
        | _ \<Rightarrow> False)
     else if 240 \<le> a \<and> a \<le> 244 then
       (case r of b # c # d # r' \<Rightarrow>
          cont_byte b \<and> (a = 240 \<longrightarrow> 144 \<le> b) \<and> (a = 244 \<longrightarrow> b \<le> 143)
          \<and> cont_byte c \<and> cont_byte d \<and> utf8_ok r'
        | _ \<Rightarrow> False)
     else False)"

definition from_utf8 :: "string \<Rightarrow> string result" where
  "from_utf8 s = (if utf8_ok (map byte s) then Ok s else Err (lib_error ''from_utf8''))"

lemma from_utf8_Ok: "from_utf8 s = Inr t \<Longrightarrow> t = s"
  by (simp add: from_utf8_def split: if_splits)

lemma utf8_ok_ascii: "list_all is_ascii s \<Longrightarrow> utf8_ok (map byte s)"
  by (induction s) (auto simp: is_ascii_def)

lemma from_utf8_ascii: "list_all is_ascii s \<Longrightarrow> from_utf8 s = Inr s"
  by (simp add: from_utf8_def utf8_ok_ascii)

section \<open>Whitespace\<close>

text \<open>
  \<open>char::is_whitespace\<close> is Unicode's White_Space property. Its members, by encoded length:
  U+0009 to U+000D and U+0020; U+0085 and U+00A0; U+1680, U+2000 to U+200A, U+2028, U+2029,
  U+202F, U+205F and U+3000.
\<close>

fun is_whitespace_bytes :: "nat list \<Rightarrow> bool" where
  "is_whitespace_bytes [a] = ((9 \<le> a \<and> a \<le> 13) \<or> a = 32)"
| "is_whitespace_bytes [a, b] = (a = 194 \<and> (b = 133 \<or> b = 160))"
| "is_whitespace_bytes [a, b, c] =
    (a = 225 \<and> b = 154 \<and> c = 128
     \<or> a = 226 \<and> b = 128 \<and> (128 \<le> c \<and> c \<le> 138 \<or> c = 168 \<or> c = 169 \<or> c = 175)
     \<or> a = 226 \<and> b = 129 \<and> c = 159
     \<or> a = 227 \<and> b = 128 \<and> c = 128)"
| "is_whitespace_bytes _ = False"

definition is_whitespace :: "string \<Rightarrow> bool" where
  "is_whitespace ch = is_whitespace_bytes (map byte ch)"

definition trim_start :: "string \<Rightarrow> string" where
  "trim_start s = concat (dropWhile is_whitespace (utf8_chars s))"

definition trim :: "string \<Rightarrow> string" where
  "trim s = concat (rev (dropWhile is_whitespace (rev (dropWhile is_whitespace (utf8_chars s)))))"

text \<open>\<open>str::split_whitespace\<close>: the maximal runs of characters that are not whitespace.\<close>

fun split_ws_chars :: "string list \<Rightarrow> string \<Rightarrow> string list" where
  "split_ws_chars [] acc = (if acc = [] then [] else [acc])"
| "split_ws_chars (x # xs) acc =
    (if is_whitespace x
     then (if acc = [] then split_ws_chars xs [] else acc # split_ws_chars xs [])
     else split_ws_chars xs (acc @ x))"

definition split_whitespace :: "string \<Rightarrow> string list" where
  "split_whitespace s = split_ws_chars (utf8_chars s) []"

lemma takeWhile_dropWhile_rev:
  "\<exists>pre post. xs = pre @ rev (dropWhile P (rev (dropWhile P xs))) @ post
     \<and> list_all P pre \<and> list_all P post"
proof -
  let ?d = "dropWhile P xs"
  have "xs = takeWhile P xs @ ?d" by simp
  moreover have "?d = rev (dropWhile P (rev ?d)) @ rev (takeWhile P (rev ?d))"
    by (metis rev_append rev_rev_ident takeWhile_dropWhile_id)
  moreover have "list_all P (takeWhile P xs)" "list_all P (rev (takeWhile P (rev ?d)))"
    by (auto simp: list_all_iff dest: set_takeWhileD)
  ultimately show ?thesis by metis
qed

text \<open>\<open>trim\<close> removes whitespace at both ends and nothing else.\<close>

lemma trim_decomp:
  "\<exists>pre post. s = concat pre @ trim s @ concat post
     \<and> list_all is_whitespace pre \<and> list_all is_whitespace post"
proof -
  obtain pre post where
    "utf8_chars s = pre @ rev (dropWhile is_whitespace (rev (dropWhile is_whitespace (utf8_chars s)))) @ post"
    and ws: "list_all is_whitespace pre" "list_all is_whitespace post"
    using takeWhile_dropWhile_rev by blast
  then have "concat (utf8_chars s) = concat pre @ trim s @ concat post"
    unfolding trim_def by (metis concat_append)
  with ws show ?thesis by auto
qed

lemma set_trim: "set (trim s) \<subseteq> set s"
  using trim_decomp [of s] by (metis Un_upper1 Un_upper2 dual_order.trans set_append)

lemma length_trim: "length (trim s) \<le> length s"
  using trim_decomp [of s] by (metis le_add1 le_add2 le_trans length_append)

definition is_space_byte :: "char \<Rightarrow> bool" where
  "is_space_byte c \<longleftrightarrow> (9 \<le> byte c \<and> byte c \<le> 13) \<or> byte c = 32"

lemma is_whitespace_single [simp]: "is_whitespace [c] = is_space_byte c"
  by (simp add: is_whitespace_def is_space_byte_def)

text \<open>Text of visible ASCII characters is its own trimming.\<close>

definition visible :: "char \<Rightarrow> bool" where
  "visible c \<longleftrightarrow> is_ascii c \<and> \<not> is_space_byte c"

lemma trim_visible: "list_all visible s \<Longrightarrow> trim s = s"
proof -
  assume vis: "list_all visible s"
  then have "utf8_chars s = map (\<lambda>c. [c]) s"
    by (intro utf8_chars_ascii) (auto simp: list_all_iff visible_def)
  moreover have "dropWhile is_whitespace (map (\<lambda>c. [c]) t) = map (\<lambda>c. [c]) t"
    if "list_all visible t" for t
    using that by (cases t) (auto simp: visible_def)
  ultimately show ?thesis
    using vis by (simp add: trim_def rev_map list_all_rev)
qed

lemma visible_alphanumeric: "is_ascii_alphanumeric c \<Longrightarrow> visible c"
  by (auto simp: visible_def is_ascii_alphanumeric_def is_ascii_digit_def is_ascii_upper_def
      is_ascii_lower_def is_ascii_def is_space_byte_def)

lemma digit_visible: "is_ascii_digit c \<Longrightarrow> visible c"
  by (simp add: visible_alphanumeric is_ascii_alphanumeric_def)

section \<open>Prefixes, suffixes and separators\<close>

fun strip_prefix :: "string \<Rightarrow> string \<Rightarrow> string option" where
  "strip_prefix [] s = Some s"
| "strip_prefix (p # ps) [] = None"
| "strip_prefix (p # ps) (c # cs) = (if p = c then strip_prefix ps cs else None)"

definition strip_suffix :: "string \<Rightarrow> string \<Rightarrow> string option" where
  "strip_suffix p s = map_option rev (strip_prefix (rev p) (rev s))"

definition starts_with :: "string \<Rightarrow> string \<Rightarrow> bool" where
  "starts_with p s \<longleftrightarrow> strip_prefix p s \<noteq> None"

definition ends_with :: "string \<Rightarrow> string \<Rightarrow> bool" where
  "ends_with p s \<longleftrightarrow> strip_suffix p s \<noteq> None"

fun contains_str :: "string \<Rightarrow> string \<Rightarrow> bool" where
  "contains_str p [] = (p = [])"
| "contains_str p (c # cs) = (starts_with p (c # cs) \<or> contains_str p cs)"

fun split_once :: "char \<Rightarrow> string \<Rightarrow> (string \<times> string) option" where
  "split_once c [] = None"
| "split_once c (d # ds) =
    (if d = c then Some ([], ds) else map_option (\<lambda>(a, b). (d # a, b)) (split_once c ds))"

fun split_on :: "char \<Rightarrow> string \<Rightarrow> string list" where
  "split_on c [] = [[]]"
| "split_on c (d # ds) =
    (if d = c then [] # split_on c ds
     else (case split_on c ds of [] \<Rightarrow> [[d]] | x # xs \<Rightarrow> (d # x) # xs))"

text \<open>\<open>rsplit_once\<close>-like cut at the last separator.\<close>

definition rsplit_once :: "char \<Rightarrow> string \<Rightarrow> (string \<times> string) option" where
  "rsplit_once c s = map_option (\<lambda>(a, b). (rev b, rev a)) (split_once c (rev s))"

fun join_with :: "string \<Rightarrow> string list \<Rightarrow> string" where
  "join_with sep [] = []"
| "join_with sep [x] = x"
| "join_with sep (x # y # ys) = x @ sep @ join_with sep (y # ys)"

text \<open>\<open>str::lines\<close>: split at \<open>\n\<close>; only a terminated line loses a final \<open>\r\<close>.\<close>

definition cut_cr :: "string \<Rightarrow> string" where
  "cut_cr l = (case strip_suffix [CHR 0x0D] l of None \<Rightarrow> l | Some r \<Rightarrow> r)"

fun line_list :: "string list \<Rightarrow> string list" where
  "line_list [] = []"
| "line_list [x] = (if x = [] then [] else [x])"
| "line_list (x # y # ys) = cut_cr x # line_list (y # ys)"

definition str_lines :: "string \<Rightarrow> string list" where
  "str_lines s = line_list (split_on (CHR 0x0A) s)"

lemma strip_prefix_Some_iff [simp]: "strip_prefix p s = Some r \<longleftrightarrow> s = p @ r"
  by (induction p s rule: strip_prefix.induct) auto

lemma strip_prefix_append [simp]: "strip_prefix p (p @ r) = Some r"
  by simp

lemma strip_prefix_None_iff: "strip_prefix p s = None \<longleftrightarrow> (\<nexists>r. s = p @ r)"
  by (metis not_None_eq strip_prefix_Some_iff)

lemma strip_suffix_Some_iff [simp]: "strip_suffix p s = Some r \<longleftrightarrow> s = r @ p"
proof -
  have "strip_suffix p s = Some r \<longleftrightarrow> (\<exists>x. rev s = rev p @ x \<and> rev x = r)"
    by (simp add: strip_suffix_def)
  also have "\<dots> \<longleftrightarrow> rev s = rev p @ rev r"
    by auto
  also have "\<dots> \<longleftrightarrow> s = r @ p"
    by (simp flip: rev_append)
  finally show ?thesis .
qed

lemma starts_with_iff: "starts_with p s \<longleftrightarrow> (\<exists>r. s = p @ r)"
  by (simp add: starts_with_def strip_prefix_None_iff)

lemma ends_with_iff: "ends_with p s \<longleftrightarrow> (\<exists>r. s = r @ p)"
  by (simp add: ends_with_def)

lemma contains_str_iff: "contains_str p s \<longleftrightarrow> (\<exists>a b. s = a @ p @ b)"
proof (induction s)
  case Nil
  then show ?case by auto
next
  case (Cons c cs)
  note IH = Cons.IH
  show ?case
  proof
    assume "contains_str p (c # cs)"
    then consider r where "c # cs = p @ r" | a b where "cs = a @ p @ b"
      using IH by (auto simp: starts_with_iff)
    then show "\<exists>a b. c # cs = a @ p @ b"
      by cases (metis append_Nil, metis append_Cons)
  next
    assume "\<exists>a b. c # cs = a @ p @ b"
    then obtain a b where ab: "c # cs = a @ p @ b" by blast
    show "contains_str p (c # cs)"
    proof (cases a)
      case Nil
      with ab have "starts_with p (c # cs)" by (auto simp: starts_with_iff)
      then show ?thesis by simp
    next
      case (Cons x xs)
      with ab have "cs = xs @ p @ b" by simp
      with IH have "contains_str p cs" by blast
      then show ?thesis by simp
    qed
  qed
qed

lemma split_once_Some_iff: "split_once c s = Some (a, b) \<longleftrightarrow> s = a @ c # b \<and> c \<notin> set a"
proof (induction s arbitrary: a)
  case Nil
  then show ?case by simp
next
  case (Cons d ds)
  then show ?case by (cases a) auto
qed

lemma split_once_None_iff [simp]: "split_once c s = None \<longleftrightarrow> c \<notin> set s"
  by (induction s) auto

lemma rsplit_once_Some_iff: "rsplit_once c s = Some (a, b) \<longleftrightarrow> s = a @ c # b \<and> c \<notin> set b"
proof -
  have "rsplit_once c s = Some (a, b) \<longleftrightarrow> split_once c (rev s) = Some (rev b, rev a)"
    by (auto simp: rsplit_once_def)
  also have "\<dots> \<longleftrightarrow> rev s = rev b @ c # rev a \<and> c \<notin> set b"
    by (simp add: split_once_Some_iff)
  also have "rev s = rev b @ c # rev a \<longleftrightarrow> s = a @ c # b"
    by (metis append.assoc append_Cons append_Nil rev.simps(2) rev_append rev_rev_ident)
  finally show ?thesis .
qed

lemma split_on_single: "c \<notin> set s \<Longrightarrow> split_on c s = [s]"
  by (induction s) auto

lemma split_on_Cons_line: "c \<notin> set l \<Longrightarrow> split_on c (l @ c # r) = l # split_on c r"
  by (induction l) auto

lemma split_on_not_Nil [simp]: "split_on c s \<noteq> []"
  by (induction s) (auto split: list.splits)

lemma join_split_on: "join_with [c] (split_on c s) = s"
proof (induction s)
  case Nil
  show ?case by simp
next
  case (Cons d ds)
  then show ?case
  proof (cases "split_on c ds")
    case (Cons x xs)
    with Cons.IH show ?thesis by (cases xs) auto
  qed simp
qed

lemma split_on_no_sep: "x \<in> set (split_on c s) \<Longrightarrow> c \<notin> set x"
  by (induction s arbitrary: x) (auto split: list.splits if_splits)

lemma split_on_chars: "x \<in> set (split_on c s) \<Longrightarrow> set x \<subseteq> set s"
proof (induction s arbitrary: x)
  case Nil
  then show ?case by simp
next
  case (Cons d ds)
  then show ?case by (fastforce split: list.splits if_splits)
qed

lemma char_of_bits [drv_eval]:
  "char_of (n :: nat) = Char (odd n) (odd (n div 2)) (odd (n div 4)) (odd (n div 8))
     (odd (n div 16)) (odd (n div 32)) (odd (n div 64)) (odd (n div 128))"
  by (simp add: char_of_def bit_iff_odd)

declare byte_def [drv_eval] is_cont_def [drv_eval] is_ascii_def [drv_eval]
  is_ascii_digit_def [drv_eval] is_ascii_upper_def [drv_eval] is_ascii_lower_def [drv_eval]
  is_ascii_alphanumeric_def [drv_eval] to_ascii_lower_def [drv_eval]
  to_ascii_lowercase_def [drv_eval] eq_ignore_ascii_case_def [drv_eval]
  is_whitespace_def [drv_eval] is_space_byte_def [drv_eval]
  trim_start_def [drv_eval] trim_def [drv_eval] split_whitespace_def [drv_eval]
  strip_suffix_def [drv_eval] starts_with_def [drv_eval] ends_with_def [drv_eval]
  rsplit_once_def [drv_eval] cut_cr_def [drv_eval] str_lines_def [drv_eval]
  from_utf8_def [drv_eval] cont_byte_def [drv_eval] visible_def [drv_eval]

section \<open>Lossy decoding\<close>

text \<open>
  \<open>String::from_utf8_lossy\<close>: a well-formed character stays, and the longest prefix of one that
  is cut short becomes U+FFFD. \<open>char_len\<close> is the length of the character at the front, or 0;
  \<open>bad_len\<close> the length of the part that is replaced.
\<close>

definition char_len :: "string \<Rightarrow> nat" where
  "char_len s =
    (if utf8_ok (map byte (take 1 s)) then 1
     else if 2 \<le> length s \<and> utf8_ok (map byte (take 2 s)) then 2
     else if 3 \<le> length s \<and> utf8_ok (map byte (take 3 s)) then 3
     else if 4 \<le> length s \<and> utf8_ok (map byte (take 4 s)) then 4 else 0)"

definition second_ok :: "nat \<Rightarrow> nat \<Rightarrow> bool" where
  "second_ok a b \<longleftrightarrow> cont_byte b \<and> (a = 224 \<longrightarrow> 160 \<le> b) \<and> (a = 237 \<longrightarrow> b \<le> 159)
     \<and> (a = 240 \<longrightarrow> 144 \<le> b) \<and> (a = 244 \<longrightarrow> b \<le> 143)"

fun bad_len :: "nat list \<Rightarrow> nat" where
  "bad_len (a # b # c # _) =
    (if 224 \<le> a \<and> a \<le> 239 \<and> second_ok a b then 2
     else if 240 \<le> a \<and> a \<le> 244 \<and> second_ok a b then (if cont_byte c then 3 else 2)
     else 1)"
| "bad_len [a, b] = (if 224 \<le> a \<and> a \<le> 244 \<and> second_ok a b then 2 else 1)"
| "bad_len _ = 1"

lemma bad_len_pos: "0 < bad_len bs"
  by (induction bs rule: bad_len.induct) auto

function utf8_lossy :: "string \<Rightarrow> string" where
  "utf8_lossy s =
    (if s = [] then []
     else if 0 < char_len s then take (char_len s) s @ utf8_lossy (drop (char_len s) s)
     else [CHR 0xEF, CHR 0xBF, CHR 0xBD] @ utf8_lossy (drop (bad_len (map byte s)) s))"
  by auto

termination
  by (relation "measure length") (auto simp: bad_len_pos)

declare utf8_lossy.simps [simp del]

lemma utf8_lossy_ascii: "list_all is_ascii s \<Longrightarrow> utf8_lossy s = s"
proof (induction s)
  case Nil
  then show ?case by (simp add: utf8_lossy.simps)
next
  case (Cons c s)
  then have "char_len (c # s) = 1" by (simp add: char_len_def is_ascii_def)
  with Cons show ?case by (subst utf8_lossy.simps) simp
qed

end
