(* ===== verification/Rust_Num.thy ===== *)
theory Rust_Num
  imports Rust_Str
begin

text \<open>
  Machine integers at their width (\<open>u64\<close>, and \<open>usize\<close> of a 64-bit target), their
  checked and saturating operations, decimal printing (\<open>Display\<close>) and parsing
  (\<open>FromStr\<close>), and time as the clock delivers it.
\<close>

type_synonym u8 = "8 word"
type_synonym u16 = "16 word"
type_synonym u32 = "32 word"
type_synonym u64 = "64 word"
type_synonym usize = "64 word"

section \<open>Checked and saturating operations\<close>

definition checked_add :: "'a::len word \<Rightarrow> 'a word \<Rightarrow> 'a word option" where
  "checked_add a b = (if unat a + unat b < 2 ^ LENGTH('a) then Some (a + b) else None)"

definition checked_mul :: "'a::len word \<Rightarrow> 'a word \<Rightarrow> 'a word option" where
  "checked_mul a b = (if unat a * unat b < 2 ^ LENGTH('a) then Some (a * b) else None)"

definition saturating_add :: "'a::len word \<Rightarrow> 'a word \<Rightarrow> 'a word" where
  "saturating_add a b = (if unat a + unat b < 2 ^ LENGTH('a) then a + b else - 1)"

definition saturating_sub :: "'a::len word \<Rightarrow> 'a word \<Rightarrow> 'a word" where
  "saturating_sub a b = (if b \<le> a then a - b else 0)"

lemma checked_add_Some_iff:
  "checked_add a b = Some c \<longleftrightarrow> unat c = unat a + unat (b :: 'a::len word)"
proof
  assume "checked_add a b = Some c"
  then show "unat c = unat a + unat b"
    by (auto simp: checked_add_def unat_word_ariths split: if_splits)
next
  assume u: "unat c = unat a + unat b"
  moreover have "unat c < 2 ^ LENGTH('a)" by (rule unsigned_less)
  ultimately show "checked_add a b = Some c"
    by (simp add: checked_add_def word_unat_eq_iff unat_word_ariths)
qed

lemma checked_mul_Some_iff:
  "checked_mul a b = Some c \<longleftrightarrow> unat c = unat a * unat (b :: 'a::len word)"
proof
  assume "checked_mul a b = Some c"
  then show "unat c = unat a * unat b"
    by (auto simp: checked_mul_def unat_word_ariths split: if_splits)
next
  assume u: "unat c = unat a * unat b"
  moreover have "unat c < 2 ^ LENGTH('a)" by (rule unsigned_less)
  ultimately show "checked_mul a b = Some c"
    by (simp add: checked_mul_def word_unat_eq_iff unat_word_ariths)
qed

lemma checked_add_None_iff:
  "checked_add a (b :: 'a::len word) = None \<longleftrightarrow> 2 ^ LENGTH('a) \<le> unat a + unat b"
  by (simp add: checked_add_def not_less)

lemma checked_mul_None_iff:
  "checked_mul a (b :: 'a::len word) = None \<longleftrightarrow> 2 ^ LENGTH('a) \<le> unat a * unat b"
  by (simp add: checked_mul_def not_less)

lemma unat_saturating_add:
  "unat (saturating_add a (b :: 'a::len word)) = min (unat a + unat b) (2 ^ LENGTH('a) - 1)"
proof (cases "unat a + unat b < 2 ^ LENGTH('a)")
  case True
  then show ?thesis by (simp add: saturating_add_def unat_word_ariths)
next
  case False
  have "unat (- 1 :: 'a word) = 2 ^ LENGTH('a) - 1"
    by (simp add: unsigned_minus_1_eq_mask mask_eq_exp_minus_1)
  with False show ?thesis by (simp add: saturating_add_def)
qed

lemma unat_saturating_sub: "unat (saturating_sub a (b :: 'a::len word)) = unat a - unat b"
  by (auto simp: saturating_sub_def unat_sub word_le_nat_alt)

section \<open>Decimal text\<close>

definition digit_char :: "nat \<Rightarrow> char" where
  "digit_char n = char_of (48 + n)"

fun show_nat :: "nat \<Rightarrow> string" where
  "show_nat n = (if n < 10 then [digit_char n] else show_nat (n div 10) @ [digit_char (n mod 10)])"

declare show_nat.simps [simp del]

definition show_word :: "'a::len word \<Rightarrow> string" where
  "show_word w = show_nat (unat w)"

definition digits_val :: "string \<Rightarrow> nat" where
  "digits_val s = fold (\<lambda>c acc. 10 * acc + (byte c - 48)) s 0"

text \<open>
  \<open>str::parse\<close> for an unsigned type with largest value \<open>m\<close>: an optional \<open>+\<close>, then at
  least one digit, and no overflow.
\<close>

definition parse_digits :: "nat \<Rightarrow> string \<Rightarrow> nat option" where
  "parse_digits m d =
    (if d = [] \<or> \<not> list_all is_ascii_digit d then None
     else if digits_val d \<le> m then Some (digits_val d) else None)"

definition parse_unsigned :: "nat \<Rightarrow> string \<Rightarrow> nat option" where
  "parse_unsigned m s =
    (case s of [] \<Rightarrow> None
     | c # cs \<Rightarrow> if c = CHR ''+'' then parse_digits m cs else parse_digits m s)"

definition parse_u64 :: "string \<Rightarrow> u64 option" where
  "parse_u64 s = map_option of_nat (parse_unsigned (2 ^ 64 - 1) s)"

definition parse_u32 :: "string \<Rightarrow> u32 option" where
  "parse_u32 s = map_option of_nat (parse_unsigned (2 ^ 32 - 1) s)"

definition parse_u16 :: "string \<Rightarrow> u16 option" where
  "parse_u16 s = map_option of_nat (parse_unsigned (2 ^ 16 - 1) s)"

lemma byte_digit_char: "n < 10 \<Longrightarrow> byte (digit_char n) = 48 + n"
  by (simp add: byte_def digit_char_def)

lemma digit_char_is_digit: "n < 10 \<Longrightarrow> is_ascii_digit (digit_char n)"
  by (simp add: is_ascii_digit_def byte_digit_char)

lemma show_nat_digits: "list_all is_ascii_digit (show_nat n)"
proof (induction n rule: show_nat.induct)
  case (1 n)
  then show ?case
    by (subst show_nat.simps) (simp add: digit_char_is_digit)
qed

lemma show_nat_not_Nil [simp]: "show_nat n \<noteq> []"
  by (subst show_nat.simps) simp

lemma digits_val_append1: "digits_val (s @ [c]) = 10 * digits_val s + (byte c - 48)"
  by (simp add: digits_val_def)

lemma digits_val_show_nat [simp]: "digits_val (show_nat n) = n"
proof (induction n rule: show_nat.induct)
  case (1 n)
  show ?case
  proof (cases "n < 10")
    case True
    then show ?thesis
      by (subst show_nat.simps) (simp add: digits_val_def byte_digit_char)
  next
    case False
    have "digits_val (show_nat (n div 10) @ [digit_char (n mod 10)]) = n"
      using 1 False by (simp add: digits_val_append1 byte_digit_char)
    with False show ?thesis by (subst show_nat.simps) simp
  qed
qed

lemma show_nat_inj: "show_nat m = show_nat n \<longleftrightarrow> m = n"
  by (metis digits_val_show_nat)

lemma show_word_inj: "show_word a = show_word b \<longleftrightarrow> a = b"
  by (simp add: show_word_def show_nat_inj word_unat_eq_iff)

text \<open>\<open>{:02}\<close>.\<close>

definition pad2 :: "nat \<Rightarrow> string" where
  "pad2 n = (if n < 10 then ''0'' @ show_nat n else show_nat n)"

lemma pad2_digits: "list_all is_ascii_digit (pad2 n)" "digits_val (pad2 n) = n"
  using show_nat_digits [of n] digits_val_show_nat [of n]
  by (simp_all add: pad2_def is_ascii_digit_def byte_def digits_val_def)

lemma digit_not_plus: "is_ascii_digit c \<Longrightarrow> c \<noteq> CHR ''+''"
  by (auto simp: is_ascii_digit_def byte_def)

lemma parse_unsigned_digits:
  "list_all is_ascii_digit d \<Longrightarrow> d \<noteq> [] \<Longrightarrow> parse_unsigned m d = parse_digits m d"
  by (cases d) (auto simp: parse_unsigned_def dest: digit_not_plus)

lemma parse_unsigned_show_nat: "n \<le> m \<Longrightarrow> parse_unsigned m (show_nat n) = Some n"
  by (simp add: parse_unsigned_digits show_nat_digits parse_digits_def)

lemma parse_u64_show_word: "parse_u64 (show_word w) = Some w"
proof -
  have "unat w < 2 ^ LENGTH(64)" by (rule unsigned_less)
  then have "unat w \<le> 2 ^ 64 - 1" by simp
  then show ?thesis by (simp add: parse_u64_def show_word_def parse_unsigned_show_nat)
qed

lemma parse_unsigned_bound: "parse_unsigned m s = Some n \<Longrightarrow> n \<le> m"
  by (auto simp: parse_unsigned_def parse_digits_def split: list.splits if_splits)

lemma parse_u64_Some: "parse_u64 s = Some w \<Longrightarrow> parse_unsigned (2 ^ 64 - 1) s = Some (unat w)"
proof -
  assume "parse_u64 s = Some w"
  then obtain n where n: "parse_unsigned (2 ^ 64 - 1) s = Some n" and w: "w = of_nat n"
    by (auto simp: parse_u64_def)
  from n have "n \<le> 2 ^ 64 - 1" by (rule parse_unsigned_bound)
  then have "n < 2 ^ LENGTH(64)" by simp
  then have "unat w = n" unfolding w by (simp add: unsigned_of_nat take_bit_nat_eq_self)
  with n show ?thesis by simp
qed

section \<open>Time\<close>

text \<open>
  A \<open>Duration\<close> is kept in whole seconds: the code builds every one with \<open>from_secs\<close>,
  \<open>from_mins\<close> or \<open>from_hours\<close> and reads it with \<open>as_secs\<close> or hands it to a timeout.
\<close>

type_synonym duration = u64

text \<open>
  \<open>now_unix_secs\<close>: the clock's reading, or the error of a clock set before the epoch.
\<close>

fun now_unix_secs :: "u64 option \<Rightarrow> u64 result" where
  "now_unix_secs None = Err (Context ''system clock is before Unix epoch'' (lib_error ''duration_since''))"
| "now_unix_secs (Some t) = Ok t"

lemma now_unix_secs_Ok_iff [simp]: "now_unix_secs c = Inr t \<longleftrightarrow> c = Some t"
  by (cases c) auto

lemma is_ok_now [simp]: "is_ok (now_unix_secs c) \<longleftrightarrow> c \<noteq> None"
  by (cases c) auto

declare checked_add_def [drv_eval] checked_mul_def [drv_eval] saturating_add_def [drv_eval]
  saturating_sub_def [drv_eval] digit_char_def [drv_eval] show_word_def [drv_eval]
  show_nat.simps [drv_eval] digits_val_def [drv_eval] parse_digits_def [drv_eval]
  parse_unsigned_def [drv_eval] parse_u64_def [drv_eval] parse_u32_def [drv_eval]
  parse_u16_def [drv_eval]

end
