(* ===== verification/BTree_Map.thy ===== *)
theory BTree_Map
  imports Prelude
begin

text \<open>
  The standard library's \<open>BTreeMap\<close>: a map whose iteration is in increasing key order. It
  is kept as the list of its entries. The interface \<open>ordered_map\<close> states the laws the
  components rely on; they use its facts through the interpretation \<open>bt\<close>.
\<close>

type_synonym ('k, 'v) btree_map = "('k \<times> 'v) list"

fun bt_get :: "'k::linorder \<Rightarrow> ('k, 'v) btree_map \<Rightarrow> 'v option" where
  "bt_get k [] = None"
| "bt_get k ((j, v) # m) = (if k = j then Some v else bt_get k m)"

fun bt_insert :: "'k::linorder \<Rightarrow> 'v \<Rightarrow> ('k, 'v) btree_map \<Rightarrow> ('k, 'v) btree_map" where
  "bt_insert k v [] = [(k, v)]"
| "bt_insert k v ((j, w) # m) =
    (if k < j then (k, v) # (j, w) # m
     else if k = j then (k, v) # m
     else (j, w) # bt_insert k v m)"

definition bt_invar :: "('k::linorder, 'v) btree_map \<Rightarrow> bool" where
  "bt_invar m \<longleftrightarrow> sorted_wrt (<) (map fst m)"

text \<open>\<open>extend\<close> and \<open>collect\<close> insert the pairs in order, so a later pair wins.\<close>

definition bt_extend :: "('k::linorder, 'v) btree_map \<Rightarrow> ('k \<times> 'v) list \<Rightarrow> ('k, 'v) btree_map" where
  "bt_extend m xs = fold (\<lambda>(k, v). bt_insert k v) xs m"

definition bt_collect :: "('k::linorder \<times> 'v) list \<Rightarrow> ('k, 'v) btree_map" where
  "bt_collect xs = bt_extend [] xs"

locale ordered_map =
  fixes empty :: "'m"
    and get :: "'k::linorder \<Rightarrow> 'm \<Rightarrow> 'v option"
    and insert :: "'k \<Rightarrow> 'v \<Rightarrow> 'm \<Rightarrow> 'm"
    and entries :: "'m \<Rightarrow> ('k \<times> 'v) list"
    and invar :: "'m \<Rightarrow> bool"
  assumes get_empty: "get k empty = None"
    and get_insert: "invar m \<Longrightarrow> get j (insert k v m) = (if j = k then Some v else get j m)"
    and invar_empty: "invar empty"
    and invar_insert: "invar m \<Longrightarrow> invar (insert k v m)"
    and entries_get: "invar m \<Longrightarrow> (k, v) \<in> set (entries m) \<longleftrightarrow> get k m = Some v"
    and entries_sorted: "invar m \<Longrightarrow> sorted_wrt (<) (map fst (entries m))"
begin

lemma entries_distinct: "invar m \<Longrightarrow> distinct (map fst (entries m))"
  using entries_sorted strict_sorted_iff by blast

lemma keys_entries: "invar m \<Longrightarrow> set (map fst (entries m)) = {k. get k m \<noteq> None}"
proof -
  assume inv: "invar m"
  have "k \<in> fst ` set (entries m) \<longleftrightarrow> (\<exists>v. (k, v) \<in> set (entries m))" for k
    by force
  with inv show ?thesis by (auto simp: entries_get)
qed

lemma invar_extend: "invar m \<Longrightarrow> invar (fold (\<lambda>(k, v). insert k v) xs m)"
  by (induction xs arbitrary: m) (auto simp: invar_insert)

lemma get_extend:
  "invar m \<Longrightarrow> get j (fold (\<lambda>(k, v). insert k v) xs m) =
     (case map_of (rev xs) j of Some v \<Rightarrow> Some v | None \<Rightarrow> get j m)"
proof (induction xs rule: rev_induct)
  case Nil
  then show ?case by simp
next
  case (snoc x xs)
  then show ?case
    by (cases x) (auto simp: get_insert invar_extend)
qed

lemma get_collect: "get j (fold (\<lambda>(k, v). insert k v) xs empty) = map_of (rev xs) j"
  by (simp add: get_extend invar_empty get_empty split: option.splits)

text \<open>Writing an existing key back leaves the set of keys as it was.\<close>

lemma keys_insert:
  "invar m \<Longrightarrow> set (map fst (entries (insert k v m))) = Set.insert k (set (map fst (entries m)))"
proof -
  assume inv: "invar m"
  show ?thesis
    unfolding keys_entries [OF inv] keys_entries [OF invar_insert [OF inv]]
    by (auto simp: get_insert [OF inv])
qed

end

lemma bt_get_map_of: "bt_get k m = map_of m k"
  by (induction m rule: bt_get.induct) auto

lemma set_bt_insert: "fst ` set (bt_insert k v m) = insert k (fst ` set m)"
  by (induction k v m rule: bt_insert.induct) auto

lemma bt_invar_Nil [simp]: "bt_invar []"
  by (simp add: bt_invar_def)

lemma bt_invar_Cons: "bt_invar ((k, v) # m) \<longleftrightarrow> (\<forall>j\<in>fst ` set m. k < j) \<and> bt_invar m"
  by (simp add: bt_invar_def)

lemma bt_invar_insert [simp]: "bt_invar m \<Longrightarrow> bt_invar (bt_insert k v m)"
  by (induction k v m rule: bt_insert.induct) (auto simp: bt_invar_Cons set_bt_insert)

lemma bt_get_insert:
  "bt_invar m \<Longrightarrow> bt_get j (bt_insert k v m) = (if j = k then Some v else bt_get j m)"
proof (induction k v m rule: bt_insert.induct)
  case (1 k v)
  then show ?case by simp
next
  case (2 k v i w m)
  then show ?case by (auto simp: bt_invar_Cons)
qed

lemma bt_entries_get: "bt_invar m \<Longrightarrow> (k, v) \<in> set m \<longleftrightarrow> bt_get k m = Some v"
  by (metis bt_get_map_of bt_invar_def map_of_eq_Some_iff strict_sorted_iff)

interpretation bt: ordered_map "[]" bt_get bt_insert "\<lambda>m. m" bt_invar
  by unfold_locales (simp_all add: bt_get_insert bt_entries_get, simp add: bt_invar_def)

lemmas bt_simps = bt.get_insert bt.invar_insert

lemma bt_invar_extend [simp]: "bt_invar m \<Longrightarrow> bt_invar (bt_extend m xs)"
  unfolding bt_extend_def by (rule bt.invar_extend)

lemma bt_invar_collect [simp]: "bt_invar (bt_collect xs)"
  by (simp add: bt_collect_def)

lemma bt_get_collect: "bt_get k (bt_collect xs) = map_of (rev xs) k"
  unfolding bt_collect_def bt_extend_def by (rule bt.get_collect)

lemma bt_get_extend:
  "bt_invar m \<Longrightarrow> bt_get k (bt_extend m xs) =
     (case map_of (rev xs) k of Some v \<Rightarrow> Some v | None \<Rightarrow> bt_get k m)"
  unfolding bt_extend_def by (rule bt.get_extend)

end
