(* ===== verification/Config.thy ===== *)
theory Config
  imports Rust_Num BTree_Map
begin

text \<open>
  \<open>config.rs\<close>: the builder's configuration and the parsers of byte counts and durations
  that configuration, tickets and the command line share. The file is JSON; \<open>serde_json\<close>
  is a parameter, \<open>from_str\<close>, and reading the file gives \<open>text\<close>.
\<close>

section \<open>The configuration\<close>

definition DEFAULT_MAX_BUILD_TIME :: string where "DEFAULT_MAX_BUILD_TIME = ''30m''"
definition DEFAULT_MAX_UPLOAD_BYTES :: string where "DEFAULT_MAX_UPLOAD_BYTES = ''20G''"
definition DEFAULT_MAX_CONCURRENT_BUILDS :: usize where "DEFAULT_MAX_CONCURRENT_BUILDS = 1"
definition DEFAULT_RECENT_BUILDS_LIMIT :: usize where "DEFAULT_RECENT_BUILDS_LIMIT = 20"
definition MAX_AUTO_CACHE_FILLS :: usize where "MAX_AUTO_CACHE_FILLS = 16"

record trusted_client =
  public_key :: string
  tc_max_build_time :: "string option"
  tc_max_upload_bytes :: "string option"

record server_config =
  data_dir :: string
  secret_key_file :: "string option"
  max_concurrent_builds :: usize
  output_cache_max_parallel_fills :: "usize option"
  recent_builds_limit :: usize
  trusted_clients :: "(string, trusted_client) btree_map"

definition load_server_config ::
    "('t \<Rightarrow> server_config result) \<Rightarrow> string \<Rightarrow> 't result \<Rightarrow> server_config result" where
  "load_server_config from_str path text =
    bind_r (with_context (''read '' @ path) text) (\<lambda>text.
    bind_r (with_context (''parse '' @ path) (from_str text)) (\<lambda>config.
    if max_concurrent_builds config = 0 then
      bail ''max_concurrent_builds must be at least 1''
    else if output_cache_max_parallel_fills config = Some 0 then
      bail ''output_cache_max_parallel_fills must be at least 1''
    else if recent_builds_limit config = 0 then
      bail ''recent_builds_limit must be at least 1''
    else Ok config))"

section \<open>Numbers with a unit\<close>

definition parse_number_and_suffix :: "string \<Rightarrow> (u64 \<times> string) result" where
  "parse_number_and_suffix value0 =
    (let value = trim value0 in
     if value = [] then bail ''empty value''
     else
       let digits = takeWhile is_ascii_digit value;
           suffix = dropWhile is_ascii_digit value in
       if digits = [] then bail (''invalid number: '' @ value)
       else case parse_u64 digits of
         None \<Rightarrow> Err (Context (''parse number: '' @ value) (lib_error ''parse::<u64>''))
       | Some number \<Rightarrow> Ok (number, to_ascii_lowercase (trim suffix)))"

definition byte_multiplier :: "string \<Rightarrow> u64 option" where
  "byte_multiplier suffix =
    (if suffix \<in> {'''', ''b''} then Some 1
     else if suffix \<in> {''k'', ''kb'', ''kib''} then Some 1024
     else if suffix \<in> {''m'', ''mb'', ''mib''} then Some (1024 * 1024)
     else if suffix \<in> {''g'', ''gb'', ''gib''} then Some (1024 * 1024 * 1024)
     else if suffix \<in> {''t'', ''tb'', ''tib''} then Some (1024 ^ 4)
     else None)"

definition parse_byte_count :: "string \<Rightarrow> u64 result" where
  "parse_byte_count value =
    bind_r (parse_number_and_suffix value) (\<lambda>(number, suffix).
      case byte_multiplier suffix of
        None \<Rightarrow> bail (''unknown byte count suffix: '' @ value)
      | Some multiplier \<Rightarrow>
          ok_or (''byte count overflow: '' @ value) (checked_mul number multiplier))"

text \<open>The factor of a duration suffix; the code multiplies only for minutes and hours.\<close>

definition parse_duration :: "string \<Rightarrow> duration result" where
  "parse_duration value =
    bind_r (parse_number_and_suffix value) (\<lambda>(number, suffix).
      if suffix \<in> {'''', ''s'', ''sec'', ''secs'', ''second'', ''seconds''} then Ok number
      else if suffix \<in> {''m'', ''min'', ''mins'', ''minute'', ''minutes''} then
        ok_or (''duration overflow: '' @ value) (checked_mul number 60)
      else if suffix \<in> {''h'', ''hr'', ''hrs'', ''hour'', ''hours''} then
        ok_or (''duration overflow: '' @ value) (checked_mul number (60 * 60))
      else bail (''unknown duration suffix: '' @ value))"

section \<open>What the parsers accept\<close>

text \<open>
  The units as a reference: binary multiples for bytes, seconds for durations. The parsers
  accept exactly a run of digits followed by a unit, and the value is the product in the
  unbounded integers, never its remainder modulo the word size.
\<close>

definition byte_unit :: "string \<Rightarrow> nat option" where
  "byte_unit suffix =
    (if suffix \<in> {'''', ''b''} then Some 1
     else if suffix \<in> {''k'', ''kb'', ''kib''} then Some (2 ^ 10)
     else if suffix \<in> {''m'', ''mb'', ''mib''} then Some (2 ^ 20)
     else if suffix \<in> {''g'', ''gb'', ''gib''} then Some (2 ^ 30)
     else if suffix \<in> {''t'', ''tb'', ''tib''} then Some (2 ^ 40)
     else None)"

definition duration_unit :: "string \<Rightarrow> nat option" where
  "duration_unit suffix =
    (if suffix \<in> {'''', ''s'', ''sec'', ''secs'', ''second'', ''seconds''} then Some 1
     else if suffix \<in> {''m'', ''min'', ''mins'', ''minute'', ''minutes''} then Some 60
     else if suffix \<in> {''h'', ''hr'', ''hrs'', ''hour'', ''hours''} then Some 3600
     else None)"

lemma byte_multiplier_unit: "map_option unat (byte_multiplier s) = byte_unit s"
  by (simp add: byte_multiplier_def byte_unit_def)

definition number_part :: "string \<Rightarrow> string" where
  "number_part v = takeWhile is_ascii_digit (trim v)"

definition unit_part :: "string \<Rightarrow> string" where
  "unit_part v = to_ascii_lowercase (trim (dropWhile is_ascii_digit (trim v)))"

lemma number_part_digits: "list_all is_ascii_digit (number_part v)"
  by (auto simp: number_part_def list_all_iff dest: set_takeWhileD)

lemma parse_u64_digits:
  "list_all is_ascii_digit d \<Longrightarrow> d \<noteq> [] \<Longrightarrow>
     parse_u64 d = (if digits_val d < 2 ^ 64 then Some (of_nat (digits_val d)) else None)"
  by (auto simp: parse_u64_def parse_unsigned_digits parse_digits_def)

lemma parse_number_and_suffix_eq:
  "parse_number_and_suffix v =
    (if trim v = [] then bail ''empty value''
     else if number_part v = [] then bail (''invalid number: '' @ trim v)
     else if digits_val (number_part v) < 2 ^ 64
       then Ok (of_nat (digits_val (number_part v)), unit_part v)
     else Err (Context (''parse number: '' @ trim v) (lib_error ''parse::<u64>'')))"
  using number_part_digits [of v]
  by (simp add: parse_number_and_suffix_def Let_def parse_u64_digits unit_part_def
      flip: number_part_def)

lemma number_part_Nil: "trim v = [] \<Longrightarrow> number_part v = []"
  by (simp add: number_part_def)

lemma unat_of_nat_u64: "n < 2 ^ 64 \<Longrightarrow> unat (of_nat n :: u64) = n"
  by (simp add: unsigned_of_nat take_bit_nat_eq_self)

text \<open>A number read as \<open>u64\<close> and multiplied by a unit, without overflow.\<close>

lemma checked_mul_of_nat:
  assumes "n < 2 ^ 64"
  shows "checked_mul (of_nat n :: u64) m = Some w \<longleftrightarrow> unat w = n * unat m"
  using assms by (simp add: checked_mul_Some_iff unat_of_nat_u64)

lemma unit_times_bound:
  fixes w :: u64
  assumes "unat w = n * k" "0 < k"
  shows "n < 2 ^ 64"
proof -
  have "n \<le> n * k" using assms(2) by simp
  also have "n * k = unat w" by (simp add: assms(1))
  also have "\<dots> < 2 ^ LENGTH(64)" by (rule unsigned_less)
  finally show ?thesis by simp
qed

declare parse_number_and_suffix_def [drv_eval] byte_multiplier_def [drv_eval]
  parse_byte_count_def [drv_eval] parse_duration_def [drv_eval] byte_unit_def [drv_eval]
  duration_unit_def [drv_eval] number_part_def [drv_eval] unit_part_def [drv_eval]

text \<open>Units are letters, so printing a number before one can be read back.\<close>

definition is_letter :: "char \<Rightarrow> bool" where
  "is_letter c \<longleftrightarrow> is_ascii_upper c \<or> is_ascii_lower c"

lemma to_ascii_lower_letter: "is_ascii_lower (to_ascii_lower c) \<Longrightarrow> is_letter c"
  by (auto simp: to_ascii_lower_def is_letter_def split: if_splits)

lemma lowercase_letters:
  "list_all is_ascii_lower (to_ascii_lowercase u) \<Longrightarrow> list_all is_letter u"
  by (auto simp: to_ascii_lowercase_def list_all_iff dest: to_ascii_lower_letter)

lemma byte_unit_letters: "byte_unit (to_ascii_lowercase u) = Some k \<Longrightarrow> list_all is_letter u"
  by (rule lowercase_letters)
    (auto simp: byte_unit_def is_ascii_lower_def byte_def split: if_splits)

lemma duration_unit_letters:
  "duration_unit (to_ascii_lowercase u) = Some k \<Longrightarrow> list_all is_letter u"
  by (rule lowercase_letters)
    (auto simp: duration_unit_def is_ascii_lower_def byte_def split: if_splits)

lemma letter_visible: "is_letter c \<Longrightarrow> visible c"
  by (rule visible_alphanumeric) (auto simp: is_letter_def is_ascii_alphanumeric_def)

lemma letter_not_digit: "is_letter c \<Longrightarrow> \<not> is_ascii_digit c"
  by (auto simp: is_letter_def is_ascii_upper_def is_ascii_lower_def is_ascii_digit_def)

lemma number_unit_parts:
  assumes "list_all is_letter u"
  shows "number_part (show_nat n @ u) = show_nat n"
    and "unit_part (show_nat n @ u) = to_ascii_lowercase u"
    and "trim (show_nat n @ u) \<noteq> []"
proof -
  have vis: "list_all visible (show_nat n @ u)"
    using assms show_nat_digits [of n]
    by (auto simp: list_all_iff letter_visible digit_visible)
  then have trim: "trim (show_nat n @ u) = show_nat n @ u" by (rule trim_visible)
  have tw: "takeWhile is_ascii_digit u = []" "dropWhile is_ascii_digit u = u"
    using assms by (cases u; auto simp: letter_not_digit)+
  show "number_part (show_nat n @ u) = show_nat n"
    using show_nat_digits [of n] tw
    by (simp add: number_part_def trim takeWhile_append list_all_iff)
  have "trim u = u" using vis by (intro trim_visible) simp
  then show "unit_part (show_nat n @ u) = to_ascii_lowercase u"
    using show_nat_digits [of n] tw
    by (simp add: unit_part_def trim dropWhile_append list_all_iff)
  show "trim (show_nat n @ u) \<noteq> []" by (simp add: trim)
qed

text \<open>
  A byte count is accepted exactly if it is a number with an optional unit whose product fits 64
  bits, and that product is the result.
\<close>

theorem parse_byte_count_exact:
  "parse_byte_count v = Ok w \<longleftrightarrow>
     number_part v \<noteq> [] \<and>
     (\<exists>k. byte_unit (unit_part v) = Some k \<and> unat w = digits_val (number_part v) * k)"
proof (cases "number_part v \<noteq> [] \<and> digits_val (number_part v) < 2 ^ 64")
  case True
  then have "trim v \<noteq> []" using number_part_Nil by blast
  with True show ?thesis
    by (cases "byte_multiplier (unit_part v)")
      (auto simp: parse_byte_count_def parse_number_and_suffix_eq checked_mul_of_nat
        byte_multiplier_unit [symmetric])
next
  case False
  have "0 < k" if "byte_unit (unit_part v) = Some k" for k
    using that by (auto simp: byte_unit_def split: if_splits)
  with False show ?thesis
    by (auto simp: parse_byte_count_def parse_number_and_suffix_eq dest: unit_times_bound)
qed

text \<open>
  A duration is accepted exactly if it is a number with a unit whose product fits 64 bits, and
  that product is the result.
\<close>

theorem parse_duration_exact:
  "parse_duration v = Ok w \<longleftrightarrow>
     number_part v \<noteq> [] \<and>
     (\<exists>k. duration_unit (unit_part v) = Some k \<and> unat w = digits_val (number_part v) * k)"
proof (cases "number_part v \<noteq> [] \<and> digits_val (number_part v) < 2 ^ 64")
  case True
  then have "trim v \<noteq> []" using number_part_Nil by blast
  moreover have "Ok (of_nat n) = (Ok w :: u64 result) \<longleftrightarrow> unat w = n * 1" if "n < 2 ^ 64" for n
    using that by (auto simp: unat_of_nat_u64 word_unat_eq_iff)
  ultimately show ?thesis using True
    by (auto simp: parse_duration_def parse_number_and_suffix_eq checked_mul_of_nat
        duration_unit_def split: if_splits)
next
  case False
  have "0 < k" if "duration_unit (unit_part v) = Some k" for k
    using that by (auto simp: duration_unit_def split: if_splits)
  with False show ?thesis
    by (auto simp: parse_duration_def parse_number_and_suffix_eq dest: unit_times_bound)
qed

theorem parse_byte_count_print:
  assumes "byte_unit (to_ascii_lowercase u) = Some k"
  shows "parse_byte_count (show_nat n @ u) =
    (if n * k < 2 ^ 64 then Ok (of_nat (n * k))
     else if n < 2 ^ 64 then bail (''byte count overflow: '' @ show_nat n @ u)
     else Err (Context (''parse number: '' @ show_nat n @ u) (lib_error ''parse::<u64>'')))"
proof -
  have l: "list_all is_letter u" using assms by (rule byte_unit_letters)
  obtain m where m: "byte_multiplier (to_ascii_lowercase u) = Some m" "unat m = k"
    using assms byte_multiplier_unit [of "to_ascii_lowercase u"] by auto
  then have mk: "m = of_nat k" by auto
  have "0 < k" using assms by (auto simp: byte_unit_def split: if_splits)
  then have le: "n \<le> n * k" by simp
  have vis: "trim (show_nat n @ u) = show_nat n @ u"
    using l show_nat_digits [of n]
    by (intro trim_visible) (auto simp: list_all_iff letter_visible digit_visible)
  show ?thesis
  proof (cases "n < 2 ^ 64")
    case True
    with l m le vis show ?thesis
      by (simp add: parse_byte_count_def parse_number_and_suffix_eq number_unit_parts
          checked_mul_def unat_of_nat_u64 bail_def mk [symmetric])
  next
    case False
    with le have "\<not> n * k < 2 ^ 64" by linarith
    with False l vis show ?thesis
      by (simp add: parse_byte_count_def parse_number_and_suffix_eq number_unit_parts)
  qed
qed

theorem parse_byte_count_print_witness:
  "parse_byte_count (show_nat 20 @ ''GiB'') = Ok 21474836480"
  using parse_byte_count_print [of "''GiB''" "2 ^ 30" 20] by (simp add: drv_eval)

end
