(* ===== verification/Access.thy ===== *)
theory Access
  imports Config
begin

text \<open>
  \<open>access.rs\<close>: which endpoints may build without a ticket. Endpoint ids belong to the
  networking library, so their type and their text forms are parameters.
\<close>

record 'id endpoint_text =
  parse_id :: "string \<Rightarrow> 'id result"
  show_id :: "'id \<Rightarrow> string"

record 'id trusted_endpoint =
  te_name :: "string option"
  endpoint_id :: 'id
  te_policy :: trusted_client

record 'id access_policy =
  trusted_clients :: "'id trusted_endpoint list"

record authorized_client =
  ac_name :: "string option"
  ac_policy :: trusted_client

definition access_from_config :: "'id endpoint_text \<Rightarrow> server_config \<Rightarrow> 'id access_policy result" where
  "access_from_config ids config =
    bind_r
      (collect_r (\<lambda>(name, client).
          bind_r (with_context (''parse public_key for trusted client '' @ name)
                    (parse_id ids (public_key client))) (\<lambda>endpoint_id.
            Ok \<lparr>te_name = Some name, endpoint_id = endpoint_id, te_policy = client\<rparr>))
        (server_config.trusted_clients config))
      (\<lambda>trusted_clients. Ok \<lparr>trusted_clients = trusted_clients\<rparr>)"

definition access_from_endpoint_ids :: "'id endpoint_text \<Rightarrow> 'id list \<Rightarrow> 'id access_policy" where
  "access_from_endpoint_ids ids endpoint_ids =
    \<lparr>trusted_clients = map (\<lambda>endpoint_id.
        \<lparr>te_name = None, endpoint_id = endpoint_id,
         te_policy = \<lparr>public_key = show_id ids endpoint_id,
           tc_max_build_time = Some DEFAULT_MAX_BUILD_TIME,
           tc_max_upload_bytes = Some DEFAULT_MAX_UPLOAD_BYTES\<rparr>\<rparr>) endpoint_ids\<rparr>"

definition access_authorize :: "'id access_policy \<Rightarrow> 'id \<Rightarrow> authorized_client option" where
  "access_authorize self remote =
    map_option (\<lambda>client. \<lparr>ac_name = te_name client, ac_policy = te_policy client\<rparr>)
      (find (\<lambda>client. endpoint_id client = remote) (trusted_clients self))"

lemma access_authorize_None_iff:
  "access_authorize self remote = None \<longleftrightarrow> remote \<notin> endpoint_id ` set (trusted_clients self)"
  by (auto simp: access_authorize_def find_None_iff)

text \<open>The configuration's clients, and the first of them that has the endpoint's key.\<close>

theorem access_from_config_exact:
  "case access_from_config ids config of
     Inl e \<Rightarrow> list_ex (\<lambda>(name, client). \<not> is_ok (parse_id ids (public_key client)))
                (server_config.trusted_clients config)
   | Inr policy \<Rightarrow>
       list_all (\<lambda>(name, client). is_ok (parse_id ids (public_key client)))
         (server_config.trusted_clients config)
       \<and> access_authorize policy remote =
           map_option (\<lambda>(name, client). \<lparr>ac_name = Some name, ac_policy = client\<rparr>)
             (find (\<lambda>(name, client). parse_id ids (public_key client) = Ok remote)
               (server_config.trusted_clients config))"
proof -
  define entry where "entry = (\<lambda>(name, client).
    bind_r (with_context (''parse public_key for trusted client '' @ name)
              (parse_id ids (public_key client))) (\<lambda>endpoint_id.
      Ok \<lparr>te_name = Some name, endpoint_id = endpoint_id, te_policy = client\<rparr>))"
  have ok: "is_ok (entry p) \<longleftrightarrow> (case p of (name, client) \<Rightarrow> is_ok (parse_id ids (public_key client)))" for p
    by (auto simp: entry_def is_ok_iff split: prod.splits)
  have entry_Ok: "entry (n, c) = Inr y \<longleftrightarrow>
      parse_id ids (public_key c) = Ok (endpoint_id y) \<and> te_name y = Some n \<and> te_policy y = c" for n c y
    by (cases y) (auto simp: entry_def)
  have found: "map_option (\<lambda>c. \<lparr>ac_name = te_name c, ac_policy = te_policy c\<rparr>)
        (find (\<lambda>c. endpoint_id c = remote) es) =
      map_option (\<lambda>(name, client). \<lparr>ac_name = Some name, ac_policy = client\<rparr>)
        (find (\<lambda>(name, client). parse_id ids (public_key client) = Ok remote) cs)"
    if "list_all2 (\<lambda>x y. entry x = Inr y) cs es" for cs es
    using that by (induction rule: list_all2_induct) (auto simp: entry_Ok)
  let ?cs = "server_config.trusted_clients config"
  have unfold: "access_from_config ids config = bind_r (collect_r entry ?cs) (\<lambda>es. Ok \<lparr>trusted_clients = es\<rparr>)"
    by (simp add: access_from_config_def entry_def)
  show ?thesis
  proof (cases "collect_r entry ?cs")
    case (Inl e)
    then have "\<not> is_ok (collect_r entry ?cs)" by simp
    then have "list_ex (\<lambda>(name, client). \<not> is_ok (parse_id ids (public_key client))) ?cs"
      by (auto simp: is_ok_collect_r ok list_ex_iff)
    with unfold Inl show ?thesis by simp
  next
    case (Inr es)
    then have "is_ok (collect_r entry ?cs)" by simp
    then have "list_all (\<lambda>(name, client). is_ok (parse_id ids (public_key client))) ?cs"
      by (auto simp: is_ok_collect_r ok list_all_iff)
    moreover have "list_all2 (\<lambda>x y. entry x = Inr y) ?cs es" using Inr by (simp add: collect_r_Ok_iff)
    ultimately show ?thesis using unfold Inr found by (simp add: access_authorize_def)
  qed
qed

text \<open>
  The access policy made from a list of endpoints authorizes exactly its members, with the
  default limits.
\<close>

theorem endpoint_list_authorizes_members:
  "access_authorize (access_from_endpoint_ids ids endpoint_ids) remote =
     (if remote \<in> set endpoint_ids
      then Some \<lparr>ac_name = None, ac_policy = \<lparr>public_key = show_id ids remote,
             tc_max_build_time = Some ''30m'', tc_max_upload_bytes = Some ''20G''\<rparr>\<rparr>
      else None)"
  by (induction endpoint_ids)
    (auto simp: access_authorize_def access_from_endpoint_ids_def DEFAULT_MAX_BUILD_TIME_def
      DEFAULT_MAX_UPLOAD_BYTES_def)

end
