(* ===== verification/Paths.thy ===== *)
theory Paths
  imports Rust_Str
begin

text \<open>
  The operations of \<open>std::path\<close> the program calls, on a Unix target: a path is its text, its
  components are separated by slashes, empty components and \<open>.\<close> are skipped.
\<close>

text \<open>\<open>PathBuf::join\<close> on a Unix target.\<close>

definition path_join :: "string \<Rightarrow> string \<Rightarrow> string" where
  "path_join dir p =
    (if starts_with ''/'' p then p
     else if dir = [] \<or> ends_with ''/'' dir then dir @ p
     else dir @ ''/'' @ p)"

text \<open>\<open>Path::extension\<close> of a name without separators.\<close>

definition path_extension :: "string \<Rightarrow> string option" where
  "path_extension file_name =
    (if file_name \<in> {[], ''.'', ''..''} then None
     else case rsplit_once (CHR ''.'') file_name of
       None \<Rightarrow> None
     | Some (before, after) \<Rightarrow> if before = [] then None else Some after)"

text \<open>
  The text of a path, reversed, without the separators and the \<open>.\<close> components at its end; the
  root stays.
\<close>

fun strip_tail :: "string \<Rightarrow> string" where
  "strip_tail [] = []"
| "strip_tail [c] = [c]"
| "strip_tail (c # d # r) =
    (if c = CHR ''/'' then strip_tail (d # r)
     else if c = CHR ''.'' \<and> d = CHR ''/'' then strip_tail (d # r)
     else c # d # r)"

text \<open>\<open>Path::file_name\<close> and \<open>Path::parent\<close>.\<close>

definition path_file_name :: "string \<Rightarrow> string option" where
  "path_file_name p =
    (let name = rev (takeWhile (\<lambda>c. c \<noteq> CHR ''/'') (strip_tail (rev p)))
     in if name \<in> {[], ''.'', ''..''} then None else Some name)"

definition path_parent :: "string \<Rightarrow> string option" where
  "path_parent p =
    (let r = strip_tail (rev p)
     in if r = [] \<or> r = ''/'' then None
        else Some (rev (strip_tail (dropWhile (\<lambda>c. c \<noteq> CHR ''/'') r))))"

definition with_file_name :: "string \<Rightarrow> string \<Rightarrow> string" where
  "with_file_name p name =
    path_join (if path_file_name p = None then p else the (path_parent p)) name"

declare path_join_def [drv_eval] path_extension_def [drv_eval] path_file_name_def [drv_eval]
  path_parent_def [drv_eval] with_file_name_def [drv_eval]

text \<open>A name without separators that is neither \<open>.\<close> nor \<open>..\<close>.\<close>

definition plain_name :: "string \<Rightarrow> bool" where
  "plain_name n \<longleftrightarrow> n \<noteq> [] \<and> n \<noteq> ''.'' \<and> n \<noteq> ''..'' \<and> CHR ''/'' \<notin> set n"

lemma path_join_plain:
  "plain_name n \<Longrightarrow> \<exists>d. path_join dir n = d @ n \<and> (d = [] \<or> (\<exists>e. d = e @ ''/''))"
  by (cases n) (auto simp: path_join_def plain_name_def starts_with_iff ends_with_iff)

lemma strip_tail_plain:
  assumes "plain_name n" and tail: "r = [] \<or> (\<exists>e. r = CHR ''/'' # e)"
  shows "strip_tail (rev n @ r) = rev n @ r"
proof (cases n rule: rev_cases)
  case Nil
  with assms show ?thesis by (simp add: plain_name_def)
next
  case (snoc m c)
  with assms have c: "c \<noteq> CHR ''/''" by (auto simp: plain_name_def)
  show ?thesis
  proof (cases m rule: rev_cases)
    case Nil
    with assms snoc have "c \<noteq> CHR ''.''" by (auto simp: plain_name_def)
    with Nil snoc c tail show ?thesis by (cases r) auto
  next
    case (snoc k d)
    with assms \<open>n = m @ [c]\<close> have "d \<noteq> CHR ''/''" by (auto simp: plain_name_def)
    with snoc \<open>n = m @ [c]\<close> c show ?thesis by simp
  qed
qed

lemma takeWhile_plain:
  "plain_name n \<Longrightarrow> r = [] \<or> (\<exists>e. r = CHR ''/'' # e) \<Longrightarrow>
     takeWhile (\<lambda>c. c \<noteq> CHR ''/'') (rev n @ r) = rev n"
  by (subst takeWhile_append2) (auto simp: plain_name_def)

text \<open>The last component of a joined path is the name that was joined.\<close>

lemma path_file_name_join:
  assumes "plain_name n"
  shows "path_file_name (path_join dir n) = Some n"
proof -
  obtain d where d: "path_join dir n = d @ n" "d = [] \<or> (\<exists>e. d = e @ ''/'')"
    using path_join_plain [OF assms] by blast
  have r: "rev d = [] \<or> (\<exists>e. rev d = CHR ''/'' # e)" using d(2) by (metis append.left_neutral append_Cons rev.simps(1) rev_append rev_singleton_conv)
  have "strip_tail (rev n @ rev d) = rev n @ rev d" using strip_tail_plain [OF assms] r by simp
  moreover have "takeWhile (\<lambda>c. c \<noteq> CHR ''/'') (rev n @ rev d) = rev n"
    using takeWhile_plain [OF assms] r by simp
  ultimately have "rev (takeWhile (\<lambda>c. c \<noteq> CHR ''/'') (strip_tail (rev (path_join dir n)))) = n"
    by (simp add: d(1))
  then show ?thesis using assms unfolding path_file_name_def Let_def plain_name_def by simp
qed

lemma path_file_name_plain: "path_file_name p = Some n \<Longrightarrow> plain_name n"
  by (auto simp: path_file_name_def plain_name_def Let_def dest: set_takeWhileD split: if_splits)

lemma with_file_name_file_name:
  "plain_name n \<Longrightarrow> path_file_name (with_file_name p n) = Some n"
  by (simp add: with_file_name_def path_file_name_join)

end
