(* ===== verification/World.thy ===== *)
theory World
  imports Rust_Num Paths
begin

text \<open>
  What the effectful code touches outside its own memory: the file system, the clock, and the
  chance that a call fails. Every call of the operating system reads the next entry of
  \<open>faults\<close>: \<open>Fine\<close> lets it succeed, \<open>Fault n\<close> makes it fail, a write after \<open>n\<close> bytes. A
  theorem about a step therefore holds for every way its calls can fail. Directories and
  permission bits are not kept, only the regular files and their bytes.
\<close>

datatype fault = Fine | Fault nat

record io_world =
  files :: "string \<Rightarrow> string option"
  clock :: "nat \<Rightarrow> u64 option"
  faults :: "nat \<Rightarrow> fault"
  ticks :: nat

definition next_fault :: "'z io_world_scheme \<Rightarrow> fault" where
  "next_fault w = faults w (ticks w)"

definition ticked :: "'z io_world_scheme \<Rightarrow> 'z io_world_scheme" where
  "ticked w = w\<lparr>ticks := Suc (ticks w)\<rparr>"

text \<open>A call that changes nothing the model keeps, but may fail.\<close>

definition io_call :: "string \<Rightarrow> ('z io_world_scheme, unit) step" where
  "io_call origin w =
    (case next_fault w of Fine \<Rightarrow> (Ok (), ticked w) | Fault n \<Rightarrow> (Err (lib_error origin), ticked w))"

definition fs_create_dir_all :: "string \<Rightarrow> ('z io_world_scheme, unit) step" where
  "fs_create_dir_all p = io_call ''create_dir_all''"

definition fs_set_permissions :: "string \<Rightarrow> ('z io_world_scheme, unit) step" where
  "fs_set_permissions p = io_call ''set_permissions''"

definition fs_sync_all :: "string \<Rightarrow> ('z io_world_scheme, unit) step" where
  "fs_sync_all p = io_call ''sync_all''"

text \<open>\<open>OpenOptions::new().write(true).create(true).truncate(true).open(p)\<close>.\<close>

definition fs_open_truncate :: "string \<Rightarrow> ('z io_world_scheme, unit) step" where
  "fs_open_truncate p w =
    (case next_fault w of
       Fine \<Rightarrow> (Ok (), (ticked w)\<lparr>files := (files w)(p \<mapsto> [])\<rparr>)
     | Fault n \<Rightarrow> (Err (lib_error ''open''), ticked w))"

definition file_text :: "'z io_world_scheme \<Rightarrow> string \<Rightarrow> string" where
  "file_text w p = (case files w p of None \<Rightarrow> [] | Some s \<Rightarrow> s)"

text \<open>A failed \<open>write_all\<close> leaves the bytes it had written.\<close>

definition fs_write_all :: "string \<Rightarrow> string \<Rightarrow> ('z io_world_scheme, unit) step" where
  "fs_write_all p body w =
    (case next_fault w of
       Fine \<Rightarrow> (Ok (), (ticked w)\<lparr>files := (files w)(p \<mapsto> file_text w p @ body)\<rparr>)
     | Fault n \<Rightarrow>
         (Err (lib_error ''write_all''),
          (ticked w)\<lparr>files := (files w)(p \<mapsto> file_text w p @ take n body)\<rparr>))"

definition fs_rename :: "string \<Rightarrow> string \<Rightarrow> ('z io_world_scheme, unit) step" where
  "fs_rename a b w =
    (case (next_fault w, files w a) of
       (Fine, Some s) \<Rightarrow> (Ok (), (ticked w)\<lparr>files := (files w)(a := None, b \<mapsto> s)\<rparr>)
     | _ \<Rightarrow> (Err (lib_error ''rename''), ticked w))"

text \<open>\<open>fs::remove_file\<close>: \<open>Ok False\<close> stands for the error kind \<open>NotFound\<close>.\<close>

definition fs_remove_file :: "string \<Rightarrow> ('z io_world_scheme, bool) step" where
  "fs_remove_file p w =
    (case next_fault w of
       Fine \<Rightarrow> (Ok (files w p \<noteq> None), (ticked w)\<lparr>files := (files w)(p := None)\<rparr>)
     | Fault n \<Rightarrow> (Err (lib_error ''remove_file''), ticked w))"

text \<open>
  \<open>fs::read\<close> and \<open>fs::read_to_string\<close>: \<open>Ok None\<close> stands for the error kind
  \<open>NotFound\<close>, which the callers treat apart from the other errors.
\<close>

definition fs_read :: "string \<Rightarrow> ('z io_world_scheme, string option) step" where
  "fs_read p w =
    (case next_fault w of
       Fine \<Rightarrow> (Ok (files w p), ticked w)
     | Fault n \<Rightarrow> (Err (lib_error ''read''), ticked w))"

definition fs_read_to_string :: "string \<Rightarrow> ('z io_world_scheme, string option) step" where
  "fs_read_to_string p w =
    (case fs_read p w of
       (Ok (Some s), w') \<Rightarrow> (transpose_r from_utf8 (Some s), w')
     | r \<Rightarrow> r)"

definition read_clock :: "('z io_world_scheme, u64) step" where
  "read_clock w = (now_unix_secs (clock w (ticks w)), ticked w)"

lemmas io_defs = io_call_def fs_create_dir_all_def fs_set_permissions_def fs_sync_all_def
  fs_open_truncate_def fs_write_all_def fs_rename_def fs_remove_file_def fs_read_def
  fs_read_to_string_def read_clock_def next_fault_def ticked_def file_text_def

declare io_defs [drv_eval]

section \<open>Which files a step may change\<close>

text \<open>\<open>only_files P\<close>: no file outside \<open>P\<close> is touched, and the clock and the faults to come are
  the world's.\<close>

definition only_files :: "(string \<Rightarrow> bool) \<Rightarrow> 'z io_world_scheme \<Rightarrow> 'z io_world_scheme \<Rightarrow> bool" where
  "only_files P w w' \<longleftrightarrow>
    (\<forall>p. \<not> P p \<longrightarrow> files w' p = files w p) \<and> clock w' = clock w \<and> faults w' = faults w
    \<and> io_world.more w' = io_world.more w"

lemma only_files_refl [simp]: "only_files P w w"
  by (simp add: only_files_def)

lemma only_files_reflp [simp]: "reflp (only_files P)"
  by (simp add: reflp_def)

lemma only_files_trans: "only_files P u v \<Longrightarrow> only_files P v w \<Longrightarrow> only_files P u w"
  by (simp add: only_files_def)

lemma only_files_transp [simp]: "transp (only_files P)"
  by (meson only_files_trans transpI)

lemma only_files_mono: "only_files P v w \<Longrightarrow> (\<And>p. P p \<Longrightarrow> Q p) \<Longrightarrow> only_files Q v w"
  unfolding only_files_def by blast

lemma keeps_only_files_mono: "keeps (only_files P) m \<Longrightarrow> (\<And>p. P p \<Longrightarrow> Q p) \<Longrightarrow> keeps (only_files Q) m"
  unfolding keeps_def using only_files_mono by blast

lemma only_filesD: "only_files P w w' \<Longrightarrow> \<not> P p \<Longrightarrow> files w' p = files w p"
  by (simp add: only_files_def)

named_theorems frame

lemma frame_io_call [frame]: "keeps (only_files P) (io_call c)"
  by (auto simp: keeps_def only_files_def io_defs split: fault.splits)

lemma frame_calls [frame]:
  "keeps (only_files P) (fs_create_dir_all p)" "keeps (only_files P) (fs_set_permissions p)"
  "keeps (only_files P) (fs_sync_all p)"
  by (simp_all add: fs_create_dir_all_def fs_set_permissions_def fs_sync_all_def frame_io_call)

lemma frame_reads [frame]:
  "keeps (only_files P) (fs_read p)" "keeps (only_files P) read_clock"
  by (auto simp: keeps_def only_files_def io_defs split: fault.splits)

lemma frame_read_to_string [frame]: "keeps (only_files P) (fs_read_to_string p)"
  by (auto simp: keeps_def only_files_def io_defs split: fault.splits option.splits prod.splits
      sum.splits)

lemma frame_writes [frame]:
  "P p \<Longrightarrow> keeps (only_files P) (fs_open_truncate p)"
  "P p \<Longrightarrow> keeps (only_files P) (fs_write_all p body)"
  "P p \<Longrightarrow> keeps (only_files P) (fs_remove_file p)"
  by (auto simp: keeps_def only_files_def io_defs split: fault.splits option.splits)

lemma frame_rename [frame]: "P a \<Longrightarrow> P b \<Longrightarrow> keeps (only_files P) (fs_rename a b)"
  by (auto simp: keeps_def only_files_def io_defs split: fault.splits option.splits)

lemma frame_combine [frame]:
  "keeps (only_files P) (ret x)"
  "keeps (only_files P) (lift_r r)"
  "keeps (only_files P) m \<Longrightarrow> (\<And>x. keeps (only_files P) (f x)) \<Longrightarrow> keeps (only_files P) (bind_s m f)"
  "keeps (only_files P) m \<Longrightarrow> (\<And>x. keeps (only_files P) (h x)) \<Longrightarrow> keeps (only_files P) (match_s m h)"
  "keeps (only_files P) m \<Longrightarrow> keeps (only_files P) (context_s c m)"
  by (simp_all add: keeps_ret keeps_lift_r keeps_bind_s keeps_match_s keeps_context_s)

lemma only_files_False: "only_files (\<lambda>p. False) v w \<Longrightarrow> only_files P v w"
  by (simp add: only_files_def)

lemma only_files_False_trans: "only_files (\<lambda>p. False) u v \<Longrightarrow> only_files P v w \<Longrightarrow> only_files P u w"
  using only_files_False only_files_trans by blast

lemma only_files_False_files: "only_files (\<lambda>p. False) v w \<Longrightarrow> files w = files v"
  by (auto simp: only_files_def)

text \<open>A world in which every call succeeds, and one in which every call from the \<open>n\<close>-th on fails.\<close>

definition calm_world :: io_world where
  "calm_world = \<lparr>files = (\<lambda>p. None), clock = (\<lambda>n. Some 50), faults = (\<lambda>n. Fine), ticks = 0\<rparr>"

definition failing_world :: "nat \<Rightarrow> io_world" where
  "failing_world n =
    \<lparr>files = (\<lambda>p. None), clock = (\<lambda>n. Some 50), faults = (\<lambda>k. if k < n then Fine else Fault 0), ticks = 0\<rparr>"

declare calm_world_def [drv_eval] failing_world_def [drv_eval]

end
