(* ===== verification/Json_Store.thy ===== *)
theory Json_Store
  imports World
begin

text \<open>
  \<open>state/json.rs\<close>: a value is written next to its file, synced and renamed over it.
  \<open>serde_json\<close> is a parameter, the two functions of the record \<open>codec\<close>. The interface
  \<open>durable_file\<close> states what the components that keep their state in such a file rely on.
\<close>

record 'v codec =
  to_vec_pretty :: "'v \<Rightarrow> string result"
  from_str :: "string \<Rightarrow> 'v result"

definition set_existing_temp_permissions :: "string \<Rightarrow> nat option \<Rightarrow> ('z io_world_scheme, unit) step" where
  "set_existing_temp_permissions file mode =
    (case mode of
       None \<Rightarrow> ret ()
     | Some m \<Rightarrow> context_s ''set temp file permissions'' (fs_set_permissions file))"

definition write_temp_file :: "string \<Rightarrow> string \<Rightarrow> nat option \<Rightarrow> ('z io_world_scheme, unit) step" where
  "write_temp_file path body mode =
    bind_s (context_s (''create '' @ path) (fs_open_truncate path)) (\<lambda>_.
    bind_s (set_existing_temp_permissions path mode) (\<lambda>_.
    bind_s (context_s (''write '' @ path) (fs_write_all path body)) (\<lambda>_.
    context_s (''sync '' @ path) (fs_sync_all path))))"

definition temp_name :: "nat \<Rightarrow> string \<Rightarrow> string" where
  "temp_name pid file_name = ''.'' @ file_name @ ''.'' @ show_nat pid @ ''.tmp''"

definition temp_path_for :: "nat \<Rightarrow> string \<Rightarrow> string result" where
  "temp_path_for pid path =
    bind_r (ok_or (''path has no UTF-8 file name: '' @ path) (path_file_name path)) (\<lambda>file_name.
      Ok (with_file_name path (temp_name pid file_name)))"

definition create_parent :: "string \<Rightarrow> ('z io_world_scheme, unit) step" where
  "create_parent path =
    (case path_parent path of
       None \<Rightarrow> ret ()
     | Some parent \<Rightarrow> context_s (''create '' @ parent) (fs_create_dir_all parent))"

text \<open>The part after the encoding: write the temporary file, then rename it.\<close>

definition install_body :: "string \<Rightarrow> string \<Rightarrow> string \<Rightarrow> nat option \<Rightarrow> ('z io_world_scheme, unit) step" where
  "install_body tmp_path path body mode =
    match_s (write_temp_file tmp_path body mode) (\<lambda>write_result.
      case write_result of
        Inl err \<Rightarrow> match_s (fs_remove_file tmp_path) (\<lambda>_. lift_r (Inl err))
      | Inr _ \<Rightarrow>
          context_s (''rename '' @ tmp_path @ '' to '' @ path) (fs_rename tmp_path path))"

definition write_atomic_inner ::
  "nat \<Rightarrow> 'v codec \<Rightarrow> string \<Rightarrow> 'v \<Rightarrow> string \<Rightarrow> nat option \<Rightarrow> ('z io_world_scheme, unit) step" where
  "write_atomic_inner pid json path value encode_context mode =
    bind_s (create_parent path) (\<lambda>_.
    bind_s (lift_r (with_context encode_context (to_vec_pretty json value))) (\<lambda>body.
    let body = body @ [CHR 0x0A] in
    bind_s (lift_r (temp_path_for pid path)) (\<lambda>tmp_path.
    install_body tmp_path path body mode)))"

definition write_atomic ::
  "nat \<Rightarrow> 'v codec \<Rightarrow> string \<Rightarrow> 'v \<Rightarrow> string \<Rightarrow> ('z io_world_scheme, unit) step" where
  "write_atomic pid json path value encode_context =
    write_atomic_inner pid json path value encode_context None"

definition write_atomic_with_mode ::
  "nat \<Rightarrow> 'v codec \<Rightarrow> string \<Rightarrow> 'v \<Rightarrow> string \<Rightarrow> nat \<Rightarrow> ('z io_world_scheme, unit) step" where
  "write_atomic_with_mode pid json path value encode_context mode =
    write_atomic_inner pid json path value encode_context (Some mode)"

lemmas write_defs = write_atomic_inner_def create_parent_def install_body_def write_temp_file_def set_existing_temp_permissions_def
  write_atomic_def write_atomic_with_mode_def temp_path_for_def temp_name_def

section \<open>The temporary file is another file\<close>

lemma show_nat_no_slash: "CHR ''/'' \<notin> set (show_nat n)"
  using show_nat_digits [of n] by (auto simp: list_all_iff is_ascii_digit_def byte_def)

lemma plain_temp_name: "plain_name n \<Longrightarrow> plain_name (temp_name pid n)"
  by (auto simp: plain_name_def temp_name_def show_nat_no_slash)

lemma temp_path_differs: "temp_path_for pid path = Ok tmp \<Longrightarrow> tmp \<noteq> path"
proof
  assume tmp: "temp_path_for pid path = Ok tmp" and eq: "tmp = path"
  then obtain n where n: "path_file_name path = Some n"
    and t: "tmp = with_file_name path (temp_name pid n)"
    by (auto simp: temp_path_for_def)
  have "path_file_name tmp = Some (temp_name pid n)"
    unfolding t by (intro with_file_name_file_name plain_temp_name path_file_name_plain [OF n])
  with n eq have "n = temp_name pid n" by simp
  then have "length n = length (temp_name pid n)" by simp
  then show False by (simp add: temp_name_def)
qed

section \<open>What a write leaves behind\<close>

lemma write_temp_file_frame: "keeps (only_files (\<lambda>p. p = path)) (write_temp_file path body mode)"
  by (auto simp: write_temp_file_def set_existing_temp_permissions_def intro!: frame
      split: option.splits)

lemma write_temp_file_Ok:
  assumes "write_temp_file path body mode w = (Ok u, w')"
  shows "files w' path = Some body"
  using assms
  by (auto simp: write_temp_file_def set_existing_temp_permissions_def bind_s_Ok_iff context_s_def
      io_defs split: prod.splits fault.splits option.splits)

lemma create_parent_frame: "keeps (only_files (\<lambda>p. False)) (create_parent path)"
  by (auto simp: create_parent_def intro!: frame split: option.splits)

lemma install_body_frame:
  "keeps (only_files (\<lambda>p. p = path \<or> p = tmp)) (install_body tmp path body mode)"
  unfolding install_body_def
  by (auto intro!: frame keeps_only_files_mono [OF write_temp_file_frame] split: sum.splits)

lemma install_body_Ok:
  assumes "install_body tmp path body mode w = (Ok u, w')" "tmp \<noteq> path"
  shows "files w' path = Some body \<and> files w' tmp = None"
proof -
  obtain r w1 where wt: "write_temp_file tmp body mode w = (r, w1)" by fastforce
  show ?thesis
  proof (cases r)
    case (Inl e)
    with assms(1) wt show ?thesis
      by (simp add: install_body_def match_s_def split: prod.splits)
  next
    case (Inr v)
    with wt have "files w1 tmp = Some body" by (auto dest: write_temp_file_Ok)
    with assms wt Inr show ?thesis
      by (auto simp: install_body_def match_s_def context_s_def fs_rename_def ticked_def
          split: fault.splits)
  qed
qed

lemma install_body_Err:
  assumes "install_body tmp path body mode w = (Err e, w')"
  shows "only_files (\<lambda>p. p = tmp) w w'"
proof -
  obtain r w1 where wt: "write_temp_file tmp body mode w = (r, w1)" by fastforce
  with write_temp_file_frame have k: "only_files (\<lambda>p. p = tmp) w w1" by (rule keepsD)
  show ?thesis
  proof (cases r)
    case (Inl e)
    with assms wt have rm: "fs_remove_file tmp w1 = (fst (fs_remove_file tmp w1), w')"
      by (simp add: install_body_def match_s_def split: prod.splits)
    have "keeps (only_files (\<lambda>p. p = tmp)) (fs_remove_file tmp)" by (simp add: frame)
    then have "only_files (\<lambda>p. p = tmp) w1 w'" using rm by (rule keepsD)
    with k show ?thesis by (rule only_files_trans)
  next
    case (Inr v)
    with assms wt have "only_files (\<lambda>p. p = tmp) w1 w'"
      by (auto simp: install_body_def match_s_def context_s_def fs_rename_def ticked_def
          only_files_def split: fault.splits option.splits)
    with k show ?thesis by (rule only_files_trans)
  qed
qed

lemma write_atomic_inner_split:
  assumes "write_atomic_inner pid json path value c mode w = (r, w')"
  shows "(\<exists>body tmp. r = Ok () \<and> to_vec_pretty json value = Ok body \<and> temp_path_for pid path = Ok tmp
            \<and> files w' path = Some (body @ [CHR 0x0A]) \<and> files w' tmp = None
            \<and> only_files (\<lambda>p. p = path \<or> p = tmp) w w')
       \<or> (\<exists>e. r = Err e \<and> only_files (\<lambda>p. temp_path_for pid path = Ok p) w w')"
proof -
  obtain r1 w1 where dir: "create_parent path w = (r1, w1)" by fastforce
  with create_parent_frame have k1: "only_files (\<lambda>p. False) w w1" by (rule keepsD)
  then have k1': "only_files P w w1" for P by (rule only_files_mono) simp
  show ?thesis
  proof (cases "\<exists>u body tmp. r1 = Inr u \<and> to_vec_pretty json value = Ok body \<and> temp_path_for pid path = Ok tmp")
    case False
    then have "w' = w1 \<and> \<not> is_ok r" using assms dir
      by (cases r1; cases "to_vec_pretty json value"; cases "temp_path_for pid path")
        (auto simp: write_atomic_inner_def bind_s_def)
    then show ?thesis using k1' by (cases r) auto
  next
    case True
    then obtain body tmp where bt: "to_vec_pretty json value = Ok body"
      "temp_path_for pid path = Ok tmp" and "r1 = Ok ()" by auto
    with assms dir have ib: "install_body tmp path (body @ [CHR 0x0A]) mode w1 = (r, w')"
      by (simp add: write_atomic_inner_def bind_s_def)
    have neq: "tmp \<noteq> path" using bt(2) by (rule temp_path_differs)
    show ?thesis
    proof (cases r)
      case (Inl e)
      with ib have "only_files (\<lambda>p. p = tmp) w1 w'" by (auto dest: install_body_Err)
      with k1' have "only_files (\<lambda>p. p = tmp) w w'" by (rule only_files_trans)
      then have "only_files (\<lambda>p. temp_path_for pid path = Ok p) w w'"
        by (rule only_files_mono) (simp add: bt)
      with Inl show ?thesis by blast
    next
      case (Inr u)
      have "only_files (\<lambda>p. p = path \<or> p = tmp) w1 w'" using install_body_frame ib by (rule keepsD)
      with k1' have "only_files (\<lambda>p. p = path \<or> p = tmp) w w'" by (rule only_files_trans)
      moreover have "files w' path = Some (body @ [CHR 0x0A]) \<and> files w' tmp = None"
        using ib neq Inr by (auto dest: install_body_Ok)
      ultimately show ?thesis using Inr bt by auto
    qed
  qed
qed

section \<open>The contract of a state file\<close>

text \<open>
  A file that holds one value: \<open>save\<close> replaces it, \<open>peek\<close> is the value a reader of the world
  finds. A save either installs the value or leaves the one before, also when it fails half
  way. \<open>good\<close> are the values the encoding keeps.
\<close>

locale durable_file =
  fixes save :: "'v \<Rightarrow> ('w, unit) step"
    and peek :: "'w \<Rightarrow> 'v result"
    and good :: "'v \<Rightarrow> bool"
  assumes save_Ok: "good v \<Longrightarrow> save v w = (Ok u, w') \<Longrightarrow> peek w' = Ok v"
    and save_Err: "save v w = (Err e, w') \<Longrightarrow> peek w' = peek w"
begin

lemma save_old_or_new: "good v \<Longrightarrow> peek (snd (save v w)) = peek w \<or> peek (snd (save v w)) = Ok v"
  using save_Ok save_Err by (metis sum.exhaust prod.collapse)

text \<open>A reader never finds anything but the first value or one that was saved.\<close>

lemma peek_after_saves:
  "list_all good vs \<Longrightarrow> peek (fold (\<lambda>v w. snd (save v w)) vs w) \<in> insert (peek w) (Ok ` set vs)"
proof (induction vs arbitrary: w)
  case Nil
  then show ?case by simp
next
  case (Cons v vs)
  then have "peek (fold (\<lambda>v w. snd (save v w)) vs (snd (save v w)))
      \<in> insert (peek (snd (save v w))) (Ok ` set vs)"
    by simp
  with save_old_or_new [of v w] Cons.prems show ?case by auto
qed

end

text \<open>What a reader of the file finds: its text, decoded, or the default without a file.\<close>

definition decode_file :: "'v codec \<Rightarrow> 'v \<Rightarrow> string \<Rightarrow> string option \<Rightarrow> 'v result" where
  "decode_file json dflt path content =
    (case content of
       None \<Rightarrow> Ok dflt
     | Some t \<Rightarrow>
         bind_r (with_context (''read '' @ path) (from_utf8 t)) (\<lambda>t.
           with_context (''parse '' @ path) (from_str json t)))"

definition codec_good :: "'v codec \<Rightarrow> 'v \<Rightarrow> bool" where
  "codec_good json v \<longleftrightarrow>
    (case to_vec_pretty json v of
       Inl e \<Rightarrow> True
     | Inr body \<Rightarrow>
         from_utf8 (body @ [CHR 0x0A]) = Ok (body @ [CHR 0x0A])
         \<and> from_str json (body @ [CHR 0x0A]) = Ok v)"

interpretation json_file: durable_file
    "\<lambda>v. write_atomic_inner pid json path v c mode"
    "\<lambda>w :: 'z io_world_scheme. decode_file json dflt path (files w path)"
    "codec_good json"
  for pid and json :: "'v codec" and path c mode dflt
proof (unfold_locales)
  fix v u and w w' :: "'z io_world_scheme"
  assume "codec_good json v" "write_atomic_inner pid json path v c mode w = (Ok u, w')"
  then show "decode_file json dflt path (files w' path) = Ok v"
    by (auto simp: decode_file_def codec_good_def dest!: write_atomic_inner_split)
next
  fix v e and w w' :: "'z io_world_scheme"
  assume "write_atomic_inner pid json path v c mode w = (Err e, w')"
  then have "only_files (\<lambda>p. temp_path_for pid path = Ok p) w w'"
    by (auto dest!: write_atomic_inner_split)
  moreover have "temp_path_for pid path \<noteq> Ok path" using temp_path_differs by metis
  ultimately have "files w' path = files w path" by (rule only_filesD)
  then show "decode_file json dflt path (files w' path) = decode_file json dflt path (files w path)"
    by simp
qed

text \<open>
  C29: However its system calls fail, an atomic write leaves the target file either as it was or
  with the complete new contents, and it touches no other file than the target and its temporary
  file.
\<close>

theorem write_atomic_all_or_nothing:
  "\<exists>r w'. write_atomic_inner pid json path value c mode w = (r, w')
     \<and> (r = Ok () \<and> (\<exists>body tmp. to_vec_pretty json value = Ok body
            \<and> temp_path_for pid path = Ok tmp \<and> tmp \<noteq> path
            \<and> files w' = (files w)(tmp := None, path \<mapsto> body @ [CHR 0x0A]))
       \<or> is_ok r = False \<and> files w' path = files w path
            \<and> (\<forall>p. temp_path_for pid path = Ok p \<or> files w' p = files w p))"
proof -
  obtain r w' where eq: "write_atomic_inner pid json path value c mode w = (r, w')" by fastforce
  from write_atomic_inner_split [OF eq] show ?thesis
  proof (elim disjE exE conjE)
    fix body tmp
    assume new: "r = Ok ()" "to_vec_pretty json value = Ok body" "temp_path_for pid path = Ok tmp"
      "files w' path = Some (body @ [CHR 0x0A])" "files w' tmp = None"
      "only_files (\<lambda>p. p = path \<or> p = tmp) w w'"
    have "tmp \<noteq> path" using new(3) by (rule temp_path_differs)
    moreover from this have "files w' = (files w)(tmp := None, path \<mapsto> body @ [CHR 0x0A])"
      using new(4-6) by (auto simp: only_files_def)
    ultimately show ?thesis using eq new(1-3) by blast
  next
    fix e
    assume err: "r = Err e" "only_files (\<lambda>p. temp_path_for pid path = Ok p) w w'"
    have "temp_path_for pid path \<noteq> Ok path" using temp_path_differs by metis
    then have "files w' path = files w path" using err(2) by (intro only_filesD)
    then show ?thesis using eq err by (auto simp: only_files_def)
  qed
qed

declare write_defs [drv_eval] decode_file_def [drv_eval] codec_good_def [drv_eval]

end
