(* ===== verification/Ticket_Store.thy ===== *)
theory Ticket_Store
  imports Access Json_Store BTree_Map
begin

text \<open>
  \<open>ticket.rs\<close>, the server-side state: tickets are created, listed, revoked, checked and
  redeemed in the file \<open>tickets.json\<close>. Every operation holds the store's lock (see
  \<open>Ticket_Lock\<close> for the lock itself), reads the file, and writes it back as a whole.
\<close>

definition TICKETS_FILE :: string where "TICKETS_FILE = ''tickets.json''"

type_synonym secret = string

record ticket_record =
  encoded_ticket :: string
  created_at_unix :: u64
  ticket_name :: "string option"
  expires_at_unix :: u64
  uses_remaining :: "u64 option"
  max_build_time :: string
  max_upload_bytes :: string
  bound_client :: "string option"
  revoked :: bool

record ticket_state =
  tickets :: "(string, ticket_record) btree_map"

record create_ticket =
  ct_name :: "string option"
  ct_bound_client :: "string option"
  expires_after :: duration
  ct_uses_remaining :: "u64 option"
  ct_max_build_time :: string
  ct_max_upload_bytes :: string

record 'addr build_ticket =
  ticket_addr :: 'addr
  ticket_secret :: secret

record ticket_store =
  store_file :: string

text \<open>
  What the code takes from other crates: the text forms of endpoint ids, the public half of a
  secret key as text, the text of a ticket, and the JSON encoding of the state. \<open>compact_addr\<close>
  is \<open>compact_ticket_addr\<close> of \<open>Ticket_Addr\<close>.
\<close>

record ('id, 'addr) ticket_env =
  ids :: "'id endpoint_text"
  public_text :: "secret \<Rightarrow> string"
  compact_addr :: "'addr \<Rightarrow> 'addr"
  ticket_text :: "'addr build_ticket \<Rightarrow> string"
  ticket_json :: "ticket_state codec"
  process_id :: nat

definition ticket_store_new :: "string \<Rightarrow> ticket_store" where
  "ticket_store_new dir = \<lparr>store_file = path_join dir TICKETS_FILE\<rparr>"

definition ticket_id :: "('id, 'addr) ticket_env \<Rightarrow> secret \<Rightarrow> string" where
  "ticket_id E secret = public_text E secret"

text \<open>\<open>BuildTicket::generate\<close>, given the secret it draws.\<close>

definition ticket_generate ::
  "('id, 'addr) ticket_env \<Rightarrow> 'addr \<Rightarrow> secret \<Rightarrow> 'addr build_ticket" where
  "ticket_generate E addr secret = \<lparr>ticket_addr = compact_addr E addr, ticket_secret = secret\<rparr>"

definition default_ticket_name :: "u64 \<Rightarrow> string" where
  "default_ticket_name unix_secs = ''ticket-'' @ show_word unix_secs"

definition ticket_store_lock_path :: "string \<Rightarrow> string result" where
  "ticket_store_lock_path path =
    bind_r (ok_or (''path has no UTF-8 file name: '' @ path) (path_file_name path)) (\<lambda>file_name.
      Ok (with_file_name path (''.'' @ file_name @ ''.lock'')))"

text \<open>Taking the lock may fail; while another process holds it, the call waits.\<close>

definition lock_file :: "ticket_store \<Rightarrow> ('z io_world_scheme, unit) step" where
  "lock_file self =
    bind_s (lift_r (ticket_store_lock_path (store_file self))) (\<lambda>lock_path.
      context_s (''lock '' @ store_file self) (io_call ''create_ticket_store_lock''))"

definition load_unlocked ::
  "('id, 'addr) ticket_env \<Rightarrow> ticket_store \<Rightarrow> ('z io_world_scheme, ticket_state) step" where
  "load_unlocked E self =
    match_s (fs_read_to_string (store_file self)) (\<lambda>r.
      case r of
        Inr (Some t) \<Rightarrow>
          lift_r (with_context (''parse '' @ store_file self) (from_str (ticket_json E) t))
      | Inr None \<Rightarrow> ret \<lparr>tickets = []\<rparr>
      | Inl err \<Rightarrow> lift_r (Err (Context (''read '' @ store_file self) err)))"

definition write_unlocked ::
  "('id, 'addr) ticket_env \<Rightarrow> ticket_store \<Rightarrow> ticket_state \<Rightarrow> ('z io_world_scheme, unit) step" where
  "write_unlocked E self state =
    write_atomic_with_mode (process_id E) (ticket_json E) (store_file self) state
      ''encode JSON'' 432"

definition ticket_load ::
  "('id, 'addr) ticket_env \<Rightarrow> ticket_store \<Rightarrow> ('z io_world_scheme, ticket_state) step" where
  "ticket_load E self = bind_s (lock_file self) (\<lambda>_. load_unlocked E self)"

definition validate_ticket_record ::
  "'id endpoint_text \<Rightarrow> string \<Rightarrow> ticket_record \<Rightarrow> 'id \<Rightarrow> ('z io_world_scheme, unit) step" where
  "validate_ticket_record I tid record remote =
    (if revoked record then lift_r (bail ''ticket revoked'')
     else bind_s read_clock (\<lambda>now.
       if expires_at_unix record \<le> now then lift_r (bail ''ticket expired'')
       else lift_r (
         bind_r
           (case bound_client record of
              None \<Rightarrow> Ok ()
            | Some bound \<Rightarrow>
                bind_r (with_context (''parse bound client for ticket '' @ tid)
                          (parse_id I bound)) (\<lambda>bound_id.
                  if bound_id \<noteq> remote then bail ''ticket bound to a different client''
                  else Ok ()))
           (\<lambda>_. if uses_remaining record = Some 0 then bail ''ticket has no uses remaining''
                else Ok ()))))"

text \<open>\<open>tickets.get(id).with_context(..)?\<close>.\<close>

definition find_ticket :: "string \<Rightarrow> ticket_state \<Rightarrow> ticket_record result" where
  "find_ticket tid state = ok_or (''ticket not found: '' @ tid) (bt_get tid (tickets state))"

definition ticket_name_for :: "u64 \<Rightarrow> string option \<Rightarrow> string result" where
  "ticket_name_for now requested =
    (case requested of
       Some name \<Rightarrow> if trim name = [] then bail ''ticket name cannot be empty'' else Ok name
     | None \<Rightarrow> Ok (default_ticket_name now))"

text \<open>The record \<open>create\<close> inserts.\<close>

definition new_ticket_record ::
  "('id, 'addr) ticket_env \<Rightarrow> 'addr build_ticket \<Rightarrow> u64 \<Rightarrow> u64 \<Rightarrow> string \<Rightarrow> create_ticket \<Rightarrow> ticket_record" where
  "new_ticket_record E ticket now expires_at name options =
    \<lparr>encoded_ticket = ticket_text E ticket, created_at_unix = now, ticket_name = Some name,
     expires_at_unix = expires_at, uses_remaining = ct_uses_remaining options,
     max_build_time = ct_max_build_time options, max_upload_bytes = ct_max_upload_bytes options,
     bound_client = ct_bound_client options, revoked = False\<rparr>"

definition ticket_create ::
  "('id, 'addr) ticket_env \<Rightarrow> ticket_store \<Rightarrow> secret \<Rightarrow> 'addr \<Rightarrow> create_ticket \<Rightarrow>
     ('z io_world_scheme, 'addr build_ticket) step" where
  "ticket_create E self secret server_addr options =
    bind_s (lock_file self) (\<lambda>_.
    bind_s (load_unlocked E self) (\<lambda>state.
    bind_s read_clock (\<lambda>now.
    bind_s (lift_r (ok_or ''ticket expiry overflow'' (checked_add now (expires_after options)))) (\<lambda>expires_at.
    bind_s (lift_r (ticket_name_for now (ct_name options))) (\<lambda>name.
    bind_s (lift_r
        (case ct_bound_client options of
           None \<Rightarrow> Ok ()
         | Some bound \<Rightarrow>
             bind_r (with_context (''parse bound client endpoint id: '' @ bound)
                       (parse_id (ids E) bound)) (\<lambda>_. Ok ()))) (\<lambda>_.
    let ticket = ticket_generate E server_addr secret;
        id = ticket_id E (ticket_secret ticket);
        record = new_ticket_record E ticket now expires_at name options
    in
      if bt_get id (tickets state) \<noteq> None then lift_r (bail (''ticket id collision: '' @ id))
      else bind_s (write_unlocked E self (state\<lparr>tickets := bt_insert id record (tickets state)\<rparr>)) (\<lambda>_.
        ret ticket)))))))"

definition record_le :: "string \<times> ticket_record \<Rightarrow> string \<times> ticket_record \<Rightarrow> bool" where
  "record_le left right \<longleftrightarrow>
    created_at_unix (snd left) < created_at_unix (snd right)
    \<or> created_at_unix (snd left) = created_at_unix (snd right) \<and> fst left \<le> fst right"

fun sort_by_le :: "('a \<Rightarrow> 'a \<Rightarrow> bool) \<Rightarrow> 'a list \<Rightarrow> 'a list" where
  "sort_by_le le [] = []"
| "sort_by_le le (x # xs) =
    (let ys = sort_by_le le xs in takeWhile (\<lambda>y. \<not> le x y) ys @ x # dropWhile (\<lambda>y. \<not> le x y) ys)"

definition ticket_records ::
  "('id, 'addr) ticket_env \<Rightarrow> ticket_store \<Rightarrow> ('z io_world_scheme, (string \<times> ticket_record) list) step" where
  "ticket_records E self =
    bind_s (ticket_load E self) (\<lambda>state. ret (sort_by_le record_le (tickets state)))"

definition ticket_record_of ::
  "('id, 'addr) ticket_env \<Rightarrow> ticket_store \<Rightarrow> string \<Rightarrow> ('z io_world_scheme, ticket_record option) step" where
  "ticket_record_of E self tid = bind_s (ticket_load E self) (\<lambda>state. ret (bt_get tid (tickets state)))"

definition ticket_revoke ::
  "('id, 'addr) ticket_env \<Rightarrow> ticket_store \<Rightarrow> string \<Rightarrow> ('z io_world_scheme, ticket_record) step" where
  "ticket_revoke E self tid =
    bind_s (lock_file self) (\<lambda>_.
    bind_s (load_unlocked E self) (\<lambda>state.
    bind_s (lift_r (find_ticket tid state)) (\<lambda>record.
    let record = record\<lparr>revoked := True\<rparr> in
    bind_s (write_unlocked E self (state\<lparr>tickets := bt_insert tid record (tickets state)\<rparr>)) (\<lambda>_.
    ret record))))"

definition ticket_check ::
  "('id, 'addr) ticket_env \<Rightarrow> ticket_store \<Rightarrow> secret \<Rightarrow> 'id \<Rightarrow> ('z io_world_scheme, ticket_record) step" where
  "ticket_check E self secret remote =
    bind_s (lock_file self) (\<lambda>_.
    bind_s (load_unlocked E self) (\<lambda>state.
    let id = ticket_id E secret in
    bind_s (lift_r (find_ticket id state)) (\<lambda>record.
    bind_s (validate_ticket_record (ids E) id record remote) (\<lambda>_.
    ret record))))"

definition ticket_redeem ::
  "('id, 'addr) ticket_env \<Rightarrow> ticket_store \<Rightarrow> secret \<Rightarrow> 'id \<Rightarrow> ('z io_world_scheme, ticket_record) step" where
  "ticket_redeem E self secret remote =
    bind_s (lock_file self) (\<lambda>_.
    bind_s (load_unlocked E self) (\<lambda>state.
    let id = ticket_id E secret in
    bind_s (lift_r (find_ticket id state)) (\<lambda>record.
    bind_s (validate_ticket_record (ids E) id record remote) (\<lambda>_.
    case uses_remaining record of
      Some uses \<Rightarrow>
        let redeemed = record\<lparr>uses_remaining := Some (uses - 1)\<rparr> in
        bind_s (write_unlocked E self (state\<lparr>tickets := bt_insert id redeemed (tickets state)\<rparr>)) (\<lambda>_.
        ret redeemed)
    | None \<Rightarrow> ret record))))"

lemmas ticket_op_defs = ticket_create_def ticket_revoke_def ticket_check_def ticket_redeem_def
  ticket_load_def ticket_records_def ticket_record_of_def

declare ticket_op_defs [drv_eval] new_ticket_record_def [drv_eval] TICKETS_FILE_def [drv_eval] ticket_store_new_def [drv_eval]
  ticket_id_def [drv_eval] ticket_generate_def [drv_eval] default_ticket_name_def [drv_eval] ticket_store_lock_path_def [drv_eval]
  lock_file_def [drv_eval] load_unlocked_def [drv_eval] write_unlocked_def [drv_eval]
  validate_ticket_record_def [drv_eval] find_ticket_def [drv_eval] ticket_name_for_def [drv_eval]
  record_le_def [drv_eval]

section \<open>The verdict on a ticket\<close>

text \<open>The decision of \<open>validate_ticket_record\<close> for a reading of the clock.\<close>

definition ticket_verdict :: "'id endpoint_text \<Rightarrow> string \<Rightarrow> ticket_record \<Rightarrow> 'id \<Rightarrow> u64 option \<Rightarrow> unit result" where
  "ticket_verdict I tid record remote reading =
    (if revoked record then Err (Msg ''ticket revoked'')
     else case now_unix_secs reading of
       Inl e \<Rightarrow> Inl e
     | Inr now \<Rightarrow>
         if expires_at_unix record \<le> now then Err (Msg ''ticket expired'')
         else case map_option (parse_id I) (bound_client record) of
           Some (Inl e) \<Rightarrow> Err (Context (''parse bound client for ticket '' @ tid) e)
         | Some (Inr bound_id) \<Rightarrow>
             if bound_id \<noteq> remote then Err (Msg ''ticket bound to a different client'')
             else if uses_remaining record = Some 0 then Err (Msg ''ticket has no uses remaining'')
             else Ok ()
         | None \<Rightarrow>
             if uses_remaining record = Some 0 then Err (Msg ''ticket has no uses remaining'')
             else Ok ())"

lemma validate_ticket_record_eq:
  "validate_ticket_record I tid record remote w =
     (ticket_verdict I tid record remote (clock w (ticks w)), if revoked record then w else ticked w)"
  by (cases "bound_client record"; cases "parse_id I (the (bound_client record))")
    (auto simp: validate_ticket_record_def ticket_verdict_def bind_s_def read_clock_def bail_def
      split: sum.splits option.splits)

lemma ticket_verdict_Ok_iff:
  "ticket_verdict I tid record remote reading = Ok u \<longleftrightarrow>
     \<not> revoked record \<and> (\<exists>now. reading = Some now \<and> now < expires_at_unix record)
     \<and> (case bound_client record of None \<Rightarrow> True | Some b \<Rightarrow> parse_id I b = Ok remote)
     \<and> uses_remaining record \<noteq> Some 0"
  by (auto simp: ticket_verdict_def not_le split: option.splits sum.splits)

section \<open>Steps of the store, one by one\<close>

definition stored :: "('id, 'addr) ticket_env \<Rightarrow> ticket_store \<Rightarrow> 'z io_world_scheme \<Rightarrow> ticket_state result" where
  "stored E self w =
    decode_file (ticket_json E) \<lparr>tickets = []\<rparr> (store_file self) (files w (store_file self))"

abbreviation untouched :: "'z io_world_scheme \<Rightarrow> 'z io_world_scheme \<Rightarrow> bool" where
  "untouched \<equiv> only_files (\<lambda>p. False)"

lemma stored_untouched: "untouched w w' \<Longrightarrow> stored E self w' = stored E self w"
  by (simp add: stored_def only_files_def)

lemma lock_file_frame: "keeps untouched (lock_file self)"
  unfolding lock_file_def by (intro frame)

lemma load_unlocked_frame: "keeps untouched (load_unlocked E self)"
  unfolding load_unlocked_def by (intro frame) (auto intro: frame split: sum.splits option.splits)

lemma load_unlocked_Ok:
  assumes "load_unlocked E self w = (Ok st, w')"
  shows "stored E self w = Ok st"
  using assms
  by (auto simp: load_unlocked_def match_s_def fs_read_to_string_def fs_read_def stored_def
      decode_file_def split: prod.splits fault.splits sum.splits option.splits)

lemma validate_frame: "keeps untouched (validate_ticket_record I tid record remote)"
  by (simp add: keeps_def validate_ticket_record_eq only_files_def ticked_def)

text \<open>Every operation starts the same way: the lock, then the state.\<close>

lemma open_store:
  assumes "bind_s (lock_file self) (\<lambda>_. bind_s (load_unlocked E self) k) w = (r, w')"
  obtains e where "r = Inl e" "untouched w w'"
  | st w1 where "stored E self w = Ok st" "untouched w w1" "k st w1 = (r, w')"
proof -
  obtain r1 w1 where l: "lock_file self w = (r1, w1)" by fastforce
  with lock_file_frame have u1: "untouched w w1" by (rule keepsD)
  obtain r2 w2 where d: "load_unlocked E self w1 = (r2, w2)" by fastforce
  with load_unlocked_frame have "untouched w1 w2" by (rule keepsD)
  with u1 have u2: "untouched w w2" by (rule only_files_trans)
  show thesis
  proof (cases r1)
    case (Inl e)
    with assms l have "r = Inl e" "w1 = w'" by (simp_all add: bind_s_def)
    with u1 that(1) show thesis by blast
  next
    case Ok1: (Inr x)
    show thesis
    proof (cases r2)
      case (Inl e)
      with assms l d Ok1 have "r = Inl e" "w2 = w'" by (simp_all add: bind_s_def)
      with u2 that(1) show thesis by blast
    next
      case (Inr st)
      with d have "stored E self w1 = Ok st" by (auto dest: load_unlocked_Ok)
      with u1 have "stored E self w = Ok st" by (simp add: stored_untouched)
      moreover have "k st w2 = (r, w')" using assms l d Ok1 Inr by (simp add: bind_s_def)
      ultimately show thesis using u2 that(2) by blast
    qed
  qed
qed

text \<open>The file holds the encoding of a state; only it and its temporary file may have changed.\<close>

definition installed ::
  "('id, 'addr) ticket_env \<Rightarrow> ticket_store \<Rightarrow> ticket_state \<Rightarrow> 'z io_world_scheme \<Rightarrow> 'z io_world_scheme \<Rightarrow> bool" where
  "installed E self st w w' \<longleftrightarrow>
    (\<exists>body. to_vec_pretty (ticket_json E) st = Ok body
      \<and> files w' (store_file self) = Some (body @ [CHR 0x0A])
      \<and> only_files (\<lambda>p. p = store_file self \<or> temp_path_for (process_id E) (store_file self) = Ok p) w w')"

definition not_installed ::
  "('id, 'addr) ticket_env \<Rightarrow> ticket_store \<Rightarrow> 'z io_world_scheme \<Rightarrow> 'z io_world_scheme \<Rightarrow> bool" where
  "not_installed E self w w' \<longleftrightarrow>
    only_files (\<lambda>p. temp_path_for (process_id E) (store_file self) = Ok p) w w'"

lemma untouched_not_installed: "untouched w w' \<Longrightarrow> not_installed E self w w'"
  unfolding not_installed_def by (rule only_files_False)

lemma not_installed_stored: "not_installed E self w w' \<Longrightarrow> stored E self w' = stored E self w"
proof -
  assume n: "not_installed E self w w'"
  have "temp_path_for (process_id E) (store_file self) \<noteq> Ok (store_file self)"
    using temp_path_differs by metis
  with n have "files w' (store_file self) = files w (store_file self)"
    unfolding not_installed_def by (rule only_filesD)
  then show ?thesis by (simp add: stored_def)
qed

lemma untouched_then_installed: "untouched w w1 \<Longrightarrow> installed E self st w1 w' \<Longrightarrow> installed E self st w w'"
  unfolding installed_def using only_files_False_trans by blast

lemma untouched_then_not: "untouched w w1 \<Longrightarrow> not_installed E self w1 w' \<Longrightarrow> not_installed E self w w'"
  unfolding not_installed_def by (rule only_files_False_trans)

lemma write_unlocked_cases:
  assumes "write_unlocked E self st w = (r, w')"
  shows "r = Ok () \<and> installed E self st w w' \<or> (\<exists>e. r = Inl e) \<and> not_installed E self w w'"
  using write_atomic_inner_split [OF assms [unfolded write_unlocked_def write_atomic_with_mode_def]]
proof (elim disjE exE conjE)
  fix body tmp
  assume new: "r = Ok ()" "to_vec_pretty (ticket_json E) st = Ok body"
    "temp_path_for (process_id E) (store_file self) = Ok tmp"
    "files w' (store_file self) = Some (body @ [CHR 0x0A])"
    "only_files (\<lambda>p. p = store_file self \<or> p = tmp) w w'"
  have "only_files (\<lambda>p. p = store_file self \<or> temp_path_for (process_id E) (store_file self) = Ok p) w w'"
    using new(5) by (rule only_files_mono) (auto simp: new(3))
  then show ?thesis using new(1,2,4) unfolding installed_def by blast
next
  fix e
  assume "r = Err e" "only_files (\<lambda>p. temp_path_for (process_id E) (store_file self) = Ok p) w w'"
  then show ?thesis unfolding not_installed_def by blast
qed

section \<open>The outcome of each operation\<close>

lemma find_ticket_Ok_iff [simp]: "find_ticket tid st = Ok rec \<longleftrightarrow> bt_get tid (tickets st) = Some rec"
  by (simp add: find_ticket_def)

lemma redeem_outcome:
  assumes "ticket_redeem E self secret remote w = (r, w')"
  shows "(\<exists>e. r = Inl e) \<and> not_installed E self w w'
    \<or> (\<exists>st rec k. stored E self w = Ok st \<and> bt_get (ticket_id E secret) (tickets st) = Some rec
         \<and> ticket_verdict (ids E) (ticket_id E secret) rec remote (clock w k) = Ok ()
         \<and> (case uses_remaining rec of
              None \<Rightarrow> r = Ok rec \<and> untouched w w'
            | Some n \<Rightarrow> r = Ok (rec\<lparr>uses_remaining := Some (n - 1)\<rparr>)
                \<and> installed E self (st\<lparr>tickets := bt_insert (ticket_id E secret)
                      (rec\<lparr>uses_remaining := Some (n - 1)\<rparr>) (tickets st)\<rparr>) w w'))"
  using assms [unfolded ticket_redeem_def Let_def]
proof (cases rule: open_store)
  case (1 e)
  then show ?thesis by (auto intro: untouched_not_installed)
next
  case (2 st w1)
  let ?id = "ticket_id E secret"
  show ?thesis
  proof (cases "bt_get ?id (tickets st)")
    case None
    with 2 show ?thesis by (auto simp: bind_s_lift_r find_ticket_def intro: untouched_not_installed)
  next
    case (Some rec)
    let ?v = "ticket_verdict (ids E) ?id rec remote (clock w1 (ticks w1))"
    let ?w2 = "if revoked rec then w1 else ticked w1"
    have w2: "untouched w ?w2"
      using 2(2) by (auto simp: only_files_def ticked_def)
    have clk: "clock w1 = clock w" using 2(2) by (simp add: only_files_def)
    show ?thesis
    proof (cases ?v)
      case (Inl e)
      with 2 Some have "r = Inl e" "w' = ?w2"
        by (auto simp: bind_s_lift_r find_ticket_def bind_s_def validate_ticket_record_eq)
      then show ?thesis using w2 by (auto intro: untouched_not_installed)
    next
      case (Inr u)
      then have v: "ticket_verdict (ids E) ?id rec remote (clock w (ticks w1)) = Ok ()" by (simp add: clk)
      show ?thesis
      proof (cases "uses_remaining rec")
        case None
        with 2 Some Inr have "r = Ok rec" "w' = ?w2"
          by (auto simp: bind_s_lift_r find_ticket_def bind_s_def validate_ticket_record_eq)
        then show ?thesis using w2 None v Some 2(1) by (intro disjI2) force
      next
        case uses: (Some n)
        let ?rec = "rec\<lparr>uses_remaining := Some (n - 1)\<rparr>"
        obtain r3 w3 where wr:
          "write_unlocked E self (st\<lparr>tickets := bt_insert ?id ?rec (tickets st)\<rparr>) ?w2 = (r3, w3)"
          by fastforce
        with 2 Some Inr uses have rw: "(r, w') = (case r3 of Inl e \<Rightarrow> (Inl e, w3) | Inr _ \<Rightarrow> (Inr ?rec, w3))"
          by (auto simp: bind_s_lift_r find_ticket_def bind_s_def validate_ticket_record_eq
              split: sum.splits)
        from write_unlocked_cases [OF wr] show ?thesis
        proof (elim disjE conjE exE)
          assume "r3 = Ok ()" "installed E self (st\<lparr>tickets := bt_insert ?id ?rec (tickets st)\<rparr>) ?w2 w3"
          then show ?thesis using rw uses v Some 2(1) untouched_then_installed [OF w2]
            by (intro disjI2) fastforce
        next
          fix e
          assume "r3 = Inl e" "not_installed E self ?w2 w3"
          then show ?thesis using rw untouched_then_not [OF w2] by auto
        qed
      qed
    qed
  qed
qed

lemma check_outcome:
  assumes "ticket_check E self secret remote w = (r, w')"
  shows "untouched w w' \<and> (\<forall>rec. r = Ok rec \<longrightarrow> (\<exists>st k. stored E self w = Ok st
      \<and> bt_get (ticket_id E secret) (tickets st) = Some rec
      \<and> ticket_verdict (ids E) (ticket_id E secret) rec remote (clock w k) = Ok ()))"
  using assms [unfolded ticket_check_def Let_def]
proof (cases rule: open_store)
  case (1 e)
  then show ?thesis by simp
next
  case (2 st w1)
  have clk: "clock w1 = clock w" using 2(2) by (simp add: only_files_def)
  show ?thesis
  proof (cases "bt_get (ticket_id E secret) (tickets st)")
    case None
    with 2 show ?thesis by (auto simp: bind_s_lift_r find_ticket_def)
  next
    case (Some rec)
    have w2: "untouched w (if revoked rec then w1 else ticked w1)"
      using 2(2) by (auto simp: only_files_def ticked_def)
    from 2(3) Some have
      rw: "(r, w') = (case ticket_verdict (ids E) (ticket_id E secret) rec remote (clock w (ticks w1)) of
          Inl e \<Rightarrow> (Inl e, if revoked rec then w1 else ticked w1)
        | Inr _ \<Rightarrow> (Inr rec, if revoked rec then w1 else ticked w1))"
      by (auto simp: bind_s_lift_r find_ticket_def bind_s_def validate_ticket_record_eq clk
          split: sum.splits)
    then have "untouched w w'" using w2 by (auto split: sum.splits)
    then show ?thesis using rw 2(1) Some by (auto split: sum.splits)
  qed
qed

lemma revoke_outcome:
  assumes "ticket_revoke E self tid w = (r, w')"
  shows "(\<exists>e. r = Inl e) \<and> not_installed E self w w'
    \<or> (\<exists>st rec. stored E self w = Ok st \<and> bt_get tid (tickets st) = Some rec
         \<and> r = Ok (rec\<lparr>revoked := True\<rparr>)
         \<and> installed E self (st\<lparr>tickets := bt_insert tid (rec\<lparr>revoked := True\<rparr>) (tickets st)\<rparr>) w w')"
  using assms [unfolded ticket_revoke_def Let_def]
proof (cases rule: open_store)
  case (1 e)
  then show ?thesis by (auto intro: untouched_not_installed)
next
  case (2 st w1)
  show ?thesis
  proof (cases "bt_get tid (tickets st)")
    case None
    with 2 show ?thesis by (auto simp: bind_s_lift_r find_ticket_def intro: untouched_not_installed)
  next
    case (Some rec)
    let ?st = "st\<lparr>tickets := bt_insert tid (rec\<lparr>revoked := True\<rparr>) (tickets st)\<rparr>"
    obtain r3 w3 where wr: "write_unlocked E self ?st w1 = (r3, w3)" by fastforce
    with 2 Some have rw: "(r, w') = (case r3 of Inl e \<Rightarrow> (Inl e, w3)
        | Inr _ \<Rightarrow> (Inr (rec\<lparr>revoked := True\<rparr>), w3))"
      by (auto simp: bind_s_lift_r find_ticket_def bind_s_def split: sum.splits)
    from write_unlocked_cases [OF wr] show ?thesis
    proof (elim disjE conjE exE)
      assume "r3 = Ok ()" "installed E self ?st w1 w3"
      then show ?thesis using rw Some 2(1) untouched_then_installed [OF 2(2)] by auto
    next
      fix e
      assume "r3 = Inl e" "not_installed E self w1 w3"
      then show ?thesis using rw untouched_then_not [OF 2(2)] by auto
    qed
  qed
qed

lemma create_outcome:
  assumes "ticket_create E self secret addr options w = (r, w')"
  shows "(\<exists>e. r = Inl e) \<and> not_installed E self w w'
    \<or> (\<exists>st now k exp name. stored E self w = Ok st \<and> clock w k = Some now
         \<and> checked_add now (expires_after options) = Some exp
         \<and> ticket_name_for now (ct_name options) = Ok name
         \<and> (case ct_bound_client options of None \<Rightarrow> True | Some b \<Rightarrow> is_ok (parse_id (ids E) b))
         \<and> bt_get (ticket_id E secret) (tickets st) = None
         \<and> r = Ok (ticket_generate E addr secret)
         \<and> installed E self (st\<lparr>tickets := bt_insert (ticket_id E secret)
               (new_ticket_record E (ticket_generate E addr secret) now exp name options) (tickets st)\<rparr>) w w')"
  using assms [unfolded ticket_create_def Let_def]
proof (cases rule: open_store)
  case (1 e)
  then show ?thesis by (auto intro: untouched_not_installed)
next
  case (2 st w1)
  let ?id = "ticket_id E secret"
  have clk: "clock w1 = clock w" using 2(2) by (simp add: only_files_def)
  have w2: "untouched w (ticked w1)" using 2(2) by (auto simp: only_files_def ticked_def)
  have tid: "ticket_id E (ticket_secret (ticket_generate E addr secret)) = ?id"
    by (simp add: ticket_generate_def)
  define bound where "bound = (case ct_bound_client options of
           None \<Rightarrow> Ok ()
         | Some bound \<Rightarrow>
             bind_r (with_context (''parse bound client endpoint id: '' @ bound)
                       (parse_id (ids E) bound)) (\<lambda>_. Ok ()))"
  have b: "is_ok bound \<longleftrightarrow> (case ct_bound_client options of None \<Rightarrow> True | Some b \<Rightarrow> is_ok (parse_id (ids E) b))"
    by (auto simp: bound_def is_ok_bind_r is_ok_iff split: option.splits)
  show ?thesis
  proof (cases "\<exists>now exp name. clock w (ticks w1) = Some now
      \<and> checked_add now (expires_after options) = Some exp
      \<and> ticket_name_for now (ct_name options) = Ok name \<and> is_ok bound \<and> bt_get ?id (tickets st) = None")
    case False
    with 2(3) have "\<not> is_ok r" "w' = ticked w1"
      unfolding tid bound_def [symmetric]
      by (auto simp: bind_s_def read_clock_def clk is_ok_iff bail_def split: sum.splits if_splits option.splits)
    then show ?thesis using w2 by (cases r) (auto intro: untouched_not_installed)
  next
    case True
    then obtain now exp name where ok: "clock w (ticks w1) = Some now"
      "checked_add now (expires_after options) = Some exp"
      "ticket_name_for now (ct_name options) = Ok name" "bound = Ok ()"
      "bt_get ?id (tickets st) = None"
      by (auto simp: is_ok_iff)
    let ?rec = "(new_ticket_record E (ticket_generate E addr secret) now exp name options)"
    let ?st = "st\<lparr>tickets := bt_insert ?id ?rec (tickets st)\<rparr>"
    obtain r3 w3 where wr: "write_unlocked E self ?st (ticked w1) = (r3, w3)" by fastforce
    with 2(3) ok have rw: "(r, w') = (case r3 of Inl e \<Rightarrow> (Inl e, w3)
        | Inr _ \<Rightarrow> (Inr (ticket_generate E addr secret), w3))"
      unfolding tid bound_def [symmetric] by (simp add: bind_s_def read_clock_def clk split: sum.splits)
    from write_unlocked_cases [OF wr] show ?thesis
    proof (elim disjE conjE exE)
      assume "r3 = Ok ()" and inst: "installed E self ?st (ticked w1) w3"
      then have "r = Ok (ticket_generate E addr secret)" "w' = w3" using rw by simp_all
      then show ?thesis
        using ok 2(1) b untouched_then_installed [OF w2 inst] by (intro disjI2) fastforce
    next
      fix e
      assume "r3 = Inl e" "not_installed E self (ticked w1) w3"
      then show ?thesis using rw untouched_then_not [OF w2] by auto
    qed
  qed
qed

end
