(* ===== verification/Ticket_Use.thy ===== *)
theory Ticket_Use
  imports Ticket_Store
begin

text \<open>
  What the ticket store promises over any sequence of operations. The abstract store is a map
  from ticket ids to records with the step relation \<open>ticket_step\<close>; every run of the code's
  operations, with whatever calls failing, is a run of that relation. A ticket is spent at most
  as often as it was issued for: the contract \<open>use_ledger\<close>.
\<close>

section \<open>The abstract store\<close>

type_synonym ticket_table = "string \<Rightarrow> ticket_record option"

datatype ('id, 'addr) ticket_op =
    Op_load
  | Op_create secret 'addr create_ticket
  | Op_revoke string
  | Op_check secret 'id
  | Op_redeem secret 'id

text \<open>A label is an operation and whether it returned \<open>Ok\<close>.\<close>

inductive ticket_step ::
  "('id, 'addr) ticket_env \<Rightarrow> ticket_table \<Rightarrow> ('id, 'addr) ticket_op \<times> bool \<Rightarrow> ticket_table \<Rightarrow> bool"
  for E where
  refused: "ticket_step E m (op, False) m"
| loaded: "ticket_step E m (Op_load, True) m"
| created: "m (ticket_id E secret) = None \<Longrightarrow> revoked rec = False \<Longrightarrow>
    uses_remaining rec = ct_uses_remaining options \<Longrightarrow>
    ticket_step E m (Op_create secret addr options, True) (m(ticket_id E secret \<mapsto> rec))"
| marked: "m tid = Some rec \<Longrightarrow>
    ticket_step E m (Op_revoke tid, True) (m(tid \<mapsto> rec\<lparr>revoked := True\<rparr>))"
| checked: "m (ticket_id E secret) = Some rec \<Longrightarrow>
    ticket_verdict (ids E) (ticket_id E secret) rec remote (Some now) = Ok () \<Longrightarrow>
    ticket_step E m (Op_check secret remote, True) m"
| unlimited: "m (ticket_id E secret) = Some rec \<Longrightarrow> uses_remaining rec = None \<Longrightarrow>
    ticket_verdict (ids E) (ticket_id E secret) rec remote (Some now) = Ok () \<Longrightarrow>
    ticket_step E m (Op_redeem secret remote, True) m"
| spent: "m (ticket_id E secret) = Some rec \<Longrightarrow> uses_remaining rec = Some n \<Longrightarrow>
    ticket_verdict (ids E) (ticket_id E secret) rec remote (Some now) = Ok () \<Longrightarrow>
    ticket_step E m (Op_redeem secret remote, True)
      (m(ticket_id E secret \<mapsto> rec\<lparr>uses_remaining := Some (n - 1)\<rparr>))"

inductive_cases ticket_stepE: "ticket_step E m (op, ok) m'"
inductive_simps redeem_step_simps: "ticket_step E m (Op_redeem secret remote, True) m'"
inductive_simps check_step_simps: "ticket_step E m (Op_check secret remote, True) m'"

section \<open>The operations run the abstract store\<close>

definition run_ticket_op ::
  "('id, 'addr) ticket_env \<Rightarrow> ticket_store \<Rightarrow> ('id, 'addr) ticket_op \<Rightarrow> 'z io_world_scheme \<Rightarrow>
     bool \<times> 'z io_world_scheme" where
  "run_ticket_op E self op w =
    (case op of
       Op_load \<Rightarrow> map_prod is_ok (\<lambda>w. w) (ticket_load E self w)
     | Op_create secret addr options \<Rightarrow> map_prod is_ok (\<lambda>w. w) (ticket_create E self secret addr options w)
     | Op_revoke tid \<Rightarrow> map_prod is_ok (\<lambda>w. w) (ticket_revoke E self tid w)
     | Op_check secret remote \<Rightarrow> map_prod is_ok (\<lambda>w. w) (ticket_check E self secret remote w)
     | Op_redeem secret remote \<Rightarrow> map_prod is_ok (\<lambda>w. w) (ticket_redeem E self secret remote w))"

fun run_ticket_ops ::
  "('id, 'addr) ticket_env \<Rightarrow> ticket_store \<Rightarrow> ('id, 'addr) ticket_op list \<Rightarrow> 'z io_world_scheme \<Rightarrow>
     (('id, 'addr) ticket_op \<times> bool) list \<times> 'z io_world_scheme" where
  "run_ticket_ops E self [] w = ([], w)"
| "run_ticket_ops E self (op # ops) w =
    (case run_ticket_op E self op w of (ok, w1) \<Rightarrow>
     case run_ticket_ops E self ops w1 of (log, w2) \<Rightarrow> ((op, ok) # log, w2))"

definition table_of :: "ticket_state \<Rightarrow> ticket_table" where
  "table_of st = (\<lambda>tid. bt_get tid (tickets st))"

text \<open>
  What the model asks of \<open>serde_json\<close>: a map read back is in key order, and an encoded state
  reads back as itself.
\<close>

definition ticket_env_ok :: "('id, 'addr) ticket_env \<Rightarrow> bool" where
  "ticket_env_ok E \<longleftrightarrow>
    (\<forall>t st. from_str (ticket_json E) t = Ok st \<longrightarrow> bt_invar (tickets st))
    \<and> (\<forall>st. bt_invar (tickets st) \<longrightarrow> codec_good (ticket_json E) st)"

definition holds_table ::
  "('id, 'addr) ticket_env \<Rightarrow> ticket_store \<Rightarrow> 'z io_world_scheme \<Rightarrow> ticket_table \<Rightarrow> bool" where
  "holds_table E self w m \<longleftrightarrow> (\<exists>st. stored E self w = Ok st \<and> table_of st = m)"

lemma stored_invar: "ticket_env_ok E \<Longrightarrow> stored E self w = Ok st \<Longrightarrow> bt_invar (tickets st)"
  by (auto simp: ticket_env_ok_def stored_def decode_file_def split: option.splits)

lemma installed_stored:
  "ticket_env_ok E \<Longrightarrow> bt_invar (tickets st) \<Longrightarrow> installed E self st w w' \<Longrightarrow> stored E self w' = Ok st"
  by (auto simp: ticket_env_ok_def codec_good_def installed_def stored_def decode_file_def)

lemma installed_insert:
  assumes "ticket_env_ok E" "stored E self w = Ok st"
    and "installed E self (st\<lparr>tickets := bt_insert tid rec (tickets st)\<rparr>) w w'"
  shows "holds_table E self w' ((table_of st)(tid \<mapsto> rec))"
proof -
  have inv: "bt_invar (tickets st)" using assms(1,2) by (rule stored_invar)
  then have "stored E self w' = Ok (st\<lparr>tickets := bt_insert tid rec (tickets st)\<rparr>)"
    using assms by (intro installed_stored) simp_all
  then show ?thesis
    using inv by (auto simp: holds_table_def table_of_def bt_simps)
qed

lemma not_installed_holds: "not_installed E self w w' \<Longrightarrow> holds_table E self w m \<Longrightarrow> holds_table E self w' m"
  by (simp add: holds_table_def not_installed_stored)

lemma untouched_holds: "untouched w w' \<Longrightarrow> holds_table E self w m \<Longrightarrow> holds_table E self w' m"
  by (simp add: holds_table_def stored_untouched)

lemma verdict_reading:
  "ticket_verdict I tid rec remote reading = Ok u \<Longrightarrow>
     \<exists>now. ticket_verdict I tid rec remote (Some now) = Ok ()"
  by (auto simp: ticket_verdict_Ok_iff)

lemma load_frame: "keeps untouched (ticket_load E self)"
  unfolding ticket_load_def by (intro frame lock_file_frame load_unlocked_frame)

lemma not_installed_refused:
  "not_installed E self w w' \<Longrightarrow> holds_table E self w m \<Longrightarrow>
     \<exists>m'. holds_table E self w' m' \<and> ticket_step E m (op, False) m'"
  using not_installed_holds refused by blast

lemma simulate_redeem:
  assumes env: "ticket_env_ok E" and m: "holds_table E self w m"
    and run: "ticket_redeem E self secret remote w = (r, w')"
  shows "\<exists>m'. holds_table E self w' m' \<and> ticket_step E m (Op_redeem secret remote, is_ok r) m'"
  using redeem_outcome [OF run]
proof (elim disjE conjE exE)
  fix e
  assume "r = Inl e" "not_installed E self w w'"
  then show ?thesis using not_installed_refused [OF _ m] by auto
next
  fix st rec k
  assume st: "stored E self w = Ok st" and rec: "bt_get (ticket_id E secret) (tickets st) = Some rec"
    and v: "ticket_verdict (ids E) (ticket_id E secret) rec remote (clock w k) = Ok ()"
    and out: "case uses_remaining rec of None \<Rightarrow> r = Ok rec \<and> untouched w w'
      | Some n \<Rightarrow> r = Ok (rec\<lparr>uses_remaining := Some (n - 1)\<rparr>)
          \<and> installed E self (st\<lparr>tickets := bt_insert (ticket_id E secret)
                (rec\<lparr>uses_remaining := Some (n - 1)\<rparr>) (tickets st)\<rparr>) w w'"
  have m_st: "m = table_of st" using m st by (auto simp: holds_table_def)
  then have mrec: "m (ticket_id E secret) = Some rec" using rec by (simp add: table_of_def)
  obtain now where now: "ticket_verdict (ids E) (ticket_id E secret) rec remote (Some now) = Ok ()"
    using verdict_reading [OF v] by blast
  show ?thesis
  proof (cases "uses_remaining rec")
    case None
    then have "is_ok r" "untouched w w'" using out by simp_all
    then show ?thesis using m unlimited [of m, OF mrec None now] by (auto intro: untouched_holds)
  next
    case (Some n)
    then have "is_ok r" and inst: "installed E self (st\<lparr>tickets := bt_insert (ticket_id E secret)
                (rec\<lparr>uses_remaining := Some (n - 1)\<rparr>) (tickets st)\<rparr>) w w'"
      using out by simp_all
    moreover have "holds_table E self w' (m(ticket_id E secret \<mapsto> rec\<lparr>uses_remaining := Some (n - 1)\<rparr>))"
      using installed_insert [OF env st inst] by (simp add: m_st)
    ultimately show ?thesis using spent [of m, OF mrec Some now] by auto
  qed
qed

lemma simulate_check:
  assumes m: "holds_table E self w m" and run: "ticket_check E self secret remote w = (r, w')"
  shows "\<exists>m'. holds_table E self w' m' \<and> ticket_step E m (Op_check secret remote, is_ok r) m'"
proof -
  from check_outcome [OF run] have u: "untouched w w'"
    and ok: "\<And>rec. r = Ok rec \<Longrightarrow> \<exists>st k. stored E self w = Ok st
      \<and> bt_get (ticket_id E secret) (tickets st) = Some rec
      \<and> ticket_verdict (ids E) (ticket_id E secret) rec remote (clock w k) = Ok ()"
    by auto
  have "ticket_step E m (Op_check secret remote, is_ok r) m"
  proof (cases r)
    case (Inl e)
    then show ?thesis by (simp add: refused)
  next
    case (Inr rec)
    from ok [OF this] m verdict_reading show ?thesis
      by (force simp: Inr holds_table_def table_of_def intro: checked)
  qed
  with u m show ?thesis by (blast intro: untouched_holds)
qed

lemma simulate_revoke:
  assumes env: "ticket_env_ok E" and m: "holds_table E self w m"
    and run: "ticket_revoke E self tid w = (r, w')"
  shows "\<exists>m'. holds_table E self w' m' \<and> ticket_step E m (Op_revoke tid, is_ok r) m'"
  using revoke_outcome [OF run]
proof (elim disjE conjE exE)
  fix e
  assume "r = Inl e" "not_installed E self w w'"
  then show ?thesis using not_installed_refused [OF _ m] by auto
next
  fix st rec
  assume st: "stored E self w = Ok st" and rec: "bt_get tid (tickets st) = Some rec"
    and r: "r = Ok (rec\<lparr>revoked := True\<rparr>)"
    and inst: "installed E self (st\<lparr>tickets := bt_insert tid (rec\<lparr>revoked := True\<rparr>) (tickets st)\<rparr>) w w'"
  have m_st: "m = table_of st" using m st by (auto simp: holds_table_def)
  then have "m tid = Some rec" using rec by (simp add: table_of_def)
  then have "ticket_step E m (Op_revoke tid, True) (m(tid \<mapsto> rec\<lparr>revoked := True\<rparr>))" by (rule marked)
  then show ?thesis using installed_insert [OF env st inst] r m_st by auto
qed

lemma simulate_create:
  assumes env: "ticket_env_ok E" and m: "holds_table E self w m"
    and run: "ticket_create E self secret addr options w = (r, w')"
  shows "\<exists>m'. holds_table E self w' m' \<and> ticket_step E m (Op_create secret addr options, is_ok r) m'"
  using create_outcome [OF run]
proof (elim disjE)
  assume "(\<exists>e. r = Inl e) \<and> not_installed E self w w'"
  then show ?thesis using not_installed_refused [OF _ m] by auto
next
  assume "\<exists>st now k exp name. stored E self w = Ok st \<and> clock w k = Some now
         \<and> checked_add now (expires_after options) = Some exp
         \<and> ticket_name_for now (ct_name options) = Ok name
         \<and> (case ct_bound_client options of None \<Rightarrow> True | Some b \<Rightarrow> is_ok (parse_id (ids E) b))
         \<and> bt_get (ticket_id E secret) (tickets st) = None
         \<and> r = Ok (ticket_generate E addr secret)
         \<and> installed E self (st\<lparr>tickets := bt_insert (ticket_id E secret)
               (new_ticket_record E (ticket_generate E addr secret) now exp name options) (tickets st)\<rparr>) w w'"
  then obtain st now exp name rec where st: "stored E self w = Ok st"
    and none: "bt_get (ticket_id E secret) (tickets st) = None"
    and r: "is_ok r" and "rec = new_ticket_record E (ticket_generate E addr secret) now exp name options"
    and inst: "installed E self (st\<lparr>tickets := bt_insert (ticket_id E secret) rec (tickets st)\<rparr>) w w'"
    by auto
  then have rec: "revoked rec = False" "uses_remaining rec = ct_uses_remaining options"
    by (simp_all add: new_ticket_record_def)
  have m_st: "m = table_of st" using m st by (auto simp: holds_table_def)
  then have "m (ticket_id E secret) = None" using none by (simp add: table_of_def)
  then have "ticket_step E m (Op_create secret addr options, True) (m(ticket_id E secret \<mapsto> rec))"
    using rec by (rule created)
  then show ?thesis using installed_insert [OF env st inst] r m_st by auto
qed

text \<open>The simulation: one operation of the code is one step of the abstract store.\<close>

lemma simulate_op:
  assumes "ticket_env_ok E" "holds_table E self w m" "run_ticket_op E self op w = (ok, w')"
  shows "\<exists>m'. holds_table E self w' m' \<and> ticket_step E m (op, ok) m'"
proof (cases op)
  case Op_load
  obtain r w1 where run: "ticket_load E self w = (r, w1)" by fastforce
  with assms(3) Op_load have ok: "ok = is_ok r" "w' = w1" by (simp_all add: run_ticket_op_def)
  have "untouched w w1" using load_frame run by (rule keepsD)
  then have "holds_table E self w1 m" using assms(2) by (rule untouched_holds)
  moreover have "ticket_step E m (Op_load, is_ok r) m" by (cases r) (simp_all add: loaded refused)
  ultimately show ?thesis using Op_load ok by blast
next
  case (Op_create secret addr options)
  obtain r w1 where run: "ticket_create E self secret addr options w = (r, w1)" by fastforce
  from simulate_create [OF assms(1,2) run] assms(3) run Op_create show ?thesis
    by (simp add: run_ticket_op_def)
next
  case (Op_revoke tid)
  obtain r w1 where run: "ticket_revoke E self tid w = (r, w1)" by fastforce
  from simulate_revoke [OF assms(1,2) run] assms(3) run Op_revoke show ?thesis
    by (simp add: run_ticket_op_def)
next
  case (Op_check secret remote)
  obtain r w1 where run: "ticket_check E self secret remote w = (r, w1)" by fastforce
  from simulate_check [OF assms(2) run] assms(3) run Op_check show ?thesis
    by (simp add: run_ticket_op_def)
next
  case (Op_redeem secret remote)
  obtain r w1 where run: "ticket_redeem E self secret remote w = (r, w1)" by fastforce
  from simulate_redeem [OF assms(1,2) run] assms(3) run Op_redeem show ?thesis
    by (simp add: run_ticket_op_def)
qed

lemma simulate_ops:
  assumes "ticket_env_ok E" "holds_table E self w m" "run_ticket_ops E self ops w = (log, w')"
  shows "\<exists>m'. holds_table E self w' m' \<and> runs (ticket_step E) m log m' \<and> map fst log = ops"
  using assms(2,3)
proof (induction ops arbitrary: w m log)
  case Nil
  then show ?case by auto
next
  case (Cons op ops)
  obtain ok w1 where one: "run_ticket_op E self op w = (ok, w1)" by fastforce
  obtain log1 w2 where rest: "run_ticket_ops E self ops w1 = (log1, w2)" by fastforce
  from Cons.prems one rest have log: "log = (op, ok) # log1" "w' = w2" by simp_all
  obtain m1 where m1: "holds_table E self w1 m1" "ticket_step E m (op, ok) m1"
    using simulate_op [OF assms(1) Cons.prems(1) one] by blast
  with Cons.IH [OF m1(1)] rest log show ?case by auto
qed

section \<open>A ledger of uses\<close>

text \<open>
  A resource that some labels spend, one unit at a time, and nothing refills.
\<close>

locale use_ledger =
  fixes step :: "'s \<Rightarrow> 'e \<Rightarrow> 's \<Rightarrow> bool"
    and spends :: "'e \<Rightarrow> bool"
    and left :: "'s \<Rightarrow> nat option"
  assumes spend: "step s e t \<Longrightarrow> left s = Some n \<Longrightarrow> spends e \<Longrightarrow> \<exists>k. n = Suc k \<and> left t = Some k"
    and keep: "step s e t \<Longrightarrow> left s = Some n \<Longrightarrow> \<not> spends e \<Longrightarrow> left t = Some n"
begin

lemma spent_at_most:
  "runs step s es t \<Longrightarrow> left s = Some n \<Longrightarrow>
     length (filter spends es) \<le> n \<and> left t = Some (n - length (filter spends es))"
proof (induction arbitrary: n rule: runs.induct)
  case (runs_Nil s)
  then show ?case by simp
next
  case (runs_Cons s e t es u)
  show ?case
  proof (cases "spends e")
    case True
    then obtain k where "n = Suc k" "left t = Some k" using spend runs_Cons by blast
    with runs_Cons.IH True show ?thesis by fastforce
  next
    case False
    then have "left t = Some n" using keep runs_Cons by blast
    with runs_Cons.IH False show ?thesis by simp
  qed
qed

end

definition uses_left :: "string \<Rightarrow> ticket_table \<Rightarrow> nat option" where
  "uses_left tid m = (case m tid of None \<Rightarrow> None | Some rec \<Rightarrow> map_option unat (uses_remaining rec))"

text \<open>\<open>grants E tid op\<close>: the operation accepts ticket \<open>tid\<close> if it returns \<open>Ok\<close>.\<close>

fun redeems :: "('id, 'addr) ticket_env \<Rightarrow> string \<Rightarrow> ('id, 'addr) ticket_op \<times> bool \<Rightarrow> bool" where
  "redeems E tid (Op_redeem secret remote, ok) \<longleftrightarrow> ok \<and> ticket_id E secret = tid"
| "redeems E tid (op, ok) \<longleftrightarrow> False"

fun accepts :: "('id, 'addr) ticket_env \<Rightarrow> string \<Rightarrow> ('id, 'addr) ticket_op \<times> bool \<Rightarrow> bool" where
  "accepts E tid (Op_redeem secret remote, ok) \<longleftrightarrow> ok \<and> ticket_id E secret = tid"
| "accepts E tid (Op_check secret remote, ok) \<longleftrightarrow> ok \<and> ticket_id E secret = tid"
| "accepts E tid (op, ok) \<longleftrightarrow> False"

lemma unat_minus_one_Suc: "n \<noteq> 0 \<Longrightarrow> Suc (unat (n - 1 :: u64)) = unat n"
  by (metis Suc_pred' unat_eq_zero unat_minus_one neq0_conv)

interpretation ledger: use_ledger "ticket_step E" "redeems E tid" "uses_left tid" for E tid
proof (unfold_locales)
  fix m e m' n
  assume st: "ticket_step E m e m'" and left: "uses_left tid m = Some n" and sp: "redeems E tid e"
  from sp obtain secret remote where e: "e = (Op_redeem secret remote, True)" "ticket_id E secret = tid"
    by (cases "(E, tid, e)" rule: redeems.cases) auto
  from st left show "\<exists>k. n = Suc k \<and> uses_left tid m' = Some k"
    unfolding e(1) redeem_step_simps
    by (auto simp: uses_left_def e(2) ticket_verdict_Ok_iff intro: unat_minus_one_Suc [symmetric])
next
  fix m e m' n
  assume st: "ticket_step E m e m'" and left: "uses_left tid m = Some n" and sp: "\<not> redeems E tid e"
  then show "uses_left tid m' = Some n"
    by (induction rule: ticket_step.induct) (auto simp: uses_left_def split: option.splits)
qed

section \<open>Revocation is final\<close>

definition dead :: "string \<Rightarrow> ticket_table \<Rightarrow> bool" where
  "dead tid m \<longleftrightarrow> (\<exists>rec. m tid = Some rec \<and> revoked rec)"

lemma accepts_ok: "\<not> accepts E tid (op, False)"
  by (cases op) simp_all

lemma dead_step: "ticket_step E m e m' \<Longrightarrow> dead tid m \<Longrightarrow> dead tid m' \<and> \<not> accepts E tid e"
  by (induction rule: ticket_step.induct) (auto simp: dead_def ticket_verdict_Ok_iff accepts_ok)

lemma dead_runs: "runs (ticket_step E) m es m' \<Longrightarrow> dead tid m \<Longrightarrow> list_all (\<lambda>e. \<not> accepts E tid e) es"
  by (induction rule: runs.induct) (auto dest: dead_step)

section \<open>Sorting the records\<close>

lemma set_sort_by_le [simp]: "set (sort_by_le le xs) = set xs"
proof (induction xs)
  case (Cons x xs)
  have "set (takeWhile P ys) \<union> set (dropWhile P ys) = set ys" for P and ys :: "'a list"
    by (metis set_append takeWhile_dropWhile_id)
  with Cons show ?case by (auto simp: Let_def)
qed simp

lemma length_sort_by_le [simp]: "length (sort_by_le le xs) = length xs"
proof (induction xs)
  case (Cons x xs)
  have "length (takeWhile P ys) + length (dropWhile P ys) = length ys" for P and ys :: "'a list"
    by (metis length_append takeWhile_dropWhile_id)
  with Cons show ?case by (simp add: Let_def)
qed simp

lemma sorted_sort_by_le:
  assumes total: "\<And>x y. le x y \<or> le y x" and trans: "\<And>x y z. le x y \<Longrightarrow> le y z \<Longrightarrow> le x z"
  shows "sorted_wrt le (sort_by_le le xs)"
proof (induction xs)
  case (Cons x xs)
  let ?ys = "sort_by_le le xs" and ?P = "\<lambda>y. \<not> le x y"
  have split: "?ys = takeWhile ?P ?ys @ dropWhile ?P ?ys" by simp
  have sorted: "sorted_wrt le (takeWhile ?P ?ys @ dropWhile ?P ?ys)" using Cons.IH by simp
  have before: "le y x" if "y \<in> set (takeWhile ?P ?ys)" for y
    using set_takeWhileD [OF that] total by blast
  have after: "le x y" if "y \<in> set (dropWhile ?P ?ys)" for y
  proof (cases "dropWhile ?P ?ys")
    case Nil
    with that show ?thesis by simp
  next
    case (Cons z zs)
    then have "le x z" by (metis hd_dropWhile list.distinct(1) list.sel(1))
    moreover have "sorted_wrt le (z # zs)"
      using sorted [unfolded sorted_wrt_append] unfolding Cons by blast
    then have "y = z \<or> le z y" using that unfolding Cons by auto
    ultimately show ?thesis using trans by blast
  qed
  have "le u y" if "u \<in> set (takeWhile ?P ?ys)" "y \<in> set (dropWhile ?P ?ys)" for u y
    using sorted [unfolded sorted_wrt_append] that by blast
  with sorted [unfolded sorted_wrt_append] before after show ?case
    unfolding sort_by_le.simps Let_def sorted_wrt_append sorted_wrt.simps set_simps by blast
qed simp

section \<open>The properties of the store\<close>

text \<open>
  A successful redemption lowers the uses of exactly its ticket by one, and happens only
  for an unrevoked, unexpired ticket that is unbound or bound to this peer and has a use left; a
  failed one leaves the ticket file as it was.
\<close>

theorem redeem_spends_exactly_one:
  "case ticket_redeem E self secret remote w of
     (Inl e, w') \<Rightarrow> files w' (store_file self) = files w (store_file self)
   | (Inr r, w') \<Rightarrow>
       (\<exists>st rec now k. stored E self w = Ok st \<and> bt_get (ticket_id E secret) (tickets st) = Some rec
         \<and> clock w k = Some now \<and> now < expires_at_unix rec \<and> revoked rec = False
         \<and> (case bound_client rec of None \<Rightarrow> True | Some b \<Rightarrow> parse_id (ids E) b = Ok remote)
         \<and> (case uses_remaining rec of
              None \<Rightarrow> r = rec \<and> files w' = files w
            | Some n \<Rightarrow> \<exists>body. 0 < n \<and> unat (n - 1) = unat n - 1
                \<and> r = rec\<lparr>uses_remaining := Some (n - 1)\<rparr>
                \<and> to_vec_pretty (ticket_json E)
                    (st\<lparr>tickets := bt_insert (ticket_id E secret) r (tickets st)\<rparr>) = Ok body
                \<and> files w' (store_file self) = Some (body @ [CHR 0x0A])))"
proof (cases "ticket_redeem E self secret remote w")
  case (Pair r w')
  show ?thesis
    using redeem_outcome [OF Pair]
  proof (elim disjE exE conjE)
    fix e
    assume r: "r = Inl e" and n: "not_installed E self w w'"
    have "temp_path_for (process_id E) (store_file self) \<noteq> Ok (store_file self)"
      using temp_path_differs by metis
    with n have "files w' (store_file self) = files w (store_file self)"
      unfolding not_installed_def by (rule only_filesD)
    with Pair r show ?thesis by simp
  next
    fix st rec k
    assume st: "stored E self w = Ok st" and rec: "bt_get (ticket_id E secret) (tickets st) = Some rec"
      and v: "ticket_verdict (ids E) (ticket_id E secret) rec remote (clock w k) = Ok ()"
      and out: "case uses_remaining rec of None \<Rightarrow> r = Ok rec \<and> untouched w w'
      | Some n \<Rightarrow> r = Ok (rec\<lparr>uses_remaining := Some (n - 1)\<rparr>)
          \<and> installed E self (st\<lparr>tickets := bt_insert (ticket_id E secret)
                (rec\<lparr>uses_remaining := Some (n - 1)\<rparr>) (tickets st)\<rparr>) w w'"
    from v obtain now where ok: "clock w k = Some now" "now < expires_at_unix rec" "revoked rec = False"
      "case bound_client rec of None \<Rightarrow> True | Some b \<Rightarrow> parse_id (ids E) b = Ok remote"
      and uses: "uses_remaining rec \<noteq> Some 0"
      by (auto simp: ticket_verdict_Ok_iff)
    show ?thesis
    proof (cases "uses_remaining rec")
      case None
      then have "r = Ok rec" "files w' = files w" using out by (auto simp: only_files_def)
      with Pair st rec ok None show ?thesis by auto
    next
      case (Some n)
      with uses have "n \<noteq> 0" by simp
      then have "0 < n" "unat (n - 1) = unat n - 1" by (simp_all add: unat_minus_one word_neq_0_conv)
      moreover obtain body where "to_vec_pretty (ticket_json E) (st\<lparr>tickets := bt_insert (ticket_id E secret)
          (rec\<lparr>uses_remaining := Some (n - 1)\<rparr>) (tickets st)\<rparr>) = Ok body"
        "files w' (store_file self) = Some (body @ [CHR 0x0A])"
        using out Some by (auto simp: installed_def)
      moreover have "r = Ok (rec\<lparr>uses_remaining := Some (n - 1)\<rparr>)" using out Some by simp
      ultimately show ?thesis using Pair st rec ok Some by simp blast
    qed
  qed
qed

text \<open>A check decides as a redemption would.\<close>

theorem check_agrees_with_redeem:
  "case ticket_check E self secret remote w of
     (Inl e, w1) \<Rightarrow> ticket_redeem E self secret remote w = (Inl e, w1) \<and> files w1 = files w
   | (Inr rec, w1) \<Rightarrow> files w1 = files w \<and> (\<exists>st. stored E self w = Ok st
       \<and> bt_get (ticket_id E secret) (tickets st) = Some rec
       \<and> ticket_redeem E self secret remote w =
           (case uses_remaining rec of
              None \<Rightarrow> (Inr rec, w1)
            | Some n \<Rightarrow>
                (case write_unlocked E self (st\<lparr>tickets := bt_insert (ticket_id E secret)
                        (rec\<lparr>uses_remaining := Some (n - 1)\<rparr>) (tickets st)\<rparr>) w1 of
                   (Inl e, w2) \<Rightarrow> (Inl e, w2)
                 | (Inr _, w2) \<Rightarrow> (Inr (rec\<lparr>uses_remaining := Some (n - 1)\<rparr>), w2))))"
proof (cases "ticket_check E self secret remote w")
  case (Pair r w1)
  have fs: "files w1 = files w" using check_outcome [OF Pair] by (blast intro: only_files_False_files)
  show ?thesis
    using Pair [unfolded ticket_check_def Let_def]
  proof -
    obtain r1 v1 where l: "lock_file self w = (r1, v1)" by fastforce
    with lock_file_frame have u1: "untouched w v1" by (rule keepsD)
    obtain r2 v2 where d: "load_unlocked E self v1 = (r2, v2)" by fastforce
    note run = Pair [unfolded ticket_check_def Let_def bind_s_def l d]
    note defs = ticket_redeem_def Let_def bind_s_def l d Pair fs
    show ?thesis
    proof (cases r1)
      case (Inl e)
      with run show ?thesis by (auto simp: defs)
    next
      case Ok1: (Inr u)
      show ?thesis
      proof (cases r2)
        case (Inl e)
        with run Ok1 show ?thesis by (auto simp: defs)
      next
        case (Inr st)
        then have "stored E self v1 = Ok st" using d by (auto dest: load_unlocked_Ok)
        with u1 have st: "stored E self w = Ok st" by (simp add: stored_untouched)
        show ?thesis
        proof (cases "bt_get (ticket_id E secret) (tickets st)")
          case None
          with run Ok1 Inr show ?thesis by (auto simp: defs find_ticket_def)
        next
          case (Some rec)
          obtain v v3 where val: "validate_ticket_record (ids E) (ticket_id E secret) rec remote v2 = (v, v3)"
            by fastforce
          show ?thesis
          proof (cases v)
            case (Inl e)
            with run Ok1 \<open>r2 = Inr st\<close> Some val show ?thesis by (auto simp: defs find_ticket_def)
          next
            case (Inr u')
            with run Ok1 \<open>r2 = Inr st\<close> Some val have "r = Inr rec" "w1 = v3"
              by (auto simp: find_ticket_def d)
            with Ok1 \<open>r2 = Inr st\<close> Some val Inr st fs show ?thesis
              by (simp add: defs find_ticket_def split: option.splits sum.splits prod.splits)
          qed
        qed
      qed
    qed
  qed
qed

text \<open>
  The listing of tickets is a permutation of the stored ones, ordered by creation time and then
  by id.
\<close>

theorem ticket_records_sorted:
  "case ticket_records E self w of
     (Inl e, w') \<Rightarrow> files w' = files w
   | (Inr recs, w') \<Rightarrow> files w' = files w \<and> (\<exists>st. stored E self w = Ok st
       \<and> length recs = length (tickets st)
       \<and> list_all (\<lambda>(tid, rec). (tid, rec) \<in> set recs) (tickets st)
       \<and> list_all (\<lambda>p. p \<in> set (tickets st)) recs
       \<and> sorted_wrt (\<lambda>(i, a) (j, b). created_at_unix a < created_at_unix b
            \<or> created_at_unix a = created_at_unix b \<and> i \<le> j) recs)"
proof -
  obtain r w' where run: "ticket_load E self w = (r, w')" by fastforce
  have u: "untouched w w'" using load_frame run by (rule keepsD)
  then have fs: "files w' = files w" by (rule only_files_False_files)
  have le: "record_le = (\<lambda>(i, a) (j, b). created_at_unix a < created_at_unix b
            \<or> created_at_unix a = created_at_unix b \<and> i \<le> j)"
    by (intro ext) (auto simp: record_le_def)
  show ?thesis
  proof (cases r)
    case (Inl e)
    with run fs show ?thesis by (simp add: ticket_records_def bind_s_def)
  next
    case (Inr st)
    from run [unfolded ticket_load_def Inr] have "stored E self w = Ok st"
    proof -
      obtain w1 where "lock_file self w = (Ok (), w1)" "load_unlocked E self w1 = (Ok st, w')"
        using run [unfolded ticket_load_def Inr] by (auto simp: bind_s_Ok_iff)
      moreover from this(1) have "untouched w w1" by (rule keepsD [OF lock_file_frame])
      ultimately show ?thesis using load_unlocked_Ok stored_untouched by metis
    qed
    moreover have "sorted_wrt record_le (sort_by_le record_le (tickets st))"
      by (rule sorted_sort_by_le) (auto simp: record_le_def)
    ultimately show ?thesis using run fs Inr
      unfolding le [symmetric] by (auto simp: ticket_records_def bind_s_def list_all_iff)
  qed
qed

text \<open>
  C6: Along every sequence of ticket operations the number of successful redemptions of a ticket
  never exceeds the uses it had.
\<close>

theorem ticket_spent_at_most_its_uses:
  assumes "ticket_env_ok E" and "holds_table E self w m"
    and "m tid = Some rec" and "uses_remaining rec = Some n"
  shows "case run_ticket_ops E self ops w of (log, w') \<Rightarrow>
      map fst log = ops
      \<and> length (filter (redeems E tid) log) \<le> unat n
      \<and> (\<exists>m'. holds_table E self w' m'
           \<and> uses_left tid m' = Some (unat n - length (filter (redeems E tid) log)))"
proof -
  obtain log w' where run: "run_ticket_ops E self ops w = (log, w')" by fastforce
  obtain m' where m': "holds_table E self w' m'" "runs (ticket_step E) m log m'" "map fst log = ops"
    using simulate_ops [OF assms(1,2) run] by blast
  have "uses_left tid m = Some (unat n)" using assms(3,4) by (simp add: uses_left_def)
  from ledger.spent_at_most [OF m'(2) this] m'(1,3) show ?thesis by (auto simp: run)
qed

text \<open>
  C8: Once a ticket is revoked, no later check or redemption of it succeeds, whatever other
  operations happen.
\<close>

theorem revoked_ticket_is_never_accepted:
  assumes "ticket_env_ok E" and "holds_table E self w m"
    and "m tid = Some rec" and "revoked rec"
  shows "list_all (\<lambda>e. \<not> accepts E tid e) (fst (run_ticket_ops E self ops w))"
proof -
  obtain log w' where run: "run_ticket_ops E self ops w = (log, w')" by fastforce
  have "dead tid m" using assms(3,4) by (simp add: dead_def)
  with simulate_ops [OF assms(1,2) run] run show ?thesis using dead_runs by fastforce
qed

text \<open>A concrete store for the witnesses: one ticket of two uses, and a codec that knows it.\<close>

definition demo_record :: "u64 option \<Rightarrow> bool \<Rightarrow> ticket_record" where
  "demo_record uses dead_flag =
    \<lparr>encoded_ticket = ''t'', created_at_unix = 5, ticket_name = Some ''demo'', expires_at_unix = 100,
     uses_remaining = uses, max_build_time = ''5m'', max_upload_bytes = ''1M'', bound_client = None,
     revoked = dead_flag\<rparr>"

definition demo_state :: "u64 option \<Rightarrow> bool \<Rightarrow> ticket_state" where
  "demo_state uses dead_flag = \<lparr>tickets = [(''id'', demo_record uses dead_flag)]\<rparr>"

definition demo_codec :: "ticket_state codec" where
  "demo_codec =
    \<lparr>to_vec_pretty = (\<lambda>st.
        if st = demo_state (Some 2) False then Ok ''2''
        else if st = demo_state (Some 1) False then Ok ''1''
        else if st = demo_state (Some 0) False then Ok ''0''
        else if st = demo_state (Some 2) True then Ok ''r''
        else bail ''unknown state''),
     from_str = (\<lambda>t.
        if t = ''2'' @ [CHR 0x0A] then Ok (demo_state (Some 2) False)
        else if t = ''1'' @ [CHR 0x0A] then Ok (demo_state (Some 1) False)
        else if t = ''0'' @ [CHR 0x0A] then Ok (demo_state (Some 0) False)
        else if t = ''r'' @ [CHR 0x0A] then Ok (demo_state (Some 2) True)
        else bail ''unknown text'')\<rparr>"

definition demo_env :: "(nat, unit) ticket_env" where
  "demo_env =
    \<lparr>ids = \<lparr>parse_id = (\<lambda>s. ok_or ''bad id'' (map_option unat (parse_u64 s))), show_id = show_nat\<rparr>,
     public_text = (\<lambda>secret. ''id''), compact_addr = (\<lambda>a. a), ticket_text = (\<lambda>t. ''t''),
     ticket_json = demo_codec, process_id = 7\<rparr>"

definition demo_world :: "string \<Rightarrow> io_world" where
  "demo_world content =
    \<lparr>files = [''/d/tickets.json'' \<mapsto> content], clock = (\<lambda>n. Some 50), faults = (\<lambda>n. Fine), ticks = 0\<rparr>"

definition demo_store :: ticket_store where
  "demo_store = ticket_store_new ''/d''"

lemmas demo_defs = demo_record_def demo_state_def demo_codec_def demo_env_def demo_world_def
  demo_store_def

declare demo_defs [drv_eval]

lemma demo_state_eq [simp]: "demo_state a b = demo_state c d \<longleftrightarrow> a = c \<and> b = d"
  by (auto simp: demo_state_def demo_record_def)

lemma demo_env_ok: "ticket_env_ok demo_env"
proof -
  have inv: "bt_invar (tickets (demo_state u r))" for u r
    by (simp add: demo_state_def bt_invar_def)
  have enc: "from_utf8 [c, CHR 0x0A] = Ok [c, CHR 0x0A]" if "is_ascii c" for c
    using that by (intro from_utf8_ascii) (simp add: is_ascii_def byte_def)
  show ?thesis
    by (simp add: ticket_env_ok_def codec_good_def demo_env_def demo_codec_def inv enc bail_def
        is_ascii_def byte_def)
qed

lemma demo_holds:
  "holds_table demo_env demo_store (demo_world (''2'' @ [CHR 0x0A])) (table_of (demo_state (Some 2) False))"
  "holds_table demo_env demo_store (demo_world (''r'' @ [CHR 0x0A])) (table_of (demo_state (Some 2) True))"
  by (simp_all add: holds_table_def stored_def decode_file_def drv_eval)

theorem ticket_spent_at_most_its_uses_witness:
  "length (filter (redeems demo_env ''id'')
     (fst (run_ticket_ops demo_env demo_store (replicate 5 (Op_redeem ''s'' 1)) (demo_world (''2'' @ [CHR 0x0A])))))
   \<le> 2"
proof -
  have "table_of (demo_state (Some 2) False) ''id'' = Some (demo_record (Some 2) False)"
    by (simp add: table_of_def demo_state_def)
  from ticket_spent_at_most_its_uses [OF demo_env_ok demo_holds(1) this, of 2 "replicate 5 (Op_redeem ''s'' 1)"]
  show ?thesis by (simp add: demo_record_def split: prod.splits)
qed

theorem revoked_ticket_is_never_accepted_witness:
  "list_all (\<lambda>e. \<not> accepts demo_env ''id'' e)
     (fst (run_ticket_ops demo_env demo_store [Op_check ''s'' 1, Op_redeem ''s'' 1]
        (demo_world (''r'' @ [CHR 0x0A]))))"
proof -
  have "table_of (demo_state (Some 2) True) ''id'' = Some (demo_record (Some 2) True)"
    by (simp add: table_of_def demo_state_def)
  moreover have "revoked (demo_record (Some 2) True)" by (simp add: demo_record_def)
  ultimately show ?thesis by (rule revoked_ticket_is_never_accepted [OF demo_env_ok demo_holds(2)])
qed

text \<open>In the same store, two redemptions succeed and the third is refused.\<close>

lemma demo_three_redemptions:
  "map snd (fst (run_ticket_ops demo_env demo_store (replicate 3 (Op_redeem ''s'' 1))
     (demo_world (''2'' @ [CHR 0x0A])))) = [True, True, False]"
  by (simp add: run_ticket_op_def numeral_3_eq_3 Let_def bail_def drv_eval)

end
