(* ===== verification/Ticket_Addr.thy ===== *)
theory Ticket_Addr
  imports Ticket_Use
begin

text \<open>
  \<open>ticket.rs\<close>, the addresses: the text of a ticket and the file \<open>server-addr.json\<close>. The
  endpoint address is a type of the networking library, used through its constructors and
  queries (\<open>addr_api\<close>); \<open>postcard\<close> and the outer text form of a ticket are parameters too.
\<close>

record ('id, 'url, 'sock, 'addr) addr_api =
  addr_new :: "'id \<Rightarrow> 'addr"
  with_relay_url :: "'addr \<Rightarrow> 'url \<Rightarrow> 'addr"
  with_ip_addr :: "'addr \<Rightarrow> 'sock \<Rightarrow> 'addr"
  addr_id :: "'addr \<Rightarrow> 'id"
  relay_urls :: "'addr \<Rightarrow> 'url list"
  ip_addrs :: "'addr \<Rightarrow> 'sock list"

record ('id, 'url, 'sock) variant0_node_addr =
  node_endpoint_id :: 'id
  node_relay_url :: "'url option"
  node_direct_addrs :: "'sock list"

record ('id, 'url, 'sock) variant0_build_ticket =
  node :: "('id, 'url, 'sock) variant0_node_addr"
  wire_secret :: secret

datatype ('id, 'url, 'sock) ticket_wire_format = Variant0 "('id, 'url, 'sock) variant0_build_ticket"

record ('id, 'url, 'sock) postcard =
  to_stdvec :: "('id, 'url, 'sock) ticket_wire_format \<Rightarrow> string"
  from_bytes :: "string \<Rightarrow> ('id, 'url, 'sock) ticket_wire_format result"

record ticket_text_form =
  encode_string :: "string \<Rightarrow> string"
  decode_string :: "string \<Rightarrow> string result"

text \<open>Collecting into a \<open>BTreeSet\<close>: in order, without repetitions.\<close>

definition bset_collect :: "'a::linorder list \<Rightarrow> 'a list" where
  "bset_collect xs = sort (remdups xs)"

definition first_relay :: "('id, 'url, 'sock, 'addr) addr_api \<Rightarrow> 'addr \<Rightarrow> 'url option" where
  "first_relay A addr = (case relay_urls A addr of [] \<Rightarrow> None | url # _ \<Rightarrow> Some url)"

text \<open>The data \<open>encode_bytes\<close> serializes.\<close>

definition ticket_wire ::
  "('id, 'url, 'sock::linorder, 'addr) addr_api \<Rightarrow> 'addr build_ticket \<Rightarrow> ('id, 'url, 'sock) ticket_wire_format" where
  "ticket_wire A self =
    Variant0 \<lparr>node = \<lparr>node_endpoint_id = addr_id A (ticket_addr self),
                     node_relay_url = first_relay A (ticket_addr self),
                     node_direct_addrs = bset_collect (ip_addrs A (ticket_addr self))\<rparr>,
              wire_secret = ticket_secret self\<rparr>"

definition encode_bytes ::
  "('id, 'url, 'sock::linorder, 'addr) addr_api \<Rightarrow> ('id, 'url, 'sock) postcard \<Rightarrow> 'addr build_ticket \<Rightarrow> string" where
  "encode_bytes A P self = to_stdvec P (ticket_wire A self)"

definition add_ip_addrs :: "('id, 'url, 'sock, 'addr) addr_api \<Rightarrow> 'sock list \<Rightarrow> 'addr \<Rightarrow> 'addr" where
  "add_ip_addrs A direct_addrs addr =
    fold (\<lambda>direct_addr addr. with_ip_addr A addr direct_addr) direct_addrs addr"

definition decode_bytes ::
  "('id, 'url, 'sock, 'addr) addr_api \<Rightarrow> ('id, 'url, 'sock) postcard \<Rightarrow> string \<Rightarrow> 'addr build_ticket result" where
  "decode_bytes A P bytes =
    bind_r (from_bytes P bytes) (\<lambda>data. case data of Variant0 data \<Rightarrow>
      let addr = addr_new A (node_endpoint_id (node data));
          addr = (case node_relay_url (node data) of
                    None \<Rightarrow> addr | Some relay_url \<Rightarrow> with_relay_url A addr relay_url);
          addr = add_ip_addrs A (node_direct_addrs (node data)) addr
      in Ok \<lparr>ticket_addr = addr, ticket_secret = wire_secret data\<rparr>)"

definition ticket_to_string ::
  "('id, 'url, 'sock::linorder, 'addr) addr_api \<Rightarrow> ('id, 'url, 'sock) postcard \<Rightarrow> ticket_text_form \<Rightarrow>
     'addr build_ticket \<Rightarrow> string" where
  "ticket_to_string A P X self = encode_string X (encode_bytes A P self)"

definition ticket_from_str ::
  "('id, 'url, 'sock, 'addr) addr_api \<Rightarrow> ('id, 'url, 'sock) postcard \<Rightarrow> ticket_text_form \<Rightarrow>
     string \<Rightarrow> 'addr build_ticket result" where
  "ticket_from_str A P X value_text = bind_r (decode_string X value_text) (decode_bytes A P)"

definition compact_ticket_addr :: "('id, 'url, 'sock, 'addr) addr_api \<Rightarrow> 'addr \<Rightarrow> 'addr" where
  "compact_ticket_addr A addr =
    (let compact = addr_new A (addr_id A addr) in
     case relay_urls A addr of
       relay_url # _ \<Rightarrow> with_relay_url A compact relay_url
     | [] \<Rightarrow> add_ip_addrs A (ip_addrs A addr) compact)"

section \<open>The file of the server's address\<close>

definition SERVER_ADDR_FILE :: string where "SERVER_ADDR_FILE = ''server-addr.json''"

record server_addr_file =
  saf_endpoint_id :: string
  saf_relay_url :: "string option"
  saf_direct_addrs :: "string list"

text \<open>The text forms of the parts of an address.\<close>

record ('id, 'url, 'sock) addr_text =
  id_text :: "'id endpoint_text"
  show_url :: "'url \<Rightarrow> string"
  parse_url :: "string \<Rightarrow> 'url result"
  show_sock :: "'sock \<Rightarrow> string"
  parse_sock :: "string \<Rightarrow> 'sock result"

definition saf_from_addr ::
  "('id, 'url, 'sock, 'addr) addr_api \<Rightarrow> ('id, 'url, 'sock) addr_text \<Rightarrow> 'addr \<Rightarrow> server_addr_file" where
  "saf_from_addr A T addr =
    \<lparr>saf_endpoint_id = show_id (id_text T) (addr_id A addr),
     saf_relay_url = map_option (show_url T) (first_relay A addr),
     saf_direct_addrs = map (show_sock T) (ip_addrs A addr)\<rparr>"

fun add_parsed_ip_addrs ::
  "('id, 'url, 'sock, 'addr) addr_api \<Rightarrow> ('id, 'url, 'sock) addr_text \<Rightarrow> string list \<Rightarrow> 'addr \<Rightarrow> 'addr result" where
  "add_parsed_ip_addrs A T [] addr = Ok addr"
| "add_parsed_ip_addrs A T (direct_addr # rest) addr =
    bind_r (with_context (''parse direct addr: '' @ direct_addr) (parse_sock T direct_addr)) (\<lambda>sock.
      add_parsed_ip_addrs A T rest (with_ip_addr A addr sock))"

definition saf_into_addr ::
  "('id, 'url, 'sock, 'addr) addr_api \<Rightarrow> ('id, 'url, 'sock) addr_text \<Rightarrow> server_addr_file \<Rightarrow> 'addr result" where
  "saf_into_addr A T self =
    bind_r (with_context (''parse endpoint id: '' @ saf_endpoint_id self)
              (parse_id (id_text T) (saf_endpoint_id self))) (\<lambda>endpoint_id.
    let addr = addr_new A endpoint_id in
    bind_r
      (case saf_relay_url self of
         None \<Rightarrow> Ok addr
       | Some relay_url \<Rightarrow>
           bind_r (with_context (''parse relay url: '' @ relay_url) (parse_url T relay_url)) (\<lambda>url.
             Ok (with_relay_url A addr url)))
      (\<lambda>addr. add_parsed_ip_addrs A T (saf_direct_addrs self) addr))"

definition save_server_addr ::
  "('id, 'url, 'sock, 'addr) addr_api \<Rightarrow> ('id, 'url, 'sock) addr_text \<Rightarrow> nat \<Rightarrow> server_addr_file codec \<Rightarrow>
     string \<Rightarrow> 'addr \<Rightarrow> ('z io_world_scheme, unit) step" where
  "save_server_addr A T pid json dir addr =
    write_atomic_with_mode pid json (path_join dir SERVER_ADDR_FILE) (saf_from_addr A T addr)
      ''encode JSON'' 432"

definition load_server_addr ::
  "('id, 'url, 'sock, 'addr) addr_api \<Rightarrow> ('id, 'url, 'sock) addr_text \<Rightarrow> server_addr_file codec \<Rightarrow>
     string \<Rightarrow> ('z io_world_scheme, 'addr) step" where
  "load_server_addr A T json dir =
    (let path = path_join dir SERVER_ADDR_FILE in
     match_s (fs_read_to_string path) (\<lambda>r.
       case r of
         Inr (Some t) \<Rightarrow>
           lift_r (bind_r (with_context (''parse '' @ path) (from_str json t)) (saf_into_addr A T))
       | Inr None \<Rightarrow>
           lift_r (bail (''server address file '' @ path @
             '' is missing; start `drv-thru serve` first''))
       | Inl err \<Rightarrow> lift_r (Err (Context (''read '' @ path) err))))"

section \<open>Laws of the address type\<close>

definition addr_laws :: "('id, 'url, 'sock::linorder, 'addr) addr_api \<Rightarrow> bool" where
  "addr_laws A \<longleftrightarrow>
    (\<forall>i. addr_id A (addr_new A i) = i \<and> relay_urls A (addr_new A i) = [] \<and> ip_addrs A (addr_new A i) = [])
    \<and> (\<forall>a u. addr_id A (with_relay_url A a u) = addr_id A a
        \<and> ip_addrs A (with_relay_url A a u) = ip_addrs A a
        \<and> (relay_urls A a = [] \<longrightarrow> relay_urls A (with_relay_url A a u) = [u]))
    \<and> (\<forall>a s. addr_id A (with_ip_addr A a s) = addr_id A a
        \<and> relay_urls A (with_ip_addr A a s) = relay_urls A a
        \<and> set (ip_addrs A (with_ip_addr A a s)) = insert s (set (ip_addrs A a)))
    \<and> (\<forall>a. sorted (ip_addrs A a) \<and> distinct (ip_addrs A a))"

lemma addr_laws_new:
  "addr_laws A \<Longrightarrow> addr_id A (addr_new A i) = i \<and> relay_urls A (addr_new A i) = [] \<and> ip_addrs A (addr_new A i) = []"
  by (simp add: addr_laws_def)

lemma addr_laws_relay:
  "addr_laws A \<Longrightarrow> addr_id A (with_relay_url A a u) = addr_id A a
     \<and> ip_addrs A (with_relay_url A a u) = ip_addrs A a
     \<and> (relay_urls A a = [] \<longrightarrow> relay_urls A (with_relay_url A a u) = [u])"
  by (simp add: addr_laws_def)

lemma add_ip_addrs_facts:
  assumes "addr_laws A"
  shows "addr_id A (add_ip_addrs A xs a) = addr_id A a
    \<and> relay_urls A (add_ip_addrs A xs a) = relay_urls A a
    \<and> set (ip_addrs A (add_ip_addrs A xs a)) = set xs \<union> set (ip_addrs A a)"
  using assms unfolding add_ip_addrs_def
  by (induction xs arbitrary: a) (auto simp: addr_laws_def)

lemma ip_addrs_by_set:
  "addr_laws A \<Longrightarrow> set (ip_addrs A a) = set (ip_addrs A b) \<Longrightarrow> ip_addrs A a = ip_addrs A b"
  unfolding addr_laws_def using sorted_distinct_set_unique by blast

lemma set_bset_collect [simp]: "set (bset_collect xs) = set xs"
  by (simp add: bset_collect_def)

lemma add_parsed_facts:
  assumes "\<And>s. parse_sock T (show_sock T s) = Ok s"
  shows "add_parsed_ip_addrs A T (map (show_sock T) xs) a = Ok (add_ip_addrs A xs a)"
  using assms by (induction xs arbitrary: a) (simp_all add: add_ip_addrs_def)

lemma first_relay_facts:
  assumes "addr_laws A"
    and "b = (case first_relay A a of None \<Rightarrow> addr_new A i | Some u \<Rightarrow> with_relay_url A (addr_new A i) u)"
  shows "addr_id A b = i \<and> relay_urls A b = take 1 (relay_urls A a) \<and> ip_addrs A b = []"
  using addr_laws_new [OF assms(1), of i] addr_laws_relay [OF assms(1), of "addr_new A i"]
  by (auto simp: assms(2) first_relay_def split: list.splits)

lemma compact_facts:
  assumes "addr_laws A"
  shows "addr_id A (compact_ticket_addr A a) = addr_id A a
    \<and> relay_urls A (compact_ticket_addr A a) = take 1 (relay_urls A a)
    \<and> ip_addrs A (compact_ticket_addr A a) = (if relay_urls A a = [] then ip_addrs A a else [])"
proof (cases "relay_urls A a")
  case Nil
  let ?c = "add_ip_addrs A (ip_addrs A a) (addr_new A (addr_id A a))"
  note f = add_ip_addrs_facts [OF assms, of "ip_addrs A a" "addr_new A (addr_id A a)"]
  have "set (ip_addrs A ?c) = set (ip_addrs A a)" using f addr_laws_new [OF assms] by simp
  with assms have "ip_addrs A ?c = ip_addrs A a" by (rule ip_addrs_by_set)
  with f addr_laws_new [OF assms] Nil show ?thesis by (simp add: compact_ticket_addr_def)
next
  case (Cons u us)
  with addr_laws_new [OF assms] addr_laws_relay [OF assms, of "addr_new A (addr_id A a)"] show ?thesis
    by (simp add: compact_ticket_addr_def)
qed

section \<open>Round trips\<close>

text \<open>An address rebuilt from its id, its first relay and its socket addresses.\<close>

lemma rebuilt_facts:
  assumes "addr_laws A"
    and "b = (case first_relay A a of None \<Rightarrow> addr_new A (addr_id A a)
              | Some u \<Rightarrow> with_relay_url A (addr_new A (addr_id A a)) u)"
    and "set xs = set (ip_addrs A a)"
  shows "addr_id A (add_ip_addrs A xs b) = addr_id A a
    \<and> relay_urls A (add_ip_addrs A xs b) = take 1 (relay_urls A a)
    \<and> ip_addrs A (add_ip_addrs A xs b) = ip_addrs A a"
proof -
  note b = first_relay_facts [OF assms(1,2)]
  note f = add_ip_addrs_facts [OF assms(1), of xs b]
  have "set (ip_addrs A (add_ip_addrs A xs b)) = set (ip_addrs A a)" using f b assms(3) by simp
  with assms(1) have "ip_addrs A (add_ip_addrs A xs b) = ip_addrs A a" by (rule ip_addrs_by_set)
  with f b show ?thesis by simp
qed

text \<open>
  A generated ticket printed as text and parsed again is the same ticket.
\<close>

theorem ticket_text_roundtrip:
  assumes laws: "addr_laws A"
    and compact: "compact_addr E = compact_ticket_addr A"
    and ticket: "ticket = ticket_generate E addr secret"
    and bytes: "from_bytes P (encode_bytes A P ticket) = Ok (ticket_wire A ticket)"
    and chars: "decode_string X (encode_string X (encode_bytes A P ticket)) = Ok (encode_bytes A P ticket)"
  shows "\<exists>t. ticket_from_str A P X (ticket_to_string A P X ticket) = Ok t
    \<and> ticket_secret t = secret \<and> addr_id A (ticket_addr t) = addr_id A addr
    \<and> relay_urls A (ticket_addr t) = take 1 (relay_urls A addr)
    \<and> ip_addrs A (ticket_addr t) = (if relay_urls A addr = [] then ip_addrs A addr else [])"
proof -
  let ?c = "compact_ticket_addr A addr"
  define b where "b = (case first_relay A ?c of None \<Rightarrow> addr_new A (addr_id A ?c)
              | Some u \<Rightarrow> with_relay_url A (addr_new A (addr_id A ?c)) u)"
  have t: "ticket_addr ticket = ?c" "ticket_secret ticket = secret" by (simp_all add: ticket ticket_generate_def compact)
  have "ticket_from_str A P X (ticket_to_string A P X ticket)
      = Ok \<lparr>ticket_addr = add_ip_addrs A (bset_collect (ip_addrs A ?c)) b, ticket_secret = secret\<rparr>"
    using bytes chars
    by (simp add: ticket_from_str_def ticket_to_string_def decode_bytes_def ticket_wire_def t b_def Let_def)
  moreover note rebuilt_facts [OF laws b_def, of "bset_collect (ip_addrs A ?c)"] compact_facts [OF laws, of addr]
  ultimately show ?thesis by simp
qed

text \<open>
  The address a server saves is the address that is loaded back, up to the extra relays it does
  not keep.
\<close>

theorem server_addr_file_roundtrip:
  assumes laws: "addr_laws A"
    and text_id: "\<forall>i. parse_id (id_text T) (show_id (id_text T) i) = Ok i"
    and text_url: "\<forall>u. parse_url T (show_url T u) = Ok u"
    and text_sock: "\<forall>s. parse_sock T (show_sock T s) = Ok s"
    and json: "codec_good J (saf_from_addr A T addr)"
    and saved: "save_server_addr A T pid J dir addr w = (Ok u, w')"
    and reads: "faults w' (ticks w') = Fine"
  shows "\<exists>a. fst (load_server_addr A T J dir w') = Ok a \<and> addr_id A a = addr_id A addr
    \<and> relay_urls A a = take 1 (relay_urls A addr) \<and> ip_addrs A a = ip_addrs A addr"
proof -
  let ?path = "path_join dir SERVER_ADDR_FILE" and ?f = "saf_from_addr A T addr"
  define b where "b = (case first_relay A addr of None \<Rightarrow> addr_new A (addr_id A addr)
              | Some u \<Rightarrow> with_relay_url A (addr_new A (addr_id A addr)) u)"
  obtain body where body: "to_vec_pretty J ?f = Ok body" "files w' ?path = Some (body @ [CHR 0x0A])"
    using saved unfolding save_server_addr_def write_atomic_with_mode_def
    by (auto dest!: write_atomic_inner_split)
  have "saf_into_addr A T ?f = add_parsed_ip_addrs A T (map (show_sock T) (ip_addrs A addr)) b"
    using text_id text_url by (auto simp: saf_into_addr_def saf_from_addr_def b_def Let_def split: option.splits)
  also have "\<dots> = Ok (add_ip_addrs A (ip_addrs A addr) b)" using text_sock by (intro add_parsed_facts) simp
  finally have "fst (load_server_addr A T J dir w') = Ok (add_ip_addrs A (ip_addrs A addr) b)"
    using json body reads
    by (simp add: load_server_addr_def Let_def match_s_def fs_read_to_string_def fs_read_def
        next_fault_def codec_good_def)
  with rebuilt_facts [OF laws b_def, of "ip_addrs A addr"] show ?thesis by simp
qed

text \<open>Concrete parameters for the witnesses: ids, relays and socket addresses are truth values.\<close>

definition demo_addr_api :: "(bool, bool, bool, bool \<times> bool list \<times> bool list) addr_api" where
  "demo_addr_api =
    \<lparr>addr_new = (\<lambda>i. (i, [], [])),
     with_relay_url = (\<lambda>(i, us, ss) u. (i, if us = [] then [u] else us, ss)),
     with_ip_addr = (\<lambda>(i, us, ss) s. (i, us, s # ss)),
     addr_id = (\<lambda>(i, us, ss). i), relay_urls = (\<lambda>(i, us, ss). us),
     ip_addrs = (\<lambda>(i, us, ss). bset_collect ss)\<rparr>"

definition show_bit :: "bool \<Rightarrow> string" where
  "show_bit b = (if b then ''t'' else ''f'')"

definition parse_bit :: "string \<Rightarrow> bool result" where
  "parse_bit s = (if s = ''t'' then Ok True else if s = ''f'' then Ok False else bail ''not a bit'')"

definition demo_addr_text :: "(bool, bool, bool) addr_text" where
  "demo_addr_text =
    \<lparr>id_text = \<lparr>parse_id = parse_bit, show_id = show_bit\<rparr>, show_url = show_bit, parse_url = parse_bit,
     show_sock = show_bit, parse_sock = parse_bit\<rparr>"

definition demo_postcard :: "(bool, bool, bool) postcard" where
  "demo_postcard =
    \<lparr>to_stdvec = (\<lambda>w. case w of Variant0 d \<Rightarrow>
        show_bit (node_endpoint_id (node d))
        @ (case node_relay_url (node d) of None \<Rightarrow> ''-'' | Some u \<Rightarrow> show_bit u)
        @ show_bit (False \<in> set (node_direct_addrs (node d)))
        @ show_bit (True \<in> set (node_direct_addrs (node d))) @ wire_secret d),
     from_bytes = (\<lambda>b. case b of
        i # u # f # t # secret \<Rightarrow>
          Ok (Variant0 \<lparr>node = \<lparr>node_endpoint_id = (i = CHR ''t''),
              node_relay_url = (if u = CHR ''-'' then None else Some (u = CHR ''t'')),
              node_direct_addrs = (if f = CHR ''t'' then [False] else []) @ (if t = CHR ''t'' then [True] else [])\<rparr>,
            wire_secret = secret\<rparr>)
      | _ \<Rightarrow> bail ''short ticket'')\<rparr>"

definition demo_text_form :: ticket_text_form where
  "demo_text_form =
    \<lparr>encode_string = (\<lambda>b. ''drvthru'' @ b),
     decode_string = (\<lambda>s. ok_or ''bad prefix'' (strip_prefix ''drvthru'' s))\<rparr>"

lemma demo_addr_laws: "addr_laws demo_addr_api"
  by (auto simp: addr_laws_def demo_addr_api_def bset_collect_def)

definition demo_bit_env :: "(bool, bool \<times> bool list \<times> bool list) ticket_env" where
  "demo_bit_env =
    \<lparr>ids = id_text demo_addr_text, public_text = (\<lambda>secret. secret),
     compact_addr = compact_ticket_addr demo_addr_api,
     ticket_text = ticket_to_string demo_addr_api demo_postcard demo_text_form,
     ticket_json = demo_codec, process_id = 7\<rparr>"

theorem ticket_text_roundtrip_witness:
  "\<exists>t. ticket_from_str demo_addr_api demo_postcard demo_text_form ''drvthruf-ftsecret'' = Ok t
    \<and> ticket_secret t = ''secret''"
proof -
  let ?t = "ticket_generate demo_bit_env (False, [], [True, True]) ''secret''"
  note defs = demo_bit_env_def demo_addr_api_def demo_postcard_def demo_text_form_def ticket_generate_def
    encode_bytes_def ticket_wire_def compact_ticket_addr_def add_ip_addrs_def bset_collect_def
    first_relay_def show_bit_def ticket_to_string_def
  have str: "ticket_to_string demo_addr_api demo_postcard demo_text_form ?t = ''drvthruf-ftsecret''"
    by (simp add: defs)
  have compact: "compact_addr demo_bit_env = compact_ticket_addr demo_addr_api" by (simp add: demo_bit_env_def)
  have "from_bytes demo_postcard (encode_bytes demo_addr_api demo_postcard ?t) = Ok (ticket_wire demo_addr_api ?t)"
    by (simp add: defs)
  moreover have "decode_string demo_text_form (encode_string demo_text_form
      (encode_bytes demo_addr_api demo_postcard ?t)) = Ok (encode_bytes demo_addr_api demo_postcard ?t)"
    by (simp add: defs)
  ultimately show ?thesis
    using ticket_text_roundtrip [OF demo_addr_laws compact refl] str by metis
qed

definition demo_addr_codec :: "server_addr_file codec" where
  "demo_addr_codec =
    (let f = \<lparr>saf_endpoint_id = ''t'', saf_relay_url = Some ''f'', saf_direct_addrs = [''f'', ''t'']\<rparr> in
     \<lparr>to_vec_pretty = (\<lambda>v. if v = f then Ok ''{}'' else bail ''unknown''),
      from_str = (\<lambda>t. if t = ''{}'' @ [CHR 0x0A] then Ok f else bail ''unknown'')\<rparr>)"

theorem server_addr_file_roundtrip_witness:
  "\<exists>a. fst (load_server_addr demo_addr_api demo_addr_text demo_addr_codec ''/d''
        (snd (save_server_addr demo_addr_api demo_addr_text 7 demo_addr_codec ''/d''
          (True, [False], [True, False]) (demo_world [])))) = Ok a
    \<and> ip_addrs demo_addr_api a = [False, True]"
proof -
  let ?addr = "(True, [False], [True, False])"
  have f: "saf_from_addr demo_addr_api demo_addr_text ?addr
      = \<lparr>saf_endpoint_id = ''t'', saf_relay_url = Some ''f'', saf_direct_addrs = [''f'', ''t'']\<rparr>"
    by (simp add: saf_from_addr_def demo_addr_api_def demo_addr_text_def first_relay_def show_bit_def bset_collect_def)
  have bits: "parse_bit (show_bit b) = Ok b" for b by (simp add: parse_bit_def show_bit_def)
  have good: "codec_good demo_addr_codec (saf_from_addr demo_addr_api demo_addr_text ?addr)"
    by (simp add: codec_good_def f demo_addr_codec_def Let_def from_utf8_ascii is_ascii_def byte_def)
  obtain w' where saved: "save_server_addr demo_addr_api demo_addr_text 7 demo_addr_codec ''/d'' ?addr
      (demo_world []) = (Ok (), w')" and fine: "faults w' (ticks w') = Fine"
    by (simp add: save_server_addr_def f demo_addr_codec_def SERVER_ADDR_FILE_def Let_def drv_eval)
  have "\<exists>a. fst (load_server_addr demo_addr_api demo_addr_text demo_addr_codec ''/d'' w') = Ok a
    \<and> addr_id demo_addr_api a = addr_id demo_addr_api ?addr
    \<and> relay_urls demo_addr_api a = take 1 (relay_urls demo_addr_api ?addr)
    \<and> ip_addrs demo_addr_api a = ip_addrs demo_addr_api ?addr"
    by (rule server_addr_file_roundtrip [OF demo_addr_laws _ _ _ good saved fine])
      (simp_all add: demo_addr_text_def bits)
  moreover have "ip_addrs demo_addr_api ?addr = [False, True]"
    by (simp add: demo_addr_api_def bset_collect_def)
  ultimately show ?thesis unfolding saved snd_conv by metis
qed

end
