(* ===== verification/Process_Lock.thy ===== *)
theory Process_Lock
  imports Rust_Num
begin

text \<open>
  \<open>process_lock.rs\<close>: the text by which a lock names the process that owns it, and the decision
  whether that process still runs. The contents of \<open>/proc/<pid>/stat\<close> are a parameter, \<open>None\<close>
  where the file cannot be read; so is the target: off Linux no owner counts as live.
\<close>

type_synonym proc_stat = "u32 \<Rightarrow> string option"

record lock_owner =
  owner_pid :: u32
  owner_start :: "string option"

section \<open>The start time of a process\<close>

text \<open>\<open>s[s.rfind(p)? + p.len()..]\<close>: what follows the last occurrence of \<open>p\<close>.\<close>

fun after_last :: "string \<Rightarrow> string \<Rightarrow> string option" where
  "after_last p [] = strip_prefix p []"
| "after_last p (c # cs) =
    (case after_last p cs of Some r \<Rightarrow> Some r | None \<Rightarrow> strip_prefix p (c # cs))"

text \<open>\<open>Iterator::nth\<close>.\<close>

definition nth_item :: "nat \<Rightarrow> 'a list \<Rightarrow> 'a option" where
  "nth_item n xs = (if n < length xs then Some (xs ! n) else None)"

definition process_start_time :: "proc_stat \<Rightarrow> u32 \<Rightarrow> string option" where
  "process_start_time proc pid =
    Option.bind (proc pid) (\<lambda>stat.
    Option.bind (after_last '') '' stat) (\<lambda>rest.
    nth_item 19 (split_whitespace rest)))"

section \<open>Owner texts\<close>

definition current_owner_text :: "proc_stat \<Rightarrow> u32 \<Rightarrow> string" where
  "current_owner_text proc pid =
    (case process_start_time proc pid of
       Some start \<Rightarrow> show_word pid @ '':'' @ start
     | None \<Rightarrow> show_word pid)"

definition parse_owner :: "string \<Rightarrow> lock_owner option" where
  "parse_owner owner_text =
    (let t = trim owner_text;
         (pid, start) = (case split_once CHR '':'' t of
            Some (p, s) \<Rightarrow> (p, Some s)
          | None \<Rightarrow> (t, None))
     in map_option (\<lambda>n. \<lparr>owner_pid = n, owner_start = start\<rparr>) (parse_u32 pid))"

definition owner_is_live :: "bool \<Rightarrow> proc_stat \<Rightarrow> string \<Rightarrow> bool" where
  "owner_is_live linux proc owner_text =
    (case parse_owner owner_text of
       None \<Rightarrow> False
     | Some own \<Rightarrow>
         if linux then
           (case process_start_time proc (owner_pid own) of
              None \<Rightarrow> False
            | Some now \<Rightarrow> (case owner_start own of None \<Rightarrow> True | Some start \<Rightarrow> start = now))
         else False)"

declare nth_item_def [drv_eval] process_start_time_def [drv_eval] current_owner_text_def [drv_eval]
  parse_owner_def [drv_eval] owner_is_live_def [drv_eval]

section \<open>What the texts say\<close>

lemma after_last_Some_split: "after_last p s = Some r \<Longrightarrow> \<exists>a. s = a @ p @ r"
proof (induction s)
  case Nil
  then show ?case by simp
next
  case (Cons c cs)
  show ?case
  proof (cases "after_last p cs")
    case None
    with Cons.prems have "c # cs = [] @ p @ r" by simp
    then show ?thesis by blast
  next
    case (Some q)
    with Cons obtain a where "cs = a @ p @ r" by auto
    then have "c # cs = (c # a) @ p @ r" by simp
    then show ?thesis by blast
  qed
qed


text \<open>
  The command of a process stands in parentheses before the numeric fields and may itself
  contain any text, \<open>") "\<close> included: the last \<open>") "\<close> is the one that closes it.
\<close>

lemma after_last_none: "d \<notin> set s \<Longrightarrow> d \<in> set p \<Longrightarrow> after_last p s = None"
proof (rule ccontr)
  assume d: "d \<notin> set s" "d \<in> set p" and "after_last p s \<noteq> None"
  then obtain r where "after_last p s = Some r" by blast
  then obtain a where "s = a @ p @ r" using after_last_Some_split by blast
  with d show False by simp
qed

lemma after_last_paren: "CHR '')'' \<notin> set rest \<Longrightarrow> after_last '') '' (pre @ '') '' @ rest) = Some rest"
proof (induction pre)
  case Nil
  have "after_last '') '' ('' '' @ rest) = None"
    by (rule after_last_none [of "CHR '')''"]) (use Nil in simp_all)
  then show ?case by simp
next
  case (Cons c pre)
  then show ?case by simp
qed

lemma process_start_time_stat:
  "proc pid = Some (pre @ '') '' @ rest) \<Longrightarrow> CHR '')'' \<notin> set rest \<Longrightarrow>
   process_start_time proc pid = nth_item 19 (split_whitespace rest)"
  by (simp add: process_start_time_def after_last_paren del: append_Cons append.simps)

lemma parse_u32_show_word: "parse_u32 (show_word w) = Some w"
proof -
  have "unat w < 2 ^ LENGTH(32)" by (rule unsigned_less)
  then have "unat w \<le> 2 ^ 32 - 1" by simp
  then show ?thesis by (simp add: parse_u32_def show_word_def parse_unsigned_show_nat)
qed

lemma colon_not_digit: "is_ascii_digit c \<Longrightarrow> c \<noteq> CHR '':''"
  by (auto simp: is_ascii_digit_def byte_def)

lemma show_word_digits: "list_all is_ascii_digit (show_word w)"
  by (simp add: show_word_def show_nat_digits)

lemma show_word_visible: "list_all visible (show_word w)"
  using show_word_digits [of w] by (auto simp: list_all_iff intro: digit_visible)

lemma show_word_no_colon: "CHR '':'' \<notin> set (show_word w)"
  using show_word_digits [of w] by (auto simp: list_all_iff dest: colon_not_digit)

lemma colon_visible [simp]: "visible (CHR '':'')"
  by (simp add: visible_def is_ascii_def is_space_byte_def byte_def)

lemma parse_owner_pid_only: "parse_owner (show_word pid) = Some \<lparr>owner_pid = pid, owner_start = None\<rparr>"
proof -
  have "split_once CHR '':'' (show_word pid) = None" by (simp add: show_word_no_colon)
  then show ?thesis
    by (simp add: parse_owner_def Let_def trim_visible show_word_visible parse_u32_show_word
        del: split_once_None_iff)
qed

lemma parse_owner_with_start:
  assumes "list_all visible start"
  shows "parse_owner (show_word pid @ '':'' @ start) = Some \<lparr>owner_pid = pid, owner_start = Some start\<rparr>"
proof -
  have "trim (show_word pid @ '':'' @ start) = show_word pid @ '':'' @ start"
    using assms show_word_visible [of pid] by (intro trim_visible) simp
  moreover have "split_once CHR '':'' (show_word pid @ '':'' @ start) = Some (show_word pid, start)"
    by (simp add: split_once_Some_iff show_word_no_colon)
  ultimately show ?thesis by (simp add: parse_owner_def parse_u32_show_word)
qed

lemma parse_owner_empty [simp]: "parse_owner [] = None"
  by (simp add: drv_eval)

lemma owner_is_live_empty [simp]: "\<not> owner_is_live linux proc []"
  by (simp add: owner_is_live_def)

lemma owner_is_live_other_targets [simp]: "\<not> owner_is_live False proc txt"
  by (simp add: owner_is_live_def split: option.splits)

lemma owner_text_live:
  assumes "process_start_time proc pid = Some start" "list_all visible start"
  shows "owner_is_live True now (current_owner_text proc pid) \<longleftrightarrow> process_start_time now pid = Some start"
  using assms by (auto simp: owner_is_live_def current_owner_text_def
      parse_owner_with_start [simplified] split: option.splits)

lemma pid_text_live: "owner_is_live True now (show_word pid) \<longleftrightarrow> process_start_time now pid \<noteq> None"
  by (auto simp: owner_is_live_def parse_owner_pid_only split: option.splits)

end
