(* ===== verification/Ticket_Lock.thy ===== *)
theory Ticket_Lock
  imports Process_Lock
begin

text \<open>
  The lock of the ticket store (\<open>ticket.rs\<close>: \<open>lock_file\<close>, \<open>create_ticket_store_lock\<close>,
  \<open>remove_stale_ticket_store_lock\<close> and the \<open>Drop\<close> of \<open>TicketFileLock\<close>): a directory that the
  process that creates it marks with its owner text. Processes that share a data directory
  interleave at every system call, so the lock is a step relation: each process is at a
  point of \<open>lock_file\<close>, and each step is one system call of one process. A handle or directory that was
  opened keeps meaning the directory it was opened in, which a generation number tells
  apart from a later one of the same name. A process may also die at any point.
\<close>

record lock_files =
  dir_gen :: nat
  pid_file :: "string option"
  owner_file :: "string option"

text \<open>The points of \<open>lock_file\<close> at which a process waits for its next system call.\<close>

datatype lock_pc =
    Outside                 \<comment> \<open>not in \<open>lock_file\<close>, no lock held\<close>
  | Trying                  \<comment> \<open>before \<open>create_dir\<close>\<close>
  | Contending              \<comment> \<open>\<open>create_dir\<close> said \<open>AlreadyExists\<close>\<close>
  | Owner_Missed            \<comment> \<open>the file \<open>owner\<close> could not be read\<close>
  | Judged_Stale            \<comment> \<open>\<open>owner_is_live\<close> said no\<close>
  | Removing nat bool       \<comment> \<open>inside \<open>remove_dir_all\<close>; whether the loop goes on after it\<close>
  | Dir_Made                \<comment> \<open>before \<open>fs::write(pid)\<close>\<close>
  | Pid_Opened nat          \<comment> \<open>the file \<open>pid\<close> created or truncated\<close>
  | Pid_Written             \<comment> \<open>before \<open>fs::write(owner)\<close>\<close>
  | Owner_Opened nat        \<comment> \<open>the file \<open>owner\<close> created or truncated\<close>
  | Undoing                 \<comment> \<open>a write failed, before \<open>remove_dir_all\<close>\<close>
  | Holding                 \<comment> \<open>the guard \<open>TicketFileLock\<close> is alive\<close>
  | Gone                    \<comment> \<open>the process has ended\<close>

datatype lock_act =
    Enter | Mkdir | Mkdir_Exists | Mkdir_Fails
  | Open_Pid | Write_Pid | Open_Owner | Write_Owner | Setup_Fails
  | Look_Owner | Look_Owner_Fails | Look_Pid | Look_Pid_Missing | Look_Pid_Fails
  | Open_Dir | Unlink_Pid | Unlink_Owner | Rmdir | Removal_Stops
  | Die

record lock_sys =
  lock_dir :: "lock_files option"
  next_gen :: nat
  lock_pcs :: "u32 \<Rightarrow> lock_pc"

definition lock_start :: lock_sys where
  "lock_start = \<lparr>lock_dir = None, next_gen = 0, lock_pcs = (\<lambda>_. Outside)\<rparr>"

text \<open>What \<open>/proc\<close> shows while the system is in a state, given the line of each process.\<close>

definition proc_of :: "proc_stat \<Rightarrow> lock_sys \<Rightarrow> proc_stat" where
  "proc_of stats s p = (if lock_pcs s p = Gone then None else stats p)"

definition goto :: "u32 \<Rightarrow> lock_pc \<Rightarrow> lock_sys \<Rightarrow> lock_sys" where
  "goto p c s = s\<lparr>lock_pcs := (lock_pcs s)(p := c)\<rparr>"

definition with_dir :: "lock_files option \<Rightarrow> lock_sys \<Rightarrow> lock_sys" where
  "with_dir d s = s\<lparr>lock_dir := d\<rparr>"

text \<open>A write through a handle: bytes past the end of the new text stay.\<close>

definition overwrite :: "string \<Rightarrow> string option \<Rightarrow> string option" where
  "overwrite t old = map_option (\<lambda>o'. t @ drop (length t) o') old"

definition in_gen :: "nat \<Rightarrow> (lock_files \<Rightarrow> lock_files) \<Rightarrow> lock_files option \<Rightarrow> lock_files option" where
  "in_gen g f = map_option (\<lambda>d. if dir_gen d = g then f d else d)"

text \<open>Where a process goes once its \<open>remove_dir_all\<close> has ended, whether or not it succeeded.\<close>

fun before_removal :: "lock_pc \<Rightarrow> lock_pc option" where
  "before_removal Judged_Stale = Some Trying"
| "before_removal Undoing = Some Outside"
| "before_removal Holding = Some Outside"
| "before_removal _ = None"

fun after_removal :: "lock_pc \<Rightarrow> lock_pc option" where
  "after_removal (Removing g again) = Some (if again then Trying else Outside)"
| "after_removal c = before_removal c"

fun writing_owner :: "lock_pc \<Rightarrow> bool" where
  "writing_owner Dir_Made = True"
| "writing_owner (Pid_Opened g) = True"
| "writing_owner Pid_Written = True"
| "writing_owner (Owner_Opened g) = True"
| "writing_owner _ = False"

definition judge :: "bool \<Rightarrow> proc_stat \<Rightarrow> u32 \<Rightarrow> string \<Rightarrow> lock_sys \<Rightarrow> lock_sys" where
  "judge linux stats p txt s =
    goto p (if owner_is_live linux (proc_of stats s) txt then Trying else Judged_Stale) s"

inductive lock_step :: "bool \<Rightarrow> proc_stat \<Rightarrow> lock_sys \<Rightarrow> u32 \<times> lock_act \<Rightarrow> lock_sys \<Rightarrow> bool"
  for linux :: bool and stats :: proc_stat where
  enter: "lock_pcs s p = Outside \<Longrightarrow> lock_step linux stats s (p, Enter) (goto p Trying s)"
| mkdir: "lock_pcs s p = Trying \<Longrightarrow> lock_dir s = None \<Longrightarrow>
    lock_step linux stats s (p, Mkdir)
      (goto p Dir_Made
        (s\<lparr>lock_dir := Some \<lparr>dir_gen = next_gen s, pid_file = None, owner_file = None\<rparr>,
           next_gen := next_gen s + 1\<rparr>))"
| mkdir_exists: "lock_pcs s p = Trying \<Longrightarrow> lock_dir s = Some d \<Longrightarrow>
    lock_step linux stats s (p, Mkdir_Exists) (goto p Contending s)"
| mkdir_fails: "lock_pcs s p = Trying \<Longrightarrow>
    lock_step linux stats s (p, Mkdir_Fails) (goto p Outside s)"
| open_pid: "lock_pcs s p = Dir_Made \<Longrightarrow> lock_dir s = Some d \<Longrightarrow>
    lock_step linux stats s (p, Open_Pid)
      (goto p (Pid_Opened (dir_gen d)) (with_dir (Some (d\<lparr>pid_file := Some []\<rparr>)) s))"
| write_pid: "lock_pcs s p = Pid_Opened g \<Longrightarrow>
    lock_step linux stats s (p, Write_Pid)
      (goto p Pid_Written
        (with_dir (in_gen g (pid_file_update (overwrite (show_word p))) (lock_dir s)) s))"
| open_owner: "lock_pcs s p = Pid_Written \<Longrightarrow> lock_dir s = Some d \<Longrightarrow>
    lock_step linux stats s (p, Open_Owner)
      (goto p (Owner_Opened (dir_gen d)) (with_dir (Some (d\<lparr>owner_file := Some []\<rparr>)) s))"
| write_owner: "lock_pcs s p = Owner_Opened g \<Longrightarrow>
    lock_step linux stats s (p, Write_Owner)
      (goto p Holding
        (with_dir (in_gen g (owner_file_update
          (overwrite (current_owner_text (proc_of stats s) p))) (lock_dir s)) s))"
| setup_fails: "writing_owner (lock_pcs s p) \<Longrightarrow>
    lock_step linux stats s (p, Setup_Fails) (goto p Undoing s)"
| look_owner: "lock_pcs s p = Contending \<Longrightarrow> Option.bind (lock_dir s) owner_file = Some txt \<Longrightarrow>
    lock_step linux stats s (p, Look_Owner) (judge linux stats p txt s)"
| look_owner_fails: "lock_pcs s p = Contending \<Longrightarrow>
    lock_step linux stats s (p, Look_Owner_Fails) (goto p Owner_Missed s)"
| look_pid: "lock_pcs s p = Owner_Missed \<Longrightarrow> Option.bind (lock_dir s) pid_file = Some txt \<Longrightarrow>
    lock_step linux stats s (p, Look_Pid) (judge linux stats p txt s)"
| look_pid_missing: "lock_pcs s p = Owner_Missed \<Longrightarrow> Option.bind (lock_dir s) pid_file = None \<Longrightarrow>
    lock_step linux stats s (p, Look_Pid_Missing) (judge linux stats p [] s)"
| look_pid_fails: "lock_pcs s p = Owner_Missed \<Longrightarrow>
    lock_step linux stats s (p, Look_Pid_Fails) (judge linux stats p [] s)"
| open_dir: "before_removal (lock_pcs s p) = Some c \<Longrightarrow> lock_dir s = Some d \<Longrightarrow>
    lock_step linux stats s (p, Open_Dir) (goto p (Removing (dir_gen d) (c = Trying)) s)"
| unlink_pid: "lock_pcs s p = Removing g again \<Longrightarrow>
    lock_step linux stats s (p, Unlink_Pid)
      (with_dir (in_gen g (pid_file_update (\<lambda>_. None)) (lock_dir s)) s)"
| unlink_owner: "lock_pcs s p = Removing g again \<Longrightarrow>
    lock_step linux stats s (p, Unlink_Owner)
      (with_dir (in_gen g (owner_file_update (\<lambda>_. None)) (lock_dir s)) s)"
| rmdir: "lock_pcs s p = Removing g again \<Longrightarrow>
    lock_dir s = Some d \<Longrightarrow> pid_file d = None \<Longrightarrow> owner_file d = None \<Longrightarrow>
    lock_step linux stats s (p, Rmdir) (goto p (if again then Trying else Outside) (with_dir None s))"
| removal_stops: "after_removal (lock_pcs s p) = Some c \<Longrightarrow>
    lock_step linux stats s (p, Removal_Stops) (goto p c s)"
| die: "lock_pcs s p \<noteq> Gone \<Longrightarrow> lock_step linux stats s (p, Die) (goto p Gone s)"

inductive_simps lock_step_simps:
  "lock_step linux stats s (p, Enter) t"
  "lock_step linux stats s (p, Mkdir) t"
  "lock_step linux stats s (p, Mkdir_Exists) t"
  "lock_step linux stats s (p, Open_Pid) t"
  "lock_step linux stats s (p, Write_Pid) t"
  "lock_step linux stats s (p, Open_Owner) t"
  "lock_step linux stats s (p, Write_Owner) t"
  "lock_step linux stats s (p, Look_Owner) t"
  "lock_step linux stats s (p, Look_Owner_Fails) t"
  "lock_step linux stats s (p, Look_Pid_Missing) t"
  "lock_step linux stats s (p, Open_Dir) t"
  "lock_step linux stats s (p, Unlink_Pid) t"
  "lock_step linux stats s (p, Unlink_Owner) t"
  "lock_step linux stats s (p, Rmdir) t"
  "lock_step linux stats s (p, Removal_Stops) t"


section \<open>Runs whose windows do not overlap\<close>

text \<open>
  From the moment it has made the directory until it has written its owner text, and from a
  judgement until the end of the removal, a process is in a window in which the lock does
  not show who owns it. A step is orderly if no other process is in a window, and if a
  readable \<open>pid\<close> file is read. Death is orderly at any time.
\<close>

fun in_window :: "lock_pc \<Rightarrow> bool" where
  "in_window Outside = False"
| "in_window Trying = False"
| "in_window Contending = False"
| "in_window Holding = False"
| "in_window Gone = False"
| "in_window _ = True"

definition orderly :: "lock_sys \<Rightarrow> u32 \<times> lock_act \<Rightarrow> bool" where
  "orderly s e \<longleftrightarrow> snd e = Die
     \<or> snd e \<noteq> Look_Pid_Fails \<and> (\<forall>q. q \<noteq> fst e \<longrightarrow> \<not> in_window (lock_pcs s q))"

definition orderly_step :: "bool \<Rightarrow> proc_stat \<Rightarrow> lock_sys \<Rightarrow> u32 \<times> lock_act \<Rightarrow> lock_sys \<Rightarrow> bool" where
  "orderly_step linux stats s e t \<longleftrightarrow> lock_step linux stats s e t \<and> orderly s e"

text \<open>Points at which a process counts on the directory being its own, or on it being no one's.\<close>

definition exclusive :: "lock_pc \<Rightarrow> bool" where
  "exclusive c \<longleftrightarrow> c = Holding \<or> in_window c \<and> c \<noteq> Owner_Missed"

definition owner_of :: "proc_stat \<Rightarrow> u32 \<Rightarrow> string" where
  "owner_of stats p = current_owner_text stats p"

fun dir_fits :: "proc_stat \<Rightarrow> lock_files option \<Rightarrow> u32 \<Rightarrow> lock_pc \<Rightarrow> bool" where
  "dir_fits stats d p Dir_Made = (\<exists>g. d = Some \<lparr>dir_gen = g, pid_file = None, owner_file = None\<rparr>)"
| "dir_fits stats d p (Pid_Opened g) = (d = Some \<lparr>dir_gen = g, pid_file = Some [], owner_file = None\<rparr>)"
| "dir_fits stats d p Pid_Written =
    (\<exists>g. d = Some \<lparr>dir_gen = g, pid_file = Some (show_word p), owner_file = None\<rparr>)"
| "dir_fits stats d p (Owner_Opened g) =
    (d = Some \<lparr>dir_gen = g, pid_file = Some (show_word p), owner_file = Some []\<rparr>)"
| "dir_fits stats d p Holding =
    (\<exists>g. d = Some \<lparr>dir_gen = g, pid_file = Some (show_word p), owner_file = Some (owner_of stats p)\<rparr>)"
| "dir_fits stats d p _ = True"

definition lock_inv :: "proc_stat \<Rightarrow> lock_sys \<Rightarrow> bool" where
  "lock_inv stats s \<longleftrightarrow>
     (\<forall>p. dir_fits stats (lock_dir s) p (lock_pcs s p))
     \<and> (\<forall>p q. exclusive (lock_pcs s p) \<longrightarrow> exclusive (lock_pcs s q) \<longrightarrow> p = q)
     \<and> (\<forall>p q. in_window (lock_pcs s p) \<longrightarrow> in_window (lock_pcs s q) \<longrightarrow> p = q)"

lemma lock_inv_start: "lock_inv stats lock_start"
  by (simp add: lock_inv_def lock_start_def exclusive_def)

lemmas lock_sys_simps = goto_def with_dir_def judge_def in_gen_def overwrite_def

lemma dir_fits_others: "c = Holding \<or> dir_fits stats d p c = dir_fits stats d' p c \<or> in_window c"
  by (cases c) simp_all

text \<open>
  One process moves while no other is in a window: it keeps the invariant if the directory
  suits its new point and, should it become exclusive or change the directory, no other
  process holds the lock.
\<close>

lemma lock_inv_move:
  assumes inv: "lock_inv stats s"
    and quiet: "\<And>q. q \<noteq> p \<Longrightarrow> \<not> in_window (lock_pcs s q)"
    and fits: "dir_fits stats d p c"
    and alone: "exclusive c \<or> d \<noteq> lock_dir s \<Longrightarrow> \<forall>q. q \<noteq> p \<longrightarrow> lock_pcs s q \<noteq> Holding"
    and t: "lock_dir t = d" "lock_pcs t = (lock_pcs s)(p := c)"
  shows "lock_inv stats t"
proof -
  have others: "dir_fits stats d q (lock_pcs s q)" if "q \<noteq> p" for q
  proof (cases "lock_pcs s q = Holding")
    case True
    with alone that have "d = lock_dir s" by blast
    with inv show ?thesis by (simp add: lock_inv_def)
  next
    case False
    with quiet [OF that] inv show ?thesis
      using dir_fits_others [of "lock_pcs s q" stats d q "lock_dir s"] by (auto simp: lock_inv_def)
  qed
  have excl: "exclusive (lock_pcs s q) \<Longrightarrow> lock_pcs s q = Holding" if "q \<noteq> p" for q
    using quiet [OF that] by (simp add: exclusive_def)
  show ?thesis
    unfolding lock_inv_def t
  proof (intro conjI allI impI)
    fix q
    show "dir_fits stats d q (((lock_pcs s)(p := c)) q)" using fits others by simp
  next
    fix q r
    assume "exclusive (((lock_pcs s)(p := c)) q)" "exclusive (((lock_pcs s)(p := c)) r)"
    then show "q = r"
      using excl alone inv unfolding lock_inv_def by (metis fun_upd_apply)
  next
    fix q r
    assume "in_window (((lock_pcs s)(p := c)) q)" "in_window (((lock_pcs s)(p := c)) r)"
    then show "q = r" using quiet by (metis fun_upd_apply)
  qed
qed

definition proc_visible :: "proc_stat \<Rightarrow> bool" where
  "proc_visible stats \<longleftrightarrow> (\<forall>p. \<exists>start. process_start_time stats p = Some start \<and> list_all visible start)"

lemma start_time_of: "process_start_time (proc_of stats s) p =
  (if lock_pcs s p = Gone then None else process_start_time stats p)"
  by (simp add: process_start_time_def proc_of_def)

lemma owner_text_of: "lock_pcs s p \<noteq> Gone \<Longrightarrow> current_owner_text (proc_of stats s) p = owner_of stats p"
  by (simp add: current_owner_text_def owner_of_def start_time_of)

text \<open>The texts of a running owner are judged live.\<close>

lemma holder_is_live:
  assumes "proc_visible stats" "lock_pcs s q = Holding"
  shows "owner_is_live True (proc_of stats s) (owner_of stats q)"
    "owner_is_live True (proc_of stats s) (show_word q)"
proof -
  obtain start where start: "process_start_time stats q = Some start" "list_all visible start"
    using assms(1) by (auto simp: proc_visible_def)
  show "owner_is_live True (proc_of stats s) (owner_of stats q)"
    using owner_text_live [OF start] start assms(2) by (simp add: start_time_of owner_of_def)
  show "owner_is_live True (proc_of stats s) (show_word q)"
    using start assms(2) by (simp add: pid_text_live start_time_of)
qed

lemma holder_dir: "lock_inv stats s \<Longrightarrow> lock_pcs s q = Holding \<Longrightarrow>
  \<exists>g. lock_dir s = Some \<lparr>dir_gen = g, pid_file = Some (show_word q), owner_file = Some (owner_of stats q)\<rparr>"
  unfolding lock_inv_def by (metis dir_fits.simps(5))

lemma exclusive_alone: "lock_inv stats s \<Longrightarrow> exclusive (lock_pcs s p) \<Longrightarrow> q \<noteq> p \<Longrightarrow> lock_pcs s q \<noteq> Holding"
  unfolding lock_inv_def by (metis exclusive_def)

lemma judged_stale_unheld:
  assumes "proc_visible stats" "lock_inv stats s"
    and "Option.bind (lock_dir s) owner_file = Some txt \<or> Option.bind (lock_dir s) pid_file = Some txt"
    and "\<not> owner_is_live True (proc_of stats s) txt"
  shows "lock_pcs s q \<noteq> Holding"
proof
  assume q: "lock_pcs s q = Holding"
  with assms(2,3) have "txt = owner_of stats q \<or> txt = show_word q"
    using holder_dir [of stats s q] by auto
  with holder_is_live [OF assms(1) q] assms(4) show False by blast
qed

lemma lock_inv_die:
  assumes "lock_inv stats s"
  shows "lock_inv stats (goto p Gone s)"
  using assms by (auto simp: lock_inv_def goto_def exclusive_def)


lemma judged_inv:
  assumes vis: "proc_visible stats" and inv: "lock_inv stats s"
    and quiet: "\<And>q. q \<noteq> p \<Longrightarrow> \<not> in_window (lock_pcs s q)"
    and said: "Option.bind (lock_dir s) owner_file = Some txt \<or> Option.bind (lock_dir s) pid_file = Some txt
      \<or> (\<forall>q. lock_pcs s q \<noteq> Holding)"
  shows "lock_inv stats (judge True stats p txt s)"
proof -
  have unheld: "\<not> owner_is_live True (proc_of stats s) txt \<Longrightarrow> lock_pcs s q \<noteq> Holding" for q
    using judged_stale_unheld [OF vis inv] said by blast
  show ?thesis
    by (rule lock_inv_move [OF inv quiet, where d = "lock_dir s"])
      (use unheld in \<open>auto simp: judge_def goto_def exclusive_def split: if_splits\<close>)
qed

lemma orderly_lock_step_inv:
  assumes vis: "proc_visible stats" and inv: "lock_inv stats s"
    and step: "lock_step True stats s (p, act) t" and ord: "orderly s (p, act)"
  shows "lock_inv stats t"
proof (cases "act = Die")
  case True
  with step inv show ?thesis by cases (simp_all add: lock_inv_die)
next
  case False
  with ord have quiet: "\<And>q. q \<noteq> p \<Longrightarrow> \<not> in_window (lock_pcs s q)" and "act \<noteq> Look_Pid_Fails"
    by (auto simp: orderly_def)
  have fits: "dir_fits stats (lock_dir s) p (lock_pcs s p)" using inv by (simp add: lock_inv_def)
  have own: "exclusive (lock_pcs s p) \<Longrightarrow> \<forall>q. q \<noteq> p \<longrightarrow> lock_pcs s q \<noteq> Holding"
    using exclusive_alone [OF inv] by blast
  have free: "Option.bind (lock_dir s) pid_file = None \<Longrightarrow> lock_pcs s q \<noteq> Holding" for q
    using holder_dir [OF inv, of q] by auto
  have unheld: "lock_dir s = None \<Longrightarrow> \<forall>q. q \<noteq> p \<longrightarrow> lock_pcs s q \<noteq> Holding"
    using free by simp
  note move = lock_inv_move [OF inv quiet, of p]
  note unfold = goto_def with_dir_def in_gen_def overwrite_def exclusive_def
  from step \<open>act \<noteq> Look_Pid_Fails\<close> False show ?thesis
  proof cases
    case enter
    then show ?thesis by (intro move [where d = "lock_dir s"]) (auto simp: unfold)
  next
    case mkdir
    then show ?thesis
      by (intro move [where d = "lock_dir t"]) (use unheld in \<open>auto simp: unfold\<close>)
  next
    case (mkdir_exists d)
    then show ?thesis by (intro move [where d = "lock_dir s"]) (auto simp: unfold)
  next
    case mkdir_fails
    then show ?thesis by (intro move [where d = "lock_dir s"]) (auto simp: unfold)
  next
    case (open_pid d)
    then show ?thesis
      by (intro move [where d = "lock_dir t"]) (use fits own in \<open>auto simp: unfold\<close>)
  next
    case (write_pid g)
    then show ?thesis
      by (intro move [where d = "lock_dir t"]) (use fits own in \<open>auto simp: unfold\<close>)
  next
    case (open_owner d)
    then show ?thesis
      by (intro move [where d = "lock_dir t"]) (use fits own in \<open>auto simp: unfold\<close>)
  next
    case (write_owner g)
    then show ?thesis
      by (intro move [where d = "lock_dir t"]) (use fits own in \<open>auto simp: unfold owner_text_of\<close>)
  next
    case setup_fails
    then have "exclusive (lock_pcs s p)" by (cases "lock_pcs s p") (auto simp: exclusive_def)
    with setup_fails own show ?thesis by (intro move [where d = "lock_dir s"]) (auto simp: unfold)
  next
    case (look_owner t1)
    then show ?thesis using judged_inv [OF vis inv quiet] by blast
  next
    case look_owner_fails
    then show ?thesis by (intro move [where d = "lock_dir s"]) (auto simp: unfold)
  next
    case (look_pid t1)
    then show ?thesis using judged_inv [OF vis inv quiet] by blast
  next
    case look_pid_missing
    then show ?thesis using judged_inv [OF vis inv quiet] free by blast
  next
    case (open_dir c d)
    then have "exclusive (lock_pcs s p)" by (cases "lock_pcs s p") (auto simp: exclusive_def)
    with open_dir own show ?thesis by (intro move [where d = "lock_dir s"]) (auto simp: unfold)
  next
    case (unlink_pid g again)
    then show ?thesis
      by (intro move [where d = "lock_dir t" and c = "lock_pcs s p"])
        (use own in \<open>auto simp: unfold\<close>)
  next
    case (unlink_owner g again)
    then show ?thesis
      by (intro move [where d = "lock_dir t" and c = "lock_pcs s p"])
        (use own in \<open>auto simp: unfold\<close>)
  next
    case (rmdir g again d)
    then show ?thesis
      by (intro move [where d = "lock_dir t"]) (use own in \<open>auto simp: unfold\<close>)
  next
    case (removal_stops c)
    then have "c = Trying \<or> c = Outside" by (cases "lock_pcs s p") (auto split: if_splits)
    with removal_stops show ?thesis
      by (intro move [where d = "lock_dir s" and c = c]) (auto simp: unfold)
  qed simp_all
qed

lemma orderly_runs_inv:
  "runs (orderly_step True stats) lock_start es t \<Longrightarrow> proc_visible stats \<Longrightarrow> lock_inv stats t"
  by (rule runs_invariant [of "orderly_step True stats" lock_start es t "lock_inv stats"])
    (auto simp: orderly_step_def lock_inv_start intro: orderly_lock_step_inv)


section \<open>Runs in which they do\<close>

definition acquire_acts :: "u32 \<Rightarrow> (u32 \<times> lock_act) list" where
  "acquire_acts p = map (Pair p) [Open_Pid, Write_Pid, Open_Owner, Write_Owner]"

definition overlapping_run :: "(u32 \<times> lock_act) list" where
  "overlapping_run =
     [(1, Enter), (1, Mkdir), (2, Enter), (2, Mkdir_Exists), (2, Look_Owner_Fails), (2, Look_Pid_Missing),
      (2, Open_Dir), (2, Rmdir), (2, Mkdir)] @ acquire_acts 2 @ acquire_acts 1"

theorem lock_setup_race_admits_two_holders:
  "\<exists>t. runs (lock_step linux stats) lock_start overlapping_run t
     \<and> lock_pcs t 1 = Holding \<and> lock_pcs t 2 = Holding"
  by (simp add: overlapping_run_def acquire_acts_def lock_step_simps lock_start_def lock_sys_simps ex_bool_eq)


text \<open>
  Off Linux no owner counts as live, so a contender takes the lock of a process that runs
  and holds it, with every step orderly.
\<close>

definition takeover_run :: "(u32 \<times> lock_act) list" where
  "takeover_run =
     [(1, Enter), (1, Mkdir)] @ acquire_acts 1 @ [(2, Enter), (2, Mkdir_Exists), (2, Look_Owner),
      (2, Open_Dir), (2, Unlink_Pid), (2, Unlink_Owner), (2, Rmdir), (2, Mkdir)] @ acquire_acts 2"

theorem lock_is_taken_over_off_linux:
  "\<exists>t. runs (orderly_step False stats) lock_start takeover_run t
     \<and> lock_pcs t 1 = Holding \<and> lock_pcs t 2 = Holding"
  by (simp add: takeover_run_def acquire_acts_def lock_step_simps lock_start_def lock_sys_simps ex_bool_eq
      orderly_step_def orderly_def)

definition demo_stats :: proc_stat where
  "demo_stats p = Some (''1 (drv-thru) S 0 0 0 0 0 0 0 0 0 0 0 0 0 0 0 0 0 0 77 0'')"

lemma demo_stats_start: "process_start_time demo_stats p = Some ''77''"
  by (simp add: demo_stats_def drv_eval)


end
