(* ===== verification/Messages.thy ===== *)
theory Messages
  imports Rust_Num
begin

text \<open>\<open>protocol/messages.rs\<close>: the messages of the build protocol.\<close>

definition ALPN :: string where "ALPN = ''drv-thru/5''"
definition VERSION :: u32 where "VERSION = 5"

datatype output_mode = Nom | Plain

record hello =
  hello_version :: u32
  node_id :: string

record auth_ticket =
  auth_secret :: string

record auth_ok =
  client_name :: "string option"
  builder_public_key :: string

record build_request =
  installable :: string
  drv_path :: string
  request_output_paths :: "string list"
  output_mode :: output_mode
  rebuild :: bool

record path_list_chunk =
  chunk_paths :: "string list"
  chunk_done :: bool

record nix_log =
  log_line :: string

record build_finished =
  success :: bool
  finished_output_paths :: "string list"

record output_cache_ready =
  copy_paths :: "string list"

record cache_file_request =
  request_path :: string
  send_body :: bool

record cache_file_response =
  found :: bool
  byte_count :: u64

record error_message =
  message_text :: string

datatype message =
    Hello hello
  | AuthTrustedClient
  | AuthTicket auth_ticket
  | AuthOk auth_ok
  | BuildRequest build_request
  | BuildPaths path_list_chunk
  | BuildQueued
  | MissingPaths path_list_chunk
  | InputUploadReady
  | BuildStarted
  | NixLog nix_log
  | BuildFinished build_finished
  | OutputClosure path_list_chunk
  | OutputRequest path_list_chunk
  | OutputCacheReady output_cache_ready
  | OutputCacheDone
  | CacheFileRequest cache_file_request
  | CacheFileResponse cache_file_response
  | Done
  | Error error_message

text \<open>
  The text of a message in an error, \<open>{message:?}\<close>. The derived part is a parameter; the
  handwritten part replaces the secret.
\<close>

definition redacted_ticket :: string where
  "redacted_ticket =
    ''AuthTicket(AuthTicket { secret: '' @ [CHR 0x22] @ ''<redacted>'' @ [CHR 0x22] @ '' })''"

definition debug_message :: "(message \<Rightarrow> string) \<Rightarrow> message \<Rightarrow> string" where
  "debug_message derived m = (case m of AuthTicket _ \<Rightarrow> redacted_ticket | _ \<Rightarrow> derived m)"

end
