(* ===== verification/Wire.thy ===== *)
theory Wire
  imports Messages World
begin

text \<open>
  \<open>protocol/wire.rs\<close>: a message is framed as its length, four bytes in network order, and its
  JSON text, at most one MiB. \<open>serde_json\<close> is a parameter: \<open>ser\<close> and \<open>de\<close>. A stream is
  the bytes still to come and the bytes sent so far.
\<close>

definition MAX_MESSAGE_LEN :: nat where "MAX_MESSAGE_LEN = 1024 * 1024"

record stream_world = io_world +
  incoming :: string
  sent :: string

definition to_be_bytes :: "u32 \<Rightarrow> string" where
  "to_be_bytes n =
    [char_of (unat n div 2 ^ 24), char_of (unat n div 2 ^ 16), char_of (unat n div 2 ^ 8), char_of (unat n)]"

definition from_be_bytes :: "string \<Rightarrow> u32" where
  "from_be_bytes bytes = of_nat (fold (\<lambda>c acc. 256 * acc + byte c) bytes 0)"

definition stream_write_all :: "string \<Rightarrow> ('z stream_world_scheme, unit) step" where
  "stream_write_all bytes w =
    (case next_fault w of
       Fine \<Rightarrow> (Ok (), (ticked w)\<lparr>sent := sent w @ bytes\<rparr>)
     | Fault n \<Rightarrow> (Err (lib_error ''write_all''), (ticked w)\<lparr>sent := sent w @ take n bytes\<rparr>))"

definition stream_read_exact :: "nat \<Rightarrow> ('z stream_world_scheme, string) step" where
  "stream_read_exact n w =
    (case next_fault w of
       Fine \<Rightarrow>
         if n \<le> length (incoming w)
         then (Ok (take n (incoming w)), (ticked w)\<lparr>incoming := drop n (incoming w)\<rparr>)
         else (Err (lib_error ''read_exact''), (ticked w)\<lparr>incoming := []\<rparr>)
     | Fault k \<Rightarrow> (Err (lib_error ''read_exact''), ticked w))"

definition write_json :: "('m \<Rightarrow> string result) \<Rightarrow> 'm \<Rightarrow> ('z stream_world_scheme, unit) step" where
  "write_json ser message =
    bind_s (lift_r (with_context ''encode wire message'' (ser message))) (\<lambda>body.
    if MAX_MESSAGE_LEN < length body then
      lift_r (bail (''wire message too large: '' @ show_nat (length body) @ '' bytes''))
    else
      bind_s (lift_r (if length body < 2 ^ 32 then Ok (of_nat (length body) :: u32)
                      else Err (Context ''wire message length overflow'' (lib_error ''try_from''))))
        (\<lambda>len.
      bind_s (stream_write_all (to_be_bytes len)) (\<lambda>_.
      stream_write_all body)))"

definition read_json :: "(string \<Rightarrow> 'm result) \<Rightarrow> ('z stream_world_scheme, 'm) step" where
  "read_json de =
    bind_s (context_s ''read message length'' (stream_read_exact 4)) (\<lambda>len.
    let len = unat (from_be_bytes len) in
    if MAX_MESSAGE_LEN < len then
      lift_r (bail (''wire message too large: '' @ show_nat len @ '' bytes''))
    else
      bind_s (context_s ''read message body'' (stream_read_exact len)) (\<lambda>body.
      lift_r (with_context ''decode wire message'' (de body))))"

section \<open>The length prefix\<close>

lemma length_to_be_bytes [simp]: "length (to_be_bytes n) = 4"
  by (simp add: to_be_bytes_def)

lemma from_to_be_bytes: "from_be_bytes (to_be_bytes n) = n"
proof -
  have b: "byte (char_of k) = k mod 256" for k by (simp add: byte_def)
  let ?n = "unat n"
  define m1 where "m1 = ?n div 256"
  define m2 where "m2 = m1 div 256"
  define m3 where "m3 = m2 div 256"
  have div: "?n div 2 ^ 8 = m1" "?n div 2 ^ 16 = m2" "?n div 2 ^ 24 = m3"
    by (simp_all add: m1_def m2_def m3_def div_mult2_eq [symmetric])
  have "?n < 2 ^ 32" using unsigned_less [of n] by simp
  then have "m3 < 256" by (simp add: div(3) [symmetric] less_mult_imp_div_less)
  then have "256 * (256 * (256 * (m3 mod 256) + m2 mod 256) + m1 mod 256) + ?n mod 256 = ?n"
    by (simp add: m1_def m2_def m3_def)
  then have "fold (\<lambda>c acc. 256 * acc + byte c) (to_be_bytes n) 0 = ?n"
    unfolding to_be_bytes_def div by (simp add: b)
  then show ?thesis by (simp add: from_be_bytes_def)
qed

section \<open>Frames\<close>

text \<open>The bytes of a frame, and the messages in a sequence of bytes, read one after the other.\<close>

definition frame_of :: "string \<Rightarrow> string" where
  "frame_of body = to_be_bytes (of_nat (length body)) @ body"

definition unframe1 :: "(string \<Rightarrow> 'm result) \<Rightarrow> string \<Rightarrow> 'm result \<times> string" where
  "unframe1 de bytes =
    (if length bytes < 4 then (Err (Context ''read message length'' (lib_error ''read_exact'')), [])
     else
       let len = unat (from_be_bytes (take 4 bytes)); rest = drop 4 bytes in
       if MAX_MESSAGE_LEN < len then
         (Err (Msg (''wire message too large: '' @ show_nat len @ '' bytes'')), rest)
       else if length rest < len then
         (Err (Context ''read message body'' (lib_error ''read_exact'')), [])
       else (with_context ''decode wire message'' (de (take len rest)), drop len rest))"

definition quiet :: "'z io_world_scheme \<Rightarrow> bool" where
  "quiet w \<longleftrightarrow> faults w = (\<lambda>n. Fine)"

lemma read_json_eq:
  assumes "quiet w"
  shows "\<exists>k. read_json de w = (fst (unframe1 de (incoming w)),
      w\<lparr>ticks := k, incoming := snd (unframe1 de (incoming w))\<rparr>)"
proof -
  have fine: "next_fault v = Fine" if "faults v = faults w" for v :: "'z stream_world_scheme"
    using assms that by (simp add: quiet_def next_fault_def)
  show ?thesis
    by (auto simp: read_json_def unframe1_def bind_s_def context_s_def stream_read_exact_def fine
        ticked_def Let_def bail_def min_def not_less split: prod.splits)
qed

lemma length_frame: "length body < 2 ^ 32 \<Longrightarrow> unat (of_nat (length body) :: u32) = length body"
  by (simp add: unat_of_nat)

lemma unframe1_frame:
  assumes "length body \<le> MAX_MESSAGE_LEN"
  shows "unframe1 de (frame_of body @ rest) = (with_context ''decode wire message'' (de body), rest)"
proof -
  have "unat (of_nat (length body) :: u32) = length body"
    using assms by (intro length_frame) (simp add: MAX_MESSAGE_LEN_def)
  with assms show ?thesis by (simp add: unframe1_def frame_of_def from_to_be_bytes)
qed

lemma write_json_eq:
  assumes "quiet w"
  shows "write_json ser m w =
    (case ser m of
       Inl e \<Rightarrow> (Err (Context ''encode wire message'' e), w)
     | Inr body \<Rightarrow>
         if MAX_MESSAGE_LEN < length body
         then (Err (Msg (''wire message too large: '' @ show_nat (length body) @ '' bytes'')), w)
         else (Ok (), w\<lparr>ticks := ticks w + 2, sent := sent w @ frame_of body\<rparr>))"
proof -
  have fine: "next_fault v = Fine" if "faults v = faults w" for v :: "'z stream_world_scheme"
    using assms that by (simp add: quiet_def next_fault_def)
  show ?thesis
    by (auto simp: write_json_def bind_s_def stream_write_all_def fine ticked_def frame_of_def bail_def
        MAX_MESSAGE_LEN_def split: sum.splits)
qed

text \<open>Whole sequences of messages.\<close>

fun write_all_json :: "('m \<Rightarrow> string result) \<Rightarrow> 'm list \<Rightarrow> ('z stream_world_scheme, unit) step" where
  "write_all_json ser [] = ret ()"
| "write_all_json ser (m # ms) = bind_s (write_json ser m) (\<lambda>_. write_all_json ser ms)"

fun read_n_json :: "(string \<Rightarrow> 'm result) \<Rightarrow> nat \<Rightarrow> ('z stream_world_scheme, 'm list) step" where
  "read_n_json de 0 = ret []"
| "read_n_json de (Suc n) =
    bind_s (read_json de) (\<lambda>m. bind_s (read_n_json de n) (\<lambda>ms. ret (m # ms)))"

lemma write_all_json_Ok:
  assumes "write_all_json ser ms w = (Ok u, w')" "quiet w"
  shows "\<exists>bodies. list_all2 (\<lambda>m body. ser m = Ok body \<and> length body \<le> MAX_MESSAGE_LEN) ms bodies
    \<and> sent w' = sent w @ concat (map frame_of bodies) \<and> quiet w'"
  using assms
proof (induction ms arbitrary: w)
  case Nil
  then show ?case by simp
next
  case (Cons m ms)
  from Cons.prems obtain w1 where one: "write_json ser m w = (Ok (), w1)"
    and rest: "write_all_json ser ms w1 = (Ok u, w')"
    by (auto simp: bind_s_Ok_iff)
  from one obtain body where body: "ser m = Ok body" "length body \<le> MAX_MESSAGE_LEN"
    "w1 = w\<lparr>ticks := ticks w + 2, sent := sent w @ frame_of body\<rparr>"
    by (auto simp: write_json_eq [OF Cons.prems(2)] split: sum.splits if_splits)
  have "quiet w1" using Cons.prems(2) body(3) by (simp add: quiet_def)
  from Cons.IH [OF rest this] obtain bodies where
    "list_all2 (\<lambda>m body. ser m = Ok body \<and> length body \<le> MAX_MESSAGE_LEN) ms bodies"
    "sent w' = sent w1 @ concat (map frame_of bodies)" "quiet w'"
    by blast
  with body show ?case by (intro exI [of _ "body # bodies"]) simp
qed

lemma read_n_json_frames:
  assumes "list_all2 (\<lambda>m body. de body = Ok m \<and> length body \<le> MAX_MESSAGE_LEN) ms bodies"
    and "quiet w" and "incoming w = concat (map frame_of bodies) @ rest"
  shows "\<exists>w'. read_n_json de (length ms) w = (Ok ms, w') \<and> incoming w' = rest"
  using assms
proof (induction ms bodies arbitrary: w rule: list_all2_induct)
  case Nil
  then show ?case by simp
next
  case (Cons m ms body bodies)
  then have "unframe1 de (incoming w) = (Ok m, concat (map frame_of bodies) @ rest)"
    using unframe1_frame [of body de] by simp
  with read_json_eq [OF Cons.prems(1), of de] obtain k where
    one: "read_json de w = (Ok m, w\<lparr>ticks := k, incoming := concat (map frame_of bodies) @ rest\<rparr>)"
    by auto
  have "\<exists>w'. read_n_json de (length ms) (w\<lparr>ticks := k, incoming := concat (map frame_of bodies) @ rest\<rparr>)
      = (Ok ms, w') \<and> incoming w' = rest"
    using Cons.prems(1) by (intro Cons.IH) (simp_all add: quiet_def)
  with one show ?case by (auto simp: bind_s_def)
qed

text \<open>
  Messages written to the wire one after the other are read back in order.
\<close>

theorem wire_roundtrip:
  assumes "quiet w" and "quiet v" and "\<forall>m body. ser m = Ok body \<longrightarrow> de body = Ok m"
    and "write_all_json ser ms w = (Ok u, w')"
    and "sent w = []" and "incoming v = sent w' @ rest"
  shows "\<exists>v'. read_n_json de (length ms) v = (Ok ms, v') \<and> incoming v' = rest"
proof -
  obtain bodies where "list_all2 (\<lambda>m body. ser m = Ok body \<and> length body \<le> MAX_MESSAGE_LEN) ms bodies"
    and "sent w' = concat (map frame_of bodies)"
    using write_all_json_Ok [OF assms(4,1)] assms(5) by auto
  moreover from this(1) assms(3)
  have "list_all2 (\<lambda>m body. de body = Ok m \<and> length body \<le> MAX_MESSAGE_LEN) ms bodies"
    by (auto elim: list_all2_mono)
  from read_n_json_frames [OF this assms(2)] calculation(2) assms(6) show ?thesis by simp
qed

text \<open>A read consumes one frame of the stream, or fails as the frame does.\<close>

theorem read_json_reads_one_frame:
  assumes "quiet w"
  shows "fst (read_json de w) = Ok m \<and> incoming (snd (read_json de w)) = rest \<longleftrightarrow>
    (\<exists>len body. length len = 4 \<and> length body = unat (from_be_bytes len)
      \<and> length body \<le> 1048576 \<and> incoming w = len @ body @ rest \<and> de body = Ok m)"
proof -
  have "fst (unframe1 de s) = Ok m \<and> snd (unframe1 de s) = rest \<longleftrightarrow>
    (\<exists>len body. length len = 4 \<and> length body = unat (from_be_bytes len)
      \<and> length body \<le> 1048576 \<and> s = len @ body @ rest \<and> de body = Ok m)" (is "?l \<longleftrightarrow> ?r") for s
  proof
    assume ?l
    define n where "n = unat (from_be_bytes (take 4 s))"
    have "s = take 4 s @ take n (drop 4 s) @ drop n (drop 4 s)" by (metis append_take_drop_id)
    moreover from \<open>?l\<close> have "4 \<le> length s" "n \<le> 1048576" "n \<le> length (drop 4 s)"
      "de (take n (drop 4 s)) = Ok m" "rest = drop n (drop 4 s)"
      by (auto simp: unframe1_def Let_def MAX_MESSAGE_LEN_def not_less n_def add.commute split: if_splits)
    moreover from calculation have "length (take 4 s) = 4" "length (take n (drop 4 s)) = n" by simp_all
    ultimately show ?r unfolding n_def by metis
  next
    assume ?r
    then show ?l by (auto simp: unframe1_def Let_def MAX_MESSAGE_LEN_def)
  qed
  note exact = this
  obtain k where "read_json de w = (fst (unframe1 de (incoming w)),
      w\<lparr>ticks := k, incoming := snd (unframe1 de (incoming w))\<rparr>)"
    using read_json_eq [OF assms] by blast
  then have "fst (read_json de w) = fst (unframe1 de (incoming w))"
    "incoming (snd (read_json de w)) = snd (unframe1 de (incoming w))"
    by simp_all
  then show ?thesis by (simp only: exact)
qed

definition demo_stream :: "string \<Rightarrow> stream_world" where
  "demo_stream bytes =
    \<lparr>files = (\<lambda>p. None), clock = (\<lambda>n. None), faults = (\<lambda>n. Fine), ticks = 0,
     incoming = bytes, sent = []\<rparr>"

lemma quiet_demo_stream: "quiet (demo_stream bytes)"
  by (simp add: quiet_def demo_stream_def)

theorem wire_roundtrip_witness:
  "\<exists>v'. read_n_json Ok 2
      (demo_stream (frame_of ''hello'' @ frame_of ''you'' @ ''rest'')) = (Ok [''hello'', ''you''], v')
    \<and> incoming v' = ''rest''"
proof -
  obtain w' where "write_all_json Ok [''hello'', ''you''] (demo_stream []) = (Ok (), w')"
    and "sent w' = frame_of ''hello'' @ frame_of ''you''"
    using quiet_demo_stream [of "[]"]
    by (simp add: bind_s_def write_json_eq quiet_def MAX_MESSAGE_LEN_def) (simp add: demo_stream_def)
  from wire_roundtrip [OF quiet_demo_stream quiet_demo_stream _ this(1), of Ok "frame_of ''hello'' @ frame_of ''you'' @ ''rest''" "''rest''"] this(2)
  show ?thesis by (simp add: demo_stream_def numeral_2_eq_2)
qed

theorem read_json_reads_one_frame_witness:
  "fst (read_json Ok (demo_stream (to_be_bytes 2 @ ''abc''))) = Ok ''ab''
    \<and> incoming (snd (read_json Ok (demo_stream (to_be_bytes 2 @ ''abc'')))) = ''c''"
  unfolding read_json_reads_one_frame [OF quiet_demo_stream]
  by (rule exI [of _ "to_be_bytes 2"], rule exI [of _ "''ab''"])
    (simp add: from_to_be_bytes demo_stream_def)

end
