(* ===== verification/Channel.thy ===== *)
theory Channel
  imports Wire
begin

text \<open>
  The control stream at the level of messages: what the successive reads return, and the
  messages written so far. \<open>Wire\<close> frames the messages; the refinement at the end relates the
  two levels. A read under a timeout may time out, and a write may fail: the next fault decides.
\<close>

record chan_world = io_world +
  rx :: "message result list"
  tx :: "message list"

definition recv_message :: "('z chan_world_scheme, message) step" where
  "recv_message w =
    (case rx w of
       [] \<Rightarrow> (Err (Context ''read message length'' (lib_error ''read_exact'')), w)
     | r # rs \<Rightarrow> (r, w\<lparr>rx := rs\<rparr>))"

definition send_message :: "message \<Rightarrow> ('z chan_world_scheme, unit) step" where
  "send_message m w =
    (case next_fault w of
       Fine \<Rightarrow> (Ok (), (ticked w)\<lparr>tx := tx w @ [m]\<rparr>)
     | Fault n \<Rightarrow> (Err (lib_error ''write_json''), ticked w))"

text \<open>\<open>tokio::time::timeout(..).await.context("read timed out")??\<close> around a read.\<close>

definition recv_timed :: "('z chan_world_scheme, message) step" where
  "recv_timed w =
    (case next_fault w of
       Fine \<Rightarrow> recv_message (ticked w)
     | Fault n \<Rightarrow> (Err (Context ''read timed out'' (lib_error ''elapsed'')), ticked w))"

lemmas chan_defs = recv_message_def send_message_def recv_timed_def

declare chan_defs [drv_eval]

lemma recv_message_shrinks: "recv_message w = (Inr m, w') \<Longrightarrow> length (rx w') < length (rx w)"
  by (auto simp: recv_message_def split: list.splits)

lemma recv_timed_shrinks: "recv_timed w = (Inr m, w') \<Longrightarrow> length (rx w') < length (rx w)"
  by (auto simp: recv_timed_def ticked_def dest: recv_message_shrinks split: fault.splits)

section \<open>Two levels of one stream\<close>

text \<open>What the successive reads of a byte stream return; a failed read is the last one.\<close>

lemma unframe1_shrinks: "unframe1 de bytes = (Inr m, rest) \<Longrightarrow> length rest < length bytes"
  by (auto simp: unframe1_def Let_def split: if_splits)

function unframe :: "(string \<Rightarrow> 'm result) \<Rightarrow> string \<Rightarrow> 'm result list" where
  "unframe de bytes =
    (case unframe1 de bytes of
       (Inl e, rest) \<Rightarrow> [Inl e]
     | (Inr m, rest) \<Rightarrow> Inr m # unframe de rest)"
  by auto

termination
  by (relation "measure (\<lambda>(de, bytes). length bytes)") (auto dest!: unframe1_shrinks [OF sym])

declare unframe.simps [simp del]

text \<open>A byte stream and a message channel that carry the same messages.\<close>

definition same_stream ::
  "(message \<Rightarrow> string result) \<Rightarrow> (string \<Rightarrow> message result) \<Rightarrow> stream_world \<Rightarrow> chan_world \<Rightarrow> bool" where
  "same_stream ser de s c \<longleftrightarrow>
    quiet s \<and> quiet c \<and> rx c = unframe de (incoming s)
    \<and> list_all (\<lambda>m. is_ok (ser m)) (tx c)
    \<and> sent s = concat (map (\<lambda>m. case ser m of Inr body \<Rightarrow> frame_of body) (tx c))"

lemma same_stream_read:
  assumes "same_stream ser de s c"
  shows "fst (read_json de s) = fst (recv_message c)
    \<and> (is_ok (fst (recv_message c)) \<longrightarrow> same_stream ser de (snd (read_json de s)) (snd (recv_message c)))"
proof -
  have q: "quiet s" and rx: "rx c = unframe de (incoming s)"
    using assms by (simp_all add: same_stream_def)
  obtain k where rd: "read_json de s = (fst (unframe1 de (incoming s)),
      s\<lparr>ticks := k, incoming := snd (unframe1 de (incoming s))\<rparr>)"
    using read_json_eq [OF q] by blast
  show ?thesis
  proof (cases "unframe1 de (incoming s)")
    case (Pair r rest)
    show ?thesis
    proof (cases r)
      case (Inl e)
      with Pair rd rx show ?thesis by (simp add: recv_message_def unframe.simps [of de "incoming s"])
    next
      case (Inr m)
      with Pair have u: "unframe de (incoming s) = Inr m # unframe de rest"
        by (simp add: unframe.simps [of de "incoming s"])
      with Pair rd Inr assms show ?thesis by (simp add: recv_message_def same_stream_def quiet_def)
    qed
  qed
qed

lemma same_stream_write:
  assumes "same_stream ser de s c" and "ser m = Ok body" "length body \<le> MAX_MESSAGE_LEN"
  shows "fst (write_json ser m s) = Ok () \<and> fst (send_message m c) = Ok ()
    \<and> same_stream ser de (snd (write_json ser m s)) (snd (send_message m c))"
proof -
  have q: "quiet s" "quiet c" using assms(1) by (simp_all add: same_stream_def)
  from q(2) have "next_fault c = Fine" by (simp add: quiet_def next_fault_def)
  with assms q show ?thesis
    by (simp add: write_json_eq send_message_def ticked_def same_stream_def quiet_def)
qed

text \<open>Reads and writes on the bytes are reads and writes on the messages.\<close>



end
