(* ===== verification/Path_Chunks.thy ===== *)
theory Path_Chunks
  imports Channel
begin

text \<open>
  \<open>protocol/path_chunks.rs\<close>: a list of store chunk_paths travels as messages of at most 512 chunk_paths, the
  last one marked; the reader enforces limits on chunks, chunk_paths and bytes.
\<close>

definition PATH_CHUNK_SIZE :: nat where "PATH_CHUNK_SIZE = 512"
definition USIZE_MAX :: nat where "USIZE_MAX = 2 ^ 64 - 1"

record read_limits =
  limit_chunks :: nat
  limit_paths :: nat
  limit_bytes :: nat

datatype path_list_kind = Kind_BuildPaths | Kind_MissingPaths | Kind_OutputClosure | Kind_OutputRequest

record read_state =
  state_chunks :: nat
  path_bytes :: nat

fun write_each ::
  "(path_list_chunk \<Rightarrow> message) \<Rightarrow> nat \<Rightarrow> nat \<Rightarrow> string list list \<Rightarrow> ('z chan_world_scheme, unit) step" where
  "write_each make_message last_index index [] = ret ()"
| "write_each make_message last_index index (chunk # rest) =
    bind_s (send_message (make_message \<lparr>chunk_paths = chunk, chunk_done = (index = last_index)\<rparr>)) (\<lambda>_.
      write_each make_message last_index (Suc index) rest)"

definition write_paths :: "string list \<Rightarrow> (path_list_chunk \<Rightarrow> message) \<Rightarrow> ('z chan_world_scheme, unit) step" where
  "write_paths path_list make_message =
    (if path_list = [] then send_message (make_message \<lparr>chunk_paths = [], chunk_done = True\<rparr>)
     else
       let last_index = length (chunks_of PATH_CHUNK_SIZE path_list) - 1 in
       write_each make_message last_index 0 (chunks_of PATH_CHUNK_SIZE path_list))"

definition read_message_opt :: "bool \<Rightarrow> ('z chan_world_scheme, message) step" where
  "read_message_opt timeout = (if timeout then recv_timed else recv_message)"

definition read_chunk ::
  "(message \<Rightarrow> string) \<Rightarrow> path_list_kind \<Rightarrow> bool \<Rightarrow> string \<Rightarrow> ('z chan_world_scheme, path_list_chunk) step" where
  "read_chunk derived kind timeout unexpected_context =
    bind_s (read_message_opt timeout) (\<lambda>message.
      case (kind, message) of
        (Kind_BuildPaths, BuildPaths chunk) \<Rightarrow> ret chunk
      | (Kind_MissingPaths, MissingPaths chunk) \<Rightarrow> ret chunk
      | (Kind_OutputClosure, OutputClosure chunk) \<Rightarrow> ret chunk
      | (Kind_OutputRequest, OutputRequest chunk) \<Rightarrow> ret chunk
      | (_, Error err) \<Rightarrow> lift_r (bail (message_text err))
      | (_, message) \<Rightarrow> lift_r (bail (unexpected_context @ '': '' @ debug_message derived message)))"

definition total_bytes :: "string list \<Rightarrow> nat" where
  "total_bytes path_list = sum_list (map length path_list)"

text \<open>\<open>usize\<close> sums: the path count saturates, the byte count is checked.\<close>

definition check_limits ::
  "string list \<Rightarrow> path_list_chunk \<Rightarrow> read_state \<Rightarrow> read_limits \<Rightarrow> read_state result" where
  "check_limits path_list chunk state limits =
    (let state = state\<lparr>state_chunks := state_chunks state + 1\<rparr> in
     if limit_chunks limits < state_chunks state then
       bail (''path list exceeded '' @ show_nat (limit_chunks limits) @ '' chunks'')
     else if limit_paths limits < min (length path_list + length (chunk_paths chunk)) USIZE_MAX then
       bail (''path list exceeded '' @ show_nat (limit_paths limits) @ '' paths'')
     else
       let bytes = path_bytes state + total_bytes (chunk_paths chunk) in
       if USIZE_MAX < bytes then Err (Msg ''path list byte count overflow'')
       else if limit_bytes limits < bytes then
         bail (''path list exceeded '' @ show_nat (limit_bytes limits) @ '' bytes'')
       else Ok (state\<lparr>path_bytes := bytes\<rparr>))"

lemma read_chunk_shrinks: "read_chunk d kind t c w = (Inr chunk, w') \<Longrightarrow> length (rx w') < length (rx w)"
  by (auto simp: read_chunk_def read_message_opt_def bind_s_def
      dest: recv_message_shrinks recv_timed_shrinks
      split: prod.splits sum.splits if_splits path_list_kind.splits message.splits)

function read_loop ::
  "(message \<Rightarrow> string) \<Rightarrow> path_list_kind \<Rightarrow> bool \<Rightarrow> read_limits option \<Rightarrow> string \<Rightarrow> string list \<Rightarrow> read_state \<Rightarrow>
     ('z chan_world_scheme, string list) step" where
  "read_loop derived kind timeout limits unexpected_context path_list state w =
    (case read_chunk derived kind timeout unexpected_context w of
       (Inl e, w') \<Rightarrow> (Inl e, w')
     | (Inr chunk, w') \<Rightarrow>
         (case (case limits of
                  None \<Rightarrow> Ok state
                | Some limits \<Rightarrow> check_limits path_list chunk state limits) of
            Inl e \<Rightarrow> (Inl e, w')
          | Inr state \<Rightarrow>
              let path_list = path_list @ chunk_paths chunk in
              if chunk_done chunk then (Ok path_list, w')
              else read_loop derived kind timeout limits unexpected_context path_list state w'))"
  by pat_completeness auto

termination
  by (relation "measure (\<lambda>(d, kind, t, l, c, ps, st, w). length (rx w))")
    (auto dest!: read_chunk_shrinks [OF sym])

declare read_loop.simps [simp del]

definition read_paths ::
  "(message \<Rightarrow> string) \<Rightarrow> path_list_kind \<Rightarrow> bool \<Rightarrow> read_limits option \<Rightarrow> string \<Rightarrow> ('z chan_world_scheme, string list) step" where
  "read_paths derived kind timeout limits unexpected_context =
    read_loop derived kind timeout limits unexpected_context [] \<lparr>state_chunks = 0, path_bytes = 0\<rparr>"

definition read_with_timeout ::
  "(message \<Rightarrow> string) \<Rightarrow> path_list_kind \<Rightarrow> read_limits \<Rightarrow> string \<Rightarrow> ('z chan_world_scheme, string list) step" where
  "read_with_timeout derived kind limits unexpected_context =
    read_paths derived kind True (Some limits) unexpected_context"

text \<open>What every message keeps, a list keeps.\<close>

lemma keeps_write_paths:
  assumes "reflp R" "transp R" "\<And>c. keeps R (send_message (mk c))"
  shows "keeps R (write_paths ps mk)"
proof -
  have "keeps R (write_each mk n i cs)" for n i cs
  proof (induction cs arbitrary: i)
    case Nil
    show ?case using assms(1) by (simp only: write_each.simps keeps_ret)
  next
    case (Cons c cs)
    with assms show ?case unfolding write_each.simps by (intro keeps_bind_s)
  qed
  with assms show ?thesis by (simp add: write_paths_def Let_def)
qed

lemma keeps_read_chunk:
  assumes "reflp R" "transp R" "keeps R recv_message" "keeps R recv_timed"
  shows "keeps R (read_chunk d kind t c)"
proof -
  have "keeps R (read_message_opt t)" using assms by (simp add: read_message_opt_def)
  moreover have "keeps R (case (kind, message) of
        (Kind_BuildPaths, BuildPaths chunk) \<Rightarrow> ret chunk
      | (Kind_MissingPaths, MissingPaths chunk) \<Rightarrow> ret chunk
      | (Kind_OutputClosure, OutputClosure chunk) \<Rightarrow> ret chunk
      | (Kind_OutputRequest, OutputRequest chunk) \<Rightarrow> ret chunk
      | (_, Error err) \<Rightarrow> lift_r (bail (message_text err))
      | (_, message) \<Rightarrow> lift_r (bail (c @ '': '' @ debug_message d message)))" for message
    using assms(1) by (cases kind; cases message)
      (simp_all only: prod.case path_list_kind.case message.case keeps_ret keeps_lift_r)
  ultimately show ?thesis unfolding read_chunk_def using assms(2) by (intro keeps_bind_s)
qed

text \<open>What reading a chunk keeps, reading a list keeps.\<close>

lemma keeps_read_loop:
  assumes "reflp R" "transp R" "keeps R (read_chunk d kind t c)"
  shows "keeps R (read_loop d kind t limits c acc st)"
proof -
  have "R w (snd (read_loop d kind t limits c acc st w))" for w
    using assms
  proof (induction d kind t limits c acc st w rule: read_loop.induct)
    case (1 d kind t limits c acc st w)
    obtain r w1 where rd: "read_chunk d kind t c w = (r, w1)" by fastforce
    have o1: "R w w1" using 1(4) rd by (rule keepsD)
    show ?case
    proof (cases r)
      case (Inl e)
      with rd o1 show ?thesis by (simp add: read_loop.simps [of d])
    next
      case (Inr chunk)
      define lim where "lim = (case limits of None \<Rightarrow> Ok st | Some l \<Rightarrow> check_limits acc chunk st l)"
      show ?thesis
      proof (cases "\<exists>st1. lim = Inr st1 \<and> \<not> chunk_done chunk")
        case False
        with rd Inr o1 show ?thesis
          by (cases lim) (auto simp: read_loop.simps [of d] lim_def [symmetric])
      next
        case True
        then obtain st1 where st1: "lim = Inr st1" "\<not> chunk_done chunk" by blast
        have "R w1 (snd (read_loop d kind t limits c (acc @ chunk_paths chunk) st1 w1))"
          by (rule 1(1) [OF rd [symmetric] Inr st1(1) [unfolded lim_def] refl st1(2) 1(2-4)])
        with o1 1(3) have "R w (snd (read_loop d kind t limits c (acc @ chunk_paths chunk) st1 w1))"
          by (meson transpD)
        with rd Inr st1 show ?thesis
          by (simp add: read_loop.simps [of d kind t limits c acc] lim_def [symmetric])
      qed
    qed
  qed
  then show ?thesis by (simp add: keeps_def)
qed

lemma keeps_read_with_timeout:
  assumes "reflp R" "transp R" "keeps R recv_message" "keeps R recv_timed"
  shows "keeps R (read_with_timeout d kind l c)"
  unfolding read_with_timeout_def read_paths_def
  by (rule keeps_read_loop [OF assms(1,2) keeps_read_chunk [OF assms]])

section \<open>The messages of a list\<close>

fun kind_message :: "path_list_kind \<Rightarrow> path_list_chunk \<Rightarrow> message" where
  "kind_message Kind_BuildPaths c = BuildPaths c"
| "kind_message Kind_MissingPaths c = MissingPaths c"
| "kind_message Kind_OutputClosure c = OutputClosure c"
| "kind_message Kind_OutputRequest c = OutputRequest c"

fun mark_last :: "string list list \<Rightarrow> path_list_chunk list" where
  "mark_last [] = []"
| "mark_last [c] = [\<lparr>chunk_paths = c, chunk_done = True\<rparr>]"
| "mark_last (c # d # cs) = \<lparr>chunk_paths = c, chunk_done = False\<rparr> # mark_last (d # cs)"

definition chunk_messages :: "string list \<Rightarrow> path_list_chunk list" where
  "chunk_messages ps =
    (if ps = [] then [\<lparr>chunk_paths = [], chunk_done = True\<rparr>] else mark_last (chunks_of PATH_CHUNK_SIZE ps))"

lemma length_mark_last [simp]: "length (mark_last cs) = length cs"
  by (induction cs rule: mark_last.induct) auto

lemma paths_mark_last [simp]: "map chunk_paths (mark_last cs) = cs"
  by (induction cs rule: mark_last.induct) auto

lemma quiet_next: "quiet w \<Longrightarrow> next_fault w = Fine"
  by (simp add: quiet_def next_fault_def)

lemma write_each_eq:
  assumes "quiet w" "cs \<noteq> []" "last_index = index + length cs - 1"
  shows "\<exists>k. write_each mk last_index index cs w =
    (Ok (), w\<lparr>ticks := k, tx := tx w @ map mk (mark_last cs)\<rparr>)"
  using assms
proof (induction cs arbitrary: index w rule: mark_last.induct)
  case 1
  then show ?case by simp
next
  case (2 c)
  then show ?case by (auto simp: bind_s_def send_message_def quiet_next ticked_def)
next
  case (3 c d cs)
  let ?m = "mk \<lparr>chunk_paths = c, chunk_done = False\<rparr>"
  let ?w = "w\<lparr>ticks := Suc (ticks w), tx := tx w @ [?m]\<rparr>"
  have "quiet ?w" using 3(2) by (simp add: quiet_def)
  with 3 obtain k where "write_each mk last_index (Suc index) (d # cs) ?w =
      (Ok (), ?w\<lparr>ticks := k, tx := tx ?w @ map mk (mark_last (d # cs))\<rparr>)"
    by fastforce
  moreover have "send_message ?m w = (Ok (), ?w)"
    using 3(2) by (simp add: send_message_def quiet_next ticked_def)
  moreover have "index \<noteq> last_index" using 3(4) by simp
  ultimately show ?case by (auto simp: bind_s_def)
qed

lemma write_paths_eq:
  assumes "quiet w"
  shows "\<exists>k. write_paths ps mk w = (Ok (), w\<lparr>ticks := k, tx := tx w @ map mk (chunk_messages ps)\<rparr>)"
proof (cases "ps = []")
  case True
  with assms show ?thesis
    by (auto simp: write_paths_def chunk_messages_def send_message_def quiet_next ticked_def)
next
  case False
  then have "chunks_of PATH_CHUNK_SIZE ps \<noteq> []" by (simp add: PATH_CHUNK_SIZE_def)
  from write_each_eq [OF assms this, of _ 0 mk] False show ?thesis
    by (simp add: write_paths_def chunk_messages_def Let_def)
qed

lemma concat_chunk_messages: "concat (map chunk_paths (chunk_messages ps)) = ps"
  by (simp add: chunk_messages_def PATH_CHUNK_SIZE_def concat_chunks_of)

text \<open>A complete list: the last chunk is marked, and no other.\<close>

definition complete_list :: "path_list_chunk list \<Rightarrow> bool" where
  "complete_list cs \<longleftrightarrow> cs \<noteq> [] \<and> chunk_done (last cs) \<and> list_all (\<lambda>c. \<not> chunk_done c) (butlast cs)"

lemma complete_list_Cons:
  "complete_list (c # cs) \<longleftrightarrow> (if chunk_done c then cs = [] else complete_list cs)"
  by (auto simp: complete_list_def list_all_iff)

lemma complete_mark_last: "cs \<noteq> [] \<Longrightarrow> complete_list (mark_last cs)"
  by (induction cs rule: mark_last.induct) (auto simp: complete_list_Cons)

lemma complete_chunk_messages: "complete_list (chunk_messages ps)"
proof (cases "ps = []")
  case True
  then show ?thesis by (simp add: chunk_messages_def complete_list_def)
next
  case False
  then have "chunks_of PATH_CHUNK_SIZE ps \<noteq> []" by (simp add: PATH_CHUNK_SIZE_def)
  with False show ?thesis by (simp add: chunk_messages_def complete_mark_last)
qed

lemma length_chunk_messages: "512 * length (chunk_messages ps) \<le> max 512 (length ps + 511)"
  using length_chunks_of [of PATH_CHUNK_SIZE ps]
  by (auto simp: chunk_messages_def PATH_CHUNK_SIZE_def)

section \<open>What a reader accepts\<close>

definition within :: "read_limits option \<Rightarrow> nat \<Rightarrow> string list \<Rightarrow> bool" where
  "within limits n ps \<longleftrightarrow>
    (case limits of None \<Rightarrow> True
     | Some l \<Rightarrow> n \<le> limit_chunks l \<and> min (length ps) USIZE_MAX \<le> limit_paths l
         \<and> total_bytes ps \<le> limit_bytes l \<and> total_bytes ps \<le> USIZE_MAX)"

lemma total_bytes_append [simp]: "total_bytes (a @ b) = total_bytes a + total_bytes b"
  by (simp add: total_bytes_def)

lemma within_prefix: "within l m (ps @ qs) \<Longrightarrow> n \<le> m \<Longrightarrow> within l n ps"
  by (auto simp: within_def split: option.splits)

lemma check_limits_Ok_iff:
  "check_limits ps chunk st l = Ok st' \<longleftrightarrow>
     st' = \<lparr>state_chunks = state_chunks st + 1, path_bytes = path_bytes st + total_bytes (chunk_paths chunk)\<rparr>
     \<and> state_chunks st + 1 \<le> limit_chunks l
     \<and> min (length ps + length (chunk_paths chunk)) USIZE_MAX \<le> limit_paths l
     \<and> path_bytes st + total_bytes (chunk_paths chunk) \<le> USIZE_MAX
     \<and> path_bytes st + total_bytes (chunk_paths chunk) \<le> limit_bytes l"
  by (cases st) (auto simp: check_limits_def Let_def not_less)

lemma recv_message_eq:
  "recv_message w = (Inr m, w') \<longleftrightarrow> (\<exists>rs. rx w = Inr m # rs \<and> w' = w\<lparr>rx := rs\<rparr>)"
  by (auto simp: recv_message_def split: list.splits)

lemma read_message_opt_Ok:
  assumes "read_message_opt t w = (Inr m, w')"
  shows "\<exists>k rs. rx w = Inr m # rs \<and> w' = w\<lparr>ticks := k, rx := rs\<rparr>"
proof (cases t)
  case True
  with assms have "recv_message (ticked w) = (Inr m, w')"
    by (simp add: read_message_opt_def recv_timed_def split: fault.splits)
  then show ?thesis by (auto simp: recv_message_eq ticked_def)
next
  case False
  with assms have "recv_message w = (Inr m, w')" by (simp add: read_message_opt_def)
  then obtain rs where "rx w = Inr m # rs" "w' = w\<lparr>ticks := ticks w, rx := rs\<rparr>"
    by (auto simp: recv_message_eq)
  then show ?thesis by blast
qed

lemma read_chunk_Ok:
  assumes "read_chunk d kind t c w = (Inr chunk, w')"
  shows "\<exists>k rs. rx w = Inr (kind_message kind chunk) # rs \<and> w' = w\<lparr>ticks := k, rx := rs\<rparr>"
proof -
  from assms obtain m w1 where m: "read_message_opt t w = (Inr m, w1)"
    and chunk: "(case (kind, m) of
        (Kind_BuildPaths, BuildPaths chunk) \<Rightarrow> ret chunk
      | (Kind_MissingPaths, MissingPaths chunk) \<Rightarrow> ret chunk
      | (Kind_OutputClosure, OutputClosure chunk) \<Rightarrow> ret chunk
      | (Kind_OutputRequest, OutputRequest chunk) \<Rightarrow> ret chunk
      | (_, Error err) \<Rightarrow> lift_r (bail (message_text err))
      | (_, message) \<Rightarrow> lift_r (bail (c @ '': '' @ debug_message d message))) w1 = (Inr chunk, w')"
    unfolding read_chunk_def bind_s_Ok_iff by blast
  from chunk have "m = kind_message kind chunk \<and> w' = w1"
    by (cases kind; cases m) simp_all
  with read_message_opt_Ok [OF m] show ?thesis by blast
qed

lemma read_chunk_quiet:
  assumes "quiet w" "rx w = Inr (kind_message kind chunk) # rs"
  shows "\<exists>k. read_chunk d kind t c w = (Inr chunk, w\<lparr>ticks := k, rx := rs\<rparr>)"
proof -
  have "\<exists>k. read_message_opt t w = (Inr (kind_message kind chunk), w\<lparr>ticks := k, rx := rs\<rparr>)"
  proof (cases t)
    case True
    with assms show ?thesis
      by (auto simp: read_message_opt_def recv_timed_def quiet_next recv_message_def ticked_def)
  next
    case False
    with assms have "read_message_opt t w = (Inr (kind_message kind chunk), w\<lparr>ticks := ticks w, rx := rs\<rparr>)"
      by (simp add: read_message_opt_def recv_message_def)
    then show ?thesis by blast
  qed
  then show ?thesis by (cases kind) (auto simp: read_chunk_def bind_s_def)
qed

lemma read_loop_Ok:
  assumes "read_loop d kind t limits c acc st w = (Inr ps, w')"
    and "limits \<noteq> None \<longrightarrow> path_bytes st = total_bytes acc"
  shows "\<exists>cs k. rx w = map (\<lambda>c. Inr (kind_message kind c)) cs @ rx w' \<and> w' = w\<lparr>ticks := k, rx := rx w'\<rparr>
    \<and> complete_list cs \<and> ps = acc @ concat (map chunk_paths cs)
    \<and> within limits (state_chunks st + length cs) ps"
  using assms
proof (induction d kind t limits c acc st w rule: read_loop.induct)
  case (1 d kind t limits c acc st w)
  from 1(2) obtain chunk w1 where chunk: "read_chunk d kind t c w = (Inr chunk, w1)"
    by (cases "read_chunk d kind t c w") (auto simp: read_loop.simps [of d] split: sum.splits)
  from read_chunk_Ok [OF this] obtain k rs where rx: "rx w = Inr (kind_message kind chunk) # rs"
    and w1: "w1 = w\<lparr>ticks := k, rx := rs\<rparr>" by blast
  define lim where "lim = (case limits of None \<Rightarrow> Ok st | Some l \<Rightarrow> check_limits acc chunk st l)"
  from 1(2) chunk obtain st1 where st1: "lim = Ok st1"
    by (cases lim) (auto simp: read_loop.simps [of d] lim_def)
  have bytes: "path_bytes st1 = total_bytes (acc @ chunk_paths chunk)" if "limits \<noteq> None"
    using st1 1(3) that by (auto simp: lim_def check_limits_Ok_iff split: option.splits)
  show ?case
  proof (cases "chunk_done chunk")
    case True
    with 1(2) chunk st1 have "ps = acc @ chunk_paths chunk" "w' = w1"
      by (simp_all add: read_loop.simps [of d] lim_def [symmetric])
    moreover have "within limits (state_chunks st + 1) (acc @ chunk_paths chunk)"
      using st1 1(3) by (auto simp: within_def lim_def check_limits_Ok_iff split: option.splits)
    ultimately show ?thesis using rx w1 True
      by (intro exI [of _ "[chunk]"] exI [of _ k]) (simp add: complete_list_def)
  next
    case False
    with 1(2) chunk st1 have rest: "read_loop d kind t limits c (acc @ chunk_paths chunk) st1 w1 = (Inr ps, w')"
      by (simp add: read_loop.simps [of d kind t limits c acc] lim_def [symmetric])
    from 1(1) [OF chunk [symmetric] refl st1 [unfolded lim_def] refl False rest] bytes
    obtain cs k' where cs: "rx w1 = map (\<lambda>c. Inr (kind_message kind c)) cs @ rx w'"
      "w' = w1\<lparr>ticks := k', rx := rx w'\<rparr>" "complete_list cs"
      "ps = (acc @ chunk_paths chunk) @ concat (map chunk_paths cs)" "within limits (state_chunks st1 + length cs) ps"
      by blast
    have "within limits (state_chunks st + length (chunk # cs)) ps"
      using cs(5) st1 by (auto simp: within_def lim_def check_limits_Ok_iff split: option.splits)
    moreover have "w' = w\<lparr>ticks := k', rx := rx w'\<rparr>" using cs(2) w1 by simp
    moreover have "rx w = map (\<lambda>c. Inr (kind_message kind c)) (chunk # cs) @ rx w'"
      using rx cs(1) w1 by simp
    moreover have "complete_list (chunk # cs)" using cs(3) False by (simp add: complete_list_Cons)
    moreover have "ps = acc @ concat (map chunk_paths (chunk # cs))" using cs(4) by simp
    ultimately show ?thesis by blast
  qed
qed

lemma read_loop_quiet:
  assumes "quiet w" "rx w = map (\<lambda>c. Inr (kind_message kind c)) cs @ rest" "complete_list cs"
    and "limits \<noteq> None \<longrightarrow> path_bytes st = total_bytes acc"
    and "within limits (state_chunks st + length cs) (acc @ concat (map chunk_paths cs))"
  shows "\<exists>k. read_loop d kind t limits c acc st w = (Ok (acc @ concat (map chunk_paths cs)), w\<lparr>ticks := k, rx := rest\<rparr>)"
  using assms
proof (induction cs arbitrary: acc st w)
  case Nil
  then show ?case by (simp add: complete_list_def)
next
  case (Cons chunk cs)
  from read_chunk_quiet [OF Cons.prems(1)] Cons.prems(2) obtain k where
    chunk: "read_chunk d kind t c w = (Inr chunk, w\<lparr>ticks := k, rx := map (\<lambda>c. Inr (kind_message kind c)) cs @ rest\<rparr>)"
    by fastforce
  let ?w = "w\<lparr>ticks := k, rx := map (\<lambda>c. Inr (kind_message kind c)) cs @ rest\<rparr>"
  let ?st = "\<lparr>state_chunks = state_chunks st + 1, path_bytes = path_bytes st + total_bytes (chunk_paths chunk)\<rparr>"
  have pre: "within limits (state_chunks st + 1) (acc @ chunk_paths chunk)"
    using Cons.prems(5) within_prefix [of limits _ "acc @ chunk_paths chunk" "concat (map chunk_paths cs)"] by simp
  have lim: "(case limits of None \<Rightarrow> Ok st | Some l \<Rightarrow> check_limits acc chunk st l)
      = Ok (if limits = None then st else ?st)"
    using pre Cons.prems(4) by (auto simp: within_def check_limits_Ok_iff split: option.splits)
  show ?case
  proof (cases "chunk_done chunk")
    case True
    with Cons.prems(3) have "cs = []" by (simp add: complete_list_Cons)
    with True chunk lim show ?thesis by (subst read_loop.simps) auto
  next
    case False
    have "\<exists>k'. read_loop d kind t limits c (acc @ chunk_paths chunk) (if limits = None then st else ?st) ?w
        = (Ok ((acc @ chunk_paths chunk) @ concat (map chunk_paths cs)), ?w\<lparr>ticks := k', rx := rest\<rparr>)"
    proof (rule Cons.IH)
      show "quiet ?w" using Cons.prems(1) by (simp add: quiet_def)
      show "complete_list cs" using Cons.prems(3) False by (simp add: complete_list_Cons)
      show "limits \<noteq> None \<longrightarrow>
          path_bytes (if limits = None then st else ?st) = total_bytes (acc @ chunk_paths chunk)"
        using Cons.prems(4) by simp
      show "within limits (state_chunks (if limits = None then st else ?st) + length cs)
          ((acc @ chunk_paths chunk) @ concat (map chunk_paths cs))"
        using Cons.prems(5) by (auto simp: within_def split: option.splits)
    qed simp
    with False chunk lim show ?thesis by (subst read_loop.simps) auto
  qed
qed

text \<open>
  C22: A path list is accepted only as a complete run of chunks of its own kind, the last one
  marked, and only within the limits on chunks, paths and bytes; nothing else is consumed and
  nothing is sent.
\<close>

theorem read_paths_within_limits:
  "case read_paths d kind t limits c w of
     (Inl e, w') \<Rightarrow> True
   | (Inr ps, w') \<Rightarrow>
       \<exists>cs. rx w = map (\<lambda>c. Inr (kind_message kind c)) cs @ rx w' \<and> tx w' = tx w \<and> files w' = files w
         \<and> cs \<noteq> [] \<and> chunk_done (last cs) \<and> list_all (\<lambda>c. \<not> chunk_done c) (butlast cs)
         \<and> ps = concat (map chunk_paths cs)
         \<and> (case limits of None \<Rightarrow> True
            | Some l \<Rightarrow> length cs \<le> limit_chunks l \<and> min (length ps) USIZE_MAX \<le> limit_paths l
                \<and> total_bytes ps \<le> limit_bytes l)"
proof (cases "read_paths d kind t limits c w")
  case (Pair r w')
  show ?thesis
  proof (cases r)
    case (Inl e)
    with Pair show ?thesis by simp
  next
    case (Inr ps)
    with Pair have "read_loop d kind t limits c [] \<lparr>state_chunks = 0, path_bytes = 0\<rparr> w = (Inr ps, w')"
      by (simp add: read_paths_def)
    from read_loop_Ok [OF this] obtain cs k where cs: "rx w = map (\<lambda>c. Inr (kind_message kind c)) cs @ rx w'"
      "w' = w\<lparr>ticks := k, rx := rx w'\<rparr>" "complete_list cs" "ps = concat (map chunk_paths cs)"
      "within limits (length cs) ps"
      by (auto simp: total_bytes_def)
    have "tx w' = tx w" "files w' = files w" by (subst cs(2), simp)+
    with cs Pair Inr show ?thesis
      by (auto simp: complete_list_def within_def split: option.splits)
  qed
qed

text \<open>
  C23: A path list written in chunks and read under limits that admit it comes back as it was,
  and the rest of the stream is untouched.
\<close>

theorem path_list_roundtrip:
  assumes "quiet w" and "quiet v" and "tx w = []"
    and "write_paths ps (kind_message kind) w = (Ok (), w')"
    and "rx v = map Inr (tx w') @ rest"
    and "length ps \<le> limit_paths l" and "total_bytes ps \<le> limit_bytes l" and "total_bytes ps \<le> USIZE_MAX"
    and "max 512 (length ps + 511) \<le> 512 * limit_chunks l"
  shows "\<exists>v'. read_with_timeout d kind l c v = (Ok ps, v') \<and> rx v' = rest"
proof -
  let ?cs = "chunk_messages ps"
  have "tx w' = map (kind_message kind) ?cs"
    using write_paths_eq [OF assms(1), of ps "kind_message kind"] assms(3,4) by auto
  with assms(5) have rx: "rx v = map (\<lambda>c. Inr (kind_message kind c)) ?cs @ rest" by simp
  have "512 * length ?cs \<le> 512 * limit_chunks l"
    using length_chunk_messages [of ps] assms(9) by linarith
  then have "within (Some l) (0 + length ?cs) ([] @ concat (map chunk_paths ?cs))"
    using assms(6-8) by (simp add: within_def concat_chunk_messages)
  then have "\<exists>k. read_loop d kind True (Some l) c [] \<lparr>state_chunks = 0, path_bytes = 0\<rparr> v
      = (Ok ps, v\<lparr>ticks := k, rx := rest\<rparr>)"
    using read_loop_quiet [OF assms(2) rx complete_chunk_messages, of "Some l" "\<lparr>state_chunks = 0, path_bytes = 0\<rparr>" "[]" d True c]
    by (simp add: total_bytes_def within_def concat_chunk_messages)
  then show ?thesis by (auto simp: read_with_timeout_def read_paths_def)
qed

definition demo_chan :: "message result list \<Rightarrow> chan_world" where
  "demo_chan msgs =
    \<lparr>files = (\<lambda>p. None), clock = (\<lambda>n. Some 50), faults = (\<lambda>n. Fine), ticks = 0, rx = msgs, tx = []\<rparr>"

lemma quiet_demo_chan: "quiet (demo_chan msgs)"
  by (simp add: quiet_def demo_chan_def)

theorem path_list_roundtrip_witness:
  "\<exists>v'. read_with_timeout (\<lambda>m. []) Kind_MissingPaths \<lparr>limit_chunks = 2, limit_paths = 9, limit_bytes = 9\<rparr> ''ctx''
      (demo_chan [Ok (MissingPaths \<lparr>chunk_paths = [''a'', ''bc''], chunk_done = True\<rparr>), Ok Done]) = (Ok [''a'', ''bc''], v')
    \<and> rx v' = [Ok Done]"
proof -
  let ?l = "\<lparr>limit_chunks = 2, limit_paths = 9, limit_bytes = 9\<rparr>"
  let ?v = "demo_chan [Ok (MissingPaths \<lparr>chunk_paths = [''a'', ''bc''], chunk_done = True\<rparr>), Ok Done]"
  have msgs: "chunk_messages [''a'', ''bc''] = [\<lparr>chunk_paths = [''a'', ''bc''], chunk_done = True\<rparr>]"
    by (simp add: chunk_messages_def PATH_CHUNK_SIZE_def chunks_of.simps)
  obtain w' where w': "write_paths [''a'', ''bc''] (kind_message Kind_MissingPaths) (demo_chan []) = (Ok (), w')"
    "tx w' = [MissingPaths \<lparr>chunk_paths = [''a'', ''bc''], chunk_done = True\<rparr>]"
    using write_paths_eq [OF quiet_demo_chan [of "[]"], of "[''a'', ''bc'']" "kind_message Kind_MissingPaths"]
    by (auto simp: msgs demo_chan_def)
  show ?thesis
    by (rule path_list_roundtrip [OF quiet_demo_chan quiet_demo_chan _ w'(1)])
      (simp_all add: demo_chan_def w'(2) total_bytes_def USIZE_MAX_def)
qed

end
