(* ===== verification/Status_Registry.thy ===== *)
theory Status_Registry
  imports Json_Store
begin

text \<open>
  \<open>server/status.rs\<close>: the queued, active and recent builds, kept in memory under a mutex and
  written to \<open>status.json\<close> after every update. An update that cannot read the clock does not
  happen; one that cannot write the file has happened in memory all the same.
\<close>

definition STATUS_FILE :: string where "STATUS_FILE = ''status.json''"
definition STATUS_VERSION :: u32 where "STATUS_VERSION = 1"
definition MAX_SHORT_ERROR_CHARS :: nat where "MAX_SHORT_ERROR_CHARS = 512"

datatype build_result = Success | Failed | Build_Error

record queued_build_status =
  q_request_id :: string
  q_client_label :: string
  q_installable :: string
  q_queued_at_unix :: u64
  q_queued_for_seconds :: u64
  q_position :: nat

record active_build_status =
  a_request_id :: string
  a_client_label :: string
  a_installable :: string
  a_phase :: string
  a_queued_at_unix :: u64
  a_started_at_unix :: u64
  a_elapsed_seconds :: u64

record recent_build_status =
  r_request_id :: string
  r_client_label :: string
  r_installable :: string
  r_result :: build_result
  r_queued_at_unix :: u64
  r_started_at_unix :: "u64 option"
  r_finished_at_unix :: u64
  r_duration_seconds :: "u64 option"
  r_short_error :: "string option"

record server_status =
  s_endpoint_id :: string
  configured_concurrency :: nat
  active_count :: nat
  queued_count :: nat
  recent_limit :: nat
  started_at_unix :: u64
  updated_at_unix :: u64

record status_snapshot =
  snapshot_version :: u32
  server :: server_status
  queued :: "queued_build_status list"
  active :: "active_build_status list"
  recent :: "recent_build_status list"

record mutable_status =
  next_request_seq :: u64
  snapshot :: status_snapshot

record status_env =
  status_file :: string
  status_json :: "status_snapshot codec"
  status_pid :: nat

definition status_path :: "string \<Rightarrow> string" where
  "status_path dir = path_join dir STATUS_FILE"

text \<open>The first 512 characters, with a mark when that is not all.\<close>

fun truncate_error :: "string option \<Rightarrow> string option" where
  "truncate_error None = None"
| "truncate_error (Some error) =
    (let chars = utf8_chars error;
         truncated = concat (take MAX_SHORT_ERROR_CHARS chars)
     in if MAX_SHORT_ERROR_CHARS < length chars
        then Some (truncated @ [CHR 0x0A] @ ''[truncated]'')
        else Some truncated)"

section \<open>The updates\<close>

fun refresh_queued :: "u64 \<Rightarrow> nat \<Rightarrow> queued_build_status list \<Rightarrow> queued_build_status list" where
  "refresh_queued now index [] = []"
| "refresh_queued now index (q # qs) =
    q\<lparr>q_position := index + 1, q_queued_for_seconds := saturating_sub now (q_queued_at_unix q)\<rparr>
    # refresh_queued now (Suc index) qs"

definition refresh_snapshot :: "status_snapshot \<Rightarrow> u64 \<Rightarrow> status_snapshot" where
  "refresh_snapshot s now =
    s\<lparr>server := (server s)\<lparr>active_count := length (active s), queued_count := length (queued s),
                          updated_at_unix := now\<rparr>,
      queued := refresh_queued now 0 (queued s),
      active := map (\<lambda>a. a\<lparr>a_elapsed_seconds := saturating_sub now (a_started_at_unix a)\<rparr>) (active s)\<rparr>"

text \<open>\<open>iter().position(..)\<close> and \<open>Vec::remove\<close>: the first match, and the list without it.\<close>

fun take_first :: "('a \<Rightarrow> bool) \<Rightarrow> 'a list \<Rightarrow> ('a \<times> 'a list) option" where
  "take_first P [] = None"
| "take_first P (x # xs) =
    (if P x then Some (x, xs) else map_option (\<lambda>(y, ys). (y, x # ys)) (take_first P xs))"

definition enqueue_update :: "string \<Rightarrow> string \<Rightarrow> mutable_status \<Rightarrow> u64 \<Rightarrow> string \<times> mutable_status" where
  "enqueue_update client_label installable state now =
    (let seq = next_request_seq state + 1;
         request_id = ''build-'' @ show_word seq;
         entry = \<lparr>q_request_id = request_id, q_client_label = client_label, q_installable = installable,
                  q_queued_at_unix = now, q_queued_for_seconds = 0, q_position = 0\<rparr>
     in (request_id,
         state\<lparr>next_request_seq := seq,
               snapshot := (snapshot state)\<lparr>queued := queued (snapshot state) @ [entry]\<rparr>\<rparr>))"

definition start_update :: "string \<Rightarrow> mutable_status \<Rightarrow> u64 \<Rightarrow> unit \<times> mutable_status" where
  "start_update request_id state now =
    (case take_first (\<lambda>b. q_request_id b = request_id) (queued (snapshot state)) of
       None \<Rightarrow> ((), state)
     | Some (q, rest) \<Rightarrow>
         let entry = \<lparr>a_request_id = q_request_id q, a_client_label = q_client_label q,
               a_installable = q_installable q, a_phase = ''starting'',
               a_queued_at_unix = q_queued_at_unix q, a_started_at_unix = now, a_elapsed_seconds = 0\<rparr>
         in ((), state\<lparr>snapshot := (snapshot state)\<lparr>queued := rest,
                        active := active (snapshot state) @ [entry]\<rparr>\<rparr>))"

fun set_phase :: "string \<Rightarrow> string \<Rightarrow> active_build_status list \<Rightarrow> active_build_status list" where
  "set_phase request_id phase [] = []"
| "set_phase request_id phase (a # as) =
    (if a_request_id a = request_id then a\<lparr>a_phase := phase\<rparr> # as
     else a # set_phase request_id phase as)"

definition phase_update :: "string \<Rightarrow> string \<Rightarrow> mutable_status \<Rightarrow> u64 \<Rightarrow> unit \<times> mutable_status" where
  "phase_update request_id phase state now =
    ((), state\<lparr>snapshot := (snapshot state)\<lparr>active := set_phase request_id phase (active (snapshot state))\<rparr>\<rparr>)"

definition push_recent :: "recent_build_status \<Rightarrow> status_snapshot \<Rightarrow> status_snapshot" where
  "push_recent r s = s\<lparr>recent := take (recent_limit (server s)) (r # recent s)\<rparr>"

definition finish_update ::
  "string \<Rightarrow> build_result \<Rightarrow> string option \<Rightarrow> mutable_status \<Rightarrow> u64 \<Rightarrow> unit \<times> mutable_status" where
  "finish_update request_id result short_error state now =
    (let s = snapshot state in
     case take_first (\<lambda>b. a_request_id b = request_id) (active s) of
       Some (a, rest) \<Rightarrow>
         let r = \<lparr>r_request_id = a_request_id a, r_client_label = a_client_label a,
               r_installable = a_installable a, r_result = result,
               r_queued_at_unix = a_queued_at_unix a, r_started_at_unix = Some (a_started_at_unix a),
               r_finished_at_unix = now,
               r_duration_seconds = Some (saturating_sub now (a_started_at_unix a)),
               r_short_error = truncate_error short_error\<rparr>
         in ((), state\<lparr>snapshot := push_recent r (s\<lparr>active := rest\<rparr>)\<rparr>)
     | None \<Rightarrow>
       (case take_first (\<lambda>b. q_request_id b = request_id) (queued s) of
          Some (q, rest) \<Rightarrow>
            let r = \<lparr>r_request_id = q_request_id q, r_client_label = q_client_label q,
                  r_installable = q_installable q, r_result = result,
                  r_queued_at_unix = q_queued_at_unix q, r_started_at_unix = None,
                  r_finished_at_unix = now, r_duration_seconds = None,
                  r_short_error = truncate_error short_error\<rparr>
            in ((), state\<lparr>snapshot := push_recent r (s\<lparr>queued := rest\<rparr>)\<rparr>)
        | None \<Rightarrow> ((), state)))"

section \<open>The registry's operations\<close>

definition refreshed :: "mutable_status \<Rightarrow> u64 \<Rightarrow> mutable_status" where
  "refreshed state now = state\<lparr>snapshot := refresh_snapshot (snapshot state) now\<rparr>"

definition with_status_update ::
  "status_env \<Rightarrow> (mutable_status \<Rightarrow> u64 \<Rightarrow> 'a \<times> mutable_status) \<Rightarrow> mutable_status \<Rightarrow> 'z io_world_scheme \<Rightarrow>
     'a option \<times> mutable_status \<times> 'z io_world_scheme" where
  "with_status_update E upd state w =
    (case read_clock w of
       (Inl e, w1) \<Rightarrow> (None, state, w1)
     | (Inr now, w1) \<Rightarrow>
         (case upd state now of (result, state1) \<Rightarrow>
            let state2 = refreshed state1 now in
            case write_atomic (status_pid E) (status_json E) (status_file E) (snapshot state2)
                   ''encode status JSON'' w1 of
              (Inl e, w2) \<Rightarrow> (None, state2, w2)
            | (Inr _, w2) \<Rightarrow> (Some result, state2, w2)))"

definition persist_current ::
  "status_env \<Rightarrow> mutable_status \<Rightarrow> 'z io_world_scheme \<Rightarrow> unit result \<times> mutable_status \<times> 'z io_world_scheme" where
  "persist_current E state w =
    (case read_clock w of
       (Inl e, w1) \<Rightarrow> (Inl e, state, w1)
     | (Inr now, w1) \<Rightarrow>
         let state1 = refreshed state now in
         case write_atomic (status_pid E) (status_json E) (status_file E) (snapshot state1)
                ''encode status JSON'' w1 of
           (r, w2) \<Rightarrow> (r, state1, w2))"

definition status_new ::
  "status_env \<Rightarrow> string \<Rightarrow> nat \<Rightarrow> nat \<Rightarrow> 'z io_world_scheme \<Rightarrow>
     mutable_status result \<times> 'z io_world_scheme" where
  "status_new E endpoint concurrency limit w =
    (case read_clock w of
       (Inl e, w1) \<Rightarrow> (Inl e, w1)
     | (Inr now, w1) \<Rightarrow>
         let state = \<lparr>next_request_seq = 0,
               snapshot = \<lparr>snapshot_version = STATUS_VERSION,
                 server = \<lparr>s_endpoint_id = endpoint, configured_concurrency = concurrency,
                   active_count = 0, queued_count = 0, recent_limit = limit,
                   started_at_unix = now, updated_at_unix = now\<rparr>,
                 queued = [], active = [], recent = []\<rparr>\<rparr>
         in case persist_current E state w1 of
              (Inl e, _, w2) \<Rightarrow> (Inl e, w2)
            | (Inr _, state1, w2) \<Rightarrow> (Inr state1, w2))"

definition status_enqueue ::
  "status_env \<Rightarrow> string \<Rightarrow> string \<Rightarrow> mutable_status \<Rightarrow> 'z io_world_scheme \<Rightarrow>
     string \<times> mutable_status \<times> 'z io_world_scheme" where
  "status_enqueue E client_label installable state w =
    (case with_status_update E (enqueue_update client_label installable) state w of
       (Some request_id, r) \<Rightarrow> (request_id, r)
     | (None, r) \<Rightarrow> (''build-unknown'', r))"

definition status_start ::
  "status_env \<Rightarrow> string \<Rightarrow> mutable_status \<Rightarrow> 'z io_world_scheme \<Rightarrow> mutable_status \<times> 'z io_world_scheme" where
  "status_start E request_id state w = snd (with_status_update E (start_update request_id) state w)"

definition status_phase ::
  "status_env \<Rightarrow> string \<Rightarrow> string \<Rightarrow> mutable_status \<Rightarrow> 'z io_world_scheme \<Rightarrow> mutable_status \<times> 'z io_world_scheme" where
  "status_phase E request_id phase state w =
    snd (with_status_update E (phase_update request_id phase) state w)"

definition status_finish ::
  "status_env \<Rightarrow> string \<Rightarrow> build_result \<Rightarrow> string option \<Rightarrow> mutable_status \<Rightarrow> 'z io_world_scheme \<Rightarrow>
     mutable_status \<times> 'z io_world_scheme" where
  "status_finish E request_id result short_error state w =
    snd (with_status_update E (finish_update request_id result short_error) state w)"

definition has_live_builds :: "mutable_status \<Rightarrow> bool" where
  "has_live_builds state \<longleftrightarrow> queued (snapshot state) \<noteq> [] \<or> active (snapshot state) \<noteq> []"

text \<open>One turn of the heartbeat loop; a failed write is only reported.\<close>

definition heartbeat_turn ::
  "status_env \<Rightarrow> mutable_status \<Rightarrow> 'z io_world_scheme \<Rightarrow> mutable_status \<times> 'z io_world_scheme" where
  "heartbeat_turn E state w =
    (if has_live_builds state then snd (persist_current E state w) else (state, w))"

definition read_snapshot :: "status_env \<Rightarrow> string \<Rightarrow> ('z io_world_scheme, status_snapshot) step" where
  "read_snapshot E dir =
    (let path = status_path dir in
     match_s (fs_read_to_string path) (\<lambda>r.
       case r of
         Inr (Some t) \<Rightarrow> lift_r (with_context (''parse '' @ path) (from_str (status_json E) t))
       | Inr None \<Rightarrow> lift_r (Err (Context (''read '' @ path) (lib_error ''not found'')))
       | Inl err \<Rightarrow> lift_r (Err (Context (''read '' @ path) err))))"

lemmas status_update_defs = enqueue_update_def start_update_def phase_update_def finish_update_def
lemmas status_op_defs = status_enqueue_def status_start_def status_phase_def status_finish_def
  with_status_update_def persist_current_def

declare status_update_defs [drv_eval] status_op_defs [drv_eval] refresh_snapshot_def [drv_eval]
  refreshed_def [drv_eval] push_recent_def [drv_eval] STATUS_VERSION_def [drv_eval]
  STATUS_FILE_def [drv_eval] has_live_builds_def [drv_eval] status_path_def [drv_eval]

end
