(* ===== verification/Status_Board.thy ===== *)
theory Status_Board
  imports Status_Registry "HOL-Library.Multiset"
begin

text \<open>
  What \<open>server/status.rs\<close> promises: the abstract board maps the id of every live build to its
  stage. The interface \<open>status_board\<close> states how the operations move the stages; the registry's
  updates meet it whether or not the status file could be written.
\<close>

section \<open>The board\<close>

datatype stage = Waiting | Working string

locale status_board =
  fixes enqueue :: "'t \<Rightarrow> 's \<Rightarrow> 'i \<times> 's"
    and start :: "'t \<Rightarrow> 'i \<Rightarrow> 's \<Rightarrow> 's"
    and phase :: "'t \<Rightarrow> 'i \<Rightarrow> string \<Rightarrow> 's \<Rightarrow> 's"
    and finish :: "'t \<Rightarrow> 'i \<Rightarrow> 's \<Rightarrow> 's"
    and stage :: "'s \<Rightarrow> 'i \<Rightarrow> stage option"
    and inv :: "'s \<Rightarrow> bool"
    and room :: "'s \<Rightarrow> bool"
  assumes enqueue_fresh: "inv s \<Longrightarrow> room s \<Longrightarrow> enqueue n s = (i, t) \<Longrightarrow> stage s i = None"
    and enqueue_stage: "inv s \<Longrightarrow> room s \<Longrightarrow> enqueue n s = (i, t) \<Longrightarrow> stage t = (stage s)(i \<mapsto> Waiting)"
    and start_stage: "inv s \<Longrightarrow> stage (start n i s) =
      (if stage s i = Some Waiting then (stage s)(i \<mapsto> Working ''starting'') else stage s)"
    and phase_stage: "inv s \<Longrightarrow> stage (phase n i p s) =
      (case stage s i of Some (Working q) \<Rightarrow> (stage s)(i \<mapsto> Working p) | _ \<Rightarrow> stage s)"
    and finish_stage: "inv s \<Longrightarrow> stage (finish n i s) = (stage s)(i := None)"
    and enqueue_inv: "inv s \<Longrightarrow> room s \<Longrightarrow> enqueue n s = (i, t) \<Longrightarrow> inv t"
    and start_inv: "inv s \<Longrightarrow> inv (start n i s)"
    and phase_inv: "inv s \<Longrightarrow> inv (phase n i p s)"
    and finish_inv: "inv s \<Longrightarrow> inv (finish n i s)"
begin

lemma phases_inv: "inv s \<Longrightarrow> inv (fold (\<lambda>(n, p) s. phase n i p s) ps s)"
  by (induction ps arbitrary: s) (auto simp: phase_inv)

lemma phases_others: "inv s \<Longrightarrow> j \<noteq> i \<Longrightarrow> stage (fold (\<lambda>(n, p) s. phase n i p s) ps s) j = stage s j"
  by (induction ps arbitrary: s) (auto simp: phase_inv phase_stage split: option.splits stage.splits)

text \<open>A build that is queued, started, moved through its phases and finished leaves no trace.\<close>

lemma lifecycle:
  assumes "inv s" "room s" "enqueue n1 s = (i, t)"
  shows "stage (finish n3 i (fold (\<lambda>(n, p) s. phase n i p s) ps (start n2 i t))) = stage s"
proof
  fix j
  have inv: "inv t" "inv (start n2 i t)" "inv (fold (\<lambda>(n, p) s. phase n i p s) ps (start n2 i t))"
    using assms by (auto intro: enqueue_inv start_inv phases_inv)
  show "stage (finish n3 i (fold (\<lambda>(n, p) s. phase n i p s) ps (start n2 i t))) j = stage s j"
  proof (cases "j = i")
    case True
    with inv assms show ?thesis by (simp add: finish_stage enqueue_fresh)
  next
    case False
    with inv assms show ?thesis
      by (simp add: finish_stage phases_others start_stage enqueue_stage)
  qed
qed

text \<open>A build that is not live stays so, whatever is done to it or to others.\<close>

lemma finished_stays:
  "inv s \<Longrightarrow> stage s i = None \<Longrightarrow> stage (start n j s) i = None
     \<and> stage (phase n j p s) i = None \<and> stage (finish n j s) i = None"
  by (auto simp: start_stage phase_stage finish_stage split: option.splits stage.splits)

end

section \<open>The stage of a build in a snapshot\<close>

definition build_id :: "nat \<Rightarrow> string" where
  "build_id k = ''build-'' @ show_nat k"

definition live_ids :: "mutable_status \<Rightarrow> string list" where
  "live_ids st = map q_request_id (queued (snapshot st)) @ map a_request_id (active (snapshot st))"

definition stage_of :: "mutable_status \<Rightarrow> string \<Rightarrow> stage option" where
  "stage_of st i =
    (if i \<in> q_request_id ` set (queued (snapshot st)) then Some Waiting
     else map_option (Working \<circ> a_phase) (find (\<lambda>a. a_request_id a = i) (active (snapshot st))))"

definition status_inv :: "mutable_status \<Rightarrow> bool" where
  "status_inv st \<longleftrightarrow>
    distinct (live_ids st)
    \<and> set (live_ids st) \<subseteq> build_id ` {1..unat (next_request_seq st)}
    \<and> length (recent (snapshot st)) \<le> recent_limit (server (snapshot st))"

definition status_room :: "mutable_status \<Rightarrow> bool" where
  "status_room st \<longleftrightarrow> unat (next_request_seq st) + 1 < 2 ^ 64"

lemma build_id_inject [simp]: "build_id j = build_id k \<longleftrightarrow> j = k"
  by (simp add: build_id_def show_nat_inj)

lemma take_first_None_iff: "take_first P xs = None \<longleftrightarrow> (\<forall>x\<in>set xs. \<not> P x)"
  by (induction xs) auto

lemma take_first_Some:
  "take_first P xs = Some (x, rest) \<Longrightarrow> \<exists>a b. xs = a @ x # b \<and> rest = a @ b \<and> P x \<and> (\<forall>y\<in>set a. \<not> P y)"
proof (induction xs arbitrary: rest)
  case Nil
  then show ?case by simp
next
  case (Cons y ys)
  show ?case
  proof (cases "P y")
    case True
    with Cons.prems show ?thesis by (intro exI [of _ "[]"] exI [of _ ys]) auto
  next
    case False
    with Cons.prems obtain r where r: "take_first P ys = Some (x, r)" "rest = y # r"
      by auto
    from Cons.IH [OF r(1)] obtain a b where "ys = a @ x # b" "r = a @ b" "P x" "\<forall>z\<in>set a. \<not> P z"
      by blast
    with r False show ?thesis by (intro exI [of _ "y # a"] exI [of _ b]) auto
  qed
qed

lemma refresh_queued_ids [simp]: "map q_request_id (refresh_queued now k qs) = map q_request_id qs"
  by (induction now k qs rule: refresh_queued.induct) auto

lemma refresh_queued_id_set [simp]: "q_request_id ` set (refresh_queued now k qs) = q_request_id ` set qs"
  by (metis list.set_map refresh_queued_ids)

lemma length_refresh_queued [simp]: "length (refresh_queued now k qs) = length qs"
  by (metis length_map refresh_queued_ids)

lemma refresh_positions: "map q_position (refresh_queued now k qs) = [k + 1..<k + 1 + length qs]"
  by (induction now k qs rule: refresh_queued.induct) (auto simp: upt_rec)

lemma find_map_elapsed [simp]:
  "find (\<lambda>a. a_request_id a = i) (map (\<lambda>a. a\<lparr>a_elapsed_seconds := f a\<rparr>) as)
     = map_option (\<lambda>a. a\<lparr>a_elapsed_seconds := f a\<rparr>) (find (\<lambda>a. a_request_id a = i) as)"
  by (induction as) auto

lemma live_ids_refreshed [simp]: "live_ids (refreshed st now) = live_ids st"
  by (simp add: live_ids_def refreshed_def refresh_snapshot_def)

lemma stage_of_refreshed [simp]: "stage_of (refreshed st now) = stage_of st"
  by (rule ext) (simp add: stage_of_def refreshed_def refresh_snapshot_def option.map_comp comp_def)

lemma status_inv_refreshed [simp]: "status_inv (refreshed st now) \<longleftrightarrow> status_inv st"
  by (simp add: status_inv_def) (simp add: refreshed_def refresh_snapshot_def)

section \<open>The updates on the board\<close>

lemma set_phase_ids [simp]: "map a_request_id (set_phase i p as) = map a_request_id as"
  by (induction i p as rule: set_phase.induct) auto

lemma find_set_phase:
  "find (\<lambda>a. a_request_id a = j) (set_phase i p as) =
     (if i = j then map_option (\<lambda>a. a\<lparr>a_phase := p\<rparr>) (find (\<lambda>a. a_request_id a = j) as)
      else find (\<lambda>a. a_request_id a = j) as)"
  by (induction i p as rule: set_phase.induct) auto

lemma find_append: "find P (xs @ ys) = (case find P xs of None \<Rightarrow> find P ys | Some x \<Rightarrow> Some x)"
  by (induction xs) auto

lemma status_invD:
  assumes "status_inv st"
  shows "distinct (map q_request_id (queued (snapshot st)))"
    and "distinct (map a_request_id (active (snapshot st)))"
    and "q_request_id ` set (queued (snapshot st)) \<inter> a_request_id ` set (active (snapshot st)) = {}"
  using assms by (auto simp: status_inv_def live_ids_def)

lemma stage_of_None_iff: "stage_of st i = None \<longleftrightarrow> i \<notin> set (live_ids st)"
  by (auto simp: stage_of_def live_ids_def find_None_iff)

lemma not_live_new:
  assumes "status_inv st"
  shows "build_id (Suc (unat (next_request_seq st))) \<notin> set (live_ids st)"
proof
  assume "build_id (Suc (unat (next_request_seq st))) \<in> set (live_ids st)"
  with assms have "build_id (Suc (unat (next_request_seq st))) \<in> build_id ` {1..unat (next_request_seq st)}"
    by (auto simp: status_inv_def)
  then show False by auto
qed

lemma next_seq: "status_room st \<Longrightarrow> unat (next_request_seq st + 1) = Suc (unat (next_request_seq st))"
  by (simp add: status_room_def unat_word_ariths unat_plus_simple)

lemma enqueue_update_eq:
  assumes "status_room st" "enqueue_update label inst st now = (i, t)"
  shows "i = build_id (Suc (unat (next_request_seq st)))
    \<and> next_request_seq t = next_request_seq st + 1
    \<and> (\<exists>q. q_request_id q = i \<and> queued (snapshot t) = queued (snapshot st) @ [q])
    \<and> active (snapshot t) = active (snapshot st) \<and> recent (snapshot t) = recent (snapshot st)
    \<and> server (snapshot t) = server (snapshot st)"
  using assms by (auto simp: enqueue_update_def Let_def build_id_def show_word_def next_seq)

lemma enqueue_update_stage:
  assumes "status_inv st" "status_room st" "enqueue_update label inst st now = (i, t)"
  shows "stage_of st i = None \<and> stage_of t = (stage_of st)(i \<mapsto> Waiting) \<and> status_inv t"
proof -
  note t = enqueue_update_eq [OF assms(2,3)]
  have i: "i \<notin> set (live_ids st)" using not_live_new [OF assms(1)] t by simp
  have live: "mset (live_ids t) = mset (i # live_ids st)" using t by (auto simp: live_ids_def)
  then have set_live: "set (live_ids t) = insert i (set (live_ids st))" by (metis list.set(2) set_mset_mset)
  have "distinct (live_ids t)"
    using i assms(1) live by (metis distinct.simps(2) mset_eq_imp_distinct_iff status_inv_def)
  moreover have "unat (next_request_seq t) = Suc (unat (next_request_seq st))" using t assms(2) by (simp add: next_seq)
  with set_live t assms(1) have "set (live_ids t) \<subseteq> build_id ` {1..unat (next_request_seq t)}"
    by (auto simp: status_inv_def intro!: imageI)
  ultimately have "status_inv t" using assms(1) t by (simp add: status_inv_def)
  moreover have "stage_of t = (stage_of st)(i \<mapsto> Waiting)" using t by (auto simp: stage_of_def)
  ultimately show ?thesis using i by (simp add: stage_of_None_iff)
qed

lemma start_update_stage:
  assumes "status_inv st"
  shows "stage_of (snd (start_update i st now)) =
      (if stage_of st i = Some Waiting then (stage_of st)(i \<mapsto> Working ''starting'') else stage_of st)
    \<and> status_inv (snd (start_update i st now))"
proof (cases "take_first (\<lambda>b. q_request_id b = i) (queued (snapshot st))")
  case None
  then have "stage_of st i \<noteq> Some Waiting"
    by (auto simp: take_first_None_iff stage_of_def)
  with None assms show ?thesis by (simp add: start_update_def)
next
  case (Some p)
  obtain q rest where p: "p = (q, rest)" by fastforce
  from take_first_Some [OF Some [unfolded p]] obtain a b where
    ab: "queued (snapshot st) = a @ q # b" "rest = a @ b" "q_request_id q = i" by blast
  let ?t = "snd (start_update i st now)"
  have t: "queued (snapshot ?t) = a @ b"
    "active (snapshot ?t) = active (snapshot st) @ [\<lparr>a_request_id = i, a_client_label = q_client_label q,
       a_installable = q_installable q, a_phase = ''starting'', a_queued_at_unix = q_queued_at_unix q,
       a_started_at_unix = now, a_elapsed_seconds = 0\<rparr>]"
    "next_request_seq ?t = next_request_seq st" "recent (snapshot ?t) = recent (snapshot st)"
    "server (snapshot ?t) = server (snapshot st)"
    using Some p ab by (simp_all add: start_update_def Let_def)
  have live: "mset (live_ids ?t) = mset (live_ids st)" by (simp add: live_ids_def t ab)
  then have "distinct (live_ids ?t)" "set (live_ids ?t) = set (live_ids st)"
    using assms by (auto simp: status_inv_def dest: mset_eq_imp_distinct_iff mset_eq_setD)
  then have inv: "status_inv ?t" using assms t by (simp add: status_inv_def)
  have i: "i \<notin> q_request_id ` set (a @ b)" "i \<notin> a_request_id ` set (active (snapshot st))"
    using assms ab by (auto simp: status_inv_def live_ids_def)
  have "stage_of st i = Some Waiting" using ab by (auto simp: stage_of_def)
  moreover have "stage_of ?t = (stage_of st)(i \<mapsto> Working ''starting'')"
  proof
    fix j
    have "find (\<lambda>a. a_request_id a = i) (active (snapshot st)) = None"
      using i(2) by (auto simp: find_None_iff)
    then show "stage_of ?t j = ((stage_of st)(i \<mapsto> Working ''starting'')) j"
      using i ab by (auto simp: stage_of_def t find_append split: option.splits)
  qed
  ultimately show ?thesis using inv by simp
qed

lemma phase_update_stage:
  assumes "status_inv st"
  shows "stage_of (snd (phase_update i p st now)) =
      (case stage_of st i of Some (Working q) \<Rightarrow> (stage_of st)(i \<mapsto> Working p) | _ \<Rightarrow> stage_of st)
    \<and> status_inv (snd (phase_update i p st now))"
proof -
  let ?t = "snd (phase_update i p st now)"
  have ids: "live_ids ?t = live_ids st" by (simp add: live_ids_def phase_update_def)
  then have "status_inv ?t" using assms by (simp add: status_inv_def) (simp add: phase_update_def)
  moreover have "stage_of ?t = (case stage_of st i of
      Some (Working q) \<Rightarrow> (stage_of st)(i \<mapsto> Working p) | _ \<Rightarrow> stage_of st)"
    by (rule ext) (auto simp: stage_of_def phase_update_def find_set_phase split: option.splits if_splits)
  ultimately show ?thesis by simp
qed

lemma status_inv_remove:
  assumes "status_inv st" "mset (live_ids st) = add_mset i (mset (live_ids t))"
    and "next_request_seq t = next_request_seq st" "server (snapshot t) = server (snapshot st)"
    and "length (recent (snapshot t)) \<le> recent_limit (server (snapshot st))"
  shows "status_inv t"
proof -
  have live: "mset (live_ids st) = mset (i # live_ids t)" using assms(2) by simp
  then have "distinct (i # live_ids t)" using assms(1) by (metis mset_eq_imp_distinct_iff status_inv_def)
  moreover have "set (live_ids t) \<subseteq> set (live_ids st)" using live by (metis list.set(2) mset_eq_setD subset_insertI)
  ultimately show ?thesis using assms unfolding status_inv_def by auto
qed

lemma finish_update_stage:
  assumes "status_inv st"
  shows "stage_of (snd (finish_update i r e st now)) = (stage_of st)(i := None)
    \<and> status_inv (snd (finish_update i r e st now))"
proof (cases "take_first (\<lambda>b. a_request_id b = i) (active (snapshot st))")
  case (Some p)
  obtain x rest where p: "p = (x, rest)" by fastforce
  from take_first_Some [OF Some [unfolded p]] obtain a b where
    ab: "active (snapshot st) = a @ x # b" "rest = a @ b" "a_request_id x = i" by blast
  let ?t = "snd (finish_update i r e st now)"
  have t: "queued (snapshot ?t) = queued (snapshot st)" "active (snapshot ?t) = a @ b"
    "next_request_seq ?t = next_request_seq st" "server (snapshot ?t) = server (snapshot st)"
    "length (recent (snapshot ?t)) \<le> recent_limit (server (snapshot st))"
    using Some p ab by (simp_all add: finish_update_def Let_def push_recent_def)
  have "mset (live_ids st) = add_mset i (mset (live_ids ?t))" by (simp add: live_ids_def t ab)
  from status_inv_remove [OF assms this t(3-5)] have inv: "status_inv ?t" .
  have i: "i \<notin> q_request_id ` set (queued (snapshot st))" "i \<notin> a_request_id ` set (a @ b)"
    using assms ab by (auto simp: status_inv_def live_ids_def)
  then have "find (\<lambda>a. a_request_id a = i) (a @ b) = None" by (auto simp: find_None_iff)
  then have "stage_of ?t = (stage_of st)(i := None)"
    using i(1) ab by (intro ext) (auto simp: stage_of_def t find_append split: option.splits)
  with inv show ?thesis by simp
next
  case None
  note no_active = this
  show ?thesis
  proof (cases "take_first (\<lambda>b. q_request_id b = i) (queued (snapshot st))")
    case None
    with no_active have "i \<notin> set (live_ids st)"
      by (auto simp: take_first_None_iff live_ids_def)
    with None no_active assms show ?thesis
      by (auto simp: finish_update_def Let_def fun_eq_iff simp flip: stage_of_None_iff)
  next
    case (Some p)
    obtain x rest where p: "p = (x, rest)" by fastforce
    from take_first_Some [OF Some [unfolded p]] obtain a b where
      ab: "queued (snapshot st) = a @ x # b" "rest = a @ b" "q_request_id x = i" by blast
    let ?t = "snd (finish_update i r e st now)"
    have t: "queued (snapshot ?t) = a @ b" "active (snapshot ?t) = active (snapshot st)"
      "next_request_seq ?t = next_request_seq st" "server (snapshot ?t) = server (snapshot st)"
      "length (recent (snapshot ?t)) \<le> recent_limit (server (snapshot st))"
      using Some no_active p ab by (simp_all add: finish_update_def Let_def push_recent_def)
    have "mset (live_ids st) = add_mset i (mset (live_ids ?t))" by (simp add: live_ids_def t ab)
    from status_inv_remove [OF assms this t(3-5)] have inv: "status_inv ?t" .
    have i: "i \<notin> q_request_id ` set (a @ b)" "i \<notin> a_request_id ` set (active (snapshot st))"
      using assms ab by (auto simp: status_inv_def live_ids_def)
    then have "find (\<lambda>a. a_request_id a = i) (active (snapshot st)) = None" by (auto simp: find_None_iff)
    then have "stage_of ?t = (stage_of st)(i := None)"
      using i(1) ab by (intro ext) (auto simp: stage_of_def t)
    with inv show ?thesis by simp
  qed
qed

interpretation board: status_board
    "\<lambda>now st. enqueue_update label inst st now" "\<lambda>now i st. snd (start_update i st now)"
    "\<lambda>now i p st. snd (phase_update i p st now)" "\<lambda>now i st. snd (finish_update i res err st now)"
    stage_of status_inv status_room
  for label inst res err
  by unfold_locales
    (simp_all add: start_update_stage phase_update_stage finish_update_stage,
      (use enqueue_update_stage in blast)+)

section \<open>Sequences of operations\<close>

datatype status_op =
    Enqueue string string
  | Start string
  | Phase string string
  | Finish string build_result "string option"
  | Beat

definition run_status_op ::
  "status_env \<Rightarrow> status_op \<Rightarrow> mutable_status \<times> 'z io_world_scheme \<Rightarrow> mutable_status \<times> 'z io_world_scheme" where
  "run_status_op E op s =
    (case s of (st, w) \<Rightarrow>
     case op of
       Enqueue label inst \<Rightarrow> snd (status_enqueue E label inst st w)
     | Start i \<Rightarrow> status_start E i st w
     | Phase i p \<Rightarrow> status_phase E i p st w
     | Finish i r e \<Rightarrow> status_finish E i r e st w
     | Beat \<Rightarrow> heartbeat_turn E st w)"

text \<open>The move an operation makes on the board, when the clock can be read.\<close>

fun board_move :: "u64 \<Rightarrow> status_op \<Rightarrow> (string \<Rightarrow> stage option) \<Rightarrow> string \<Rightarrow> stage option" where
  "board_move seq (Enqueue label inst) m = m(build_id (unat seq + 1) \<mapsto> Waiting)"
| "board_move seq (Start i) m = (if m i = Some Waiting then m(i \<mapsto> Working ''starting'') else m)"
| "board_move seq (Phase i p) m = (case m i of Some (Working q) \<Rightarrow> m(i \<mapsto> Working p) | _ \<Rightarrow> m)"
| "board_move seq (Finish i r e) m = m(i := None)"
| "board_move seq Beat m = m"

lemma with_status_update_cases:
  "\<exists>w'. snd (with_status_update E upd st w) =
     (case clock w (ticks w) of None \<Rightarrow> (st, w') | Some now \<Rightarrow> (refreshed (snd (upd st now)) now, w'))"
  by (cases "clock w (ticks w)")
    (auto simp: with_status_update_def read_clock_def Let_def split: prod.splits sum.splits)

lemma heartbeat_cases:
  "\<exists>w' st'. heartbeat_turn E st w = (st', w') \<and> (st' = st \<or> (\<exists>now. st' = refreshed st now))"
  by (auto simp: heartbeat_turn_def persist_current_def read_clock_def Let_def
      split: prod.splits sum.splits)

lemma run_status_op_move:
  assumes inv: "status_inv st" and room: "status_room st"
    and run: "run_status_op E op (st, w) = (st', w')"
  shows "status_inv st' \<and> (next_request_seq st' = next_request_seq st \<or> next_request_seq st' = next_request_seq st + 1)
    \<and> (stage_of st' = stage_of st \<and> (clock w (ticks w) = None \<or> op = Beat)
       \<or> stage_of st' = board_move (next_request_seq st) op (stage_of st))"
proof (cases op)
  case Beat
  with run heartbeat_cases [of E st w] inv show ?thesis
    by (auto simp: run_status_op_def refreshed_def [abs_def]) (auto simp flip: refreshed_def)
next
  case (Enqueue label inst)
  have st': "st' = fst (snd (with_status_update E (enqueue_update label inst) st w))"
    using run Enqueue by (auto simp: run_status_op_def status_enqueue_def split: prod.splits option.splits)
  show ?thesis
  proof (cases "clock w (ticks w)")
    case None
    with st' with_status_update_cases [of E "enqueue_update label inst" st w] inv show ?thesis by auto
  next
    case (Some now)
    obtain i t where t: "enqueue_update label inst st now = (i, t)" by fastforce
    with Some st' with_status_update_cases [of E "enqueue_update label inst" st w]
    have "st' = refreshed t now" by auto
    moreover note enqueue_update_stage [OF inv room t] enqueue_update_eq [OF room t]
    ultimately show ?thesis using Enqueue by (auto simp: refreshed_def) (auto simp flip: refreshed_def)
  qed
next
  case (Start i)
  have st': "st' = fst (snd (with_status_update E (start_update i) st w))"
    using run Start by (simp add: run_status_op_def status_start_def)
  show ?thesis
  proof (cases "clock w (ticks w)")
    case None
    with st' with_status_update_cases [of E "start_update i" st w] inv show ?thesis by auto
  next
    case (Some now)
    with st' with_status_update_cases [of E "start_update i" st w]
    have "st' = refreshed (snd (start_update i st now)) now" by auto
    moreover have "next_request_seq (snd (start_update i st now)) = next_request_seq st"
      by (auto simp: start_update_def Let_def split: option.splits)
    ultimately show ?thesis using Start start_update_stage [OF inv, of i now]
      by (simp add: refreshed_def) (simp flip: refreshed_def)
  qed
next
  case (Phase i p)
  have st': "st' = fst (snd (with_status_update E (phase_update i p) st w))"
    using run Phase by (simp add: run_status_op_def status_phase_def)
  show ?thesis
  proof (cases "clock w (ticks w)")
    case None
    with st' with_status_update_cases [of E "phase_update i p" st w] inv show ?thesis by auto
  next
    case (Some now)
    with st' with_status_update_cases [of E "phase_update i p" st w]
    have "st' = refreshed (snd (phase_update i p st now)) now" by auto
    moreover have "next_request_seq (snd (phase_update i p st now)) = next_request_seq st"
      by (simp add: phase_update_def)
    ultimately show ?thesis using Phase phase_update_stage [OF inv, of i p now]
      by (simp add: refreshed_def) (simp flip: refreshed_def)
  qed
next
  case (Finish i r e)
  have st': "st' = fst (snd (with_status_update E (finish_update i r e) st w))"
    using run Finish by (simp add: run_status_op_def status_finish_def)
  show ?thesis
  proof (cases "clock w (ticks w)")
    case None
    with st' with_status_update_cases [of E "finish_update i r e" st w] inv show ?thesis by auto
  next
    case (Some now)
    with st' with_status_update_cases [of E "finish_update i r e" st w]
    have "st' = refreshed (snd (finish_update i r e st now)) now" by auto
    moreover have "next_request_seq (snd (finish_update i r e st now)) = next_request_seq st"
      by (auto simp: finish_update_def Let_def split: option.splits)
    ultimately show ?thesis using Finish finish_update_stage [OF inv, of i r e now]
      by (simp add: refreshed_def) (simp flip: refreshed_def)
  qed
qed

section \<open>The properties of the registry\<close>

theorem finished_build_leaves_the_board:
  assumes "status_inv st" and "status_room st" and "enqueue_update label inst st now1 = (i, t)"
  shows "stage_of t i = Some Waiting \<and> stage_of st i = None
    \<and> stage_of (snd (finish_update i res err
        (fold (\<lambda>(now, p) s. snd (phase_update i p s now)) ps (snd (start_update i t now2))) now3)) = stage_of st"
  using board.enqueue_stage [OF assms] board.enqueue_fresh [OF assms]
  by (intro conjI board.lifecycle [OF assms]) simp_all

text \<open>
  C19: Every operation of the status registry refines its move on the abstract board that maps a
  live build to its stage, and keeps the registry invariant.
\<close>

theorem status_refines_board:
  assumes "status_inv st" and "status_room st" and "clock w (ticks w) = Some now"
  shows "status_inv (fst (run_status_op E op (st, w)))
    \<and> stage_of (fst (run_status_op E op (st, w))) = board_move (next_request_seq st) op (stage_of st)"
proof -
  obtain st' w' where run: "run_status_op E op (st, w) = (st', w')" by fastforce
  from run_status_op_move [OF assms(1,2) run] assms(3) show ?thesis by (auto simp: run)
qed

definition counted :: "mutable_status \<Rightarrow> bool" where
  "counted st \<longleftrightarrow>
    active_count (server (snapshot st)) = length (active (snapshot st))
    \<and> queued_count (server (snapshot st)) = length (queued (snapshot st))
    \<and> map q_position (queued (snapshot st)) = [1..<Suc (length (queued (snapshot st)))]"

lemma counted_refreshed [simp]: "counted (refreshed st now)"
  by (simp add: counted_def refreshed_def refresh_snapshot_def refresh_positions)

lemma recent_limit_refreshed [simp]:
  "recent_limit (server (snapshot (refreshed st now))) = recent_limit (server (snapshot st))"
  by (simp add: refreshed_def refresh_snapshot_def)

lemma next_request_seq_refreshed [simp]: "next_request_seq (refreshed st now) = next_request_seq st"
  by (simp add: refreshed_def)

lemma recent_limit_updates:
  "recent_limit (server (snapshot (snd (enqueue_update l n st now)))) = recent_limit (server (snapshot st))"
  "recent_limit (server (snapshot (snd (start_update i st now)))) = recent_limit (server (snapshot st))"
  "recent_limit (server (snapshot (snd (phase_update i p st now)))) = recent_limit (server (snapshot st))"
  "recent_limit (server (snapshot (snd (finish_update i r e st now)))) = recent_limit (server (snapshot st))"
  by (auto simp: status_update_defs push_recent_def Let_def split: option.splits)

lemma with_status_update_counted:
  assumes "counted st" and "\<And>now. recent_limit (server (snapshot (snd (upd st now)))) = recent_limit (server (snapshot st))"
    and "st' = fst (snd (with_status_update E upd st w))"
  shows "counted st' \<and> recent_limit (server (snapshot st')) = recent_limit (server (snapshot st))"
  using assms with_status_update_cases [of E upd st w] by (cases "clock w (ticks w)") auto

lemma run_status_op_counted:
  assumes "counted st" "run_status_op E op (st, w) = (st', w')"
  shows "counted st' \<and> recent_limit (server (snapshot st')) = recent_limit (server (snapshot st))"
proof (cases op)
  case (Enqueue label inst)
  then have "st' = fst (snd (with_status_update E (enqueue_update label inst) st w))"
    using assms(2) by (auto simp: run_status_op_def status_enqueue_def split: prod.splits option.splits)
  then show ?thesis using assms(1) recent_limit_updates(1) by (intro with_status_update_counted)
next
  case (Start i)
  then have "st' = fst (snd (with_status_update E (start_update i) st w))"
    using assms(2) by (simp add: run_status_op_def status_start_def)
  then show ?thesis using assms(1) recent_limit_updates(2) by (intro with_status_update_counted)
next
  case (Phase i p)
  then have "st' = fst (snd (with_status_update E (phase_update i p) st w))"
    using assms(2) by (simp add: run_status_op_def status_phase_def)
  then show ?thesis using assms(1) recent_limit_updates(3) by (intro with_status_update_counted)
next
  case (Finish i r e)
  then have "st' = fst (snd (with_status_update E (finish_update i r e) st w))"
    using assms(2) by (simp add: run_status_op_def status_finish_def)
  then show ?thesis using assms(1) recent_limit_updates(4) by (intro with_status_update_counted)
next
  case Beat
  with assms heartbeat_cases [of E st w] show ?thesis by (auto simp: run_status_op_def)
qed

lemma run_status_ops_inv:
  assumes "status_inv st" "counted st" "unat (next_request_seq st) + length ops < 2 ^ 64"
    and "fold (run_status_op E) ops (st, w) = (st', w')"
  shows "status_inv st' \<and> counted st'
    \<and> recent_limit (server (snapshot st')) = recent_limit (server (snapshot st))"
  using assms
proof (induction ops arbitrary: st w)
  case Nil
  then show ?case by simp
next
  case (Cons op ops)
  obtain st1 w1 where one: "run_status_op E op (st, w) = (st1, w1)" by fastforce
  have room: "status_room st" using Cons.prems(3) by (simp add: status_room_def)
  note move = run_status_op_move [OF Cons.prems(1) room one]
  note cnt = run_status_op_counted [OF Cons.prems(2) one]
  have "unat (next_request_seq st1) \<le> Suc (unat (next_request_seq st))"
    using move room by (auto simp: next_seq)
  then have "unat (next_request_seq st1) + length ops < 2 ^ 64" using Cons.prems(3) by simp
  with Cons.IH [of st1 w1] move cnt Cons.prems(4) one show ?case by simp
qed

text \<open>
  C20: From a fresh registry, along every sequence of operations, the ids of live builds stay
  distinct, the recent list stays within its limit, and the counts and queue positions are
  right.
\<close>

theorem status_invariant_along_runs:
  assumes "status_new E endpoint concurrency limit w = (Ok st, w1)" and "length ops < 2 ^ 64"
  shows "case fold (run_status_op E) ops (st, w1) of (st', w') \<Rightarrow>
      distinct (live_ids st')
      \<and> length (recent (snapshot st')) \<le> limit
      \<and> active_count (server (snapshot st')) = length (active (snapshot st'))
      \<and> queued_count (server (snapshot st')) = length (queued (snapshot st'))
      \<and> map q_position (queued (snapshot st')) = [1..<Suc (length (queued (snapshot st')))]"
proof -
  obtain now s0 where s0: "s0 = \<lparr>next_request_seq = 0,
               snapshot = \<lparr>snapshot_version = STATUS_VERSION,
                 server = \<lparr>s_endpoint_id = endpoint, configured_concurrency = concurrency,
                   active_count = 0, queued_count = 0, recent_limit = limit,
                   started_at_unix = now, updated_at_unix = now\<rparr>,
                 queued = [], active = [], recent = []\<rparr>\<rparr>"
    and st: "\<exists>now'. st = refreshed s0 now'"
    using assms(1) by (auto simp: status_new_def persist_current_def Let_def read_clock_def split: prod.splits sum.splits)
  have "status_inv s0" by (simp add: s0 status_inv_def live_ids_def)
  with st s0 have ok: "status_inv st" "counted st" "recent_limit (server (snapshot st)) = limit"
    "next_request_seq st = 0"
    by auto
  obtain st' w' where run: "fold (run_status_op E) ops (st, w1) = (st', w')" by fastforce
  from run_status_ops_inv [OF ok(1,2) _ run] ok(3,4) assms(2) show ?thesis
    by (simp add: run status_inv_def counted_def)
qed

text \<open>
  An enqueue whose status file cannot be written has queued its build, but tells the caller the
  id \<open>build-unknown\<close>. The caller's later operations on that id never reach the entry.
\<close>

lemma build_id_not_unknown: "build_id k \<noteq> ''build-unknown''"
proof
  assume "build_id k = ''build-unknown''"
  then have "show_nat k = ''unknown''" by (simp add: build_id_def)
  with show_nat_digits [of k] show False by (simp add: is_ascii_digit_def byte_def)
qed

fun on_unknown :: "status_op \<Rightarrow> bool" where
  "on_unknown (Start i) = (i = ''build-unknown'')"
| "on_unknown (Phase i p) = (i = ''build-unknown'')"
| "on_unknown (Finish i r e) = (i = ''build-unknown'')"
| "on_unknown Beat = True"
| "on_unknown (Enqueue label inst) = False"

lemma run_on_unknown:
  assumes "status_inv st" "on_unknown op" "run_status_op E op (st, w) = (st', w')"
    and "stage_of st (build_id k) = Some s"
  shows "status_inv st' \<and> stage_of st' (build_id k) = Some s"
proof (cases op)
  case Beat
  with assms heartbeat_cases [of E st w] show ?thesis by (auto simp: run_status_op_def)
next
  case (Enqueue label inst)
  with assms show ?thesis by simp
next
  case (Start i)
  with assms(3) have "st' = fst (snd (with_status_update E (start_update i) st w))"
    by (simp add: run_status_op_def status_start_def)
  with with_status_update_cases [of E "start_update i" st w] start_update_stage [OF assms(1), of i]
    Start assms(1,2,4) build_id_not_unknown [of k] show ?thesis
    by (cases "clock w (ticks w)") auto
next
  case (Phase i p)
  with assms(3) have "st' = fst (snd (with_status_update E (phase_update i p) st w))"
    by (simp add: run_status_op_def status_phase_def)
  with with_status_update_cases [of E "phase_update i p" st w] phase_update_stage [OF assms(1), of i p]
    Phase assms(1,2,4) build_id_not_unknown [of k] show ?thesis
    by (cases "clock w (ticks w)") (auto split: option.splits stage.splits)
next
  case (Finish i r e)
  with assms(3) have "st' = fst (snd (with_status_update E (finish_update i r e) st w))"
    by (simp add: run_status_op_def status_finish_def)
  with with_status_update_cases [of E "finish_update i r e" st w] finish_update_stage [OF assms(1), of i r e]
    Finish assms(1,2,4) build_id_not_unknown [of k] show ?thesis
    by (cases "clock w (ticks w)") auto
qed

lemma run_ops_on_unknown:
  assumes "list_all on_unknown ops" "status_inv st" "stage_of st (build_id k) = Some s"
    and "fold (run_status_op E) ops (st, w) = (st', w')"
  shows "stage_of st' (build_id k) = Some s"
  using assms
proof (induction ops arbitrary: st w)
  case Nil
  then show ?case by simp
next
  case (Cons op ops)
  obtain st1 w1 where one: "run_status_op E op (st, w) = (st1, w1)" by fastforce
  from Cons.prems(1) have "on_unknown op" by simp
  from run_on_unknown [OF Cons.prems(2) this one Cons.prems(3)] Cons.IH [of st1 w1] Cons.prems(1,4) one
  show ?case by simp
qed

text \<open>
  C33: When the status file cannot be written, a build is queued but its caller is told another
  id, and none of the caller's later operations removes it.
\<close>

theorem failed_status_write_leaves_ghost_build:
  assumes "status_inv st" and "status_room st" and "clock w (ticks w) = Some now"
    and "status_enqueue E label inst st w = (''build-unknown'', st1, w1)"
    and "list_all on_unknown ops"
  shows "stage_of (fst (fold (run_status_op E) ops (st1, w1)))
      (build_id (Suc (unat (next_request_seq st)))) = Some Waiting"
proof -
  obtain i t where t: "enqueue_update label inst st now = (i, t)" by fastforce
  note eq = enqueue_update_eq [OF assms(2) t] and stg = enqueue_update_stage [OF assms(1,2) t]
  have "(st1, w1) = snd (with_status_update E (enqueue_update label inst) st w)"
    using assms(4) by (auto simp: status_enqueue_def split: prod.splits option.splits)
  with with_status_update_cases [of E "enqueue_update label inst" st w] assms(3) t
  have st1: "st1 = refreshed t now" by auto
  then have "status_inv st1" "stage_of st1 (build_id (Suc (unat (next_request_seq st)))) = Some Waiting"
    using eq stg by auto
  then show ?thesis using run_ops_on_unknown [OF assms(5)] by (metis prod.collapse)
qed

section \<open>Witnesses\<close>

definition demo_status_env :: status_env where
  "demo_status_env =
    \<lparr>status_file = ''/d/status.json'',
     status_json = \<lparr>to_vec_pretty = (\<lambda>s. Ok ''{}''), from_str = (\<lambda>t. bail ''opaque'')\<rparr>, status_pid = 7\<rparr>"

definition demo_status :: mutable_status where
  "demo_status = \<lparr>next_request_seq = 4,
     snapshot = \<lparr>snapshot_version = 1,
       server = \<lparr>s_endpoint_id = ''e'', configured_concurrency = 1, active_count = 0, queued_count = 0,
         recent_limit = 2, started_at_unix = 1, updated_at_unix = 1\<rparr>,
       queued = [], active = [], recent = []\<rparr>\<rparr>"

lemma demo_status_facts: "status_inv demo_status" "status_room demo_status"
  by (simp_all add: demo_status_def status_inv_def live_ids_def status_room_def)

theorem finished_build_leaves_the_board_witness:
  "stage_of (snd (finish_update ''build-5'' Success None
      (snd (phase_update ''build-5'' ''building'' (snd (start_update ''build-5''
        (snd (enqueue_update ''c'' ''i'' demo_status 50)) 51)) 52)) 53)) = stage_of demo_status"
proof -
  have "enqueue_update ''c'' ''i'' demo_status 50 = (''build-5'', snd (enqueue_update ''c'' ''i'' demo_status 50))"
    by (simp add: enqueue_update_def demo_status_def Let_def show_word_def show_nat.simps digit_char_def char_of_bits)
  from finished_build_leaves_the_board [OF demo_status_facts this, of Success None "[(52, ''building'')]" 51 53]
  show ?thesis by simp
qed

theorem status_refines_board_witness:
  "stage_of (fst (run_status_op demo_status_env (Enqueue ''c'' ''i'') (demo_status, failing_world 0))) (build_id 5)
     = Some Waiting"
proof -
  have "clock (failing_world 0) (ticks (failing_world 0)) = Some 50" by (simp add: failing_world_def)
  from status_refines_board [OF demo_status_facts this, of demo_status_env "Enqueue ''c'' ''i''"]
  show ?thesis by (simp add: demo_status_def)
qed

theorem status_invariant_along_runs_witness:
  "case status_new demo_status_env ''e'' 3 2 calm_world of
     (Inl e, w) \<Rightarrow> False
   | (Inr st, w) \<Rightarrow>
       distinct (live_ids (fst (fold (run_status_op demo_status_env)
         [Enqueue ''c'' ''i'', Enqueue ''c'' ''j'', Start ''build-1'', Finish ''build-1'' Failed None] (st, w))))"
proof -
  obtain st w where new: "status_new demo_status_env ''e'' 3 2 calm_world = (Ok st, w)"
    by (simp add: status_new_def demo_status_env_def Let_def bail_def drv_eval)
  from status_invariant_along_runs [OF this, of "[Enqueue ''c'' ''i'', Enqueue ''c'' ''j'', Start ''build-1'', Finish ''build-1'' Failed None]"]
  show ?thesis by (auto simp: new split: prod.splits)
qed

theorem failed_status_write_leaves_ghost_build_witness:
  "fst (status_enqueue demo_status_env ''c'' ''i'' demo_status (failing_world 1)) = ''build-unknown''
   \<and> stage_of (fst (fold (run_status_op demo_status_env)
        [Start ''build-unknown'', Finish ''build-unknown'' Success None]
        (snd (status_enqueue demo_status_env ''c'' ''i'' demo_status (failing_world 1)))))
      (build_id 5) = Some Waiting"
proof -
  obtain st1 w1 where enq:
    "status_enqueue demo_status_env ''c'' ''i'' demo_status (failing_world 1) = (''build-unknown'', st1, w1)"
    by (simp add: demo_status_env_def demo_status_def Let_def bail_def drv_eval)
  have clk: "clock (failing_world 1) (ticks (failing_world 1)) = Some 50" by (simp add: failing_world_def)
  have "list_all on_unknown [Start ''build-unknown'', Finish ''build-unknown'' Success None]" by simp
  from failed_status_write_leaves_ghost_build [OF demo_status_facts clk enq this]
  moreover have "Suc (unat (next_request_seq demo_status)) = 5" by (simp add: demo_status_def)
  ultimately show ?thesis by (simp add: enq del: One_nat_def)
qed

end
