(* ===== verification/Store_Path.thy ===== *)
theory Store_Path
  imports Rust_Str
begin

text \<open>
  \<open>StorePath\<close> of \<open>nix.rs\<close>: a string that passed \<open>validate_store_path\<close>. Its constructor
  is private to the module, so every value of the type is valid; here the type is the set
  of the valid strings. The lines of \<open>nix-store\<close>'s output are read back into it.
\<close>

definition STORE_PREFIX :: string where "STORE_PREFIX = ''/nix/store/''"
definition HASH_LEN :: nat where "HASH_LEN = 32"
definition NIX_BASE32 :: string where "NIX_BASE32 = ''0123456789abcdfghijklmnpqrsvwxyz''"

definition valid_store_name_char :: "char \<Rightarrow> bool" where
  "valid_store_name_char c \<longleftrightarrow> is_ascii_alphanumeric c \<or> c \<in> set ''+-._?=''"

definition validate_store_path :: "string \<Rightarrow> unit result" where
  "validate_store_path path =
    (case strip_prefix STORE_PREFIX path of
       None \<Rightarrow> bail (''not a Nix store path: '' @ path)
     | Some rest \<Rightarrow>
       (case split_once (CHR ''-'') rest of
          None \<Rightarrow> bail (''invalid Nix store path: '' @ path)
        | Some (hash, name) \<Rightarrow>
            if length hash \<noteq> HASH_LEN
               \<or> \<not> list_all (ascii_char (\<lambda>c. c \<in> set NIX_BASE32)) (utf8_chars hash)
            then bail (''invalid Nix store path hash: '' @ path)
            else if name = [] \<or> \<not> list_all (ascii_char valid_store_name_char) (utf8_chars name)
            then bail (''invalid Nix store path name: '' @ path)
            else Ok ()))"

text \<open>The language a store path is drawn from.\<close>

definition base32_char :: "char \<Rightarrow> bool" where
  "base32_char c \<longleftrightarrow> c \<in> set NIX_BASE32"

definition store_text :: "string \<Rightarrow> string \<Rightarrow> string" where
  "store_text hash name = STORE_PREFIX @ hash @ CHR ''-'' # name"

definition good_hash :: "string \<Rightarrow> bool" where
  "good_hash hash \<longleftrightarrow> length hash = HASH_LEN \<and> list_all base32_char hash"

definition good_name :: "string \<Rightarrow> bool" where
  "good_name name \<longleftrightarrow> name \<noteq> [] \<and> list_all valid_store_name_char name"

lemma base32_alphanumeric: "base32_char c \<Longrightarrow> is_ascii_alphanumeric c"
  by (auto simp: base32_char_def NIX_BASE32_def drv_eval)

lemma base32_ascii: "base32_char c \<Longrightarrow> is_ascii c"
  by (simp add: base32_alphanumeric is_ascii_alphanumeric_ascii)

lemma store_name_char_visible: "valid_store_name_char c \<Longrightarrow> visible c"
  by (auto simp: valid_store_name_char_def visible_alphanumeric)
    (auto simp: drv_eval)

lemma visible_ascii: "visible c \<Longrightarrow> is_ascii c"
  by (simp add: visible_def)

lemma hash_chars_iff:
  "list_all (ascii_char (\<lambda>c. c \<in> set NIX_BASE32)) (utf8_chars h) \<longleftrightarrow> list_all base32_char h"
  unfolding list_all_ascii_char by (auto simp: list_all_iff base32_ascii simp flip: base32_char_def)

lemma name_chars_iff:
  "list_all (ascii_char valid_store_name_char) (utf8_chars n) \<longleftrightarrow> list_all valid_store_name_char n"
  unfolding list_all_ascii_char
  by (auto simp: list_all_iff dest: store_name_char_visible visible_ascii)

lemma good_hash_no_dash: "good_hash h \<Longrightarrow> CHR ''-'' \<notin> set h"
proof
  assume "good_hash h" "CHR ''-'' \<in> set h"
  then have "base32_char (CHR ''-'')" by (simp add: good_hash_def list_all_iff)
  then have "is_ascii_alphanumeric (CHR ''-'')" by (rule base32_alphanumeric)
  then show False by (simp add: drv_eval)
qed

lemma validate_store_path_ok_iff:
  "validate_store_path path = Ok u \<longleftrightarrow>
     (\<exists>hash name. path = store_text hash name \<and> good_hash hash \<and> good_name name)"
proof
  assume "validate_store_path path = Ok u"
  then obtain h n where "path = store_text h n" "good_hash h" "good_name n"
    by (auto simp: validate_store_path_def store_text_def good_hash_def good_name_def
        hash_chars_iff name_chars_iff split_once_Some_iff split: option.splits if_splits)
  then show "\<exists>hash name. path = store_text hash name \<and> good_hash hash \<and> good_name name"
    by blast
next
  assume "\<exists>hash name. path = store_text hash name \<and> good_hash hash \<and> good_name name"
  then obtain hash name where p: "path = store_text hash name" "good_hash hash" "good_name name"
    by blast
  then have "split_once (CHR ''-'') (hash @ CHR ''-'' # name) = Some (hash, name)"
    by (simp add: split_once_Some_iff good_hash_no_dash)
  with p show "validate_store_path path = Ok u"
    by (simp add: validate_store_path_def store_text_def good_hash_def good_name_def
        hash_chars_iff name_chars_iff)
qed

section \<open>The type of validated paths\<close>

definition zero_path :: string where
  "zero_path = store_text (replicate 32 (CHR ''0'')) ''x''"

lemma validate_zero_path: "validate_store_path zero_path = Ok ()"
  unfolding validate_store_path_ok_iff zero_path_def
  by (intro exI conjI, rule refl)
    (simp_all add: good_hash_def good_name_def HASH_LEN_def base32_char_def NIX_BASE32_def
      valid_store_name_char_def drv_eval list_all_iff)

typedef store_path = "{s. is_ok (validate_store_path s)}"
  morphisms as_str StorePath
  by (rule exI [of _ zero_path]) (simp add: validate_zero_path)

definition store_path_new :: "string \<Rightarrow> store_path result" where
  "store_path_new path = bind_r (validate_store_path path) (\<lambda>_. Ok (StorePath path))"

text \<open>The two \<open>expect\<close> calls cannot fail: see \<open>store_path_text\<close>.\<close>

definition store_path_hash :: "store_path \<Rightarrow> string" where
  "store_path_hash p =
    fst (the (split_once (CHR ''-'') (the (strip_prefix STORE_PREFIX (as_str p)))))"

lemma as_str_StorePath: "is_ok (validate_store_path s) \<Longrightarrow> as_str (StorePath s) = s"
  by (simp add: StorePath_inverse)

lemma as_str_inject_iff [simp]: "as_str p = as_str q \<longleftrightarrow> p = q"
  by (rule as_str_inject)

lemma store_path_new_Ok_iff: "store_path_new s = Ok p \<longleftrightarrow> as_str p = s"
proof
  assume "store_path_new s = Ok p"
  then show "as_str p = s" by (auto simp: store_path_new_def is_ok_iff as_str_StorePath)
next
  assume "as_str p = s"
  moreover have "is_ok (validate_store_path (as_str p))" using as_str [of p] by simp
  ultimately show "store_path_new s = Ok p"
    by (auto simp: store_path_new_def is_ok_iff as_str_inverse)
qed

lemma store_path_new_as_str [simp]: "store_path_new (as_str p) = Ok p"
  by (simp add: store_path_new_Ok_iff)

text \<open>Every store path is a prefix, a hash, a dash and a name; the hash is what \<open>hash\<close> returns.\<close>

lemma store_path_text:
  "\<exists>name. as_str p = store_text (store_path_hash p) name
     \<and> good_hash (store_path_hash p) \<and> good_name name"
proof -
  have "is_ok (validate_store_path (as_str p))" using as_str [of p] by simp
  then obtain h n where p: "as_str p = store_text h n" "good_hash h" "good_name n"
    by (auto simp: is_ok_iff validate_store_path_ok_iff)
  then have "split_once (CHR ''-'') (h @ CHR ''-'' # n) = Some (h, n)"
    by (simp add: split_once_Some_iff good_hash_no_dash)
  then have "store_path_hash p = h"
    by (simp add: store_path_hash_def p(1) store_text_def)
  with p show ?thesis by auto
qed

lemma collect_store_paths:
  "collect_r store_path_new xs = Ok ps \<longleftrightarrow> map as_str ps = xs"
proof (induction xs arbitrary: ps)
  case Nil
  show ?case by auto
next
  case (Cons x xs)
  then show ?case by (cases ps) (auto simp: store_path_new_Ok_iff)
qed

text \<open>\<open>non_empty_line\<close>: the trimmed line, unless nothing is left.\<close>

definition non_empty_line :: "string \<Rightarrow> string option" where
  "non_empty_line line = (let l = trim line in if l = [] then None else Some l)"

lemma good_hash_visible: "good_hash h \<Longrightarrow> list_all visible h"
  by (auto simp: good_hash_def list_all_iff dest: base32_alphanumeric visible_alphanumeric)

lemma as_str_visible: "list_all visible (as_str p)"
proof -
  obtain n where p: "as_str p = store_text (store_path_hash p) n"
    "good_hash (store_path_hash p)" "good_name n"
    using store_path_text by blast
  have "list_all visible STORE_PREFIX" by (simp add: STORE_PREFIX_def drv_eval)
  moreover have "list_all visible n"
    using p(3) by (auto simp: good_name_def list_all_iff store_name_char_visible)
  moreover have "visible (CHR ''-'')" by (simp add: drv_eval)
  ultimately show ?thesis
    using p by (simp add: store_text_def good_hash_visible)
qed

lemma as_str_not_Nil [simp]: "as_str p \<noteq> []"
  using store_path_text [of p] by (auto simp: store_text_def STORE_PREFIX_def)

lemma non_empty_line_as_str [simp]: "non_empty_line (as_str p) = Some (as_str p)"
  by (simp add: non_empty_line_def Let_def trim_visible as_str_visible)

lemma as_str_no_newline: "CHR 0x0A \<notin> set (as_str p)" "CHR 0x0D \<notin> set (as_str p)"
  using as_str_visible [of p] by (auto simp: list_all_iff visible_def drv_eval)

declare STORE_PREFIX_def [drv_eval] HASH_LEN_def [drv_eval] NIX_BASE32_def [drv_eval]
  valid_store_name_char_def [drv_eval] validate_store_path_def [drv_eval]
  non_empty_line_def [drv_eval]

end
