(* ===== verification/Nix_Commands.thy ===== *)
theory Nix_Commands
  imports Store_Path Messages BTree_Map "HOL-Library.Sublist"
begin

text \<open>
  \<open>nix.rs\<close>, the commands that are run to their end: evaluation, queries, copies, and the decision
  whether a signed copy can work. The programs themselves are a parameter: \<open>output_of\<close> runs one
  with its arguments in the surroundings \<open>'n\<close> (store, configuration, users) and returns its
  exit status and output.
\<close>

definition PATH_ARG_CHUNK_SIZE :: nat where "PATH_ARG_CHUNK_SIZE = 512"

record cmd_output =
  exit_ok :: bool
  exit_text :: string
  out_bytes :: string
  err_bytes :: string

record 'n commands =
  output_of :: "string \<Rightarrow> string list \<Rightarrow> ('n, cmd_output) step"

record override_input =
  input_path :: string
  flake_url :: string

record eval_options =
  impure :: bool
  refresh :: bool
  override_inputs :: "override_input list"

section \<open>Running a command\<close>

definition command_output :: "'n commands \<Rightarrow> string \<Rightarrow> string list \<Rightarrow> ('n, cmd_output) step" where
  "command_output E program args = context_s (''run '' @ program) (output_of E program args)"

definition run_command :: "'n commands \<Rightarrow> string \<Rightarrow> string list \<Rightarrow> ('n, string) step" where
  "run_command E program args =
    bind_s (command_output E program args) (\<lambda>output.
    if \<not> exit_ok output then
      lift_r (bail (program @ '' failed: '' @ trim (utf8_lossy (err_bytes output))))
    else lift_r (with_context ''command output was not UTF-8'' (from_utf8 (out_bytes output))))"

definition run_nix_command :: "'n commands \<Rightarrow> string list \<Rightarrow> string \<Rightarrow> ('n, unit) step" where
  "run_nix_command E args what =
    bind_s (context_s (''run '' @ what) (output_of E ''nix'' args)) (\<lambda>output.
    if \<not> exit_ok output then
      (let stderr = trim (utf8_lossy (err_bytes output)) in
       if stderr = [] then lift_r (bail (what @ '' failed with '' @ exit_text output))
       else lift_r (bail (what @ '' failed: '' @ stderr)))
    else ret ())"

text \<open>\<open>output.lines().filter_map(non_empty_line)\<close>.\<close>

definition output_lines :: "string \<Rightarrow> string list" where
  "output_lines output = List.map_filter non_empty_line (str_lines output)"

section \<open>Evaluation\<close>

definition eval_args :: "string list \<Rightarrow> string \<Rightarrow> eval_options \<Rightarrow> string list" where
  "eval_args base inst options =
    base
    @ (if impure options then [''--impure''] else [])
    @ (if refresh options then [''--refresh''] else [])
    @ concat (map (\<lambda>input. [''--override-input'', input_path input, flake_url input]) (override_inputs options))
    @ [inst]"

definition resolve_derivation :: "'n commands \<Rightarrow> string \<Rightarrow> eval_options \<Rightarrow> ('n, store_path) step" where
  "resolve_derivation E inst options =
    bind_s (run_command E ''nix'' (eval_args [''path-info'', ''--derivation''] inst options)) (\<lambda>output.
    case output_lines output of
      [] \<Rightarrow> lift_r (Err (Msg ''nix did not return a derivation path''))
    | path # _ \<Rightarrow> lift_r (store_path_new path))"

text \<open>\<open>serde_json\<close> reads the build plan: one map from output names to paths per entry.\<close>

type_synonym build_plan = "(string, string) btree_map list"

definition parse_build_plan_outputs :: "(string \<Rightarrow> build_plan result) \<Rightarrow> string \<Rightarrow> store_path list result" where
  "parse_build_plan_outputs from_json output =
    bind_r (with_context ''parse nix build dry-run output'' (from_json output)) (\<lambda>plan.
    if length plan \<noteq> 1 then bail (''expected one build plan entry, got '' @ show_nat (length plan))
    else collect_r store_path_new (map snd (hd plan)))"

definition resolve_outputs ::
  "'n commands \<Rightarrow> (string \<Rightarrow> build_plan result) \<Rightarrow> string \<Rightarrow> eval_options \<Rightarrow> ('n, store_path list) step" where
  "resolve_outputs E from_json inst options =
    bind_s (run_command E ''nix'' (eval_args [''build'', ''--dry-run'', ''--json''] inst options)) (\<lambda>output.
    lift_r (parse_build_plan_outputs from_json output))"

section \<open>Queries\<close>

fun missing_chunks :: "'n commands \<Rightarrow> store_path list list \<Rightarrow> string list \<Rightarrow> ('n, string list) step" where
  "missing_chunks E [] missing = ret missing"
| "missing_chunks E (chunk # rest) missing =
    bind_s (command_output E ''nix-store'' ([''--check-validity'', ''--print-invalid''] @ map as_str chunk)) (\<lambda>output.
    if \<not> exit_ok output then
      lift_r (bail (''nix-store failed: '' @ trim (utf8_lossy (err_bytes output))))
    else
      bind_s (lift_r (with_context ''command output was not UTF-8'' (from_utf8 (out_bytes output)))) (\<lambda>text.
      bind_s (lift_r (collect_r store_path_new (output_lines text))) (\<lambda>found.
      missing_chunks E rest (missing @ map as_str found))))"

definition missing_paths :: "'n commands \<Rightarrow> store_path list \<Rightarrow> ('n, store_path list) step" where
  "missing_paths E paths =
    (if paths = [] then ret []
     else bind_s (missing_chunks E (chunks_of PATH_ARG_CHUNK_SIZE paths) []) (\<lambda>missing.
       ret (filter (\<lambda>path. as_str path \<in> set missing) paths)))"

fun distinct_paths :: "string list \<Rightarrow> string list \<Rightarrow> store_path list result" where
  "distinct_paths [] seen = Ok []"
| "distinct_paths (line # lines) seen =
    bind_r (store_path_new line) (\<lambda>path.
      if as_str path \<in> set seen then distinct_paths lines seen
      else bind_r (distinct_paths lines (as_str path # seen)) (\<lambda>closure. Ok (path # closure)))"

definition query_closure :: "'n commands \<Rightarrow> store_path list \<Rightarrow> ('n, store_path list) step" where
  "query_closure E paths =
    (if paths = [] then ret []
     else bind_s (run_command E ''nix-store'' (''-qR'' # map as_str paths)) (\<lambda>output.
       lift_r (distinct_paths (output_lines output) [])))"

text \<open>Queries keep what their commands keep.\<close>

lemma keeps_run_command:
  assumes "reflp R" "transp R" "\<And>program args. keeps R (output_of E program args)"
  shows "keeps R (run_command E program args)"
  using assms unfolding run_command_def command_output_def
  by (auto intro!: keeps_bind_s keeps_context_s keeps_lift_r)

lemma keeps_missing_paths:
  assumes "reflp R" "transp R" "\<And>program args. keeps R (output_of E program args)"
  shows "keeps R (missing_paths E ps)"
proof -
  have "keeps R (missing_chunks E chunks acc)" for chunks acc
  proof (induction chunks arbitrary: acc)
    case Nil
    show ?case using assms(1) by (simp only: missing_chunks.simps keeps_ret)
  next
    case (Cons c cs)
    with assms show ?case unfolding missing_chunks.simps command_output_def
      by (auto intro!: keeps_bind_s keeps_context_s keeps_lift_r)
  qed
  with assms show ?thesis unfolding missing_paths_def by (auto intro!: keeps_bind_s keeps_ret)
qed

lemma keeps_query_closure:
  assumes "reflp R" "transp R" "\<And>program args. keeps R (output_of E program args)"
  shows "keeps R (query_closure E ps)"
  using assms keeps_run_command [OF assms] unfolding query_closure_def
  by (auto intro!: keeps_bind_s keeps_ret keeps_lift_r)

definition nix_closure :: "'n commands \<Rightarrow> store_path \<Rightarrow> ('n, store_path list) step" where
  "nix_closure E path = query_closure E [path]"

definition output_closure :: "'n commands \<Rightarrow> store_path list \<Rightarrow> ('n, store_path list) step" where
  "output_closure E paths = query_closure E paths"

definition query_outputs :: "'n commands \<Rightarrow> store_path \<Rightarrow> ('n, store_path list) step" where
  "query_outputs E path =
    bind_s (run_command E ''nix-store'' [''-q'', ''--outputs'', as_str path]) (\<lambda>output.
    lift_r (collect_r store_path_new (output_lines output)))"

section \<open>Copies\<close>

definition file_cache_url :: "string \<Rightarrow> string option \<Rightarrow> string" where
  "file_cache_url cache_dir secret_key =
    ''file://'' @ cache_dir
    @ (case secret_key of
         None \<Rightarrow> []
       | Some key \<Rightarrow> ''?secret-key='' @ key @ ''&compression=zstd&compression-level=1'')"

fun copy_to_chunks :: "'n commands \<Rightarrow> string \<Rightarrow> store_path list list \<Rightarrow> ('n, unit) step" where
  "copy_to_chunks E cache_url [] = ret ()"
| "copy_to_chunks E cache_url (chunk # rest) =
    bind_s (run_nix_command E ([''copy'', ''--to'', cache_url] @ map as_str chunk)
              ''nix copy to signed binary cache'') (\<lambda>_.
    copy_to_chunks E cache_url rest)"

definition copy_to_signed_binary_cache ::
  "'n commands \<Rightarrow> store_path list \<Rightarrow> string \<Rightarrow> string \<Rightarrow> ('n, unit) step" where
  "copy_to_signed_binary_cache E paths cache_dir secret_key =
    (if paths = [] then ret ()
     else copy_to_chunks E (file_cache_url cache_dir (Some secret_key)) (chunks_of PATH_ARG_CHUNK_SIZE paths))"

datatype signed_cache_import_trust = CanPassPublicKey | KeyAlreadyTrusted

definition is_signature_or_trust_error :: "string \<Rightarrow> bool" where
  "is_signature_or_trust_error message0 =
    (let message = to_ascii_lowercase message0 in
     contains_str ''signature'' message
     \<or> contains_str ''trusted public'' message
     \<or> contains_str ''trusted-public-keys'' message
     \<or> contains_str ''trusted key'' message
     \<or> contains_str ''public key'' message)"

definition copy_from_args :: "string \<Rightarrow> string \<Rightarrow> signed_cache_import_trust \<Rightarrow> store_path list \<Rightarrow> string list" where
  "copy_from_args cache_url public_key trust chunk =
    [''copy'', ''--from'', cache_url]
    @ (if trust = CanPassPublicKey
       then [''--option'', ''require-sigs'', ''true'', ''--option'', ''trusted-public-keys'', public_key]
       else [])
    @ map as_str chunk"

fun copy_from_chunks ::
  "'n commands \<Rightarrow> string \<Rightarrow> string \<Rightarrow> signed_cache_import_trust \<Rightarrow> store_path list list \<Rightarrow> ('n, unit) step" where
  "copy_from_chunks E cache_url public_key trust [] = ret ()"
| "copy_from_chunks E cache_url public_key trust (chunk # rest) =
    match_s (run_nix_command E (copy_from_args cache_url public_key trust chunk)
               ''nix copy from signed binary cache'') (\<lambda>r.
      case r of
        Inl err \<Rightarrow>
          if is_signature_or_trust_error (err_text err) then
            lift_r (bail (''signed cache/public key import failed; Nix rejected cache signatures/trust: ''
                          @ err_text err))
          else lift_r (Err err)
      | Inr _ \<Rightarrow> copy_from_chunks E cache_url public_key trust rest)"

definition copy_from_signed_binary_cache ::
  "'n commands \<Rightarrow> string \<Rightarrow> string \<Rightarrow> signed_cache_import_trust \<Rightarrow> store_path list \<Rightarrow> ('n, unit) step" where
  "copy_from_signed_binary_cache E cache_url public_key0 trust paths =
    (if paths = [] then ret ()
     else
       let public_key = trim public_key0 in
       if public_key = [] then lift_r (bail ''trusted public key is empty'')
       else copy_from_chunks E cache_url public_key trust (chunks_of PATH_ARG_CHUNK_SIZE paths))"

section \<open>Whether a signed copy will be accepted\<close>

definition current_uid_is_root :: "'n commands \<Rightarrow> ('n, bool) step" where
  "current_uid_is_root E =
    bind_s (context_s ''read current uid'' (run_command E ''id'' [''-u''])) (\<lambda>uid.
    ret (trim uid = ''0''))"

definition current_user_name :: "'n commands \<Rightarrow> ('n, string) step" where
  "current_user_name E =
    bind_s (context_s ''read current user'' (run_command E ''id'' [''-un''])) (\<lambda>user.
    if trim user = [] then lift_r (bail ''current user name is empty'') else ret (trim user))"

definition current_group_names :: "'n commands \<Rightarrow> ('n, string list) step" where
  "current_group_names E =
    bind_s (context_s ''read current groups'' (run_command E ''id'' [''-Gn''])) (\<lambda>groups.
    ret (split_whitespace groups))"

text \<open>
  The loop over the trimmed, non-empty lines: the values of matching assignments, the bare
  lines, and whether an assignment, or a matching one, was seen.
\<close>

record config_scan =
  scan_values :: "string list"
  bare_lines :: "string list"
  saw_assignment :: bool
  saw_matching_assignment :: bool

definition scan_line :: "string \<Rightarrow> string \<Rightarrow> config_scan \<Rightarrow> config_scan" where
  "scan_line option line s =
    (case split_once (CHR ''='') line of
       Some (key, val) \<Rightarrow>
         (let s = s\<lparr>saw_assignment := True\<rparr> in
          if trim key = option
          then s\<lparr>saw_matching_assignment := True, scan_values := scan_values s @ split_whitespace val\<rparr>
          else s)
     | None \<Rightarrow> s\<lparr>bare_lines := bare_lines s @ [line]\<rparr>)"

definition parse_nix_config_values :: "string \<Rightarrow> string \<Rightarrow> string list" where
  "parse_nix_config_values output option =
    (let lines = filter (\<lambda>line. line \<noteq> []) (map trim (str_lines output));
         s = fold (scan_line option) lines
           \<lparr>scan_values = [], bare_lines = [], saw_assignment = False, saw_matching_assignment = False\<rparr>
     in
       if \<not> saw_assignment s \<or> \<not> saw_matching_assignment s
       then scan_values s @ concat (map split_whitespace (bare_lines s))
       else scan_values s)"

definition nix_config_values :: "'n commands \<Rightarrow> string \<Rightarrow> ('n, string list) step" where
  "nix_config_values E option =
    bind_s (context_s (''read nix config '' @ option) (run_command E ''nix'' [''config'', ''show'', option])) (\<lambda>output.
    ret (parse_nix_config_values output option))"

definition trusted_users_allow_user :: "string list \<Rightarrow> string \<Rightarrow> string list \<Rightarrow> bool" where
  "trusted_users_allow_user trusted_users user groups \<longleftrightarrow>
    ''*'' \<in> set trusted_users \<or> user \<in> set trusted_users
    \<or> list_ex (\<lambda>group. (''@'' @ group) \<in> set trusted_users) groups"

definition signed_cache_import_allowed ::
  "bool \<Rightarrow> string \<Rightarrow> string list \<Rightarrow> string list \<Rightarrow> string list \<Rightarrow> string \<Rightarrow> bool" where
  "signed_cache_import_allowed is_root current_user current_groups trusted_users trusted_public_keys public_key \<longleftrightarrow>
    is_root \<or> trusted_users_allow_user trusted_users current_user current_groups
    \<or> trim public_key \<in> set trusted_public_keys"

definition rejection_text :: "string \<Rightarrow> string \<Rightarrow> string" where
  "rejection_text user public_key =
    ''Nix will reject this signed cache import.'' @ [CHR 0x0A, CHR 0x0A]
    @ ''Current user: '' @ user @ [CHR 0x0A] @ ''Builder key: '' @ public_key @ [CHR 0x0A, CHR 0x0A]
    @ ''This user is not in nix.settings.trusted-users, and the builder key is not in nix.settings.trusted-public-keys.''
    @ [CHR 0x0A, CHR 0x0A] @ ''Fix one of:'' @ [CHR 0x0A]
    @ ''  - add this user to nix.settings.trusted-users'' @ [CHR 0x0A]
    @ ''  - add the builder key to nix.settings.trusted-public-keys'' @ [CHR 0x0A]
    @ ''  - enable services.drv-thru.client.ticketHelper and add this user to its group''"

definition signed_cache_import_trust :: "'n commands \<Rightarrow> string \<Rightarrow> ('n, signed_cache_import_trust) step" where
  "signed_cache_import_trust E public_key0 =
    (let public_key = trim public_key0 in
     if public_key = [] then lift_r (bail ''trusted public key is empty'')
     else
       bind_s (current_uid_is_root E) (\<lambda>is_root.
       if is_root then ret CanPassPublicKey
       else
         bind_s (current_user_name E) (\<lambda>user.
         bind_s (current_group_names E) (\<lambda>groups.
         bind_s (nix_config_values E ''trusted-users'') (\<lambda>trusted_users.
         if trusted_users_allow_user trusted_users user groups then ret CanPassPublicKey
         else
           bind_s (nix_config_values E ''trusted-public-keys'') (\<lambda>trusted_public_keys.
           if public_key \<in> set trusted_public_keys then ret KeyAlreadyTrusted
           else lift_r (bail (rejection_text user public_key))))))))"

section \<open>Lines of paths\<close>

definition unlines :: "string list \<Rightarrow> string" where
  "unlines ls = concat (map (\<lambda>l. l @ [CHR 0x0A]) ls)"

lemma str_lines_unlines:
  "list_all (\<lambda>l. CHR 0x0A \<notin> set l \<and> CHR 0x0D \<notin> set l) ls \<Longrightarrow> str_lines (unlines ls) = ls"
proof (induction ls)
  case Nil
  then show ?case by (simp add: str_lines_def unlines_def)
next
  case (Cons l ls)
  have cr: "cut_cr l = l"
  proof -
    have "strip_suffix [CHR 0x0D] l = None"
      using Cons.prems by (cases "strip_suffix [CHR 0x0D] l") auto
    then show ?thesis by (simp add: cut_cr_def)
  qed
  have "split_on (CHR 0x0A) (unlines (l # ls)) = l # split_on (CHR 0x0A) (unlines ls)"
    using Cons.prems by (simp add: unlines_def split_on_Cons_line)
  moreover have "split_on (CHR 0x0A) (unlines ls) \<noteq> []" by (cases "unlines ls") (auto split: list.splits)
  ultimately have "str_lines (unlines (l # ls)) = cut_cr l # str_lines (unlines ls)"
    by (cases "split_on (CHR 0x0A) (unlines ls)") (simp_all add: str_lines_def)
  with Cons cr show ?case by simp
qed

lemma output_lines_paths: "output_lines (unlines (map as_str ps)) = map as_str ps"
proof -
  have "str_lines (unlines (map as_str ps)) = map as_str ps"
    by (rule str_lines_unlines) (simp add: list_all_iff as_str_no_newline)
  moreover have "List.map_filter non_empty_line (map as_str ps) = map as_str ps"
    by (induction ps) (simp_all add: List.map_filter_def)
  ultimately show ?thesis by (simp add: output_lines_def)
qed

lemma unlines_ascii: "list_all is_ascii (unlines (map as_str ps))"
proof -
  have "list_all is_ascii (as_str p)" for p
    using as_str_visible [of p] by (auto simp: list_all_iff visible_ascii)
  moreover have "is_ascii (CHR 0x0A)" by (simp add: is_ascii_def byte_def)
  ultimately show ?thesis by (induction ps) (simp_all add: unlines_def)
qed

section \<open>Which paths are missing\<close>

text \<open>
  What \<open>nix-store --check-validity --print-invalid\<close> does: it prints the arguments that are not
  valid, one per line, succeeds, and changes nothing.
\<close>

definition prints_invalid :: "'n commands \<Rightarrow> ('n \<Rightarrow> store_path \<Rightarrow> bool) \<Rightarrow> bool" where
  "prints_invalid E valid \<longleftrightarrow>
    (\<forall>n ps. \<exists>o1. output_of E ''nix-store'' ([''--check-validity'', ''--print-invalid''] @ map as_str ps) n = (Ok o1, n)
      \<and> exit_ok o1 \<and> out_bytes o1 = unlines (map as_str (filter (\<lambda>p. \<not> valid n p) ps)))"

lemma missing_chunks_exact:
  assumes "prints_invalid E valid"
  shows "missing_chunks E chunks acc n = (Ok (acc @ map as_str (filter (\<lambda>p. \<not> valid n p) (concat chunks))), n)"
proof (induction chunks arbitrary: acc)
  case Nil
  then show ?case by simp
next
  case (Cons chunk rest)
  let ?bad = "filter (\<lambda>p. \<not> valid n p) chunk"
  obtain o1 where o1: "output_of E ''nix-store'' ([''--check-validity'', ''--print-invalid''] @ map as_str chunk) n = (Ok o1, n)"
    "exit_ok o1" "out_bytes o1 = unlines (map as_str ?bad)"
    using assms unfolding prints_invalid_def by blast
  have utf8: "from_utf8 (out_bytes o1) = Ok (out_bytes o1)"
    unfolding o1(3) by (rule from_utf8_ascii) (rule unlines_ascii)
  have "collect_r store_path_new (output_lines (out_bytes o1)) = Ok ?bad"
    unfolding o1(3) output_lines_paths collect_store_paths by simp
  with o1(1,2) utf8 Cons.IH show ?case
    by (simp add: bind_s_def command_output_def context_s_def)
qed

text \<open>
  Given a nix-store that prints the invalid paths, the missing paths are exactly the invalid
  ones, in the order asked, across chunks of arguments.
\<close>

theorem missing_paths_exact:
  assumes "prints_invalid E valid"
  shows "missing_paths E paths n = (Ok (filter (\<lambda>p. \<not> valid n p) paths), n)"
proof (cases "paths = []")
  case True
  then show ?thesis by (simp add: missing_paths_def)
next
  case False
  have conc: "concat (chunks_of PATH_ARG_CHUNK_SIZE paths) = paths"
    by (simp add: concat_chunks_of PATH_ARG_CHUNK_SIZE_def)
  have "filter (\<lambda>p. as_str p \<in> as_str ` {q \<in> set paths. \<not> valid n q}) paths = filter (\<lambda>p. \<not> valid n p) paths"
    by (rule filter_cong) (auto simp: as_str_inject)
  with False missing_chunks_exact [OF assms, of "chunks_of PATH_ARG_CHUNK_SIZE paths" "[]" n] conc
  show ?thesis by (simp add: missing_paths_def bind_s_def)
qed

text \<open>Whatever the command prints, only paths that were asked for are reported, in order.\<close>

lemma missing_paths_subseq:
  "missing_paths E paths n = (Ok missing, n') \<Longrightarrow> subseq missing paths"
  by (auto simp: missing_paths_def bind_s_Ok_iff split: if_splits)

section \<open>Closures\<close>

lemma distinct_paths_Ok:
  "distinct_paths ls seen = Ok ps \<Longrightarrow>
     distinct (map as_str ps) \<and> set (map as_str ps) = set ls - set seen \<and> subseq (map as_str ps) ls"
proof (induction ls arbitrary: seen ps)
  case Nil
  then show ?case by simp
next
  case (Cons l ls)
  from Cons.prems obtain p where p: "as_str p = l" by (auto simp: store_path_new_Ok_iff)
  show ?case
  proof (cases "l \<in> set seen")
    case True
    with Cons.prems have "distinct_paths ls seen = Ok ps" by (auto simp: store_path_new_Ok_iff)
    from Cons.IH [OF this] True show ?thesis by auto
  next
    case False
    with Cons.prems obtain q qs where q: "as_str q = l" "distinct_paths ls (l # seen) = Ok qs" "ps = q # qs"
      by (auto simp: store_path_new_Ok_iff split: if_splits)
    from Cons.IH [OF q(2)] q False show ?thesis by auto
  qed
qed

text \<open>
  The closure lists each path that nix-store prints once, in the order of its first appearance.
\<close>

theorem query_closure_lists_each_path_once:
  "case query_closure E paths n of
     (Inl e, n') \<Rightarrow> True
   | (Inr closure, n') \<Rightarrow>
       (if paths = [] then closure = []
        else \<exists>output. fst (run_command E ''nix-store'' (''-qR'' # map as_str paths) n) = Ok output
          \<and> distinct (map as_str closure) \<and> set (map as_str closure) = set (output_lines output)
          \<and> subseq (map as_str closure) (output_lines output))"
proof (cases "query_closure E paths n")
  case (Pair r n')
  show ?thesis
  proof (cases r)
    case (Inl e)
    with Pair show ?thesis by simp
  next
    case (Inr closure)
    show ?thesis
    proof (cases "paths = []")
      case True
      with Pair Inr show ?thesis by (simp add: query_closure_def)
    next
      case False
      with Pair Inr obtain o1 n1 where
        "run_command E ''nix-store'' (''-qR'' # map as_str paths) n = (Ok o1, n1)"
        "distinct_paths (output_lines o1) [] = Ok closure"
        by (auto simp: query_closure_def bind_s_Ok_iff)
      with distinct_paths_Ok [OF this(2)] False Pair Inr show ?thesis by simp
    qed
  qed
qed

section \<open>The decision on a signed copy\<close>

definition answers :: "'n commands \<Rightarrow> string \<Rightarrow> string list \<Rightarrow> string \<Rightarrow> bool" where
  "answers E program args output \<longleftrightarrow> (\<forall>n. run_command E program args n = (Ok output, n))"

text \<open>
  The decision on a signed import follows root, then the trusted users and groups, then the
  trusted public keys.
\<close>

theorem import_trust_exact:
  assumes "answers E ''id'' [''-u''] uid" and "answers E ''id'' [''-un''] user"
    and "answers E ''id'' [''-Gn''] groups"
    and "answers E ''nix'' [''config'', ''show'', ''trusted-users''] users"
    and "answers E ''nix'' [''config'', ''show'', ''trusted-public-keys''] keys"
    and "trim user \<noteq> []" and "trim key \<noteq> []"
  shows "let is_root = (trim uid = ''0''); u = trim user; gs = split_whitespace groups;
             us = parse_nix_config_values users ''trusted-users'';
             ks = parse_nix_config_values keys ''trusted-public-keys''
    in is_ok (fst (signed_cache_import_trust E key n)) = signed_cache_import_allowed is_root u gs us ks key
      \<and> (fst (signed_cache_import_trust E key n) = Ok CanPassPublicKey)
          = (is_root \<or> ''*'' \<in> set us \<or> u \<in> set us \<or> (\<exists>g. g \<in> set gs \<and> (''@'' @ g) \<in> set us))"
proof -
  have "trusted_users_allow_user us u gs \<longleftrightarrow> ''*'' \<in> set us \<or> u \<in> set us \<or> (\<exists>g. g \<in> set gs \<and> (''@'' @ g) \<in> set us)"
    for us u gs
    by (auto simp: trusted_users_allow_user_def list_ex_iff)
  then show ?thesis
    using assms
    by (simp add: signed_cache_import_trust_def signed_cache_import_allowed_def answers_def bind_s_def
        context_s_def current_uid_is_root_def current_user_name_def current_group_names_def
        nix_config_values_def Let_def)
qed


text \<open>A store of three paths, one of them missing, and the users of a machine.\<close>

definition demo_path :: "string \<Rightarrow> store_path" where
  "demo_path name = StorePath (store_text (replicate 32 (CHR ''a'')) name)"

definition demo_store_commands :: "unit commands" where
  "demo_store_commands =
    \<lparr>output_of = (\<lambda>program args n.
       (Ok \<lparr>exit_ok = True, exit_text = [],
            out_bytes = unlines (filter (\<lambda>p. ends_with ''-gone'' p) (drop 2 args)), err_bytes = []\<rparr>, n))\<rparr>"

lemma demo_prints_invalid:
  "prints_invalid demo_store_commands (\<lambda>n p. \<not> ends_with ''-gone'' (as_str p))"
  by (simp add: prints_invalid_def demo_store_commands_def filter_map comp_def)

lemma as_str_demo_path: "good_name name \<Longrightarrow> as_str (demo_path name) = store_text (replicate 32 (CHR ''a'')) name"
proof -
  assume "good_name name"
  moreover have "good_hash (replicate 32 (CHR ''a''))"
    by (simp add: good_hash_def base32_char_def HASH_LEN_def NIX_BASE32_def list_all_iff)
  ultimately have "is_ok (validate_store_path (store_text (replicate 32 (CHR ''a'')) name))"
    by (auto simp: is_ok_iff validate_store_path_ok_iff)
  then show ?thesis by (simp add: demo_path_def StorePath_inverse)
qed

theorem missing_paths_exact_witness:
  "missing_paths demo_store_commands [demo_path ''here'', demo_path ''x-gone''] () = (Ok [demo_path ''x-gone''], ())"
proof -
  have "good_name ''here''" "good_name ''x-gone''"
    by (simp_all add: good_name_def drv_eval)
  then have "as_str (demo_path ''here'') = store_text (replicate 32 (CHR ''a'')) ''here''"
    "as_str (demo_path ''x-gone'') = store_text (replicate 32 (CHR ''a'')) ''x-gone''"
    by (simp_all add: as_str_demo_path)
  then have "\<not> ends_with ''-gone'' (as_str (demo_path ''here''))" "ends_with ''-gone'' (as_str (demo_path ''x-gone''))"
    by (simp_all add: store_text_def drv_eval)
  then show ?thesis by (simp add: missing_paths_exact [OF demo_prints_invalid])
qed

definition demo_machine :: "unit commands" where
  "demo_machine =
    \<lparr>output_of = (\<lambda>program args n.
       (Ok \<lparr>exit_ok = True, exit_text = [],
            out_bytes =
              (if args = [''-u''] then ''1000'' else if args = [''-un''] then ''ann''
               else if args = [''-Gn''] then ''users wheel''
               else if args = [''config'', ''show'', ''trusted-users''] then ''root @wheel''
               else ''key-1:abc''), err_bytes = []\<rparr>, n))\<rparr>"

theorem import_trust_exact_witness:
  "fst (signed_cache_import_trust demo_machine ''k:1'' ()) = Ok CanPassPublicKey"
proof -
  have asc: "list_all is_ascii s \<Longrightarrow> from_utf8 s = Ok s" for s by (rule from_utf8_ascii)
  note defs = answers_def run_command_def command_output_def demo_machine_def bind_s_def context_s_def
    is_ascii_def byte_def
  have a: "answers demo_machine ''id'' [''-u''] ''1000''" "answers demo_machine ''id'' [''-un''] ''ann''"
    "answers demo_machine ''id'' [''-Gn''] ''users wheel''"
    "answers demo_machine ''nix'' [''config'', ''show'', ''trusted-users''] ''root @wheel''"
    "answers demo_machine ''nix'' [''config'', ''show'', ''trusted-public-keys''] ''key-1:abc''"
    by (simp_all add: defs asc)
  have t: "trim ''ann'' \<noteq> []" "trim ''k:1'' \<noteq> []" by (simp_all add: drv_eval)
  have "split_whitespace ''users wheel'' = [''users'', ''wheel'']"
    "parse_nix_config_values ''root @wheel'' ''trusted-users'' = [''root'', ''@wheel'']"
    by (simp_all add: parse_nix_config_values_def scan_line_def drv_eval)
  with import_trust_exact [OF a t, of "()"] show ?thesis by (simp add: Let_def) 
qed

end
