(* ===== verification/Nix_Build.thy ===== *)
theory Nix_Build
  imports Nix_Commands
begin

text \<open>
  \<open>nix.rs\<close>, the commands whose streams are passed on while they run: realising a derivation with
  its log, exporting and importing store paths. A child process is a parameter: what it prints,
  in which order the two streams are read, and how it ends.
\<close>

record child =
  child_stdout :: "string result list"
  child_stderr :: "string result list"
  child_schedule :: "bool list"
  child_status :: "bool result"
  child_duration :: duration
  turns_within :: "duration \<Rightarrow> nat"

record 'n children =
  spawn_realise :: "string list \<Rightarrow> ('n, child) step"
  spawn_export :: "string list \<Rightarrow> ('n, unit) step"
  export_stdout :: "('n, string \<times> anyhow option) step"
  wait_export :: "('n, cmd_output) step"
  spawn_import :: "string list \<Rightarrow> ('n, unit) step"
  import_stdin :: "string \<Rightarrow> ('n, unit) step"
  wait_import :: "('n, cmd_output) step"
  kill_import :: "('n, unit) step"

record realise_result =
  realise_success :: bool
  realise_output_paths :: "store_path list"

definition realise_args :: "output_mode \<Rightarrow> bool \<Rightarrow> string list" where
  "realise_args mode check =
    [''--realise''] @ (if check then [''--check''] else [])
    @ (case mode of
         Nom \<Rightarrow> [''--log-format'', ''internal-json'', ''-v'']
       | Plain \<Rightarrow> [''--log-format'', ''raw'', ''-v''])"

section \<open>The log of a build\<close>

text \<open>
  \<open>tokio::select!\<close> over the two line readers: a finished stream is not polled again, and while
  both are open the schedule says which one is ready. \<open>turns\<close> is the number of turns until the
  deadline of a surrounding timeout, if there is one.
\<close>

definition timed_out :: "anyhow" where
  "timed_out = Context ''build timed out'' (lib_error ''elapsed'')"

function stream_child_lines ::
  "(string \<Rightarrow> ('w, unit) step) \<Rightarrow> nat option \<Rightarrow> bool list \<Rightarrow> string result list \<Rightarrow> string result list \<Rightarrow>
     bool \<Rightarrow> bool \<Rightarrow> ('w, unit) step" where
  "stream_child_lines log turns sched out err out_done err_done w =
    (if turns = Some 0 then (Err timed_out, w)
     else if out_done \<and> err_done then (Ok (), w)
     else
       let pick_out = (if out_done then False else if err_done then True
                       else case sched of [] \<Rightarrow> True | b # _ \<Rightarrow> b);
           sched = tl sched;
           turns = map_option (\<lambda>n. n - 1) turns
       in
         if pick_out then
           (case out of
              [] \<Rightarrow> stream_child_lines log turns sched [] err True err_done w
            | Inl e # _ \<Rightarrow> (Err (Context ''read nix-store stdout'' e), w)
            | Inr line # out \<Rightarrow>
                (case log line w of
                   (Inl e, w) \<Rightarrow> (Inl e, w)
                 | (Inr _, w) \<Rightarrow> stream_child_lines log turns sched out err out_done err_done w))
         else
           (case err of
              [] \<Rightarrow> stream_child_lines log turns sched out [] out_done True w
            | Inl e # _ \<Rightarrow> (Err (Context ''read nix-store stderr'' e), w)
            | Inr line # err \<Rightarrow>
                (case log line w of
                   (Inl e, w) \<Rightarrow> (Inl e, w)
                 | (Inr _, w) \<Rightarrow> stream_child_lines log turns sched out err out_done err_done w)))"
  by pat_completeness auto

termination
  by (relation "measure (\<lambda>(log, t, s, out, err, od, ed, w).
        length out + length err + (if od then 0 else 1) + (if ed then 0 else 1))")
    (auto split: if_splits)

declare stream_child_lines.simps [simp del]

text \<open>\<open>realise\<close>, under a timeout when there is a deadline.\<close>

definition deadline_turns :: "duration option \<Rightarrow> child \<Rightarrow> nat option" where
  "deadline_turns deadline c =
    (case deadline of
       None \<Rightarrow> None
     | Some d \<Rightarrow> if child_duration c \<le> d then None else Some (turns_within c d))"

definition realise ::
  "'w commands \<Rightarrow> 'w children \<Rightarrow> duration option \<Rightarrow> store_path \<Rightarrow> output_mode \<Rightarrow> bool \<Rightarrow>
     (string \<Rightarrow> ('w, unit) step) \<Rightarrow> ('w, realise_result) step" where
  "realise E C deadline path mode check log =
    bind_s (context_s ''run nix-store --realise''
              (spawn_realise C (realise_args mode check @ [as_str path]))) (\<lambda>c.
    bind_s (stream_child_lines log (deadline_turns deadline c) (child_schedule c)
              (child_stdout c) (child_stderr c) False False) (\<lambda>_.
    if deadline_turns deadline c \<noteq> None then lift_r (Err timed_out)
    else
      bind_s (lift_r (with_context ''wait for nix-store --realise'' (child_status c))) (\<lambda>success.
      if success then
        bind_s (query_outputs E path) (\<lambda>output_paths.
        ret \<lparr>realise_success = True, realise_output_paths = output_paths\<rparr>)
      else ret \<lparr>realise_success = False, realise_output_paths = []\<rparr>)))"

section \<open>Moving store paths\<close>

text \<open>\<open>write\<close> passes the exported bytes on.\<close>

definition export_paths ::
  "'w children \<Rightarrow> (string \<Rightarrow> ('w, unit) step) \<Rightarrow> store_path list \<Rightarrow> ('w, unit) step" where
  "export_paths C write paths =
    (if paths = [] then ret ()
     else
       bind_s (context_s ''run nix-store --export'' (spawn_export C (''--export'' # map as_str paths))) (\<lambda>_.
       bind_s (export_stdout C) (\<lambda>(bytes, read_error).
       match_s (write bytes) (\<lambda>written.
       let copy_result =
         (case (written, read_error) of
            (Inl e, _) \<Rightarrow> Err e | (Inr _, Some e) \<Rightarrow> Err e | (Inr _, None) \<Rightarrow> Ok ())
       in
         bind_s (context_s ''wait for nix-store --export'' (wait_export C)) (\<lambda>output.
         bind_s (lift_r (with_context ''stream nix-store export'' copy_result)) (\<lambda>_.
         if \<not> exit_ok output then
           lift_r (bail (''nix-store --export failed: '' @ trim (utf8_lossy (err_bytes output))))
         else ret ()))))))"

text \<open>What a reader delivers: bytes, then the end or an error.\<close>

record upload =
  upload_bytes :: string
  upload_error :: "anyhow option"

text \<open>\<open>reader.take(max + 1)\<close>: the bytes that are copied, and the error that ends the copy.\<close>

definition limited_reader :: "upload \<Rightarrow> u64 option \<Rightarrow> string \<times> anyhow option" where
  "limited_reader reader max_bytes =
    (let taken = (case max_bytes of
           None \<Rightarrow> upload_bytes reader
         | Some m \<Rightarrow> take (unat (saturating_add m 1)) (upload_bytes reader))
     in (taken, if length taken < length (upload_bytes reader) then None else upload_error reader))"

text \<open>The part after the copy.\<close>

definition import_finish :: "'w children \<Rightarrow> u64 option \<Rightarrow> nat result \<Rightarrow> ('w, nat) step" where
  "import_finish C max_bytes copy_result =
    (case copy_result of
       Inl err \<Rightarrow>
         bind_s (context_s ''wait for failed nix-store --import'' (wait_import C)) (\<lambda>output.
         lift_r (bail (''stream nix-store import: '' @ err_text err @ ''; nix-store stderr: ''
                       @ trim (utf8_lossy (err_bytes output)))))
     | Inr copied \<Rightarrow>
         if (case max_bytes of None \<Rightarrow> False | Some m \<Rightarrow> unat m < copied) then
           match_s (kill_import C) (\<lambda>_.
           lift_r (bail (''upload exceeded max bytes: '' @ show_nat copied)))
         else
           bind_s (context_s ''wait for nix-store --import'' (wait_import C)) (\<lambda>output.
           if \<not> exit_ok output then
             lift_r (bail (''nix-store --import failed: '' @ trim (utf8_lossy (err_bytes output))))
           else ret copied))"

definition import_unsigned_export_stream ::
  "'w children \<Rightarrow> upload \<Rightarrow> u64 option \<Rightarrow> ('w, nat) step" where
  "import_unsigned_export_stream C reader max_bytes =
    bind_s (context_s ''run nix-store --import''
              (spawn_import C [''--option'', ''require-sigs'', ''false'', ''--import''])) (\<lambda>_.
    let (taken, read_error) = limited_reader reader max_bytes in
      match_s (import_stdin C taken) (\<lambda>fed.
      import_finish C max_bytes
        (case (fed, read_error) of
           (Inl e, _) \<Rightarrow> Inl e | (Inr _, Some e) \<Rightarrow> Inl e | (Inr _, None) \<Rightarrow> Inr (length taken))))"

lemma keeps_export_paths:
  assumes "reflp R" "transp R" "\<And>args. keeps R (spawn_export C args)" "keeps R (export_stdout C)"
    "keeps R (wait_export C)" "\<And>bytes. keeps R (writer bytes)"
  shows "keeps R (export_paths C writer ps)"
  unfolding export_paths_def Let_def using assms
  by (auto intro!: keeps_bind_s keeps_match_s keeps_context_s keeps_ret keeps_lift_r split: prod.split)

lemma keeps_import_stream:
  assumes "reflp R" "transp R" "\<And>args. keeps R (spawn_import C args)" "\<And>bytes. keeps R (import_stdin C bytes)"
    "keeps R (wait_import C)" "keeps R (kill_import C)"
  shows "keeps R (import_unsigned_export_stream C reader m)"
proof -
  have "keeps R (import_finish C m c)" for c
    unfolding import_finish_def using assms
    by (auto intro!: keeps_bind_s keeps_match_s keeps_context_s keeps_ret keeps_lift_r split: sum.splits)
  with assms show ?thesis
    unfolding import_unsigned_export_stream_def Let_def
    by (auto intro!: keeps_bind_s keeps_match_s keeps_context_s split: prod.splits)
qed

section \<open>The log is complete\<close>

text \<open>A sink that records the lines it was given and may refuse one.\<close>

definition log_sink :: "(nat \<Rightarrow> bool) \<Rightarrow> string \<Rightarrow> (string list, unit) step" where
  "log_sink accepts line w =
    (if accepts (length w) then (Ok (), w @ [line]) else (Err (lib_error ''log_line''), w))"

lemma stream_child_lines_Ok:
  assumes "stream_child_lines log turns sched out err od ed w = (Ok u, w')"
  shows "(od \<or> list_all is_ok out) \<and> (ed \<or> list_all is_ok err)"
  using assms
proof (induction log turns sched out err od ed w rule: stream_child_lines.induct)
  case (1 log turns sched out err od ed w)
  note run = 1(5)
  define pick where "pick = (if od then False else if ed then True else case sched of [] \<Rightarrow> True | b # _ \<Rightarrow> b)"
  have t: "turns \<noteq> Some 0" using run by (auto simp: stream_child_lines.simps [of _ turns])
  note step = run [unfolded stream_child_lines.simps [of _ turns] Let_def, folded pick_def]
  show ?case
  proof (cases "od \<and> ed")
    case True
    then show ?thesis by simp
  next
    case False
    show ?thesis
    proof (cases pick)
      case True
      show ?thesis
      proof (cases out)
        case Nil
        with step t False True have
          "stream_child_lines log (map_option (\<lambda>n. n - 1) turns) (tl sched) [] err True ed w = (Ok u, w')"
          by simp
        from 1(1) [OF t False refl refl refl _ Nil this] Nil True pick_def show ?thesis by simp
      next
        case (Cons x xs)
        then obtain line where x: "x = Inr line" using step t False True by (cases x) auto
        with step t False True Cons obtain v w1 where acc: "log line w = (Inr v, w1)"
          and rest: "stream_child_lines log (map_option (\<lambda>n. n - 1) turns) (tl sched) xs err od ed w1 = (Ok u, w')"
          by (cases "log line w"; cases "fst (log line w)") auto
        from 1(2) [OF t False refl refl refl _ Cons x acc [symmetric] refl rest] Cons x True pick_def
        show ?thesis by simp
      qed
    next
      case pick: False
      show ?thesis
      proof (cases err)
        case Nil
        with step t False pick have
          "stream_child_lines log (map_option (\<lambda>n. n - 1) turns) (tl sched) out [] od True w = (Ok u, w')"
          by simp
        from 1(3) [OF t False refl refl refl _ Nil this] Nil pick pick_def show ?thesis by simp
      next
        case (Cons x xs)
        then obtain line where x: "x = Inr line" using step t False pick by (cases x) auto
        with step t False pick Cons obtain v w1 where acc: "log line w = (Inr v, w1)"
          and rest: "stream_child_lines log (map_option (\<lambda>n. n - 1) turns) (tl sched) out xs od ed w1 = (Ok u, w')"
          by (cases "log line w"; cases "fst (log line w)") auto
        from 1(4) [OF t False refl refl refl _ Cons x acc [symmetric] refl rest] Cons x pick pick_def
        show ?thesis by simp
      qed
    qed
  qed
qed

text \<open>What every logged line keeps, the whole log keeps.\<close>

lemma keeps_stream_child_lines:
  assumes "reflp R" "transp R" "\<And>l. keeps R (log l)"
  shows "keeps R (stream_child_lines log turns sched out err od ed)"
proof -
  have "R w (snd (stream_child_lines log turns sched out err od ed w))" for w
    using assms
  proof (induction log turns sched out err od ed w rule: stream_child_lines.induct)
    case (1 log turns sched out err od ed w)
    note R = 1(5-7)
    define pick where "pick = (if od then False else if ed then True else case sched of [] \<Rightarrow> True | b # _ \<Rightarrow> b)"
    have rfl: "R w w" using R(1) by (rule reflpD)
    have go: "R w (snd (case log line w of (Inl e, w) \<Rightarrow> (Inl e, w) | (Inr _, w) \<Rightarrow> f w))"
      if "\<And>u w1. log line w = (Inr u, w1) \<Longrightarrow> R w1 (snd (f w1))" for line f
    proof (cases "log line w")
      case (Pair r w1)
      have "R w w1" using R(3) Pair by (rule keepsD)
      with Pair that R(2) show ?thesis by (cases r) (auto dest: transpD)
    qed
    show ?case
    proof (cases "turns = Some 0 \<or> od \<and> ed")
      case True
      with rfl show ?thesis by (subst stream_child_lines.simps) auto
    next
      case False
      note step = stream_child_lines.simps [of log turns sched out err od ed w, folded pick_def, unfolded Let_def]
      show ?thesis
      proof (cases pick)
        case True
        show ?thesis
        proof (cases out)
          case Nil
          with 1(1) [OF _ _ refl refl refl _ Nil R] True False step pick_def show ?thesis by auto
        next
          case (Cons x xs)
          with 1(2) [OF _ _ refl refl refl _ Cons _ _ refl R] True False step pick_def rfl show ?thesis
            by (cases x) (auto intro!: go)
        qed
      next
        case pick: False
        show ?thesis
        proof (cases err)
          case Nil
          with 1(3) [OF _ _ refl refl refl _ Nil R] pick False step pick_def show ?thesis by auto
        next
          case (Cons x xs)
          with 1(4) [OF _ _ refl refl refl _ Cons _ _ refl R] pick False step pick_def rfl show ?thesis
            by (cases x) (auto intro!: go)
        qed
      qed
    qed
  qed
  then show ?thesis by (simp add: keeps_def)
qed

text \<open>A sink that appends what it makes of a line to an observation of its world.\<close>

definition reports :: "(string \<Rightarrow> ('w, unit) step) \<Rightarrow> ('w \<Rightarrow> 'b list) \<Rightarrow> (string \<Rightarrow> 'b) \<Rightarrow> bool" where
  "reports log obs mk \<longleftrightarrow> (\<forall>line w w'. log line w = (Ok (), w') \<longrightarrow> obs w' = obs w @ [mk line])"

lemma reportsD: "reports log obs mk \<Longrightarrow> log line w = (Inr (), w') \<Longrightarrow> obs w' = obs w @ [mk line]"
  by (simp add: reports_def)

lemma reports_log_sink: "reports (log_sink accepts) (\<lambda>w. w) (\<lambda>l. l)"
  by (simp add: reports_def log_sink_def)

lemma stream_child_lines_shuffle:
  assumes "stream_child_lines log turns sched out err od ed w = (Ok u, w')"
    and "od \<Longrightarrow> out = []" and "ed \<Longrightarrow> err = []"
    and "reports log obs mk"
  shows "\<exists>los les ls. out = map Inr los \<and> err = map Inr les \<and> ls \<in> shuffles los les \<and> obs w' = obs w @ map mk ls"
  using assms
proof (induction log turns sched out err od ed w rule: stream_child_lines.induct)
  case (1 log turns sched out err od ed w)
  note run = 1(5) and sink = 1(8)
  define pick where "pick = (if od then False else if ed then True else case sched of [] \<Rightarrow> True | b # _ \<Rightarrow> b)"
  let ?t = "map_option (\<lambda>n. n - 1) turns"
  have t: "turns \<noteq> Some 0" using run by (auto simp: stream_child_lines.simps [of _ turns])
  show ?case
  proof (cases "od \<and> ed")
    case True
    with run t have "w' = w" by (simp add: stream_child_lines.simps [of _ turns])
    with True 1(6,7) show ?thesis by auto
  next
    case False
    note step = run [unfolded stream_child_lines.simps [of _ turns] Let_def, folded pick_def]
    show ?thesis
    proof (cases pick)
      case True
      have od: "\<not> od" using True by (auto simp: pick_def split: if_splits)
      show ?thesis
      proof (cases out)
        case Nil
        with step t False True have rest:
          "stream_child_lines log ?t (tl sched) [] err True ed w = (Ok u, w')"
          by simp
        have "\<exists>los les ls. [] = map Inr los \<and> err = map Inr les \<and> ls \<in> shuffles los les \<and> obs w' = obs w @ map mk ls"
          using 1(1) [OF t False refl refl refl _ Nil rest _ _ sink] 1(7) True pick_def by simp
        with Nil show ?thesis by simp
      next
        case (Cons x xs)
        then obtain line where x: "x = Inr line" using step t False True by (cases x) auto
        with step t False True Cons obtain w1 where rest:
          "stream_child_lines log ?t (tl sched) xs err od ed w1 = (Ok u, w')"
          and acc: "log line w = (Inr (), w1)"
          by (cases "log line w"; cases "fst (log line w)") auto
        have "\<exists>los les ls. xs = map Inr los \<and> err = map Inr les \<and> ls \<in> shuffles los les \<and> obs w' = obs w1 @ map mk ls"
          using 1(2) [OF t False refl refl refl _ Cons x acc [symmetric] refl rest _ _ sink] 1(7) True od pick_def by simp
        then obtain los les ls where h: "xs = map Inr los" "err = map Inr les" "ls \<in> shuffles los les"
          "obs w' = obs w1 @ map mk ls" by blast
        then have "line # ls \<in> shuffles (line # los) les"
          by (cases les) (auto simp: Cons_in_shuffles_iff)
        with h Cons x reportsD [OF sink acc] show ?thesis by (intro exI [of _ "line # los"] exI [of _ les] exI [of _ "line # ls"]) simp
      qed
    next
      case pick: False
      have ed: "\<not> ed" using pick False by (auto simp: pick_def split: if_splits)
      show ?thesis
      proof (cases err)
        case Nil
        with step t False pick have rest:
          "stream_child_lines log ?t (tl sched) out [] od True w = (Ok u, w')"
          by simp
        have "\<exists>los les ls. out = map Inr los \<and> [] = map Inr les \<and> ls \<in> shuffles los les \<and> obs w' = obs w @ map mk ls"
          using 1(3) [OF t False refl refl refl _ Nil rest _ _ sink] 1(6) pick pick_def by simp
        with Nil show ?thesis by simp
      next
        case (Cons x xs)
        then obtain line where x: "x = Inr line" using step t False pick by (cases x) auto
        with step t False pick Cons obtain w1 where rest:
          "stream_child_lines log ?t (tl sched) out xs od ed w1 = (Ok u, w')"
          and acc: "log line w = (Inr (), w1)"
          by (cases "log line w"; cases "fst (log line w)") auto
        have "\<exists>los les ls. out = map Inr los \<and> xs = map Inr les \<and> ls \<in> shuffles los les \<and> obs w' = obs w1 @ map mk ls"
          using 1(4) [OF t False refl refl refl _ Cons x acc [symmetric] refl rest _ _ sink] 1(6) pick ed pick_def by simp
        then obtain los les ls where h: "out = map Inr los" "xs = map Inr les" "ls \<in> shuffles los les"
          "obs w' = obs w1 @ map mk ls" by blast
        then have "line # ls \<in> shuffles los (line # les)"
          by (cases los) (auto simp: Cons_in_shuffles_iff)
        with h Cons x reportsD [OF sink acc] show ?thesis by (intro exI [of _ los] exI [of _ "line # les"] exI [of _ "line # ls"]) simp
      qed
    qed
  qed
qed

text \<open>
  C31: When the log of a build ends without error, every line of both output streams has been
  passed on, each stream in its order.
\<close>

theorem build_log_is_an_interleaving:
  "case stream_child_lines (log_sink accepts) turns sched out err False False [] of
     (Inl e, w) \<Rightarrow> True
   | (Inr _, log) \<Rightarrow> \<exists>los les. out = map Inr los \<and> err = map Inr les \<and> log \<in> shuffles los les"
proof (cases "stream_child_lines (log_sink accepts) turns sched out err False False []")
  case (Pair r w')
  then show ?thesis
    using stream_child_lines_shuffle [OF _ _ _ reports_log_sink, of accepts turns sched out err False False "[]" "()" w']
    by (cases r) auto
qed

text \<open>
  A build that is reported as done ran within its deadline, its success is the exit status of
  the child, and only a success has output paths.
\<close>

theorem realise_respects_deadline:
  "case realise E C deadline path mode check log w of
     (Inl e, w') \<Rightarrow> True
   | (Inr r, w') \<Rightarrow>
       \<exists>c. fst (spawn_realise C (realise_args mode check @ [as_str path]) w) = Ok c
         \<and> (case deadline of None \<Rightarrow> True | Some d \<Rightarrow> child_duration c \<le> d)
         \<and> child_status c = Ok (realise_success r)
         \<and> list_all is_ok (child_stdout c) \<and> list_all is_ok (child_stderr c)
         \<and> (realise_success r \<or> realise_output_paths r = [])"
proof (cases "realise E C deadline path mode check log w")
  case (Pair res w')
  show ?thesis
  proof (cases res)
    case (Inl e)
    with Pair show ?thesis by simp
  next
    case (Inr r)
    with Pair obtain c w1 w2 where c: "spawn_realise C (realise_args mode check @ [as_str path]) w = (Ok c, w1)"
      and lines: "stream_child_lines log (deadline_turns deadline c) (child_schedule c)
              (child_stdout c) (child_stderr c) False False w1 = (Ok (), w2)"
      and rest: "(if deadline_turns deadline c \<noteq> None then lift_r (Err timed_out)
        else bind_s (lift_r (with_context ''wait for nix-store --realise'' (child_status c))) (\<lambda>success.
          if success then bind_s (query_outputs E path) (\<lambda>output_paths.
            ret \<lparr>realise_success = True, realise_output_paths = output_paths\<rparr>)
          else ret \<lparr>realise_success = False, realise_output_paths = []\<rparr>)) w2 = (Inr r, w')"
      by (auto simp: realise_def bind_s_Ok_iff context_s_def split: prod.splits)
    from rest have "deadline_turns deadline c = None" "child_status c = Ok (realise_success r)"
      "realise_success r \<or> realise_output_paths r = []"
      by (auto simp: bind_s_Ok_iff split: if_splits)
    moreover from this(1) have "case deadline of None \<Rightarrow> True | Some d \<Rightarrow> child_duration c \<le> d"
      by (auto simp: deadline_turns_def split: option.splits if_splits)
    ultimately show ?thesis using c stream_child_lines_Ok [OF lines] Pair Inr by auto
  qed
qed

lemma import_finish_Ok:
  "import_finish C max_bytes res w = (Inr copied, w') \<Longrightarrow>
     res = Inr copied \<and> (case max_bytes of None \<Rightarrow> True | Some m \<Rightarrow> copied \<le> unat m)"
proof (cases res)
  case (Inl e)
  moreover assume "import_finish C max_bytes res w = (Inr copied, w')"
  ultimately show ?thesis by (auto simp: import_finish_def bind_s_Ok_iff)
next
  case (Inr n)
  moreover assume "import_finish C max_bytes res w = (Inr copied, w')"
  ultimately show ?thesis
    by (auto simp: import_finish_def bind_s_Ok_iff match_s_def not_less split: option.splits if_splits prod.splits)
qed

text \<open>
  C32: An accepted import is no longer than the upload limit and is the whole upload, apart from
  the one limit at which the guard saturates.
\<close>

theorem import_respects_upload_limit:
  "case import_unsigned_export_stream C reader max_bytes w of
     (Inl e, w') \<Rightarrow> True
   | (Inr copied, w') \<Rightarrow>
       (case max_bytes of
          None \<Rightarrow> copied = length (upload_bytes reader)
        | Some m \<Rightarrow> copied \<le> unat m
            \<and> (copied = length (upload_bytes reader) \<or> m = - 1))"
proof (cases "import_unsigned_export_stream C reader max_bytes w")
  case (Pair r w')
  show ?thesis
  proof (cases r)
    case (Inl e)
    with Pair show ?thesis by simp
  next
    case (Inr copied)
    obtain taken read_error where lim: "limited_reader reader max_bytes = (taken, read_error)" by fastforce
    let ?res = "\<lambda>fed. case (fed, read_error) of
           (Inl e, _) \<Rightarrow> Inl e | (Inr _, Some e) \<Rightarrow> Inl e | (Inr _, None) \<Rightarrow> Inr (length taken)"
    from Pair Inr have "import_unsigned_export_stream C reader max_bytes w = (Inr copied, w')" by simp
    then obtain w1 where
      m: "match_s (import_stdin C taken) (\<lambda>fed. import_finish C max_bytes (?res fed)) w1 = (Inr copied, w')"
      unfolding import_unsigned_export_stream_def bind_s_Ok_iff Let_def lim prod.case by blast
    obtain fed w2 where fed: "import_stdin C taken w1 = (fed, w2)" by fastforce
    with m have "import_finish C max_bytes (?res fed) w2 = (Inr copied, w')" by (simp add: match_s_def)
    from import_finish_Ok [OF this] have ok: "copied = length taken"
      "case max_bytes of None \<Rightarrow> True | Some m \<Rightarrow> copied \<le> unat m"
      by (auto split: sum.splits option.splits)
    show ?thesis
    proof (cases max_bytes)
      case None
      with Pair Inr ok lim show ?thesis by (auto simp: limited_reader_def Let_def)
    next
      case (Some m)
      have t: "taken = take (unat (saturating_add m 1)) (upload_bytes reader)"
        using lim Some by (auto simp: limited_reader_def Let_def)
      have "length taken = length (upload_bytes reader) \<or> m = - 1"
      proof (cases "m = - 1")
        case False
        have "unat m \<noteq> 2 ^ 64 - 1"
        proof
          assume eq: "unat m = 2 ^ 64 - 1"
          have "m = of_nat (unat m)" by simp
          also have "\<dots> = - 1" unfolding eq by simp
          finally show False using False by simp
        qed
        moreover have "unat m < 2 ^ 64" using unsigned_less [of m] by simp
        ultimately have "unat (saturating_add m 1) = unat m + 1" by (simp add: unat_saturating_add)
        with t Some ok show ?thesis by (auto simp: min_def split: if_splits)
      qed simp
      with Pair Inr Some ok show ?thesis by simp
    qed
  qed
qed

end
