(* ===== verification/Server_World.thy ===== *)
theory Server_World
  imports Path_Chunks Ticket_Use Status_Board Nix_Build
begin

text \<open>
  What a connection handler of \<open>server/\<close> works with: the streams of its connection, the files,
  the status registry, and the surroundings the Nix commands run in. Commands see the files and
  their own state \<open>'n\<close>, nothing else. Also the constants and helpers of \<open>server/mod.rs\<close>.
\<close>

definition MAX_PATH_LIST_CHUNKS :: nat where "MAX_PATH_LIST_CHUNKS = 512"
definition MAX_PATH_LIST_PATHS :: nat where "MAX_PATH_LIST_PATHS = 100000"
definition MAX_PATH_LIST_BYTES :: nat where "MAX_PATH_LIST_BYTES = 16 * 1024 * 1024"

definition PATH_LIST_LIMITS :: read_limits where
  "PATH_LIST_LIMITS =
    \<lparr>limit_chunks = MAX_PATH_LIST_CHUNKS, limit_paths = MAX_PATH_LIST_PATHS,
     limit_bytes = MAX_PATH_LIST_BYTES\<rparr>"

text \<open>What can become ready while the output cache is served.\<close>

datatype serve_event =
    Control_Message
  | Stream_Accepted "message result list"
  | Stream_Failed
  | Prewarm_Turn

text \<open>
  \<open>rx\<close> and \<open>tx\<close> are the stream at hand: the control stream, or the stream of one cache file
  while that is served; \<open>body_out\<close> and \<open>fin\<close> belong to it too. \<open>served\<close> logs the finished file
  streams.
\<close>

record 'n srv_world = chan_world +
  registry :: mutable_status
  uploads :: "upload list"
  serve_events :: "serve_event list"
  sys_state :: 'n
  body_out :: string
  fin :: bool
  allowed_nar :: "string list"
  served :: "(message list \<times> string) list"

type_synonym 'n sys = "(string \<Rightarrow> string option) \<times> 'n"

section \<open>Commands in the handler's world\<close>

definition sys_step :: "('n sys, 'a) step \<Rightarrow> ('n srv_world, 'a) step" where
  "sys_step m w = (case m (files w, sys_state w) of (r, (fs, n)) \<Rightarrow> (r, w\<lparr>files := fs, sys_state := n\<rparr>))"

definition lift_commands :: "'n sys commands \<Rightarrow> 'n srv_world commands" where
  "lift_commands E = \<lparr>output_of = (\<lambda>program args. sys_step (output_of E program args))\<rparr>"

definition lift_children :: "'n sys children \<Rightarrow> 'n srv_world children" where
  "lift_children C =
    \<lparr>spawn_realise = (\<lambda>args. sys_step (spawn_realise C args)),
     spawn_export = (\<lambda>args. sys_step (spawn_export C args)),
     export_stdout = sys_step (export_stdout C),
     wait_export = sys_step (wait_export C),
     spawn_import = (\<lambda>args. sys_step (spawn_import C args)),
     import_stdin = (\<lambda>bytes. sys_step (import_stdin C bytes)),
     wait_import = sys_step (wait_import C),
     kill_import = sys_step (kill_import C)\<rparr>"

text \<open>An update of the registry; the file it writes is a file like the others.\<close>

definition on_registry ::
  "(mutable_status \<Rightarrow> 'n srv_world \<Rightarrow> mutable_status \<times> 'n srv_world) \<Rightarrow> 'n srv_world \<Rightarrow> 'n srv_world" where
  "on_registry f w = (case f (registry w) w of (st, w') \<Rightarrow> w'\<lparr>registry := st\<rparr>)"

section \<open>The environment of a server\<close>

record signing_key =
  key_public :: string
  key_secret_path :: string

record output_cache =
  cache_dir :: string
  cache_key :: signing_key

record ('id, 'addr, 'n) server_env =
  env_tickets :: "('id, 'addr) ticket_env"
  env_store :: ticket_store
  env_policy :: "'id access_policy"
  env_status :: status_env
  env_commands :: "'n sys commands"
  env_children :: "'n sys children"
  env_cache :: output_cache
  env_debug :: "message \<Rightarrow> string"
  env_queue_open :: bool

definition nixc :: "('id, 'addr, 'n) server_env \<Rightarrow> 'n srv_world commands" where
  "nixc E = lift_commands (env_commands E)"

definition nixp :: "('id, 'addr, 'n) server_env \<Rightarrow> 'n srv_world children" where
  "nixp E = lift_children (env_children E)"

definition send_error :: "string \<Rightarrow> ('n srv_world, unit) step" where
  "send_error message = send_message (Error \<lparr>message_text = message\<rparr>)"

definition read_message :: "('n srv_world, message) step" where
  "read_message = recv_timed"

text \<open>\<open>send.finish()?\<close> and \<open>wait_closed\<close>, which ignores its outcome.\<close>

definition finish_stream :: "('n srv_world, unit) step" where
  "finish_stream w =
    (case next_fault w of
       Fine \<Rightarrow> (Ok (), (ticked w)\<lparr>fin := True\<rparr>)
     | Fault n \<Rightarrow> (Err (lib_error ''finish''), ticked w))"

declare sys_step_def [drv_eval] lift_commands_def [drv_eval] lift_children_def [drv_eval]
  on_registry_def [drv_eval] nixc_def [drv_eval] nixp_def [drv_eval] send_error_def [drv_eval]
  read_message_def [drv_eval] finish_stream_def [drv_eval] PATH_LIST_LIMITS_def [drv_eval]
  MAX_PATH_LIST_CHUNKS_def [drv_eval] MAX_PATH_LIST_PATHS_def [drv_eval] MAX_PATH_LIST_BYTES_def [drv_eval]

end
