(* ===== verification/Server_Auth.thy ===== *)
theory Server_Auth
  imports Server_World
begin

text \<open>
  \<open>server/auth.rs\<close>: a connection is authorized as a trusted client or with a ticket; the ticket
  is checked here and redeemed only after the build request has been read.
\<close>

record authorized_connection =
  client_label :: string
  max_time :: "duration option"
  max_upload :: "u64 option"
  spend_secret :: "secret option"

definition write_auth_ok :: "string option \<Rightarrow> string \<Rightarrow> ('n srv_world, unit) step" where
  "write_auth_ok name key = send_message (AuthOk \<lparr>client_name = name, builder_public_key = key\<rparr>)"

definition authorize_trusted_client ::
  "('id, 'addr, 'n) server_env \<Rightarrow> 'id \<Rightarrow> ('n srv_world, authorized_connection option) step" where
  "authorize_trusted_client E peer =
    (case access_authorize (env_policy E) peer of
       None \<Rightarrow> bind_s (send_error ''client is not trusted'') (\<lambda>_. ret None)
     | Some client \<Rightarrow>
         bind_s (lift_r (transpose_r parse_duration (tc_max_build_time (ac_policy client)))) (\<lambda>max_build_time.
         bind_s (lift_r (transpose_r parse_byte_count (tc_max_upload_bytes (ac_policy client)))) (\<lambda>max_upload_bytes.
         let label = (case ac_name client of
               None \<Rightarrow> ''client:'' @ show_id (ids (env_tickets E)) peer
             | Some name \<Rightarrow> ''client:'' @ name) in
         bind_s (write_auth_ok (ac_name client) (key_public (cache_key (env_cache E)))) (\<lambda>_.
         ret (Some \<lparr>client_label = label, max_time = max_build_time, max_upload = max_upload_bytes,
                    spend_secret = None\<rparr>)))))"

definition authorize_ticket ::
  "('id, 'addr, 'n) server_env \<Rightarrow> 'id \<Rightarrow> secret \<Rightarrow> ('n srv_world, authorized_connection option) step" where
  "authorize_ticket E peer secret =
    match_s (ticket_check (env_tickets E) (env_store E) secret peer) (\<lambda>r.
      case r of
        Inl err \<Rightarrow> bind_s (send_error (err_text err)) (\<lambda>_. ret None)
      | Inr record \<Rightarrow>
          bind_s (lift_r (parse_duration (max_build_time record))) (\<lambda>time.
          bind_s (lift_r (parse_byte_count (max_upload_bytes record))) (\<lambda>bytes.
          let label = (case ticket_name record of
                None \<Rightarrow> ''ticket:'' @ show_id (ids (env_tickets E)) peer
              | Some name \<Rightarrow> ''ticket:'' @ name) in
          bind_s (write_auth_ok (ticket_name record) (key_public (cache_key (env_cache E)))) (\<lambda>_.
          ret (Some \<lparr>client_label = label, max_time = Some time, max_upload = Some bytes,
                     spend_secret = Some secret\<rparr>)))))"

definition authorize_connection ::
  "('id, 'addr, 'n) server_env \<Rightarrow> 'id \<Rightarrow> ('n srv_world, authorized_connection option) step" where
  "authorize_connection E peer =
    bind_s read_message (\<lambda>message.
      case message of
        AuthTrustedClient \<Rightarrow> authorize_trusted_client E peer
      | AuthTicket auth \<Rightarrow> authorize_ticket E peer (auth_secret auth)
      | _ \<Rightarrow> bind_s (send_error (''expected auth message, got '' @ debug_message (env_debug E) message)) (\<lambda>_. ret None))"

definition redeem_ticket_if_needed ::
  "('id, 'addr, 'n) server_env \<Rightarrow> authorized_connection \<Rightarrow> 'id \<Rightarrow> ('n srv_world, authorized_connection option) step" where
  "redeem_ticket_if_needed E authorized peer =
    (case spend_secret authorized of
       None \<Rightarrow> ret (Some authorized)
     | Some secret \<Rightarrow>
         match_s (ticket_redeem (env_tickets E) (env_store E) secret peer) (\<lambda>r.
           case r of
             Inl err \<Rightarrow> bind_s (send_error (err_text err)) (\<lambda>_. ret None)
           | Inr record \<Rightarrow>
               bind_s (lift_r (parse_duration (max_build_time record))) (\<lambda>time.
               bind_s (lift_r (parse_byte_count (max_upload_bytes record))) (\<lambda>bytes.
               ret (Some (authorized\<lparr>spend_secret := None, max_time := Some time, max_upload := Some bytes\<rparr>))))))"

section \<open>What authorization leaves alone\<close>

text \<open>Steps that only talk on the stream: the registry, the system and every file stay.\<close>

definition only_talks :: "'n srv_world \<Rightarrow> 'n srv_world \<Rightarrow> bool" where
  "only_talks w w' \<longleftrightarrow>
    files w' = files w \<and> clock w' = clock w \<and> faults w' = faults w \<and> registry w' = registry w
    \<and> sys_state w' = sys_state w \<and> uploads w' = uploads w \<and> serve_events w' = serve_events w
    \<and> served w' = served w \<and> allowed_nar w' = allowed_nar w"

lemma only_talks_reflp [simp]: "reflp only_talks"
  by (simp add: reflp_def only_talks_def)

lemma only_talks_transp [simp]: "transp only_talks"
  by (simp add: transp_def only_talks_def)

lemma only_talks_refl [simp]: "only_talks w w"
  by (simp add: only_talks_def)

lemma only_talks_trans: "only_talks u v \<Longrightarrow> only_talks v w \<Longrightarrow> only_talks u w"
  by (simp add: only_talks_def)

named_theorems talks

lemma talks_primitive [talks]:
  "keeps only_talks (send_message m)" "keeps only_talks recv_message" "keeps only_talks recv_timed"
  "keeps only_talks finish_stream"
  by (auto simp: keeps_def only_talks_def chan_defs finish_stream_def ticked_def
      split: fault.splits list.splits)

lemma talks_helpers [talks]:
  "keeps only_talks (send_error t)" "keeps only_talks read_message" "keeps only_talks (write_auth_ok n k)"
  by (simp_all add: send_error_def read_message_def write_auth_ok_def talks)

lemma talks_combine [talks]:
  "keeps only_talks (ret x)" "keeps only_talks (lift_r r)"
  "keeps only_talks m \<Longrightarrow> (\<And>x. keeps only_talks (f x)) \<Longrightarrow> keeps only_talks (bind_s m f)"
  "keeps only_talks m \<Longrightarrow> (\<And>x. keeps only_talks (h x)) \<Longrightarrow> keeps only_talks (match_s m h)"
  "keeps only_talks m \<Longrightarrow> keeps only_talks (context_s c m)"
  by (simp_all add: keeps_ret keeps_lift_r keeps_bind_s keeps_match_s keeps_context_s)

section \<open>Who is let in\<close>

lemma send_message_cases:
  assumes "send_message m w = (r, w')"
  shows "r = Ok () \<and> tx w' = tx w @ [m] \<and> rx w' = rx w \<or> (\<exists>e. r = Inl e) \<and> tx w' = tx w \<and> rx w' = rx w"
  using assms by (auto simp: send_message_def ticked_def split: fault.splits)

lemma recv_timed_cases:
  assumes "recv_timed w = (r, w')"
  shows "tx w' = tx w \<and> (\<forall>m. r = Ok m \<longrightarrow> rx w = Inr m # rx w')"
  using assms by (auto simp: recv_timed_def recv_message_def ticked_def split: fault.splits list.splits)

text \<open>At most an error message was sent.\<close>

definition said_no :: "'n srv_world \<Rightarrow> 'n srv_world \<Rightarrow> bool" where
  "said_no w w' \<longleftrightarrow> tx w' = tx w \<or> (\<exists>t. tx w' = tx w @ [Error \<lparr>message_text = t\<rparr>])"

lemma send_error_none:
  assumes "bind_s (send_error t) (\<lambda>_. ret None) w = (r, w')"
  shows "(\<nexists>a. r = Ok (Some a)) \<and> said_no w w'"
proof -
  obtain r1 w1 where s: "send_message (Error \<lparr>message_text = t\<rparr>) w = (r1, w1)" by fastforce
  from send_message_cases [OF s] assms s show ?thesis
    by (auto simp: bind_s_def send_error_def said_no_def)
qed

definition trusted_grant ::
  "('id, 'addr, 'n) server_env \<Rightarrow> 'id \<Rightarrow> authorized_connection \<Rightarrow> bool" where
  "trusted_grant E peer a \<longleftrightarrow>
    (\<exists>client. access_authorize (env_policy E) peer = Some client
      \<and> transpose_r parse_duration (tc_max_build_time (ac_policy client)) = Ok (max_time a)
      \<and> transpose_r parse_byte_count (tc_max_upload_bytes (ac_policy client)) = Ok (max_upload a)
      \<and> spend_secret a = None)"

definition ticket_grant ::
  "('id, 'addr, 'n) server_env \<Rightarrow> 'id \<Rightarrow> secret \<Rightarrow> 'n srv_world \<Rightarrow> authorized_connection \<Rightarrow> bool" where
  "ticket_grant E peer secret w a \<longleftrightarrow>
    (\<exists>st rec k time bytes. stored (env_tickets E) (env_store E) w = Ok st
      \<and> bt_get (ticket_id (env_tickets E) secret) (tickets st) = Some rec
      \<and> ticket_verdict (ids (env_tickets E)) (ticket_id (env_tickets E) secret) rec peer (clock w k) = Ok ()
      \<and> parse_duration (max_build_time rec) = Ok time \<and> max_time a = Some time
      \<and> parse_byte_count (max_upload_bytes rec) = Ok bytes \<and> max_upload a = Some bytes
      \<and> spend_secret a = Some secret)"

lemma authorize_trusted_client_cases:
  assumes "authorize_trusted_client E peer w = (r, w')"
  shows "(\<exists>a name. r = Ok (Some a) \<and> trusted_grant E peer a
        \<and> tx w' = tx w @ [AuthOk \<lparr>client_name = name, builder_public_key = key_public (cache_key (env_cache E))\<rparr>]
        \<and> rx w' = rx w)
    \<or> (\<nexists>a. r = Ok (Some a)) \<and> said_no w w'"
proof (cases "access_authorize (env_policy E) peer")
  case None
  with assms have "bind_s (send_error ''client is not trusted'') (\<lambda>_. ret None) w = (r, w')"
    by (simp add: authorize_trusted_client_def)
  from send_error_none [OF this] show ?thesis by simp
next
  case (Some client)
  show ?thesis
  proof (cases "transpose_r parse_duration (tc_max_build_time (ac_policy client))")
    case (Inl e)
    with assms Some show ?thesis by (auto simp: authorize_trusted_client_def bind_s_def said_no_def)
  next
    case t: (Inr time)
    show ?thesis
    proof (cases "transpose_r parse_byte_count (tc_max_upload_bytes (ac_policy client))")
      case (Inl e)
      with assms Some t show ?thesis by (auto simp: authorize_trusted_client_def bind_s_def said_no_def)
    next
      case (Inr bytes)
      let ?m = "AuthOk \<lparr>client_name = ac_name client, builder_public_key = key_public (cache_key (env_cache E))\<rparr>"
      obtain r1 w1 where s: "send_message ?m w = (r1, w1)" by fastforce
      from send_message_cases [OF s] assms s Some t Inr show ?thesis
        by (auto simp: authorize_trusted_client_def bind_s_def Let_def write_auth_ok_def said_no_def trusted_grant_def)
    qed
  qed
qed

text \<open>The ticket store touches neither the streams nor the registry.\<close>

lemma untouched_talks: "untouched w w' \<Longrightarrow> only_talks w w' \<and> tx w' = tx w \<and> rx w' = rx (w :: 'n srv_world)"
proof -
  assume u: "untouched w w'"
  then have more: "io_world.more w' = io_world.more w" and f: "files w' = files w"
    and c: "clock w' = clock w" "faults w' = faults w"
    by (auto simp: only_files_def)
  have "rx w' = rx w" "tx w' = tx w" "registry w' = registry w" "uploads w' = uploads w"
    "serve_events w' = serve_events w" "sys_state w' = sys_state w" "allowed_nar w' = allowed_nar w"
    "served w' = served w"
    using more by (cases w; cases w'; simp)+
  with f c show ?thesis by (simp add: only_talks_def)
qed

lemma authorize_ticket_cases:
  assumes "authorize_ticket E peer secret w = (r, w')"
  shows "(\<exists>a name. r = Ok (Some a) \<and> ticket_grant E peer secret w a
        \<and> tx w' = tx w @ [AuthOk \<lparr>client_name = name, builder_public_key = key_public (cache_key (env_cache E))\<rparr>]
        \<and> rx w' = rx w)
    \<or> (\<nexists>a. r = Ok (Some a)) \<and> said_no w w'"
proof -
  obtain c w1 where check: "ticket_check (env_tickets E) (env_store E) secret peer w = (c, w1)" by fastforce
  note co = check_outcome [OF check]
  have w1: "tx w1 = tx w" "rx w1 = rx w" using co untouched_talks by blast+
  show ?thesis
  proof (cases c)
    case (Inl err)
    with assms check have "bind_s (send_error (err_text err)) (\<lambda>_. ret None) w1 = (r, w')"
      by (simp add: authorize_ticket_def match_s_def)
    from send_error_none [OF this] w1 show ?thesis by (simp add: said_no_def)
  next
    case (Inr rec)
    then obtain st k where st: "stored (env_tickets E) (env_store E) w = Ok st"
      "bt_get (ticket_id (env_tickets E) secret) (tickets st) = Some rec"
      "ticket_verdict (ids (env_tickets E)) (ticket_id (env_tickets E) secret) rec peer (clock w k) = Ok ()"
      using co by blast
    show ?thesis
    proof (cases "parse_duration (max_build_time rec)")
      case (Inl e)
      with assms check Inr w1 show ?thesis by (auto simp: authorize_ticket_def match_s_def bind_s_def said_no_def)
    next
      case t: (Inr time)
      show ?thesis
      proof (cases "parse_byte_count (max_upload_bytes rec)")
        case (Inl e)
        with assms check \<open>c = Inr rec\<close> t w1 show ?thesis
          by (auto simp: authorize_ticket_def match_s_def bind_s_def said_no_def)
      next
        case b: (Inr bytes)
        let ?m = "AuthOk \<lparr>client_name = ticket_name rec, builder_public_key = key_public (cache_key (env_cache E))\<rparr>"
        obtain r1 w2 where s: "send_message ?m w1 = (r1, w2)" by fastforce
        have grant: "ticket_grant E peer secret w \<lparr>client_label = l, max_time = Some time, max_upload = Some bytes,
            spend_secret = Some secret\<rparr>" for l
          using st t b unfolding ticket_grant_def by fastforce
        from send_message_cases [OF s] assms check s \<open>c = Inr rec\<close> t b w1 grant show ?thesis
          by (auto simp: authorize_ticket_def match_s_def bind_s_def Let_def write_auth_ok_def said_no_def)
      qed
    qed
  qed
qed

lemma authorize_connection_talks: "keeps only_talks (authorize_connection E peer)"
proof -
  have "keeps only_talks (ticket_check (env_tickets E) (env_store E) secret peer)" for secret
    using check_outcome untouched_talks by (metis keepsI)
  then have "keeps only_talks (authorize_ticket E peer secret)" for secret
    unfolding authorize_ticket_def by (auto intro!: talks simp: Let_def split: sum.splits)
  moreover have "keeps only_talks (authorize_trusted_client E peer)"
    unfolding authorize_trusted_client_def by (auto intro!: talks simp: Let_def split: option.splits)
  ultimately show ?thesis
    unfolding authorize_connection_def by (auto intro!: talks split: message.splits)
qed

text \<open>Only a configured client or the holder of a valid ticket is answered with \<open>AuthOk\<close>.\<close>

lemma authorize_connection_cases:
  assumes run: "authorize_connection E peer w = (r, w')"
  shows "(\<exists>a name. r = Inr (Some a) \<and> tx w' = tx w @ [AuthOk \<lparr>client_name = name,
                  builder_public_key = key_public (cache_key (env_cache E))\<rparr>]
              \<and> (rx w = Inr AuthTrustedClient # rx w' \<and> trusted_grant E peer a
                 \<or> (\<exists>t. rx w = Inr (AuthTicket t) # rx w' \<and> ticket_grant E peer (auth_secret t) w a)))
      \<or> (\<nexists>a. r = Inr (Some a)) \<and> said_no w w'"
proof -
  obtain m w1 where rd: "recv_timed w = (m, w1)" by fastforce
  note rc = recv_timed_cases [OF rd]
  have "only_talks w w1" using talks_primitive(3) rd by (rule keepsD)
  then have same: "stored (env_tickets E) (env_store E) w1 = stored (env_tickets E) (env_store E) w"
    "clock w1 = clock w"
    by (simp_all add: only_talks_def stored_def)
  show ?thesis
  proof (cases m)
    case (Inl e)
    with run rd rc show ?thesis
      by (auto simp: authorize_connection_def bind_s_def read_message_def said_no_def)
  next
    case (Inr msg)
    then have rx: "rx w = Inr msg # rx w1" and tx: "tx w1 = tx w" using rc by auto
    have said: "said_no w1 w' \<Longrightarrow> said_no w w'" using tx by (simp add: said_no_def)
    consider "msg = AuthTrustedClient" | t where "msg = AuthTicket t"
      | "bind_s (send_error (''expected auth message, got '' @ debug_message (env_debug E) msg)) (\<lambda>_. ret None) w1 = (r, w')"
      using run rd Inr by (cases msg) (auto simp: authorize_connection_def bind_s_def read_message_def)
    then show ?thesis
    proof cases
      case 1
      with run rd Inr have "authorize_trusted_client E peer w1 = (r, w')"
        by (simp add: authorize_connection_def bind_s_def read_message_def)
      from authorize_trusted_client_cases [OF this] 1 rx tx said show ?thesis by auto
    next
      case 2
      with run rd Inr have "authorize_ticket E peer (auth_secret t) w1 = (r, w')"
        by (simp add: authorize_connection_def bind_s_def read_message_def)
      from authorize_ticket_cases [OF this] 2 rx tx said same show ?thesis
        by (auto simp: ticket_grant_def)
    next
      case 3
      from send_error_none [OF this] said show ?thesis by auto
    qed
  qed
qed

text \<open>
  C1: A connection is answered with AuthOk only if it presented itself as a trusted client that
  the access policy lists, or with a ticket whose stored record is valid for this peer at a
  reading of the clock; the granted limits are those of the policy or of the ticket. Authorizing
  changes no file, no build on the status board and no system state, and sends at most one
  message.
\<close>

theorem authorization_is_granted_to_the_entitled:
  "case authorize_connection E peer w of
     (r, w') \<Rightarrow>
       files w' = files w \<and> registry w' = registry w \<and> sys_state w' = sys_state w
       \<and> (case r of
            Inr (Some a) \<Rightarrow>
              (\<exists>name. tx w' = tx w @ [AuthOk \<lparr>client_name = name,
                  builder_public_key = key_public (cache_key (env_cache E))\<rparr>])
              \<and> ((\<exists>rest. rx w = Inr AuthTrustedClient # rest) \<and> trusted_grant E peer a
                 \<or> (\<exists>t rest. rx w = Inr (AuthTicket t) # rest \<and> ticket_grant E peer (auth_secret t) w a))
          | _ \<Rightarrow> tx w' = tx w \<or> (\<exists>t. tx w' = tx w @ [Error \<lparr>message_text = t\<rparr>]))"
proof -
  obtain r w' where run: "authorize_connection E peer w = (r, w')" by fastforce
  have t: "only_talks w w'" using authorize_connection_talks run by (rule keepsD)
  from authorize_connection_cases [OF run] t run show ?thesis
    by (auto simp: only_talks_def said_no_def split: sum.splits option.splits)
qed

end
