(* ===== verification/Cache_Path.thy ===== *)
theory Cache_Path
  imports Paths
begin

text \<open>
  \<open>cache.rs\<close>: which paths of a binary cache may be named in a request, and where they lie
  below the cache directory. The builder, the client's mirror and the client's local HTTP
  server all resolve file names through these functions, so the theory states the contract
  they rely on as the interface \<open>path_gate\<close>.
\<close>

definition CACHE_BASE32 :: string where "CACHE_BASE32 = ''0123456789abcdfghijklmnpqrsvwxyz''"

section \<open>The sanitizer\<close>

definition valid_cache_file_char :: "char \<Rightarrow> bool" where
  "valid_cache_file_char c \<longleftrightarrow> is_ascii_alphanumeric c \<or> c \<in> set ''-_.+=''"

definition valid_narinfo_stem :: "string \<Rightarrow> bool" where
  "valid_narinfo_stem stem \<longleftrightarrow>
    length stem = 32 \<and> list_all (ascii_char (\<lambda>c. c \<in> set CACHE_BASE32)) (utf8_chars stem)"

definition valid_segment :: "string \<Rightarrow> bool" where
  "valid_segment segment \<longleftrightarrow>
    segment \<noteq> [] \<and> segment \<noteq> ''.'' \<and> segment \<noteq> ''..''
    \<and> list_all (ascii_char valid_cache_file_char) (utf8_chars segment)"

definition valid_relative_segments :: "string \<Rightarrow> bool" where
  "valid_relative_segments path \<longleftrightarrow>
    path \<noteq> [] \<and> \<not> starts_with ''/'' path \<and> \<not> ends_with ''/'' path
    \<and> list_all valid_segment (split_on (CHR ''/'') path)"

definition valid_nar_file_name :: "string \<Rightarrow> bool" where
  "valid_nar_file_name path =
    (let file_name = last (split_on (CHR ''/'') path) in
     path_extension file_name = Some ''nar'' \<or> contains_str ''.nar.'' file_name)"

definition sanitize_cache_path :: "string \<Rightarrow> string result" where
  "sanitize_cache_path path =
    (if path = ''nix-cache-info'' then Ok path
     else if starts_with ''/'' path \<or> contains_str [CHR 0x5C] path then
       bail (''invalid cache path: '' @ path)
     else case strip_suffix ''.narinfo'' path of
       Some stem \<Rightarrow>
         if \<not> contains_str ''/'' path \<and> valid_narinfo_stem stem then Ok path
         else bail (''invalid narinfo path: '' @ path)
     | None \<Rightarrow>
       (case strip_prefix ''nar/'' path of
          Some rest \<Rightarrow>
            if valid_relative_segments rest \<and> valid_nar_file_name rest then Ok path
            else bail (''invalid NAR path: '' @ path)
        | None \<Rightarrow> bail (''unsupported cache path: '' @ path)))"

definition sanitize_http_cache_path :: "string \<Rightarrow> string result" where
  "sanitize_http_cache_path target =
    (let path = (case split_once (CHR ''?'') target of None \<Rightarrow> target | Some (path, _) \<Rightarrow> path) in
     case strip_prefix ''/'' path of
       None \<Rightarrow> bail (''HTTP cache path must start with /: '' @ target)
     | Some path \<Rightarrow> sanitize_cache_path path)"

definition cache_file_path :: "string \<Rightarrow> string \<Rightarrow> string result" where
  "cache_file_path cache_dir path =
    bind_r (sanitize_cache_path path) (\<lambda>path. Ok (path_join cache_dir path))"

text \<open>The first \<open>URL:\<close> line decides.\<close>

fun first_url :: "string list \<Rightarrow> string option result" where
  "first_url [] = Ok None"
| "first_url (line # lines) =
    (case strip_prefix ''URL:'' line of
       None \<Rightarrow> first_url lines
     | Some url \<Rightarrow>
         bind_r (sanitize_cache_path (trim url)) (\<lambda>path.
           if \<not> starts_with ''nar/'' path
           then bail (''narinfo URL is not a NAR path: '' @ path)
           else Ok (Some path)))"

definition narinfo_nar_path :: "string \<Rightarrow> string option result" where
  "narinfo_nar_path bytes =
    bind_r (with_context ''narinfo is not UTF-8'' (from_utf8 bytes)) (\<lambda>text.
      first_url (str_lines text))"

declare CACHE_BASE32_def [drv_eval]
  valid_cache_file_char_def [drv_eval] valid_narinfo_stem_def [drv_eval]
  valid_segment_def [drv_eval] valid_relative_segments_def [drv_eval]
  valid_nar_file_name_def [drv_eval] sanitize_cache_path_def [drv_eval]
  sanitize_http_cache_path_def [drv_eval] cache_file_path_def [drv_eval]
  narinfo_nar_path_def [drv_eval]

section \<open>What a path of the file system names\<close>

text \<open>
  The components of a path as the system resolves it lexically: empty ones and \<open>.\<close> are
  skipped, \<open>..\<close> goes back one level.
\<close>

fun resolve :: "string list \<Rightarrow> string list \<Rightarrow> string list" where
  "resolve acc [] = acc"
| "resolve acc (c # cs) =
    (if c = [] \<or> c = ''.'' then resolve acc cs
     else if c = ''..'' then resolve (butlast acc) cs
     else resolve (acc @ [c]) cs)"

definition path_components :: "string \<Rightarrow> string list" where
  "path_components p = resolve [] (split_on (CHR ''/'') p)"

definition plain_component :: "string \<Rightarrow> bool" where
  "plain_component c \<longleftrightarrow> c \<noteq> [] \<and> c \<noteq> ''.'' \<and> c \<noteq> ''..''"

lemma resolve_append: "resolve acc (xs @ ys) = resolve (resolve acc xs) ys"
  by (induction acc xs rule: resolve.induct) auto

lemma resolve_plain: "list_all plain_component xs \<Longrightarrow> resolve acc xs = acc @ xs"
  by (induction acc xs rule: resolve.induct) (auto simp: plain_component_def)

lemma split_on_append:
  "split_on c (a @ c # b) = split_on c a @ split_on c b"
  by (induction a) (auto split: list.splits)

section \<open>The contract of the sanitizer\<close>

text \<open>
  A gate in front of a directory: it returns the name it accepts unchanged, accepts what it
  returned, and names only plain components, the first of which no client can escape.
\<close>

locale path_gate =
  fixes gate :: "string \<Rightarrow> string result"
  assumes gate_id: "gate p = Ok q \<Longrightarrow> q = p"
    and gate_plain: "gate p = Ok q \<Longrightarrow> list_all plain_component (split_on (CHR ''/'') p)"
begin

lemma gate_idem: "gate p = Ok q \<Longrightarrow> gate q = Ok q"
  using gate_id by metis

lemma gate_relative: "gate p = Ok q \<Longrightarrow> \<not> starts_with ''/'' p"
proof
  assume ok: "gate p = Ok q" and "starts_with ''/'' p"
  then obtain r where "p = CHR ''/'' # r" by (auto simp: starts_with_iff)
  then have "[] \<in> set (split_on (CHR ''/'') p)" by simp
  with gate_plain [OF ok] show False by (auto simp: list_all_iff plain_component_def)
qed

text \<open>Below any directory, an accepted name resolves to itself, component by component.\<close>

lemma gate_below:
  assumes "gate p = Ok q"
  shows "path_components (path_join dir p) = path_components dir @ split_on (CHR ''/'') p"
proof -
  let ?s = "split_on (CHR ''/'')"
  have rel: "\<not> starts_with ''/'' p" using assms by (rule gate_relative)
  have plain: "resolve acc (?s p) = acc @ ?s p" for acc
    using gate_plain [OF assms] by (rule resolve_plain)
  show ?thesis
  proof (cases "dir = []")
    case True
    then show ?thesis using rel by (simp add: path_join_def path_components_def plain)
  next
    case False
    show ?thesis
    proof (cases "ends_with ''/'' dir")
      case True
      then obtain d where d: "dir = d @ ''/''" by (auto simp: ends_with_iff)
      have "?s (d @ CHR ''/'' # p) = ?s d @ ?s p" by (rule split_on_append)
      moreover have "?s (d @ [CHR ''/'']) = ?s d @ [[]]"
        using split_on_append [of "CHR ''/''" d "[]"] by simp
      ultimately show ?thesis using rel d True
        by (simp add: path_join_def path_components_def resolve_append plain)
    next
      case False
      have "?s (dir @ CHR ''/'' # p) = ?s dir @ ?s p" by (rule split_on_append)
      then show ?thesis using rel False \<open>dir \<noteq> []\<close>
        by (simp add: path_join_def path_components_def resolve_append plain)
    qed
  qed
qed

end

lemma strip_suffix_None_iff: "strip_suffix p s = None \<longleftrightarrow> (\<nexists>r. s = r @ p)"
  by (metis not_None_eq strip_suffix_Some_iff)

section \<open>The sanitizer meets its contract\<close>

definition good_segment :: "string \<Rightarrow> bool" where
  "good_segment s \<longleftrightarrow> plain_component s \<and> list_all valid_cache_file_char s"

lemma cache_file_char_ascii: "valid_cache_file_char c \<Longrightarrow> is_ascii c"
  by (auto simp: valid_cache_file_char_def is_ascii_alphanumeric_ascii)
    (auto simp: drv_eval)

lemma valid_segment_iff: "valid_segment s \<longleftrightarrow> good_segment s"
  unfolding valid_segment_def good_segment_def plain_component_def list_all_ascii_char
  by (auto simp: list_all_iff cache_file_char_ascii)

lemma base32_cache_char: "c \<in> set CACHE_BASE32 \<Longrightarrow> is_ascii_alphanumeric c"
  by (auto simp: CACHE_BASE32_def is_ascii_alphanumeric_def is_ascii_digit_def
      is_ascii_upper_def is_ascii_lower_def byte_def)

lemma valid_narinfo_stem_iff:
  "valid_narinfo_stem stem \<longleftrightarrow> length stem = 32 \<and> list_all (\<lambda>c. c \<in> set CACHE_BASE32) stem"
  unfolding valid_narinfo_stem_def list_all_ascii_char
  by (auto simp: list_all_iff base32_cache_char is_ascii_alphanumeric_ascii)

lemma alphanumeric_not_slash: "is_ascii_alphanumeric c \<Longrightarrow> c \<noteq> CHR ''/''"
  by (auto simp: drv_eval)

lemma alphanumeric_not_backslash: "is_ascii_alphanumeric c \<Longrightarrow> c \<noteq> CHR 0x5C"
  by (auto simp: drv_eval)

lemma cache_file_char_not_slash [simp]:
  "\<not> valid_cache_file_char (CHR ''/'')" "\<not> valid_cache_file_char (CHR 0x5C)"
  by (simp_all add: valid_cache_file_char_def drv_eval)

lemma stem_not_slash:
  "valid_narinfo_stem stem \<Longrightarrow> CHR ''/'' \<notin> set stem \<and> CHR 0x5C \<notin> set stem"
  by (auto simp: valid_narinfo_stem_iff list_all_iff
      dest: base32_cache_char alphanumeric_not_slash alphanumeric_not_backslash)

lemma contains_char: "contains_str [c] s \<longleftrightarrow> c \<in> set s"
  by (auto simp: contains_str_iff in_set_conv_decomp)

lemma good_segments_chars:
  assumes "list_all good_segment (split_on (CHR ''/'') p)" "c \<in> set p"
  shows "c = CHR ''/'' \<or> valid_cache_file_char c"
proof -
  have "set (join_with s xs) \<subseteq> set s \<union> (\<Union> (set ` set xs))" for s :: string and xs
    by (induction s xs rule: join_with.induct) auto
  then have "set (join_with [CHR ''/''] (split_on (CHR ''/'') p))
      \<subseteq> {CHR ''/''} \<union> (\<Union> (set ` set (split_on (CHR ''/'') p)))"
    by (metis list.set(1) list.set(2))
  with assms(2) have "c \<in> {CHR ''/''} \<union> (\<Union> (set ` set (split_on (CHR ''/'') p)))"
    unfolding join_split_on by blast
  with assms(1) show ?thesis by (auto simp: list_all_iff good_segment_def)
qed

text \<open>The three forms a path is accepted in.\<close>

definition narinfo_form :: "string \<Rightarrow> bool" where
  "narinfo_form p \<longleftrightarrow> (\<exists>stem. p = stem @ ''.narinfo'' \<and> valid_narinfo_stem stem)"

definition nar_form :: "string \<Rightarrow> bool" where
  "nar_form p \<longleftrightarrow> (\<exists>rest. p = ''nar/'' @ rest \<and> \<not> ends_with ''.narinfo'' p
     \<and> list_all good_segment (split_on (CHR ''/'') rest) \<and> valid_nar_file_name rest)"

lemma segments_relative:
  assumes "list_all good_segment (split_on (CHR ''/'') rest)"
  shows "rest \<noteq> []" "\<not> starts_with ''/'' rest" "\<not> ends_with ''/'' rest"
proof -
  have no: "[] \<notin> set (split_on (CHR ''/'') rest)"
    using assms by (auto simp: list_all_iff good_segment_def plain_component_def)
  show "rest \<noteq> []" using no by auto
  show "\<not> starts_with ''/'' rest" using no by (auto simp: starts_with_iff)
  show "\<not> ends_with ''/'' rest"
  proof
    assume "ends_with ''/'' rest"
    then obtain d where "rest = d @ CHR ''/'' # []" by (auto simp: ends_with_iff)
    then have "split_on (CHR ''/'') rest = split_on (CHR ''/'') d @ [[]]"
      using split_on_append [of "CHR ''/''" d "[]"] by simp
    with no show False by simp
  qed
qed

lemma valid_relative_segments_iff:
  "valid_relative_segments rest \<longleftrightarrow> list_all good_segment (split_on (CHR ''/'') rest)"
proof -
  have "valid_segment = good_segment" by (rule ext) (rule valid_segment_iff)
  then show ?thesis using segments_relative by (auto simp: valid_relative_segments_def)
qed

lemma nar_form_chars: "nar_form p \<Longrightarrow> CHR 0x5C \<notin> set p \<and> \<not> starts_with ''/'' p"
  by (auto simp: nar_form_def starts_with_iff dest: good_segments_chars [where c = "CHR 0x5C"])

lemma narinfo_form_chars:
  "narinfo_form p \<Longrightarrow> CHR 0x5C \<notin> set p \<and> CHR ''/'' \<notin> set p"
  by (auto simp: narinfo_form_def stem_not_slash)

lemma narinfo_form_iff:
  "narinfo_form p \<longleftrightarrow> (\<exists>stem. strip_suffix ''.narinfo'' p = Some stem
     \<and> CHR ''/'' \<notin> set p \<and> valid_narinfo_stem stem)"
  using narinfo_form_chars [of p] by (auto simp: narinfo_form_def)

lemma nar_form_iff:
  "nar_form p \<longleftrightarrow> strip_suffix ''.narinfo'' p = None
     \<and> (\<exists>rest. strip_prefix ''nar/'' p = Some rest \<and> valid_relative_segments rest
          \<and> valid_nar_file_name rest)"
  by (auto simp: nar_form_def valid_relative_segments_iff ends_with_iff strip_suffix_None_iff)

lemma slash_not_narinfo_form: "starts_with ''/'' p \<Longrightarrow> \<not> narinfo_form p"
  using narinfo_form_chars [of p] by (auto simp: starts_with_iff)

lemma sanitize_ok_iff:
  "sanitize_cache_path p = Ok q \<longleftrightarrow>
     q = p \<and> (p = ''nix-cache-info'' \<or> narinfo_form p \<or> nar_form p)"
proof (cases "p = ''nix-cache-info''")
  case True
  then show ?thesis by (auto simp: sanitize_cache_path_def)
next
  case False
  note neq = this
  show ?thesis
  proof (cases "starts_with ''/'' p \<or> CHR 0x5C \<in> set p")
    case True
    then have "\<not> narinfo_form p" "\<not> nar_form p"
      using slash_not_narinfo_form nar_form_chars narinfo_form_chars by blast+
    with True neq show ?thesis by (simp add: sanitize_cache_path_def contains_char)
  next
    case False
    show ?thesis
    proof (cases "strip_suffix ''.narinfo'' p")
      case None
      then have "\<not> narinfo_form p" by (simp only: narinfo_form_iff) simp
      moreover have "sanitize_cache_path p = Ok q \<longleftrightarrow> q = p \<and> nar_form p"
        unfolding nar_form_iff sanitize_cache_path_def contains_char if_not_P [OF neq]
          if_not_P [OF False]
        by (simp only: None option.case) (auto simp del: strip_prefix_Some_iff split: option.splits)
      ultimately show ?thesis using neq by simp
    next
      case (Some stem)
      then have "\<not> nar_form p" by (simp only: nar_form_iff) simp
      moreover have "sanitize_cache_path p = Ok q \<longleftrightarrow> q = p \<and> narinfo_form p"
        unfolding narinfo_form_iff sanitize_cache_path_def contains_char if_not_P [OF neq]
          if_not_P [OF False]
        by (simp only: Some option.case) auto
      ultimately show ?thesis using neq by simp
    qed
  qed
qed

lemma plain_with_suffix: "CHR ''/'' \<notin> set (stem @ ''.narinfo'') \<Longrightarrow>
    list_all plain_component (split_on (CHR ''/'') (stem @ ''.narinfo''))"
  by (simp add: split_on_single plain_component_def)

lemma accepted_plain:
  assumes "p = ''nix-cache-info'' \<or> narinfo_form p \<or> nar_form p"
  shows "list_all plain_component (split_on (CHR ''/'') p)"
  using assms
proof (elim disjE)
  assume "p = ''nix-cache-info''"
  then show ?thesis by (simp add: plain_component_def)
next
  assume n: "narinfo_form p"
  then obtain stem where "p = stem @ ''.narinfo''" by (auto simp: narinfo_form_def)
  with narinfo_form_chars [OF n] show ?thesis using plain_with_suffix by blast
next
  assume "nar_form p"
  then obtain rest where p: "p = ''nar/'' @ rest"
    and seg: "list_all good_segment (split_on (CHR ''/'') rest)"
    by (auto simp: nar_form_def)
  have "split_on (CHR ''/'') p = ''nar'' # split_on (CHR ''/'') rest"
    using split_on_append [of "CHR ''/''" "''nar''" rest] by (simp add: p)
  with seg show ?thesis by (auto simp: good_segment_def plain_component_def list_all_iff)
qed

interpretation sg: path_gate sanitize_cache_path
proof (unfold_locales)
  fix p q
  assume "sanitize_cache_path p = Ok q"
  then show "q = p" by (simp add: sanitize_ok_iff)
next
  fix p q
  assume "sanitize_cache_path p = Ok q"
  then show "list_all plain_component (split_on (CHR ''/'') p)"
    using accepted_plain by (simp add: sanitize_ok_iff)
qed

text \<open>
  The cache path check accepts exactly nix-cache-info, a narinfo of a 32 character base32
  hash, and a nar path of good segments, and returns it unchanged.
\<close>

theorem sanitize_cache_path_exact:
  "sanitize_cache_path p = Ok q \<longleftrightarrow>
     q = p \<and> (p = ''nix-cache-info''
       \<or> (\<exists>stem. p = stem @ ''.narinfo'' \<and> length stem = 32
            \<and> list_all (\<lambda>c. c \<in> set CACHE_BASE32) stem)
       \<or> (\<exists>rest. p = ''nar/'' @ rest \<and> strip_suffix ''.narinfo'' p = None
            \<and> list_all (\<lambda>s. plain_component s \<and> list_all valid_cache_file_char s)
                (split_on (CHR ''/'') rest)
            \<and> valid_nar_file_name rest))"
  unfolding sanitize_ok_iff narinfo_form_def nar_form_def valid_narinfo_stem_iff
    ends_with_def not_not good_segment_def by (rule refl)

text \<open>
  An accepted cache path joined to the cache directory resolves to a place below that directory.
\<close>

theorem cache_file_path_stays_below:
  assumes "cache_file_path dir p = Ok f"
  shows "f = path_join dir p
    \<and> path_components f = path_components dir @ split_on (CHR ''/'') p
    \<and> ''..'' \<notin> set (split_on (CHR ''/'') p)"
proof -
  from assms obtain q where ok: "sanitize_cache_path p = Ok q" and f: "f = path_join dir q"
    by (auto simp: cache_file_path_def)
  have "q = p" using ok by (rule sg.gate_id)
  moreover have "path_components (path_join dir p) = path_components dir @ split_on (CHR ''/'') p"
    using ok by (rule sg.gate_below)
  moreover have "''..'' \<notin> set (split_on (CHR ''/'') p)"
    using sg.gate_plain [OF ok] by (auto simp: list_all_iff plain_component_def)
  ultimately show ?thesis using f by simp
qed

theorem cache_file_path_stays_below_witness:
  "path_components ''/var/nar/ab.nar.xz'' = path_components ''/var'' @ [''nar'', ''ab.nar.xz'']"
proof -
  have ok: "cache_file_path ''/var'' ''nar/ab.nar.xz'' = Ok ''/var/nar/ab.nar.xz''"
    by (simp add: drv_eval)
  have "split_on (CHR ''/'') ''nar/ab.nar.xz'' = [''nar'', ''ab.nar.xz'']" by simp
  with cache_file_path_stays_below [OF ok] show ?thesis by argo
qed

text \<open>The query of an HTTP target is cut off before the path is checked.\<close>

lemma http_path_ok:
  "sanitize_http_cache_path target = Ok q \<Longrightarrow>
     sanitize_cache_path q = Ok q \<and> (\<exists>rest. target = CHR ''/'' # q @ rest)"
proof -
  assume ok: "sanitize_http_cache_path target = Ok q"
  define path where
    "path = (case split_once (CHR ''?'') target of None \<Rightarrow> target | Some (path, _) \<Rightarrow> path)"
  have pre: "\<exists>rest. target = path @ rest"
    by (auto simp: path_def split_once_Some_iff split: option.splits)
  from ok obtain p where "path = CHR ''/'' # p" "sanitize_cache_path p = Ok q"
    by (auto simp: sanitize_http_cache_path_def path_def [symmetric] simp del: strip_prefix_Some_iff
        split: option.splits) (simp add: path_def)
  moreover have "q = p" using calculation(2) by (rule sg.gate_id)
  ultimately show ?thesis using pre by auto
qed

lemma takeWhile_before: "c \<notin> set a \<Longrightarrow> takeWhile (\<lambda>x. x \<noteq> c) (a @ c # b) = a"
  by (induction a) auto

text \<open>
  The path of an HTTP request for a cache file is accepted exactly if its part before the query
  is an accepted cache path.
\<close>

theorem sanitize_http_cache_path_exact:
  "sanitize_http_cache_path (CHR ''/'' # p) = Ok q \<longleftrightarrow>
     sanitize_cache_path (takeWhile (\<lambda>c. c \<noteq> CHR ''?'') p) = Ok q"
proof (cases "split_once (CHR ''?'') p")
  case None
  then have no: "CHR ''?'' \<notin> set p" by simp
  then have "takeWhile (\<lambda>c. c \<noteq> CHR ''?'') p = p" by (auto simp: takeWhile_eq_all_conv)
  then show ?thesis using None
    by (simp add: sanitize_http_cache_path_def del: split_once_None_iff takeWhile_eq_all_conv)
next
  case (Some ab)
  then obtain a b where ab: "ab = (a, b)" "p = a @ CHR ''?'' # b" "CHR ''?'' \<notin> set a"
    by (cases ab) (auto simp: split_once_Some_iff)
  have "takeWhile (\<lambda>c. c \<noteq> CHR ''?'') p = a" unfolding ab(2) using ab(3) by (rule takeWhile_before)
  moreover have "split_once (CHR ''?'') (CHR ''/'' # p) = Some (CHR ''/'' # a, b)"
    using Some ab(1) by simp
  ultimately show ?thesis by (simp add: sanitize_http_cache_path_def)
qed

lemma first_url_nar: "first_url ls = Ok (Some q) \<Longrightarrow> sanitize_cache_path q = Ok q \<and> nar_form q"
proof (induction ls)
  case Nil
  then show ?case by simp
next
  case (Cons l ls)
  show ?case
  proof (cases "strip_prefix ''URL:'' l")
    case None
    with Cons show ?thesis by simp
  next
    case (Some url)
    with Cons.prems have ok: "sanitize_cache_path (trim url) = Ok q" and nar: "starts_with ''nar/'' q"
      by (auto simp del: strip_prefix_Some_iff split: if_splits)
    then have idem: "sanitize_cache_path q = Ok q" by (intro sg.gate_idem)
    have "\<not> narinfo_form q"
      using nar narinfo_form_chars [of q] by (auto simp: starts_with_iff)
    moreover have "q \<noteq> ''nix-cache-info''" using nar by (auto simp: starts_with_iff)
    ultimately show ?thesis using idem by (simp add: sanitize_ok_iff)
  qed
qed

text \<open>
  The URL that is taken from a narinfo is an accepted cache path below nar/.
\<close>

theorem narinfo_nar_path_confined:
  assumes "narinfo_nar_path bytes = Ok (Some q)"
  shows "sanitize_cache_path q = Ok q \<and> starts_with ''nar/'' q"
proof -
  from assms obtain t where "first_url (str_lines t) = Ok (Some q)"
    by (auto simp: narinfo_nar_path_def)
  from first_url_nar [OF this] show ?thesis by (auto simp: nar_form_def starts_with_iff)
qed

theorem narinfo_nar_path_confined_witness:
  "sanitize_cache_path ''nar/ab.nar'' = Ok ''nar/ab.nar'' \<and> starts_with ''nar/'' ''nar/ab.nar''"
proof -
  have ok: "narinfo_nar_path (''Sig: a'' @ [CHR 0x0A] @ ''URL: nar/ab.nar'' @ [CHR 0x0A])
      = Ok (Some ''nar/ab.nar'')"
    by (simp add: drv_eval)
  show ?thesis by (rule narinfo_nar_path_confined [OF ok])
qed

end
