(* ===== verification/Output_Cache.thy ===== *)
theory Output_Cache
  imports Server_Auth Cache_Path
begin

text \<open>
  \<open>server/output_cache.rs\<close>: the signed binary cache from which a client copies the outputs of
  its build. Cache files are served over streams the client opens: a narinfo only for a path of
  the output closure, a nar only once a served narinfo has named it.

  Each stream is served in one go when it is accepted, and \<open>serve_events\<close> is the order in which
  \<open>tokio::select!\<close> sees its sources ready; the fills of the spawned prewarm task take place at
  \<open>Prewarm_Turn\<close>s between them. The two locks around a fill are therefore free whenever they
  are asked for; \<open>Fill_Tasks\<close> has the fills of several tasks at once.
\<close>

definition NIX_CACHE_INFO :: string where "NIX_CACHE_INFO = ''StoreDir: /nix/store'' @ [CHR 0x0A]"

section \<open>Names and paths\<close>

definition hex_digit :: "nat \<Rightarrow> char" where
  "hex_digit n = ''0123456789abcdef'' ! n"

definition signing_cache_dir_name :: "string \<Rightarrow> string" where
  "signing_cache_dir_name pk =
    ''key-'' @ concat (map (\<lambda>c. [hex_digit (byte c div 16), hex_digit (byte c mod 16)]) pk)"

definition output_cache_new :: "string \<Rightarrow> signing_key \<Rightarrow> ('z io_world_scheme, output_cache) step" where
  "output_cache_new dir key =
    (let d = path_join (path_join dir ''cache'') (signing_cache_dir_name (key_public key)) in
     bind_s (context_s (''create '' @ d) (fs_create_dir_all d)) (\<lambda>_.
     ret \<lparr>cache_dir = d, cache_key = key\<rparr>))"

type_synonym cache_access = "(string, store_path) btree_map"

definition output_cache_allowed_paths :: "store_path list \<Rightarrow> cache_access" where
  "output_cache_allowed_paths paths = bt_collect (map (\<lambda>p. (store_path_hash p, p)) paths)"

definition map_narinfo_to_allowed_store_path :: "string \<Rightarrow> cache_access \<Rightarrow> store_path option result" where
  "map_narinfo_to_allowed_store_path path allowed =
    (case strip_suffix ''.narinfo'' path of
       None \<Rightarrow> bail (''not a narinfo path: '' @ path)
     | Some hash \<Rightarrow>
         if CHR ''/'' \<in> set path then bail (''invalid narinfo path: '' @ path)
         else Ok (bt_get hash allowed))"

definition narinfo_has_signature_name :: "string \<Rightarrow> string \<Rightarrow> bool result" where
  "narinfo_has_signature_name bytes pk =
    (case split_once (CHR '':'') pk of
       None \<Rightarrow> bail ''invalid signing public key''
     | Some (name, _) \<Rightarrow>
         let signature_prefix = ''Sig: '' @ name @ '':'' in
         bind_r (with_context ''narinfo is not UTF-8'' (from_utf8 bytes)) (\<lambda>t.
         Ok (list_ex (starts_with signature_prefix) (str_lines t))))"

text \<open>Each requested path once, in the order of the request.\<close>

fun requested_loop :: "string list \<Rightarrow> string list \<Rightarrow> string list \<Rightarrow> store_path list \<Rightarrow> store_path list result" where
  "requested_loop allowed [] seen requested = Ok requested"
| "requested_loop allowed (path # rest) seen requested =
    bind_r (store_path_new path) (\<lambda>p.
      if as_str p \<notin> set allowed then bail (''requested output path was not built: '' @ as_str p)
      else if as_str p \<in> set seen then requested_loop allowed rest seen requested
      else requested_loop allowed rest (as_str p # seen) (requested @ [p]))"

definition requested_output_paths :: "string list \<Rightarrow> store_path list \<Rightarrow> store_path list result" where
  "requested_output_paths request allowed_paths =
    requested_loop (map as_str allowed_paths) request [] []"

section \<open>Cache files\<close>

text \<open>\<open>metadata(path).is_file()\<close>, a missing file being no file.\<close>

definition cache_file_exists :: "string \<Rightarrow> ('z io_world_scheme, bool) step" where
  "cache_file_exists path w =
    (case next_fault w of
       Fine \<Rightarrow> (Ok (files w path \<noteq> None), ticked w)
     | Fault n \<Rightarrow> (Err (Context (''stat '' @ path) (lib_error ''metadata'')), ticked w))"

text \<open>\<open>create_new(true)\<close>: \<open>Ok False\<close> stands for the error kind \<open>AlreadyExists\<close>.\<close>

definition fs_create_new :: "string \<Rightarrow> ('z io_world_scheme, bool) step" where
  "fs_create_new p w =
    (case next_fault w of
       Fine \<Rightarrow> (if files w p = None then (Ok True, (ticked w)\<lparr>files := (files w)(p \<mapsto> [])\<rparr>)
                else (Ok False, ticked w))
     | Fault n \<Rightarrow> (Err (lib_error ''create_new''), ticked w))"

definition ensure_nix_cache_info :: "string \<Rightarrow> ('z io_world_scheme, string) step" where
  "ensure_nix_cache_info dir =
    bind_s (lift_r (cache_file_path dir ''nix-cache-info'')) (\<lambda>path.
    bind_s (cache_file_exists path) (\<lambda>exists.
    if exists then ret path
    else
      bind_s (context_s (''create '' @ dir) (fs_create_dir_all dir)) (\<lambda>_.
      bind_s (context_s (''create '' @ path) (fs_create_new path)) (\<lambda>created.
      bind_s (if created then context_s (''write '' @ path) (fs_write_all path NIX_CACHE_INFO) else ret ()) (\<lambda>_.
      ret path)))))"

definition cache_entry_ready :: "output_cache \<Rightarrow> string \<Rightarrow> ('z io_world_scheme, bool) step" where
  "cache_entry_ready cache narinfo_path =
    bind_s (context_s (''read '' @ narinfo_path) (fs_read narinfo_path)) (\<lambda>contents.
    case contents of
      None \<Rightarrow> ret False
    | Some bytes \<Rightarrow>
        bind_s (lift_r (narinfo_has_signature_name bytes (key_public (cache_key cache)))) (\<lambda>signed.
        if \<not> signed then ret False
        else
          bind_s (lift_r (narinfo_nar_path bytes)) (\<lambda>nar.
          case nar of
            None \<Rightarrow> ret False
          | Some nar_path \<Rightarrow>
              bind_s (lift_r (cache_file_path (cache_dir cache) nar_path)) (\<lambda>file.
              cache_file_exists file))))"

definition remove_stale_narinfo :: "string \<Rightarrow> ('z io_world_scheme, unit) step" where
  "remove_stale_narinfo path =
    bind_s (context_s (''remove stale '' @ path) (fs_remove_file path)) (\<lambda>_. ret ())"

definition narinfo_file :: "output_cache \<Rightarrow> store_path \<Rightarrow> string" where
  "narinfo_file cache p = path_join (cache_dir cache) (store_path_hash p @ ''.narinfo'')"

definition fill_cache_entry ::
  "('id, 'addr, 'n) server_env \<Rightarrow> store_path \<Rightarrow> ('n srv_world, unit) step" where
  "fill_cache_entry E p =
    (let cache = env_cache E; narinfo_path = narinfo_file cache p in
     bind_s (context_s ''cache fill semaphore closed'' (io_call ''acquire_owned'')) (\<lambda>_.
     bind_s (remove_stale_narinfo narinfo_path) (\<lambda>_.
     bind_s (context_s (''create '' @ cache_dir cache) (fs_create_dir_all (cache_dir cache))) (\<lambda>_.
     bind_s (copy_to_signed_binary_cache (nixc E) [p] (cache_dir cache) (key_secret_path (cache_key cache))) (\<lambda>_.
     bind_s (cache_entry_ready cache narinfo_path) (\<lambda>ready.
     if \<not> ready then lift_r (bail (''cache entry was not ready after fill: '' @ as_str p))
     else ret ()))))))"

definition ensure_cache_entry ::
  "('id, 'addr, 'n) server_env \<Rightarrow> store_path \<Rightarrow> ('n srv_world, unit) step" where
  "ensure_cache_entry E p =
    bind_s (cache_entry_ready (env_cache E) (narinfo_file (env_cache E) p)) (\<lambda>ready.
    if ready then ret ()
    else
      bind_s (cache_entry_ready (env_cache E) (narinfo_file (env_cache E) p)) (\<lambda>ready.
      if ready then ret () else fill_cache_entry E p))"

section \<open>Answers on a cache file stream\<close>

definition write_cache_file_response :: "bool \<Rightarrow> u64 \<Rightarrow> ('n srv_world, unit) step" where
  "write_cache_file_response f n = send_message (CacheFileResponse \<lparr>found = f, byte_count = n\<rparr>)"

text \<open>Raw bytes on the stream; a failed write has sent some of them.\<close>

definition write_body :: "string \<Rightarrow> ('n srv_world, unit) step" where
  "write_body bytes w =
    (case next_fault w of
       Fine \<Rightarrow> (Ok (), (ticked w)\<lparr>body_out := body_out w @ bytes\<rparr>)
     | Fault n \<Rightarrow> (Err (lib_error ''write_all''), (ticked w)\<lparr>body_out := body_out w @ take n bytes\<rparr>))"

text \<open>\<open>tokio::io::copy\<close> of at most \<open>byte_count\<close> bytes of the file; returns how many there were.\<close>

definition copy_body :: "string \<Rightarrow> u64 \<Rightarrow> ('n srv_world, u64) step" where
  "copy_body path n w =
    bind_s (write_body (take (unat n) (file_text w path))) (\<lambda>_.
      ret (of_nat (length (take (unat n) (file_text w path))))) w"

definition file_len :: "string \<Rightarrow> ('z io_world_scheme, u64) step" where
  "file_len path w =
    (case next_fault w of
       Fine \<Rightarrow> (Ok (of_nat (length (file_text w path))), ticked w)
     | Fault n \<Rightarrow> (Err (lib_error ''metadata''), ticked w))"

definition stream_cache_file :: "string \<Rightarrow> string \<Rightarrow> bool \<Rightarrow> ('n srv_world, unit) step" where
  "stream_cache_file path request send =
    bind_s (context_s (''open '' @ path) (fs_read path)) (\<lambda>file.
    case file of
      None \<Rightarrow> write_cache_file_response False 0
    | Some _ \<Rightarrow>
        bind_s (context_s (''stat '' @ path) (file_len path)) (\<lambda>n.
        bind_s (write_cache_file_response True n) (\<lambda>_.
        if send then
          bind_s (context_s (''stream '' @ path) (copy_body path n)) (\<lambda>copied.
          if copied \<noteq> n then
            lift_r (bail (''short cache file read: '' @ show_word copied @ '' of '' @ show_word n @ '' bytes''))
          else ret ())
        else ret ())))"

definition stream_cache_bytes :: "string \<Rightarrow> string \<Rightarrow> bool \<Rightarrow> ('n srv_world, unit) step" where
  "stream_cache_bytes request bytes send =
    bind_s (write_cache_file_response True (of_nat (length bytes))) (\<lambda>_.
    if send then context_s (''stream '' @ request) (write_body bytes) else ret ())"

definition allow_nar :: "string option \<Rightarrow> ('n srv_world, unit) step" where
  "allow_nar nar w =
    (Ok (), case nar of None \<Rightarrow> w | Some p \<Rightarrow> w\<lparr>allowed_nar := List.insert p (allowed_nar w)\<rparr>)"

definition refuse_file :: "('n srv_world, unit) step" where
  "refuse_file = bind_s (write_cache_file_response False 0) (\<lambda>_. finish_stream)"

definition send_narinfo :: "string \<Rightarrow> bool \<Rightarrow> string \<Rightarrow> string option \<Rightarrow> ('n srv_world, unit) step" where
  "send_narinfo path send file contents =
    (case contents of
       None \<Rightarrow> lift_r (Err (Context (''read '' @ file) (lib_error ''not found'')))
     | Some bytes \<Rightarrow>
         bind_s (lift_r (narinfo_nar_path bytes)) (\<lambda>nar.
         bind_s (allow_nar nar) (\<lambda>_.
         bind_s (stream_cache_bytes path bytes send) (\<lambda>_. finish_stream))))"

definition serve_narinfo ::
  "('id, 'addr, 'n) server_env \<Rightarrow> cache_access \<Rightarrow> string \<Rightarrow> bool \<Rightarrow> ('n srv_world, unit) step" where
  "serve_narinfo E access path send =
    bind_s (lift_r (map_narinfo_to_allowed_store_path path access)) (\<lambda>mapped.
    case mapped of
      None \<Rightarrow> refuse_file
    | Some store_path \<Rightarrow>
        bind_s (ensure_cache_entry E store_path) (\<lambda>_.
        bind_s (lift_r (cache_file_path (cache_dir (env_cache E)) path)) (\<lambda>file.
        bind_s (context_s (''read '' @ file) (fs_read file)) (send_narinfo path send file))))"

definition handle_cache_file_stream ::
  "('id, 'addr, 'n) server_env \<Rightarrow> cache_access \<Rightarrow> ('n srv_world, unit) step" where
  "handle_cache_file_stream E access =
    bind_s read_message (\<lambda>message.
    case message of
      CacheFileRequest request \<Rightarrow>
        bind_s (lift_r (sanitize_cache_path (request_path request))) (\<lambda>path.
        if path = ''nix-cache-info'' then
          bind_s (ensure_nix_cache_info (cache_dir (env_cache E))) (\<lambda>file.
          bind_s (stream_cache_file file path (send_body request)) (\<lambda>_. finish_stream))
        else if ends_with ''.narinfo'' path then serve_narinfo E access path (send_body request)
        else if starts_with ''nar/'' path then
          (\<lambda>w. if path \<notin> set (allowed_nar w) then refuse_file w
               else
                 bind_s (lift_r (cache_file_path (cache_dir (env_cache E)) path)) (\<lambda>file.
                 bind_s (stream_cache_file file path (send_body request)) (\<lambda>_. finish_stream)) w)
        else lift_r (bail (''unsupported cache path: '' @ path)))
    | _ \<Rightarrow> lift_r (bail (''unexpected cache file request: '' @ debug_message (env_debug E) message)))"

text \<open>A stream the client opened: served on its own, logged, its outcome only printed.\<close>

definition on_stream ::
  "message result list \<Rightarrow> ('n srv_world, unit) step \<Rightarrow> 'n srv_world \<Rightarrow> 'n srv_world" where
  "on_stream msgs m w =
    (let w1 = snd (m (w\<lparr>rx := msgs, tx := [], body_out := [], fin := False\<rparr>)) in
     w1\<lparr>rx := rx w, tx := tx w, body_out := body_out w, fin := fin w,
        served := served w1 @ [(tx w1, body_out w1)]\<rparr>)"

text \<open>One fill of the prewarm task; a failure is only counted and printed.\<close>

definition prewarm_fill :: "('id, 'addr, 'n) server_env \<Rightarrow> store_path \<Rightarrow> 'n srv_world \<Rightarrow> 'n srv_world" where
  "prewarm_fill E p w = snd (context_s (''prewarm '' @ as_str p) (ensure_cache_entry E p) w)"

definition control_message :: "('id, 'addr, 'n) server_env \<Rightarrow> ('n srv_world, unit) step" where
  "control_message E =
    bind_s recv_message (\<lambda>message.
      case message of
        OutputCacheDone \<Rightarrow> ret ()
      | Error err \<Rightarrow> lift_r (bail (message_text err))
      | _ \<Rightarrow> lift_r (bail (''unexpected output cache message: '' @ debug_message (env_debug E) message)))"

text \<open>When nothing else is going to happen, the loop waits for the control stream.\<close>

fun serve_loop ::
  "('id, 'addr, 'n) server_env \<Rightarrow> cache_access \<Rightarrow> store_path list \<Rightarrow> serve_event list \<Rightarrow> ('n srv_world, unit) step" where
  "serve_loop E access pending [] w = control_message E w"
| "serve_loop E access pending (Control_Message # events) w = control_message E w"
| "serve_loop E access pending (Stream_Accepted msgs # events) w =
    serve_loop E access pending events (on_stream msgs (handle_cache_file_stream E access) w)"
| "serve_loop E access pending (Stream_Failed # events) w =
    (Err (Context ''accept cache file stream'' (lib_error ''accept_bi'')), w)"
| "serve_loop E access pending (Prewarm_Turn # events) w =
    (case pending of
       [] \<Rightarrow> serve_loop E access [] events w
     | p # pending \<Rightarrow> serve_loop E access pending events (prewarm_fill E p w))"

definition serve_output_cache ::
  "('id, 'addr, 'n) server_env \<Rightarrow> cache_access \<Rightarrow> store_path list \<Rightarrow> ('n srv_world, unit) step" where
  "serve_output_cache E access pending w =
    serve_loop E access pending (serve_events w) (w\<lparr>allowed_nar := [], serve_events := []\<rparr>)"

definition export_outputs ::
  "('id, 'addr, 'n) server_env \<Rightarrow> store_path list \<Rightarrow> ('n srv_world, unit) step" where
  "export_outputs E output_paths =
    bind_s (output_closure (nixc E) output_paths) (\<lambda>closure.
    bind_s (write_paths (map as_str closure) OutputClosure) (\<lambda>_.
    bind_s (read_with_timeout (env_debug E) Kind_OutputRequest PATH_LIST_LIMITS
              ''unexpected path list message'') (\<lambda>request.
    bind_s (lift_r (requested_output_paths request closure)) (\<lambda>requested.
    if requested = [] then send_message Done
    else
      bind_s (send_message (OutputCacheReady \<lparr>copy_paths = map as_str requested\<rparr>)) (\<lambda>_.
      bind_s (serve_output_cache E (output_cache_allowed_paths closure) requested) (\<lambda>_.
      send_message Done))))))"

section \<open>Names\<close>

lemma hex_digit_inj: "m < 16 \<Longrightarrow> n < 16 \<Longrightarrow> hex_digit m = hex_digit n \<Longrightarrow> m = n"
  unfolding hex_digit_def by (subst (asm) nth_eq_iff_index_eq) auto

lemma byte_less: "byte c < 256"
  by (simp add: byte_def)

lemma byte_inject: "byte c = byte d \<longleftrightarrow> c = d"
  by (simp add: byte_def)

lemma hex_byte_inj:
  assumes "hex_digit (byte c div 16) = hex_digit (byte d div 16)"
    and "hex_digit (byte c mod 16) = hex_digit (byte d mod 16)"
  shows "c = d"
proof -
  have "byte c div 16 = byte d div 16" "byte c mod 16 = byte d mod 16"
    using assms byte_less [of c] byte_less [of d] by (auto intro: hex_digit_inj)
  then have "byte c = byte d" by (metis div_mult_mod_eq)
  then show ?thesis by (simp add: byte_inject)
qed

text \<open>Different keys sign into different directories.\<close>

theorem signing_cache_dir_name_injective:
  "signing_cache_dir_name a = signing_cache_dir_name b \<longleftrightarrow> a = b"
proof
  show "signing_cache_dir_name a = signing_cache_dir_name b \<Longrightarrow> a = b"
    unfolding signing_cache_dir_name_def
  proof (simp, induction a arbitrary: b)
    case Nil
    then show ?case by (cases b) auto
  next
    case (Cons c a)
    then obtain d b' where b: "b = d # b'" by (cases b) auto
    with Cons.prems have "c = d" by (auto intro: hex_byte_inj)
    with Cons b show ?case by auto
  qed
qed simp

section \<open>The request\<close>

lemma requested_loop_Ok:
  assumes "requested_loop allowed req seen acc = Ok qs"
  shows "set req \<subseteq> set allowed
    \<and> (\<exists>rs. qs = acc @ rs \<and> distinct (map as_str rs) \<and> set (map as_str rs) = set req - set seen
         \<and> subseq (map as_str rs) req)"
  using assms
proof (induction allowed req seen acc rule: requested_loop.induct)
  case (1 allowed seen acc)
  then show ?case by simp
next
  case (2 allowed path rest seen acc)
  from 2(3) obtain p where p: "store_path_new path = Ok p" by auto
  then have path: "as_str p = path" by (simp add: store_path_new_Ok_iff)
  with 2(3) p have in_allowed: "path \<in> set allowed" by (auto split: if_splits)
  show ?case
  proof (cases "path \<in> set seen")
    case True
    with 2(3) p path in_allowed have "requested_loop allowed rest seen acc = Ok qs" by simp
    with 2(1) [of p] True path in_allowed obtain rs where "qs = acc @ rs" "distinct (map as_str rs)"
      "set (map as_str rs) = set rest - set seen" "subseq (map as_str rs) rest" "set rest \<subseteq> set allowed"
      by auto
    with True in_allowed show ?thesis by (intro conjI exI [of _ rs]) auto
  next
    case False
    with 2(3) p path in_allowed have "requested_loop allowed rest (path # seen) (acc @ [p]) = Ok qs" by simp
    with 2(2) [of p] False path in_allowed obtain rs where "qs = (acc @ [p]) @ rs" "distinct (map as_str rs)"
      "set (map as_str rs) = set rest - set (path # seen)" "subseq (map as_str rs) rest" "set rest \<subseteq> set allowed"
      by auto
    with False in_allowed path show ?thesis by (intro conjI exI [of _ "p # rs"]) auto
  qed
qed

lemma requested_loop_is_ok:
  "set req \<subseteq> set (map as_str closure) \<Longrightarrow> is_ok (requested_loop (map as_str closure) req seen acc)"
proof (induction req arbitrary: seen acc)
  case Nil
  then show ?case by simp
next
  case (Cons path req)
  then obtain p where "path = as_str p" "p \<in> set closure" by auto
  with Cons show ?case by (simp add: is_ok_bind_r)
qed

text \<open>The client gets what it asks for, each path once and in its order, and nothing outside the closure.\<close>

theorem requested_output_paths_exact:
  "case requested_output_paths request closure of
     Inl e \<Rightarrow> \<not> set request \<subseteq> set (map as_str closure)
   | Inr requested \<Rightarrow>
       set request \<subseteq> set (map as_str closure) \<and> distinct (map as_str requested)
       \<and> set (map as_str requested) = set request \<and> subseq (map as_str requested) request"
proof (cases "requested_output_paths request closure")
  case (Inl e)
  then have "\<not> is_ok (requested_loop (map as_str closure) request [] [])"
    by (simp add: requested_output_paths_def)
  with Inl show ?thesis using requested_loop_is_ok by auto
next
  case (Inr qs)
  then have "requested_loop (map as_str closure) request [] [] = Ok qs" by (simp add: requested_output_paths_def)
  from requested_loop_Ok [OF this] Inr show ?thesis by simp
qed

section \<open>What work on the disk leaves alone\<close>

definition on_disk :: "'n srv_world \<Rightarrow> 'n srv_world \<Rightarrow> bool" where
  "on_disk w w' \<longleftrightarrow>
    rx w' = rx w \<and> tx w' = tx w \<and> body_out w' = body_out w \<and> fin w' = fin w \<and> registry w' = registry w
    \<and> allowed_nar w' = allowed_nar w \<and> served w' = served w \<and> uploads w' = uploads w
    \<and> serve_events w' = serve_events w \<and> clock w' = clock w \<and> faults w' = faults w"

lemma on_disk_reflp [simp]: "reflp on_disk"
  by (simp add: reflp_def on_disk_def)

lemma on_disk_transp [simp]: "transp on_disk"
  by (simp add: transp_def on_disk_def)

lemma on_disk_refl [simp]: "on_disk w w"
  by (simp add: on_disk_def)

lemma on_disk_trans: "on_disk u v \<Longrightarrow> on_disk v w \<Longrightarrow> on_disk u w"
  by (simp add: on_disk_def)

lemma only_files_on_disk: "only_files P w w' \<Longrightarrow> on_disk w (w' :: 'n srv_world)"
proof -
  assume u: "only_files P w w'"
  then have more: "io_world.more w' = io_world.more w" and c: "clock w' = clock w" "faults w' = faults w"
    by (auto simp: only_files_def)
  have "rx w' = rx w" "tx w' = tx w" "registry w' = registry w" "uploads w' = uploads w"
    "serve_events w' = serve_events w" "body_out w' = body_out w" "fin w' = fin w"
    "allowed_nar w' = allowed_nar w" "served w' = served w"
    using more by (cases w; cases w'; simp)+
  with c show ?thesis by (simp add: on_disk_def)
qed

lemma keeps_on_disk_files: "keeps (only_files P) m \<Longrightarrow> keeps on_disk (m :: ('n srv_world, 'a) step)"
  unfolding keeps_def using only_files_on_disk by blast

named_theorems disk

lemma disk_combine [disk]:
  "keeps on_disk (ret x)" "keeps on_disk (lift_r r)"
  "keeps on_disk m \<Longrightarrow> (\<And>x. keeps on_disk (f x)) \<Longrightarrow> keeps on_disk (bind_s m f)"
  "keeps on_disk m \<Longrightarrow> (\<And>x. keeps on_disk (h x)) \<Longrightarrow> keeps on_disk (match_s m h)"
  "keeps on_disk m \<Longrightarrow> keeps on_disk (context_s c m)"
  by (simp_all add: keeps_ret keeps_lift_r keeps_bind_s keeps_match_s keeps_context_s)

lemma disk_sys_step [disk]: "keeps on_disk (sys_step m)"
  by (auto simp: keeps_def sys_step_def on_disk_def split: prod.splits)

lemma disk_commands [disk]: "keeps on_disk (output_of (nixc E) program args)"
  by (simp add: nixc_def lift_commands_def disk_sys_step)

lemma frame_cache_calls [frame]:
  "keeps (only_files P) (cache_file_exists p)"
  "P p \<Longrightarrow> keeps (only_files P) (fs_create_new p)"
  "keeps (only_files P) (file_len p)"
  by (auto simp: keeps_def only_files_def cache_file_exists_def fs_create_new_def file_len_def io_defs
      split: fault.splits)

lemma frame_cache_entry_ready [frame]: "keeps (only_files P) (cache_entry_ready cache p)"
  unfolding cache_entry_ready_def by (auto intro!: frame split: option.splits)

lemma disk_files [disk]:
  "keeps on_disk (fs_read p)" "keeps on_disk (io_call c)" "keeps on_disk (fs_create_dir_all p)"
  "keeps on_disk (cache_entry_ready cache p)" "keeps on_disk (cache_file_exists p)"
  "keeps on_disk (file_len p)"
  by (rule keeps_on_disk_files, rule frame)+

lemma disk_writes [disk]:
  "keeps on_disk (fs_remove_file p)" "keeps on_disk (fs_create_new p)" "keeps on_disk (fs_write_all p b)"
  by (rule keeps_on_disk_files [where P = "\<lambda>_. True"], rule frame, simp)+

lemma disk_copy_to_chunks [disk]: "keeps on_disk (copy_to_chunks (nixc E) url chunks)"
proof (induction chunks)
  case Nil
  show ?case by (simp only: copy_to_chunks.simps disk)
next
  case (Cons c cs)
  then show ?case unfolding copy_to_chunks.simps run_nix_command_def Let_def by (auto intro!: disk)
qed

lemma disk_copy_to [disk]: "keeps on_disk (copy_to_signed_binary_cache (nixc E) ps d k)"
  by (simp add: copy_to_signed_binary_cache_def disk)

lemma disk_ensure_cache_entry [disk]: "keeps on_disk (ensure_cache_entry E p)"
  unfolding ensure_cache_entry_def fill_cache_entry_def Let_def remove_stale_narinfo_def
  by (auto intro!: disk)

lemma disk_ensure_nix_cache_info [disk]: "keeps on_disk (ensure_nix_cache_info d)"
  unfolding ensure_nix_cache_info_def by (auto intro!: disk)

section \<open>What a stream is answered\<close>

text \<open>
  At most one response: a refusal without a body, or the length of \<open>file\<close> as it is in the end,
  followed by a part of its bytes, all of them if the step succeeds and they were asked for.
\<close>

definition answers_with ::
  "string \<Rightarrow> bool \<Rightarrow> unit result \<Rightarrow> 'n srv_world \<Rightarrow> message list \<Rightarrow> string \<Rightarrow> bool" where
  "answers_with file send r w resp body \<longleftrightarrow>
    (\<exists>n. resp = [CacheFileResponse \<lparr>found = True, byte_count = n\<rparr>]
      \<and> n = of_nat (length (file_text w file)) \<and> prefix body (file_text w file)
      \<and> (body = [] \<or> send)
      \<and> (case r of Inl e \<Rightarrow> True | Inr _ \<Rightarrow> (send \<and> of_nat (length body) = n) \<or> (\<not> send \<and> body = [])))"

definition refuses :: "message list \<Rightarrow> string \<Rightarrow> bool" where
  "refuses resp body \<longleftrightarrow>
    (resp = [] \<or> resp = [CacheFileResponse \<lparr>found = False, byte_count = 0\<rparr>]) \<and> body = []"

definition streams ::
  "string \<Rightarrow> bool \<Rightarrow> 'n srv_world \<Rightarrow> unit result \<times> 'n srv_world \<Rightarrow> bool" where
  "streams file send w res \<longleftrightarrow>
    (case res of (r, w') \<Rightarrow>
      registry w' = registry w \<and> allowed_nar w' = allowed_nar w
      \<and> (\<exists>resp body. tx w' = tx w @ resp \<and> body_out w' = body_out w @ body
          \<and> (refuses resp body \<or> answers_with file send r w' resp body)))"

lemma streams_after_disk:
  "on_disk w w1 \<Longrightarrow> streams file send w1 res \<Longrightarrow> streams file send w res"
  by (simp add: streams_def on_disk_def)

lemma streams_quiet: "on_disk w w' \<Longrightarrow> streams file send w (r, w')"
  by (auto simp: streams_def on_disk_def refuses_def)

lemma streams_bind_disk:
  assumes "keeps on_disk m" and "\<And>x w1. m w = (Inr x, w1) \<Longrightarrow> streams file send w1 (f x w1)"
  shows "streams file send w (bind_s m f w)"
proof (cases "m w")
  case (Pair r w1)
  have d: "on_disk w w1" using assms(1) Pair by (rule keepsD)
  show ?thesis
  proof (cases r)
    case (Inl e)
    with Pair d show ?thesis by (simp add: bind_s_def streams_quiet)
  next
    case (Inr x)
    with Pair have "streams file send w1 (f x w1)" using assms(2) by blast
    with d Pair Inr show ?thesis by (simp add: bind_s_def streams_after_disk)
  qed
qed

lemma finish_stream_same:
  "finish_stream w = (r, w') \<Longrightarrow> files w' = files w \<and> registry w' = registry w \<and> allowed_nar w' = allowed_nar w
     \<and> tx w' = tx w \<and> body_out w' = body_out w"
  by (auto simp: finish_stream_def ticked_def split: fault.splits)

lemma answers_with_weaken:
  "answers_with file send (Inr ()) w resp body \<Longrightarrow> files w' = files w \<Longrightarrow> answers_with file send r w' resp body"
  by (cases r) (auto simp: answers_with_def file_text_def)

lemma streams_finish:
  assumes "streams file send w (m w)"
  shows "streams file send w (bind_s m (\<lambda>_. finish_stream) w)"
proof (cases "m w")
  case (Pair r w1)
  show ?thesis
  proof (cases r)
    case (Inl e)
    with assms Pair show ?thesis by (simp add: bind_s_def)
  next
    case (Inr u)
    obtain r2 w2 where f: "finish_stream w1 = (r2, w2)" by fastforce
    note same = finish_stream_same [OF f]
    from assms Pair Inr obtain resp body where m: "registry w1 = registry w" "allowed_nar w1 = allowed_nar w"
      "tx w1 = tx w @ resp" "body_out w1 = body_out w @ body"
      "refuses resp body \<or> answers_with file send (Inr ()) w1 resp body"
      by (auto simp: streams_def)
    then have "refuses resp body \<or> answers_with file send r2 w2 resp body"
      using same answers_with_weaken by blast
    with m same f Pair Inr show ?thesis by (auto simp: streams_def bind_s_def)
  qed
qed

lemma if_apply: "(if b then f else g) x = (if b then f x else g x)"
  by simp

lemma streams_refuse: "streams file send w (write_cache_file_response False 0 w)"
  by (auto simp: streams_def write_cache_file_response_def send_message_def ticked_def refuses_def
      split: fault.splits)

lemma file_text_ticked [simp]: "file_text (ticked w) p = file_text w p"
  by (simp add: file_text_def ticked_def)

lemma streams_bytes:
  assumes "file_text w file = bytes"
  shows "streams file send w (stream_cache_bytes req bytes send w)"
proof -
  obtain r1 w1 where s: "send_message (CacheFileResponse \<lparr>found = True, byte_count = of_nat (length bytes)\<rparr>) w = (r1, w1)"
    by fastforce
  show ?thesis
  proof (cases r1)
    case (Inl e)
    with s show ?thesis
      by (auto simp: streams_def stream_cache_bytes_def bind_s_def write_cache_file_response_def refuses_def
          send_message_def ticked_def split: fault.splits)
  next
    case (Inr u)
    with s have w1: "w1 = (ticked w)\<lparr>tx := tx w @ [CacheFileResponse \<lparr>found = True, byte_count = of_nat (length bytes)\<rparr>]\<rparr>"
      by (auto simp: send_message_def split: fault.splits)
    show ?thesis
    proof (cases send)
      case False
      with s Inr w1 assms show ?thesis
        by (auto simp: streams_def stream_cache_bytes_def bind_s_def write_cache_file_response_def answers_with_def
            ticked_def file_text_def)
    next
      case True
      with s Inr w1 assms show ?thesis
        by (auto simp: streams_def stream_cache_bytes_def bind_s_def write_cache_file_response_def answers_with_def
            ticked_def file_text_def context_s_def write_body_def take_is_prefix split: fault.splits)
    qed
  qed
qed

lemma streams_file: "streams file send w (stream_cache_file file req send w)"
  unfolding stream_cache_file_def
proof (rule streams_bind_disk)
  show "keeps on_disk (context_s (''open '' @ file) (fs_read file))" by (intro disk)
  fix contents w1
  assume "context_s (''open '' @ file) (fs_read file) w = (Inr contents, w1)"
  show "streams file send w1 ((case contents of
      None \<Rightarrow> write_cache_file_response False 0
    | Some _ \<Rightarrow>
        bind_s (context_s (''stat '' @ file) (file_len file)) (\<lambda>n.
        bind_s (write_cache_file_response True n) (\<lambda>_.
        if send then
          bind_s (context_s (''stream '' @ file) (copy_body file n)) (\<lambda>copied.
          if copied \<noteq> n then
            lift_r (bail (''short cache file read: '' @ show_word copied @ '' of '' @ show_word n @ '' bytes''))
          else ret ())
        else ret ()))) w1)"
  proof (cases contents)
    case None
    then show ?thesis by (simp add: streams_refuse)
  next
    case (Some c)
    show ?thesis unfolding Some option.case
    proof (rule streams_bind_disk)
      show "keeps on_disk (context_s (''stat '' @ file) (file_len file))" by (intro disk)
      fix n w2
      assume "context_s (''stat '' @ file) (file_len file) w1 = (Inr n, w2)"
      then have n: "n = of_nat (length (file_text w2 file))"
        by (auto simp: context_s_def file_len_def split: fault.splits)
      obtain r3 w3 where s: "send_message (CacheFileResponse \<lparr>found = True, byte_count = n\<rparr>) w2 = (r3, w3)"
        by fastforce
      show "streams file send w2 (bind_s (write_cache_file_response True n) (\<lambda>_.
        if send then
          bind_s (context_s (''stream '' @ file) (copy_body file n)) (\<lambda>copied.
          if copied \<noteq> n then
            lift_r (bail (''short cache file read: '' @ show_word copied @ '' of '' @ show_word n @ '' bytes''))
          else ret ())
        else ret ()) w2)"
      proof (cases r3)
        case (Inl e)
        with s show ?thesis
          by (auto simp: streams_def bind_s_def write_cache_file_response_def refuses_def
              send_message_def ticked_def split: fault.splits)
      next
        case (Inr u)
        with s have w3: "w3 = (ticked w2)\<lparr>tx := tx w2 @ [CacheFileResponse \<lparr>found = True, byte_count = n\<rparr>]\<rparr>"
          by (auto simp: send_message_def split: fault.splits)
        have same: "file_text w3 file = file_text w2 file" by (simp add: w3 file_text_def ticked_def)
        show ?thesis
        proof (cases send)
          case False
          with s Inr w3 n same show ?thesis
            by (auto simp: streams_def bind_s_def write_cache_file_response_def answers_with_def ticked_def)
        next
          case True
          let ?body = "take (unat n) (file_text w3 file)"
          have tail: "streams file send w2 (case context_s (''stream '' @ file) (copy_body file n) w3 of
                (Inl e, w') \<Rightarrow> (Inl e, w')
              | (Inr copied, w') \<Rightarrow> if copied \<noteq> n then (Inl (e0 copied), w') else (Inr (), w'))" for e0
          proof (cases "next_fault w3")
            case Fine
            then have c: "copy_body file n w3 = (Ok (of_nat (length ?body)), (ticked w3)\<lparr>body_out := body_out w3 @ ?body\<rparr>)"
              by (simp add: copy_body_def bind_s_def write_body_def)
            show ?thesis
              unfolding streams_def context_s_def c
              using True n same
              by (auto simp: answers_with_def take_is_prefix file_text_def w3 ticked_def)
          next
            case (Fault k)
            then have c: "\<exists>e. copy_body file n w3 = (Err e, (ticked w3)\<lparr>body_out := body_out w3 @ take k ?body\<rparr>)"
              by (simp add: copy_body_def bind_s_def write_body_def)
            have "prefix (take k ?body) (file_text w3 file)"
              by (meson prefix_order.trans take_is_prefix)
            with c show ?thesis
              unfolding streams_def context_s_def
              using True n same
              by (auto simp: answers_with_def file_text_def w3 ticked_def)
          qed
          obtain rc wc where rc: "context_s (''stream '' @ file) (copy_body file n) w3 = (rc, wc)" by fastforce
          from tail [of "\<lambda>copied. Msg (''short cache file read: '' @ show_word copied @ '' of '' @ show_word n @ '' bytes'')"]
          show ?thesis using s Inr True rc
            by (cases rc) (simp_all add: bind_s_def write_cache_file_response_def bail_def if_apply split: if_splits)
        qed
      qed
    qed
  qed
qed

section \<open>Nothing but the closure is served\<close>

definition narinfo_of :: "cache_access \<Rightarrow> string \<Rightarrow> bool" where
  "narinfo_of access path \<longleftrightarrow> (\<exists>hash p. path = hash @ ''.narinfo'' \<and> bt_get hash access = Some p)"

definition may_serve :: "cache_access \<Rightarrow> string list \<Rightarrow> string \<Rightarrow> bool" where
  "may_serve access nars path \<longleftrightarrow>
    path = ''nix-cache-info'' \<or> narinfo_of access path \<or> starts_with ''nar/'' path \<and> path \<in> set nars"

text \<open>The nars that may be served afterwards: those from before, and the one a served narinfo names.\<close>

definition nars_grow ::
  "('id, 'addr, 'n) server_env \<Rightarrow> cache_access \<Rightarrow> 'n srv_world \<Rightarrow> 'n srv_world \<Rightarrow> bool" where
  "nars_grow E access w w' \<longleftrightarrow>
    allowed_nar w' = allowed_nar w
    \<or> (\<exists>path file bytes nar. narinfo_of access path \<and> cache_file_path (cache_dir (env_cache E)) path = Ok file
         \<and> files w' file = Some bytes \<and> narinfo_nar_path bytes = Ok (Some nar)
         \<and> allowed_nar w' = List.insert nar (allowed_nar w))"

lemma map_narinfo_Some:
  "map_narinfo_to_allowed_store_path path access = Ok (Some p) \<Longrightarrow> narinfo_of access path"
  by (auto simp: map_narinfo_to_allowed_store_path_def narinfo_of_def split: option.splits if_splits)

lemma stream_bytes_finish_files:
  "bind_s (stream_cache_bytes req bytes send) (\<lambda>_. finish_stream) w = (r, w') \<Longrightarrow> files w' = files w"
  by (auto simp: stream_cache_bytes_def bind_s_def write_cache_file_response_def send_message_def ticked_def
      context_s_def write_body_def finish_stream_def split: if_splits fault.splits sum.splits prod.splits)

lemma streams_D:
  "streams file send w (r, w') \<Longrightarrow> registry w' = registry w \<and> allowed_nar w' = allowed_nar w
     \<and> (\<exists>resp body. tx w' = tx w @ resp \<and> body_out w' = body_out w @ body
          \<and> (refuses resp body \<or> answers_with file send r w' resp body))"
  by (simp add: streams_def)

lemma serve_narinfo_outcome:
  assumes "serve_narinfo E access path send w = (r, w')"
  shows "registry w' = registry w \<and> nars_grow E access w w'
    \<and> (\<exists>resp body. tx w' = tx w @ resp \<and> body_out w' = body_out w @ body
        \<and> (refuses resp body
           \<or> (\<exists>file. cache_file_path (cache_dir (env_cache E)) path = Ok file \<and> narinfo_of access path
                \<and> answers_with file send r w' resp body)))"
    (is "?goal r w w'")
proof -
  have idle: "?goal r w w1" if "on_disk w w1" for w1
    using that by (auto simp: on_disk_def nars_grow_def refuses_def)
  note map_narinfo_Some [of path access]
  show ?thesis
  proof (cases "map_narinfo_to_allowed_store_path path access")
    case (Inl e)
    with assms idle [of w] show ?thesis by (simp add: serve_narinfo_def bind_s_lift_r)
  next
    case (Inr mapped)
    show ?thesis
    proof (cases mapped)
      case None
      with assms Inr have "refuse_file w = (r, w')" by (simp add: serve_narinfo_def bind_s_lift_r)
      moreover have "streams ''x'' send w (refuse_file w)"
        unfolding refuse_file_def by (intro streams_finish streams_refuse)
      ultimately have "streams ''x'' send w (r, w')" by simp
      moreover have "refuses resp body" if "tx w' = tx w @ resp" "body_out w' = body_out w @ body" for resp body
        using \<open>refuse_file w = (r, w')\<close> that
        by (auto simp: refuse_file_def bind_s_def write_cache_file_response_def send_message_def ticked_def
            finish_stream_def refuses_def split: fault.splits)
      ultimately show ?thesis unfolding streams_def nars_grow_def by auto
    next
      case (Some p)
      with Inr have narinfo: "narinfo_of access path" by (simp add: map_narinfo_Some)
      obtain r1 w1 where e: "ensure_cache_entry E p w = (r1, w1)" by fastforce
      have d1: "on_disk w w1" using disk_ensure_cache_entry e by (rule keepsD)
      show ?thesis
      proof (cases "is_ok r1 \<and> is_ok (cache_file_path (cache_dir (env_cache E)) path)")
        case False
        with assms Inr Some e idle [OF d1] show ?thesis
          by (cases r1; cases "cache_file_path (cache_dir (env_cache E)) path")
            (auto simp: serve_narinfo_def bind_s_def)
      next
        case True
        then obtain u cf where ok: "r1 = Inr u" "cache_file_path (cache_dir (env_cache E)) path = Ok cf"
          by (auto simp: is_ok_iff)
        obtain r2 w2 where f: "context_s (''read '' @ cf) (fs_read cf) w1 = (r2, w2)" by fastforce
        have "keeps on_disk (context_s (''read '' @ cf) (fs_read cf))" by (intro disk)
        then have "on_disk w1 w2" using f by (rule keepsD)
        with d1 have d2: "on_disk w w2" by (rule on_disk_trans)
        from assms Inr Some e ok f have run: "(case r2 of Inl e \<Rightarrow> (Inl e, w2) | Inr c \<Rightarrow> send_narinfo path send cf c w2) = (r, w')"
          by (simp add: serve_narinfo_def bind_s_def cong: sum.case_cong)
        show ?thesis
        proof (cases "\<exists>bytes nar. r2 = Inr (Some bytes) \<and> narinfo_nar_path bytes = Ok nar")
          case False
          then have "w' = w2" using run
            by (auto simp: send_narinfo_def bind_s_lift_r split: sum.splits option.splits)
          with idle [OF d2] show ?thesis by simp
        next
          case True
          then obtain bytes nar where b: "r2 = Inr (Some bytes)" "narinfo_nar_path bytes = Ok nar" by blast
          define w3 where "w3 = snd (allow_nar nar w2)"
          have contents: "files w3 cf = Some bytes"
            using f b by (auto simp: w3_def allow_nar_def context_s_def fs_read_def ticked_def with_context_Err_iff
                split: fault.splits option.splits)
          from run b have fin: "bind_s (stream_cache_bytes path bytes send) (\<lambda>_. finish_stream) w3 = (r, w')"
            by (simp add: send_narinfo_def bind_s_def w3_def allow_nar_def)
          have "streams cf send w3 (bind_s (stream_cache_bytes path bytes send) (\<lambda>_. finish_stream) w3)"
            using contents by (intro streams_finish streams_bytes) (simp add: file_text_def)
          note st = streams_D [OF this [unfolded fin]]
          have w3: "registry w3 = registry w" "tx w3 = tx w" "body_out w3 = body_out w"
            "allowed_nar w3 = (case nar of None \<Rightarrow> allowed_nar w | Some q \<Rightarrow> List.insert q (allowed_nar w))"
            using d2 by (auto simp: w3_def allow_nar_def on_disk_def split: option.splits)
          have "files w' cf = Some bytes" using stream_bytes_finish_files [OF fin] contents by simp
          then have "nars_grow E access w w'"
            using st w3 b(2) narinfo ok(2) by (cases nar) (auto simp: nars_grow_def)
          moreover obtain resp body where "tx w' = tx w @ resp" "body_out w' = body_out w @ body"
            "refuses resp body \<or> answers_with cf send r w' resp body"
            using st w3 by auto
          moreover have "registry w' = registry w" using st w3 by simp
          ultimately show ?thesis using narinfo ok(2) by blast
        qed
      qed
    qed
  qed
qed

lemma recv_timed_frame:
  assumes "recv_timed (w :: 'n srv_world) = (m, w1)"
  shows "tx w1 = tx w" "body_out w1 = body_out w" "registry w1 = registry w" "allowed_nar w1 = allowed_nar w"
    "files w1 = files w" "m = Inr msg \<Longrightarrow> rx w = Inr msg # rx w1"
  using assms by (auto simp: recv_timed_def recv_message_def ticked_def split: fault.splits list.splits)

lemma ensure_nix_cache_info_path:
  "ensure_nix_cache_info d w = (Inr f, w') \<Longrightarrow> cache_file_path d ''nix-cache-info'' = Ok f"
  by (auto simp: ensure_nix_cache_info_def bind_s_Ok_iff split: if_splits)

definition served_request ::
  "('id, 'addr, 'n) server_env \<Rightarrow> cache_access \<Rightarrow> string list \<Rightarrow> string \<Rightarrow> bool \<Rightarrow> unit result \<Rightarrow> 'n srv_world
     \<Rightarrow> message list \<Rightarrow> string \<Rightarrow> bool" where
  "served_request E access nars path send r w resp body \<longleftrightarrow>
    (\<exists>cf. cache_file_path (cache_dir (env_cache E)) path = Ok cf \<and> may_serve access nars path
      \<and> answers_with cf send r w resp body)"

lemma streams_served:
  assumes "streams cf send w (r, w')" and "cache_file_path (cache_dir (env_cache E)) path = Ok cf"
    and "may_serve access (allowed_nar w) path"
  shows "registry w' = registry w \<and> nars_grow E access w w'
    \<and> (\<exists>resp body. tx w' = tx w @ resp \<and> body_out w' = body_out w @ body
        \<and> (refuses resp body \<or> served_request E access (allowed_nar w) path send r w' resp body))"
  using streams_D [OF assms(1)] assms(2,3) by (auto simp: nars_grow_def served_request_def)

lemma serve_info_outcome:
  assumes "bind_s (ensure_nix_cache_info (cache_dir (env_cache E))) (\<lambda>cf.
          bind_s (stream_cache_file cf ''nix-cache-info'' send) (\<lambda>_. finish_stream)) w = (r, w')"
  shows "registry w' = registry w \<and> nars_grow E access w w'
    \<and> (\<exists>resp body. tx w' = tx w @ resp \<and> body_out w' = body_out w @ body
        \<and> (refuses resp body \<or> served_request E access (allowed_nar w) ''nix-cache-info'' send r w' resp body))"
proof -
  obtain r1 w1 where e: "ensure_nix_cache_info (cache_dir (env_cache E)) w = (r1, w1)" by fastforce
  have d: "on_disk w w1" using disk_ensure_nix_cache_info e by (rule keepsD)
  show ?thesis
  proof (cases r1)
    case (Inl x)
    with assms e d show ?thesis by (auto simp: bind_s_def on_disk_def nars_grow_def refuses_def)
  next
    case (Inr cf)
    with e have p: "cache_file_path (cache_dir (env_cache E)) ''nix-cache-info'' = Ok cf"
      by (simp add: ensure_nix_cache_info_path)
    have "streams cf send w1 (bind_s (stream_cache_file cf ''nix-cache-info'' send) (\<lambda>_. finish_stream) w1)"
      by (intro streams_finish streams_file)
    moreover have "bind_s (stream_cache_file cf ''nix-cache-info'' send) (\<lambda>_. finish_stream) w1 = (r, w')"
      using assms e Inr by (simp add: bind_s_def)
    ultimately have "streams cf send w (r, w')" using d streams_after_disk by metis
    then show ?thesis using p by (rule streams_served) (simp add: may_serve_def)
  qed
qed

lemma serve_nar_outcome:
  assumes "(if path \<notin> set (allowed_nar w) then refuse_file w
        else bind_s (lift_r (cache_file_path (cache_dir (env_cache E)) path)) (\<lambda>cf.
             bind_s (stream_cache_file cf path send) (\<lambda>_. finish_stream)) w) = (r, w')"
    and "starts_with ''nar/'' path"
  shows "registry w' = registry w \<and> nars_grow E access w w'
    \<and> (\<exists>resp body. tx w' = tx w @ resp \<and> body_out w' = body_out w @ body
        \<and> (refuses resp body \<or> served_request E access (allowed_nar w) path send r w' resp body))"
proof (cases "path \<in> set (allowed_nar w)")
  case False
  with assms(1) have "refuse_file w = (r, w')" by simp
  then show ?thesis
    by (auto simp: refuse_file_def bind_s_def write_cache_file_response_def send_message_def ticked_def
        finish_stream_def refuses_def nars_grow_def split: fault.splits)
next
  case True
  show ?thesis
  proof (cases "cache_file_path (cache_dir (env_cache E)) path")
    case (Inl e)
    with True assms(1) show ?thesis by (auto simp: bind_s_def nars_grow_def refuses_def)
  next
    case (Inr cf)
    have "streams cf send w (bind_s (stream_cache_file cf path send) (\<lambda>_. finish_stream) w)"
      by (intro streams_finish streams_file)
    with True assms(1) Inr have "streams cf send w (r, w')" by (simp add: bind_s_def)
    then show ?thesis using Inr by (rule streams_served) (simp add: may_serve_def True assms(2))
  qed
qed

text \<open>
  A cache file stream is answered with at most one response. A file is sent only for a path that
  may be served, from its place below the cache directory, and as it is there; a nar becomes
  servable only when the narinfo of a path of the closure that names it is served.
\<close>

text \<open>
  C9: A cache file stream is answered with at most one response. A file is sent only for nix-
  cache-info, the narinfo of a path of the output closure, or a nar that a served narinfo named
  before; it is sent from its place below the cache directory and as it is there.
\<close>

theorem cache_stream_serves_only_the_closure:
  "case handle_cache_file_stream E access w of
     (r, w') \<Rightarrow>
       registry w' = registry w \<and> nars_grow E access w w'
       \<and> (\<exists>resp body. tx w' = tx w @ resp \<and> body_out w' = body_out w @ body
           \<and> (refuses resp body
              \<or> (\<exists>rq rest path. rx w = Inr (CacheFileRequest rq) # rest
                   \<and> sanitize_cache_path (request_path rq) = Ok path
                   \<and> served_request E access (allowed_nar w) path (send_body rq) r w' resp body)))"
proof -
  obtain r w' where run: "handle_cache_file_stream E access w = (r, w')" by fastforce
  obtain m w1 where rd: "recv_timed w = (m, w1)" by fastforce
  note fr = recv_timed_frame [OF rd]
  have idle: ?thesis if "w' = w1"
    using that run fr(1-4) by (auto simp: nars_grow_def refuses_def)
  show ?thesis
  proof (cases "\<exists>rq path. m = Inr (CacheFileRequest rq) \<and> sanitize_cache_path (request_path rq) = Ok path")
    case False
    then have "w' = w1"
      using run rd by (cases m)
        (auto simp: handle_cache_file_stream_def read_message_def bind_s_def split: message.splits sum.splits)
    then show ?thesis by (rule idle)
  next
    case True
    then obtain rq path where m: "m = Inr (CacheFileRequest rq)" and path: "sanitize_cache_path (request_path rq) = Ok path"
      by blast
    let ?served = "registry w' = registry w1 \<and> nars_grow E access w1 w'
      \<and> (\<exists>resp body. tx w' = tx w1 @ resp \<and> body_out w' = body_out w1 @ body
        \<and> (refuses resp body \<or> served_request E access (allowed_nar w1) path (send_body rq) r w' resp body))"
    have ?served
    proof -
      consider (info) "path = ''nix-cache-info''"
        | (narinfo) "path \<noteq> ''nix-cache-info''" "ends_with ''.narinfo'' path"
        | (nar) "path \<noteq> ''nix-cache-info''" "\<not> ends_with ''.narinfo'' path" "starts_with ''nar/'' path"
        | (other) "path \<noteq> ''nix-cache-info''" "\<not> ends_with ''.narinfo'' path" "\<not> starts_with ''nar/'' path"
        by blast
      then show ?thesis
      proof cases
        case info
        with run rd m path have "bind_s (ensure_nix_cache_info (cache_dir (env_cache E))) (\<lambda>cf.
          bind_s (stream_cache_file cf ''nix-cache-info'' (send_body rq)) (\<lambda>_. finish_stream)) w1 = (r, w')"
          by (simp add: handle_cache_file_stream_def read_message_def bind_s_def)
        from serve_info_outcome [OF this] info show ?thesis by simp
      next
        case narinfo
        with run rd m path have "serve_narinfo E access path (send_body rq) w1 = (r, w')"
          by (simp add: handle_cache_file_stream_def read_message_def bind_s_def)
        from serve_narinfo_outcome [OF this] show ?thesis
          by (auto simp: served_request_def may_serve_def)
      next
        case nar
        with run rd m path have "(if path \<notin> set (allowed_nar w1) then refuse_file w1
          else bind_s (lift_r (cache_file_path (cache_dir (env_cache E)) path)) (\<lambda>cf.
             bind_s (stream_cache_file cf path (send_body rq)) (\<lambda>_. finish_stream)) w1) = (r, w')"
          by (simp add: handle_cache_file_stream_def read_message_def bind_s_def)
        from serve_nar_outcome [OF this nar(3)] show ?thesis by simp
      next
        case other
        with run rd m path have "w' = w1"
          by (simp add: handle_cache_file_stream_def read_message_def bind_s_def)
        then show ?thesis by (auto simp: nars_grow_def refuses_def)
      qed
    qed
    then obtain resp body where s: "registry w' = registry w" "tx w' = tx w @ resp" "body_out w' = body_out w @ body"
      "refuses resp body \<or> served_request E access (allowed_nar w) path (send_body rq) r w' resp body"
      "nars_grow E access w w'"
      using fr(1-4) by (auto simp: nars_grow_def)
    then show ?thesis using run path fr(6) [OF m] by auto
  qed
qed

section \<open>A filled entry is ready\<close>

definition entry_ready :: "output_cache \<Rightarrow> (string \<Rightarrow> string option) \<Rightarrow> string \<Rightarrow> bool" where
  "entry_ready cache fs narinfo_path \<longleftrightarrow>
    (\<exists>bytes nar cf. fs narinfo_path = Some bytes
      \<and> narinfo_has_signature_name bytes (key_public (cache_key cache)) = Ok True
      \<and> narinfo_nar_path bytes = Ok (Some nar) \<and> cache_file_path (cache_dir cache) nar = Ok cf
      \<and> fs cf \<noteq> None)"

lemma cache_file_exists_Ok:
  "cache_file_exists cf w = (Inr b, w') \<Longrightarrow> files w' = files w \<and> (b \<longleftrightarrow> files w cf \<noteq> None)"
  by (auto simp: cache_file_exists_def ticked_def split: fault.splits)

lemma cache_entry_ready_Ok:
  assumes "cache_entry_ready cache p w = (Inr b, w')"
  shows "files w' = files w \<and> (b \<longleftrightarrow> entry_ready cache (files w) p)"
proof -
  have "keeps (only_files (\<lambda>_. False)) (cache_entry_ready cache p)" by (rule frame)
  then have same: "files w' = files w" using assms by (metis keepsD only_files_False_files)
  obtain c w1 where c: "context_s (''read '' @ p) (fs_read p) w = (Inr c, w1)"
    and rest: "(case c of None \<Rightarrow> ret False
    | Some bytes \<Rightarrow>
        bind_s (lift_r (narinfo_has_signature_name bytes (key_public (cache_key cache)))) (\<lambda>signed.
        if \<not> signed then ret False
        else
          bind_s (lift_r (narinfo_nar_path bytes)) (\<lambda>nar.
          case nar of
            None \<Rightarrow> ret False
          | Some nar_path \<Rightarrow>
              bind_s (lift_r (cache_file_path (cache_dir cache) nar_path)) (\<lambda>cf.
              cache_file_exists cf)))) w1 = (Inr b, w')"
    using assms unfolding cache_entry_ready_def bind_s_Ok_iff by blast
  have w1: "files w1 = files w" "c = files w p"
    using c by (auto simp: context_s_def fs_read_def ticked_def split: fault.splits)
  show ?thesis
  proof (cases c)
    case None
    with rest w1 same show ?thesis by (auto simp: entry_ready_def)
  next
    case (Some bytes)
    with rest obtain signed where s: "narinfo_has_signature_name bytes (key_public (cache_key cache)) = Ok signed"
      by (auto simp: bind_s_Ok_iff)
    show ?thesis
    proof (cases signed)
      case False
      with s Some rest w1 same show ?thesis by (auto simp: entry_ready_def bind_s_lift_r)
    next
      case True
      with s Some rest obtain nar where nar: "narinfo_nar_path bytes = Ok nar"
        by (auto simp: bind_s_Ok_iff)
      show ?thesis
      proof (cases nar)
        case None
        with True s Some nar rest w1 same show ?thesis by (auto simp: entry_ready_def bind_s_lift_r)
      next
        case n: (Some q)
        with True s Some nar rest obtain cf where cf: "cache_file_path (cache_dir cache) q = Ok cf"
          "cache_file_exists cf w1 = (Inr b, w')"
          by (auto simp: bind_s_Ok_iff)
        from cache_file_exists_Ok [OF cf(2)] True s Some nar n cf w1 same show ?thesis
          by (auto simp: entry_ready_def bind_s_lift_r)
      qed
    qed
  qed
qed

lemma fill_cache_entry_Ok:
  "fill_cache_entry E p w = (Inr u, w') \<Longrightarrow>
     entry_ready (env_cache E) (files w') (narinfo_file (env_cache E) p)"
  unfolding fill_cache_entry_def Let_def
  by (auto simp: bind_s_Ok_iff dest!: cache_entry_ready_Ok split: if_splits)

lemma disk_cache_entry_ready_sys: "cache_entry_ready cache p w = (r, w') \<Longrightarrow> sys_state w' = sys_state (w :: 'n srv_world)"
proof -
  assume "cache_entry_ready cache p w = (r, w')"
  moreover have "keeps (only_files (\<lambda>_. False)) (cache_entry_ready cache p)" by (rule frame)
  ultimately have "only_files (\<lambda>_. False) w w'" by (metis keepsD)
  then have "io_world.more w' = io_world.more w" by (simp add: only_files_def)
  then show ?thesis by (cases w; cases w'; simp)
qed

text \<open>
  When the entry of a path is asked for and there is no error, its narinfo is in the cache, signed
  under the name of the server's key, and the nar it names is there; an entry that was ready
  before is found without a command being run or a file being touched.
\<close>

text \<open>
  C30: After a cache entry has been ensured, its narinfo is in the cache, signed under the name
  of the key of the server, and the nar it names exists; an entry that was ready is found
  without running a command or touching a file.
\<close>

theorem ensured_cache_entry_is_ready:
  "case ensure_cache_entry E p w of
     (Inl e, w') \<Rightarrow> True
   | (Inr _, w') \<Rightarrow>
       entry_ready (env_cache E) (files w') (narinfo_file (env_cache E) p)
       \<and> (if entry_ready (env_cache E) (files w) (narinfo_file (env_cache E) p)
          then files w' = files w \<and> sys_state w' = sys_state w else True)"
proof (cases "ensure_cache_entry E p w")
  case (Pair r w')
  let ?nf = "narinfo_file (env_cache E) p"
  show ?thesis
  proof (cases r)
    case (Inl e)
    with Pair show ?thesis by simp
  next
    case (Inr u)
    with Pair obtain b1 w1 where r1: "cache_entry_ready (env_cache E) ?nf w = (Inr b1, w1)"
      and rest1: "(if b1 then ret () else bind_s (cache_entry_ready (env_cache E) ?nf) (\<lambda>ready.
      if ready then ret () else fill_cache_entry E p)) w1 = (Inr u, w')"
      unfolding ensure_cache_entry_def by (auto simp: bind_s_Ok_iff)
    note a1 = cache_entry_ready_Ok [OF r1] disk_cache_entry_ready_sys [OF r1]
    show ?thesis
    proof (cases b1)
      case True
      with rest1 a1 Pair Inr show ?thesis by auto
    next
      case False
      with rest1 obtain b2 w2 where r2: "cache_entry_ready (env_cache E) ?nf w1 = (Inr b2, w2)"
        and rest2: "(if b2 then ret () else fill_cache_entry E p) w2 = (Inr u, w')"
        by (auto simp: bind_s_Ok_iff)
      have "\<not> b2" using cache_entry_ready_Ok [OF r2] a1 False by simp
      with rest2 have "fill_cache_entry E p w2 = (Inr u, w')" by simp
      from fill_cache_entry_Ok [OF this] a1 False Pair Inr show ?thesis by simp
    qed
  qed
qed

text \<open>
  \<open>nix-cache-info\<close> is created and then written in place. When the write fails, an empty or cut file
  stays, and every later request takes it for the finished one and serves it.
\<close>

theorem failed_cache_info_write_is_served:
  "case ensure_nix_cache_info ''/d/cache'' (calm_world\<lparr>faults := (\<lambda>k. if k = 3 then Fault 4 else Fine)\<rparr>) of (r, w) \<Rightarrow>
    \<not> is_ok r \<and> files w ''/d/cache/nix-cache-info'' = Some ''Stor''
    \<and> (case ensure_nix_cache_info ''/d/cache'' (w\<lparr>faults := (\<lambda>k. Fine)\<rparr>) of (r', w') \<Rightarrow>
        r' = Ok ''/d/cache/nix-cache-info'' \<and> files w' = files w)"
proof -
  have path: "cache_file_path ''/d/cache'' ''nix-cache-info'' = Ok ''/d/cache/nix-cache-info''"
    by (simp add: cache_file_path_def sanitize_cache_path_def drv_eval)
  show ?thesis
    by (simp add: ensure_nix_cache_info_def path cache_file_exists_def fs_create_new_def NIX_CACHE_INFO_def drv_eval)
qed

end
