(* ===== verification/Off_Board.thy ===== *)
theory Off_Board
  imports Output_Cache
begin

text \<open>
  Which steps of a connection leave the status board alone: everything that talks, works on the
  disk, runs commands or serves cache files.
\<close>

section \<open>Steps off the status board\<close>

definition off_board :: "'n srv_world \<Rightarrow> 'n srv_world \<Rightarrow> bool" where
  "off_board w w' \<longleftrightarrow> registry w' = registry w \<and> clock w' = clock w"

lemma off_board_reflp [simp]: "reflp off_board"
  by (simp add: reflp_def off_board_def)

lemma off_board_transp [simp]: "transp off_board"
  by (simp add: transp_def off_board_def)

lemma off_board_trans: "off_board u v \<Longrightarrow> off_board v w \<Longrightarrow> off_board u w"
  by (simp add: off_board_def)

lemma disk_off_board: "keeps on_disk m \<Longrightarrow> keeps off_board m"
  unfolding keeps_def on_disk_def off_board_def by blast

lemma talks_off_board: "keeps only_talks m \<Longrightarrow> keeps off_board m"
  unfolding keeps_def only_talks_def off_board_def by blast

named_theorems aside

lemma aside_combine [aside]:
  "keeps off_board (ret x)" "keeps off_board (lift_r r)"
  "keeps off_board m \<Longrightarrow> (\<And>x. keeps off_board (f x)) \<Longrightarrow> keeps off_board (bind_s m f)"
  "keeps off_board m \<Longrightarrow> (\<And>x. keeps off_board (h x)) \<Longrightarrow> keeps off_board (match_s m h)"
  "keeps off_board m \<Longrightarrow> keeps off_board (context_s c m)"
  by (simp_all add: keeps_ret keeps_lift_r keeps_bind_s keeps_match_s keeps_context_s)

lemma aside_talk [aside]:
  "keeps off_board (send_message m)" "keeps off_board recv_message" "keeps off_board recv_timed"
  "keeps off_board finish_stream" "keeps off_board (send_error t)" "keeps off_board read_message"
  by (rule talks_off_board, rule talks)+

lemma aside_disk [aside]:
  "keeps off_board (ensure_cache_entry E sp)" "keeps off_board (ensure_nix_cache_info d)"
  "keeps off_board (fs_read p)" "keeps off_board (output_of (nixc E) program args)"
  "keeps off_board (sys_step s)" "keeps off_board (file_len p)" "keeps off_board (io_call c)"
  by (rule disk_off_board, rule disk)+

lemma aside_lists [aside]:
  "keeps off_board (write_paths ps mk)" "keeps off_board (read_with_timeout d kind l c)"
  by (rule keeps_write_paths keeps_read_with_timeout; intro aside off_board_reflp off_board_transp)+

lemma aside_queries [aside]:
  "keeps off_board (query_closure (nixc E) ps)" "keeps off_board (missing_paths (nixc E) ps)"
  by (rule keeps_query_closure keeps_missing_paths; intro aside off_board_reflp off_board_transp)+

lemma keeps_if: "keeps R m \<Longrightarrow> keeps R n \<Longrightarrow> keeps R (\<lambda>w. if P w then m w else n w)"
  by (simp add: keeps_def)

lemma aside_cache_stream: "off_board w (snd (handle_cache_file_stream E access w))"
proof -
  have c: "keeps off_board (write_cache_file_response f n)" for f n by (simp add: write_cache_file_response_def aside)
  have b: "keeps off_board (write_body s)" for s
    by (auto simp: keeps_def write_body_def off_board_def ticked_def split: fault.splits)
  have cb: "keeps off_board (copy_body p n)" for p n
    by (auto simp: keeps_def copy_body_def bind_s_def write_body_def off_board_def ticked_def split: fault.splits)
  have sf: "keeps off_board (stream_cache_file p r s)" for p r s
    unfolding stream_cache_file_def by (auto intro!: aside c cb split: option.splits)
  have sb: "keeps off_board (stream_cache_bytes r s' s)" for r s' s
    unfolding stream_cache_bytes_def by (auto intro!: aside c b)
  have an: "keeps off_board (allow_nar n)" for n
    by (auto simp: keeps_def allow_nar_def off_board_def split: option.splits)
  have rf: "keeps off_board refuse_file" unfolding refuse_file_def by (intro aside c)
  have sn: "keeps off_board (send_narinfo p s cf co)" for p s cf co
    unfolding send_narinfo_def by (auto intro!: aside sb an split: option.splits)
  then have ni: "keeps off_board (serve_narinfo E access p s)" for p s
    unfolding serve_narinfo_def by (auto intro!: aside rf sn split: option.splits)
  have nar: "keeps off_board (\<lambda>w. if p \<notin> set (allowed_nar w) then refuse_file w
      else bind_s (lift_r (cache_file_path d p)) (\<lambda>cf. bind_s (stream_cache_file cf p s) (\<lambda>_. finish_stream)) w)" for p d s
    by (intro keeps_if rf aside sf)
  have "keeps off_board (handle_cache_file_stream E access)"
    unfolding handle_cache_file_stream_def by (auto intro!: aside sf ni nar split: message.splits)
  then show ?thesis by (simp add: keeps_def)
qed

lemma off_board_on_stream: "(\<And>v. off_board v (snd (m v))) \<Longrightarrow> off_board w (on_stream msgs m w)"
proof -
  assume "\<And>v. off_board v (snd (m v))"
  then have "off_board (w\<lparr>rx := msgs, tx := [], body_out := [], fin := False\<rparr>)
    (snd (m (w\<lparr>rx := msgs, tx := [], body_out := [], fin := False\<rparr>)))" .
  then show ?thesis by (simp add: on_stream_def Let_def off_board_def)
qed

lemma aside_control_message [aside]: "keeps off_board (control_message E)"
  unfolding control_message_def by (auto intro!: aside split: message.splits)

lemma aside_serve_loop: "off_board w (snd (serve_loop E access pending events w))"
proof (induction E access pending events w rule: serve_loop.induct)
  case (3 E access pending msgs events w)
  have "off_board w (on_stream msgs (handle_cache_file_stream E access) w)"
    by (rule off_board_on_stream) (rule aside_cache_stream)
  with 3 show ?case by (auto intro: off_board_trans)
next
  case (5 E access pending events w)
  show ?case
  proof (cases pending)
    case Nil
    with 5 show ?thesis by simp
  next
    case (Cons p ps)
    have "keeps off_board (context_s (''prewarm '' @ as_str p) (ensure_cache_entry E p))" by (intro aside)
    then have "off_board w (prewarm_fill E p w)" by (simp add: prewarm_fill_def keeps_def)
    with 5 Cons show ?thesis by (auto intro: off_board_trans)
  qed
qed (use aside_control_message in \<open>auto simp: keeps_def\<close>, simp add: off_board_def)

lemma aside_export_outputs [aside]: "keeps off_board (export_outputs E ps)"
proof -
  have "keeps off_board (serve_output_cache E access pending)" for access pending
  proof (rule keepsI)
    fix w r t
    assume "serve_output_cache E access pending w = (r, t)"
    with aside_serve_loop [of "w\<lparr>allowed_nar := [], serve_events := []\<rparr>" E access pending "serve_events w"]
    show "off_board w t" by (simp add: serve_output_cache_def off_board_def)
  qed
  then show ?thesis unfolding export_outputs_def output_closure_def by (auto intro!: aside)
qed

end
