(* ===== verification/Server_Build.thy ===== *)
theory Server_Build
  imports Off_Board
begin

text \<open>
  \<open>server/build.rs\<close>: the build of one request, from the checked request to the served outputs.
\<close>

record checked_build_request =
  cb_installable :: string
  cb_drv_path :: store_path
  cb_output_mode :: output_mode
  cb_rebuild :: bool
  cb_closure_paths :: "store_path list"
  cb_output_paths :: "store_path list"

record finished_build =
  fb_success :: bool
  fb_output_paths :: "store_path list"

section \<open>The request\<close>

definition check_build_request :: "build_request \<Rightarrow> string list \<Rightarrow> checked_build_request result" where
  "check_build_request request closure_paths =
    bind_r (store_path_new (drv_path request)) (\<lambda>drv.
    bind_r (collect_r store_path_new (request_output_paths request)) (\<lambda>outputs.
    if outputs = [] then bail ''build request did not include output paths''
    else
      bind_r (collect_r store_path_new closure_paths) (\<lambda>closure.
      let closure = (if \<not> list_ex (\<lambda>path. path = drv) closure then closure @ [drv] else closure) in
      Ok \<lparr>cb_installable = installable request, cb_drv_path = drv, cb_output_mode = output_mode request,
          cb_rebuild = rebuild request, cb_closure_paths = closure, cb_output_paths = outputs\<rparr>)))"

definition read_checked_build_request ::
  "('id, 'addr, 'n) server_env \<Rightarrow> build_request \<Rightarrow> ('n srv_world, checked_build_request) step" where
  "read_checked_build_request E request =
    bind_s (read_with_timeout (env_debug E) Kind_BuildPaths PATH_LIST_LIMITS
              ''unexpected path list message'') (\<lambda>closure_paths.
    lift_r (check_build_request request closure_paths))"

section \<open>The build\<close>

fun selected_loop :: "string list \<Rightarrow> store_path list \<Rightarrow> store_path list \<Rightarrow> store_path list result" where
  "selected_loop all_outputs [] selected = Ok selected"
| "selected_loop all_outputs (p # rest) selected =
    (if as_str p \<notin> set all_outputs then bail (''requested output was not realised: '' @ as_str p)
     else selected_loop all_outputs rest (selected @ [p]))"

definition selected_outputs :: "store_path list \<Rightarrow> store_path list \<Rightarrow> store_path list result" where
  "selected_outputs requested_outputs all_outputs =
    selected_loop (map as_str all_outputs) requested_outputs []"

text \<open>The log sink of the control stream.\<close>

definition wire_log_sink :: "string \<Rightarrow> ('n srv_world, unit) step" where
  "wire_log_sink line = send_message (NixLog \<lparr>log_line = line\<rparr>)"

definition run_build ::
  "('id, 'addr, 'n) server_env \<Rightarrow> store_path \<Rightarrow> output_mode \<Rightarrow> bool \<Rightarrow> duration option \<Rightarrow> store_path list \<Rightarrow>
     ('n srv_world, finished_build) step" where
  "run_build E drv mode again deadline requested_outputs =
    bind_s (send_message BuildStarted) (\<lambda>_.
    bind_s (realise (nixc E) (nixp E) deadline drv mode again wire_log_sink) (\<lambda>result.
    bind_s (lift_r (if realise_success result
                    then selected_outputs requested_outputs (realise_output_paths result)
                    else Ok [])) (\<lambda>outputs.
    bind_s (send_message (BuildFinished \<lparr>success = realise_success result,
                                         finished_output_paths = map as_str outputs\<rparr>)) (\<lambda>_.
    ret \<lparr>fb_success = realise_success result, fb_output_paths = outputs\<rparr>))))"

section \<open>The inputs\<close>

text \<open>\<open>timeout(CONTROL_TIMEOUT, conn.accept_uni())\<close>: no stream left means the connection ended.\<close>

definition accept_upload :: "('n srv_world, upload) step" where
  "accept_upload w =
    (case next_fault w of
       Fault n \<Rightarrow> (Err (Context ''input upload timed out'' (lib_error ''elapsed'')), ticked w)
     | Fine \<Rightarrow>
         (case uploads w of
            [] \<Rightarrow> (Err (lib_error ''accept_uni''), ticked w)
          | u # us \<Rightarrow> (Ok u, (ticked w)\<lparr>uploads := us\<rparr>)))"

text \<open>
  The import under \<open>UPLOAD_TIMEOUT\<close>. When the time is over the future is dropped: some bytes have
  reached the child, which is then killed.
\<close>

definition import_in_time ::
  "'n srv_world children \<Rightarrow> upload \<Rightarrow> u64 option \<Rightarrow> ('n srv_world, nat) step" where
  "import_in_time C reader max_bytes w =
    (case next_fault w of
       Fine \<Rightarrow> import_unsigned_export_stream C reader max_bytes (ticked w)
     | Fault n \<Rightarrow>
         match_s (spawn_import C [''--option'', ''require-sigs'', ''false'', ''--import'']) (\<lambda>_.
         match_s (import_stdin C (take n (fst (limited_reader reader max_bytes)))) (\<lambda>_.
         match_s (kill_import C) (\<lambda>_.
         lift_r (Err (Context ''input upload timed out'' (lib_error ''elapsed'')))))) (ticked w))"

definition import_missing_inputs ::
  "('id, 'addr, 'n) server_env \<Rightarrow> store_path list \<Rightarrow> u64 option \<Rightarrow> ('n srv_world, unit) step" where
  "import_missing_inputs E missing limit =
    bind_s (send_message InputUploadReady) (\<lambda>_.
    bind_s accept_upload (\<lambda>reader.
    bind_s (import_in_time (nixp E) reader limit) (\<lambda>_.
    bind_s (missing_paths (nixc E) missing) (\<lambda>still_missing.
    if still_missing \<noteq> [] then
      lift_r (bail (''missing paths after import: '' @ show_nat (length still_missing)))
    else ret ()))))"

lemma keeps_import_missing_inputs:
  assumes R: "reflp R" "transp R" and t: "\<And>w. R w (ticked w)"
    and kids: "\<And>args. keeps R (spawn_import (nixp E) args)" "\<And>bytes. keeps R (import_stdin (nixp E) bytes)"
      "keeps R (wait_import (nixp E))" "keeps R (kill_import (nixp E))"
    and rest: "keeps R accept_upload" "keeps R (send_message InputUploadReady)"
      "\<And>program args. keeps R (output_of (nixc E) program args)"
  shows "keeps R (import_missing_inputs E missing limit)"
proof -
  have cut: "keeps R (match_s (spawn_import (nixp E) args) (\<lambda>_.
         match_s (import_stdin (nixp E) bytes) (\<lambda>_. match_s (kill_import (nixp E)) (\<lambda>_. lift_r r))))" for args bytes r
    using R kids by (intro keeps_match_s keeps_lift_r)
  have "R w (snd (import_in_time (nixp E) reader limit w))" for reader w
  proof (cases "next_fault w")
    case Fine
    then show ?thesis
      using transpD [OF R(2) t keeps_snd [OF keeps_import_stream [OF R kids]]] by (simp add: import_in_time_def)
  next
    case (Fault n)
    then show ?thesis using transpD [OF R(2) t keeps_snd [OF cut]] by (simp add: import_in_time_def)
  qed
  then have "keeps R (import_in_time (nixp E) reader limit)" for reader by (simp add: keeps_def)
  with R rest keeps_missing_paths [OF R rest(3)] show ?thesis
    unfolding import_missing_inputs_def by (auto intro!: keeps_bind_s keeps_ret keeps_lift_r)
qed

section \<open>The whole build\<close>

definition enter_phase :: "('id, 'addr, 'n) server_env \<Rightarrow> string \<Rightarrow> string \<Rightarrow> ('n srv_world, unit) step" where
  "enter_phase E request_id phase w =
    (Ok (), on_registry (\<lambda>st. status_phase (env_status E) request_id phase st) w)"

definition run_queued_build ::
  "('id, 'addr, 'n) server_env \<Rightarrow> checked_build_request \<Rightarrow> authorized_connection \<Rightarrow> string \<Rightarrow>
     ('n srv_world, bool) step" where
  "run_queued_build E build authorized request_id =
    bind_s (enter_phase E request_id ''checking inputs'') (\<lambda>_.
    bind_s (missing_paths (nixc E) (cb_closure_paths build)) (\<lambda>missing.
    bind_s (write_paths (map as_str missing) MissingPaths) (\<lambda>_.
    bind_s (if missing \<noteq> [] then
              bind_s (enter_phase E request_id ''uploading inputs'') (\<lambda>_.
              import_missing_inputs E missing (max_upload authorized))
            else ret ()) (\<lambda>_.
    bind_s (enter_phase E request_id (if cb_rebuild build then ''rebuilding'' else ''building'')) (\<lambda>_.
    bind_s (run_build E (cb_drv_path build) (cb_output_mode build) (cb_rebuild build)
              (max_time authorized) (cb_output_paths build)) (\<lambda>finished.
    bind_s (if fb_success finished then
              bind_s (enter_phase E request_id ''serving output cache'') (\<lambda>_.
              export_outputs E (fb_output_paths finished))
            else ret ()) (\<lambda>_.
    ret (fb_success finished))))))))"

section \<open>The checked request\<close>

text \<open>
  A request is accepted exactly if all its paths are store paths and it names an output; the
  closure then holds the derivation, added at the end if the client left it out.
\<close>

theorem check_build_request_exact:
  "check_build_request request closure_paths = Ok b \<longleftrightarrow>
     as_str (cb_drv_path b) = drv_path request
     \<and> map as_str (cb_output_paths b) = request_output_paths request \<and> cb_output_paths b \<noteq> []
     \<and> map as_str (cb_closure_paths b) =
         (if drv_path request \<in> set closure_paths then closure_paths else closure_paths @ [drv_path request])
     \<and> list_all (\<lambda>p. is_ok (store_path_new p)) closure_paths
     \<and> cb_installable b = installable request \<and> cb_output_mode b = output_mode request
     \<and> cb_rebuild b = rebuild request"
proof
  assume "check_build_request request closure_paths = Ok b"
  then obtain drv outs closure where c: "as_str drv = drv_path request" "map as_str outs = request_output_paths request"
    "outs \<noteq> []" "map as_str closure = closure_paths"
    and b: "b = \<lparr>cb_installable = installable request, cb_drv_path = drv, cb_output_mode = output_mode request,
          cb_rebuild = rebuild request,
          cb_closure_paths = (if \<not> list_ex (\<lambda>path. path = drv) closure then closure @ [drv] else closure),
          cb_output_paths = outs\<rparr>"
    by (auto simp: check_build_request_def Let_def store_path_new_Ok_iff collect_store_paths split: if_splits)
  have "list_ex (\<lambda>path. path = drv) closure \<longleftrightarrow> drv_path request \<in> set closure_paths"
    by (auto simp: list_ex_iff simp flip: c(1,4))
  with b c show "as_str (cb_drv_path b) = drv_path request
     \<and> map as_str (cb_output_paths b) = request_output_paths request \<and> cb_output_paths b \<noteq> []
     \<and> map as_str (cb_closure_paths b) =
         (if drv_path request \<in> set closure_paths then closure_paths else closure_paths @ [drv_path request])
     \<and> list_all (\<lambda>p. is_ok (store_path_new p)) closure_paths
     \<and> cb_installable b = installable request \<and> cb_output_mode b = output_mode request
     \<and> cb_rebuild b = rebuild request"
    by (auto simp: list_all_iff)
next
  assume h: "as_str (cb_drv_path b) = drv_path request
     \<and> map as_str (cb_output_paths b) = request_output_paths request \<and> cb_output_paths b \<noteq> []
     \<and> map as_str (cb_closure_paths b) =
         (if drv_path request \<in> set closure_paths then closure_paths else closure_paths @ [drv_path request])
     \<and> list_all (\<lambda>p. is_ok (store_path_new p)) closure_paths
     \<and> cb_installable b = installable request \<and> cb_output_mode b = output_mode request
     \<and> cb_rebuild b = rebuild request"
  then have "is_ok (collect_r store_path_new closure_paths)" by (simp add: is_ok_collect_r list_all_iff)
  then obtain closure where closure: "map as_str closure = closure_paths"
    by (auto simp: is_ok_iff collect_store_paths)
  from h have drv: "as_str (cb_drv_path b) = drv_path request" by simp
  have mem: "list_ex (\<lambda>path. path = cb_drv_path b) closure \<longleftrightarrow> drv_path request \<in> set closure_paths"
    by (auto simp: list_ex_iff simp flip: drv closure)
  have "map as_str (cb_closure_paths b) = map as_str (if \<not> list_ex (\<lambda>path. path = cb_drv_path b) closure
      then closure @ [cb_drv_path b] else closure)"
    using h closure mem by simp
  moreover have "inj as_str" by (simp add: inj_def)
  ultimately have clo: "cb_closure_paths b = (if \<not> list_ex (\<lambda>path. path = cb_drv_path b) closure
      then closure @ [cb_drv_path b] else closure)"
    by (simp only: map_injective inj_map_eq_map)
  have news: "store_path_new (drv_path request) = Ok (cb_drv_path b)"
    "collect_r store_path_new (request_output_paths request) = Ok (cb_output_paths b)"
    "collect_r store_path_new closure_paths = Ok closure"
    using h closure by (simp_all add: store_path_new_Ok_iff collect_store_paths)
  show "check_build_request request closure_paths = Ok b"
    unfolding check_build_request_def Let_def news bind_r.simps
    using h by (auto simp: clo intro!: checked_build_request.equality)
qed

section \<open>What a build says\<close>

lemma selected_loop_Ok:
  "selected_loop all req acc = Ok qs \<longleftrightarrow> qs = acc @ req \<and> set (map as_str req) \<subseteq> set all"
  by (induction all req acc rule: selected_loop.induct) auto

abbreviation nix_log_message :: "string \<Rightarrow> message" where
  "nix_log_message l \<equiv> NixLog \<lparr>log_line = l\<rparr>"

text \<open>Steps that at most log on the control stream, off the status board.\<close>

definition logs_only :: "'n srv_world \<Rightarrow> 'n srv_world \<Rightarrow> bool" where
  "logs_only w w' \<longleftrightarrow> off_board w w' \<and> rx w' = rx w \<and> (\<exists>ls. tx w' = tx w @ map nix_log_message ls)"

lemma logs_only_reflp [simp]: "reflp logs_only"
  by (auto simp: reflp_def logs_only_def off_board_def)

lemma logs_only_trans: "logs_only u v \<Longrightarrow> logs_only v w \<Longrightarrow> logs_only u w"
  unfolding logs_only_def using off_board_trans by (metis append.assoc map_append)

lemma logs_only_transp [simp]: "transp logs_only"
  by (meson logs_only_trans transpI)

lemma disk_logs_only: "keeps on_disk m \<Longrightarrow> keeps logs_only m"
  unfolding keeps_def on_disk_def logs_only_def off_board_def by fastforce

named_theorems logging

lemma logging_combine [logging]:
  "keeps logs_only (ret x)" "keeps logs_only (lift_r r)"
  "keeps logs_only m \<Longrightarrow> (\<And>x. keeps logs_only (f x)) \<Longrightarrow> keeps logs_only (bind_s m f)"
  "keeps logs_only m \<Longrightarrow> (\<And>x. keeps logs_only (h x)) \<Longrightarrow> keeps logs_only (match_s m h)"
  "keeps logs_only m \<Longrightarrow> keeps logs_only (context_s c m)"
  by (simp_all add: keeps_ret keeps_lift_r keeps_bind_s keeps_match_s keeps_context_s)

lemma logging_sys [logging]:
  "keeps logs_only (sys_step s)" "keeps logs_only (output_of (nixc E) program args)"
  by (rule disk_logs_only, rule disk)+

lemma logging_children [logging]:
  "keeps logs_only (spawn_realise (nixp E) args)" "keeps logs_only (spawn_import (nixp E) args)"
  "keeps logs_only (import_stdin (nixp E) bytes)" "keeps logs_only (wait_import (nixp E))"
  "keeps logs_only (kill_import (nixp E))"
  by (simp_all add: nixp_def lift_children_def logging)

lemma logging_sink [logging]: "keeps logs_only (wire_log_sink line)"
  by (auto simp: keeps_def wire_log_sink_def send_message_def logs_only_def off_board_def ticked_def
      intro: exI [of _ "[line]"] split: fault.splits)

lemma logging_lines [logging]: "keeps logs_only (stream_child_lines wire_log_sink turns sched out err od ed)"
  by (intro keeps_stream_child_lines logging logs_only_reflp logs_only_transp)

lemma logging_realise [logging]: "keeps logs_only (realise (nixc E) (nixp E) deadline drv mode again wire_log_sink)"
  unfolding realise_def query_outputs_def run_command_def command_output_def by (auto intro!: logging)

lemma reports_wire_log_sink: "reports wire_log_sink tx nix_log_message"
  by (auto simp: reports_def wire_log_sink_def send_message_def ticked_def split: fault.splits)

lemma disk_keeps_tx: "on_disk w w' \<Longrightarrow> tx w' = tx w"
  by (simp add: on_disk_def)

lemma disk_query_outputs: "keeps on_disk (query_outputs (nixc E) p)"
  unfolding query_outputs_def run_command_def command_output_def by (auto intro!: disk)

text \<open>What the log of a finished build is: the lines of both streams of the child, interleaved.\<close>

definition log_of_child :: "child \<Rightarrow> string list \<Rightarrow> bool" where
  "log_of_child c logs \<longleftrightarrow>
    (\<exists>los les. child_stdout c = map Inr los \<and> child_stderr c = map Inr les \<and> logs \<in> shuffles los les)"

lemma realise_log:
  assumes "realise (nixc E) (nixp E) deadline drv mode again wire_log_sink w = (Inr r, w')"
  shows "\<exists>c logs. fst (spawn_realise (nixp E) (realise_args mode again @ [as_str drv]) w) = Ok c
    \<and> tx w' = tx w @ map nix_log_message logs \<and> log_of_child c logs
    \<and> child_status c = Ok (realise_success r)"
proof -
  let ?spawn = "context_s ''run nix-store --realise'' (spawn_realise (nixp E) (realise_args mode again @ [as_str drv]))"
  from assms obtain c w1 w2 u where c: "?spawn w = (Ok c, w1)"
    and lines: "stream_child_lines wire_log_sink (deadline_turns deadline c) (child_schedule c)
              (child_stdout c) (child_stderr c) False False w1 = (Ok u, w2)"
    and rest: "(if deadline_turns deadline c \<noteq> None then lift_r (Err timed_out)
        else bind_s (lift_r (with_context ''wait for nix-store --realise'' (child_status c))) (\<lambda>success.
          if success then bind_s (query_outputs (nixc E) drv) (\<lambda>output_paths.
            ret \<lparr>realise_success = True, realise_output_paths = output_paths\<rparr>)
          else ret \<lparr>realise_success = False, realise_output_paths = []\<rparr>)) w2 = (Inr r, w')"
    unfolding realise_def bind_s_Ok_iff by blast
  have "keeps on_disk ?spawn" by (simp add: nixp_def lift_children_def disk)
  then have "on_disk w w1" using c by (rule keepsD)
  then have tx1: "tx w1 = tx w" by (rule disk_keeps_tx)
  have "keeps on_disk (if deadline_turns deadline c \<noteq> None then lift_r (Err timed_out)
        else bind_s (lift_r (with_context ''wait for nix-store --realise'' (child_status c))) (\<lambda>success.
          if success then bind_s (query_outputs (nixc E) drv) (\<lambda>output_paths.
            ret \<lparr>realise_success = True, realise_output_paths = output_paths\<rparr>)
          else ret \<lparr>realise_success = False, realise_output_paths = []\<rparr>))"
    by (auto intro!: disk disk_query_outputs)
  then have "on_disk w2 w'" using rest by (rule keepsD)
  then have tx2: "tx w' = tx w2" by (rule disk_keeps_tx)
  from stream_child_lines_shuffle [OF lines _ _ reports_wire_log_sink] obtain los les ls where
    "child_stdout c = map Inr los" "child_stderr c = map Inr les" "ls \<in> shuffles los les"
    "tx w2 = tx w1 @ map nix_log_message ls" by auto
  moreover have "child_status c = Ok (realise_success r)"
    using rest by (auto simp: bind_s_Ok_iff split: if_splits)
  moreover have "fst (spawn_realise (nixp E) (realise_args mode again @ [as_str drv]) w) = Ok c"
    using c by (auto simp: context_s_def split: prod.splits)
  ultimately show ?thesis using tx1 tx2 unfolding log_of_child_def by (intro exI [of _ c] exI [of _ ls]) auto
qed

lemma send_frame:
  assumes "send_message m (w :: 'n srv_world) = (r, w')"
  shows "off_board w w' \<and> rx w' = rx w \<and> files w' = files w \<and> sys_state w' = sys_state w"
  using assms by (auto simp: send_message_def ticked_def off_board_def split: fault.splits)

text \<open>
  What a build tells its client. If it ends without error, the client has been told that it
  started, the complete log, and the result: a success exactly if the child succeeded, with
  exactly the outputs that were asked for, all of them among the outputs of the derivation. An error is
  never preceded by a result.
\<close>

text \<open>
  C5: A build that ends without error has told its client that it started, the complete log, and
  the result: a success exactly if the child succeeded, with exactly the requested outputs, all
  of them outputs of the derivation. An error is never preceded by a result.
\<close>

theorem build_reports_its_log_and_outputs:
  "case run_build E drv mode again deadline requested w of
     (Inl e, w') \<Rightarrow>
       registry w' = registry w
       \<and> (tx w' = tx w \<or> (\<exists>logs. tx w' = tx w @ BuildStarted # map nix_log_message logs))
   | (Inr fb, w') \<Rightarrow>
       registry w' = registry w
       \<and> (\<exists>logs. tx w' = tx w @ BuildStarted # map nix_log_message logs
             @ [BuildFinished \<lparr>success = fb_success fb, finished_output_paths = map as_str (fb_output_paths fb)\<rparr>]
           \<and> (\<exists>w1 w2 c r. fst (spawn_realise (nixp E) (realise_args mode again @ [as_str drv]) w1) = Ok c
                \<and> log_of_child c logs \<and> child_status c = Ok (fb_success fb)
                \<and> realise (nixc E) (nixp E) deadline drv mode again wire_log_sink w1 = (Ok r, w2)
                \<and> set (fb_output_paths fb) \<subseteq> set (realise_output_paths r)
                \<and> fb_output_paths fb = (if fb_success fb then requested else [])))"
proof (cases "run_build E drv mode again deadline requested w")
  case (Pair res w')
  obtain r1 w1 where s1: "send_message BuildStarted w = (r1, w1)" by fastforce
  note f1 = send_frame [OF s1] send_message_cases [OF s1]
  show ?thesis
  proof (cases r1)
    case (Inl e)
    with Pair s1 have "res = Inl e" "w' = w1" by (simp_all add: run_build_def bind_s_def)
    with Pair Inl f1 show ?thesis by (auto simp: off_board_def)
  next
    case Inr1: (Inr u)
    obtain r2 w2 where rl: "realise (nixc E) (nixp E) deadline drv mode again wire_log_sink w1 = (r2, w2)" by fastforce
    have lo: "logs_only w1 w2" using logging_realise rl by (rule keepsD)
    then obtain ls where ls: "tx w2 = tx w1 @ map nix_log_message ls" by (auto simp: logs_only_def)
    have reg: "registry w2 = registry w" using lo f1 by (auto simp: logs_only_def off_board_def)
    show ?thesis
    proof (cases r2)
      case (Inl e)
      with Pair s1 Inr1 rl have "res = Inl e" "w' = w2" by (simp_all add: run_build_def bind_s_def)
      with Pair f1 Inr1 reg ls show ?thesis by auto
    next
      case Inr2: (Inr r)
      let ?sel = "if realise_success r then selected_outputs requested (realise_output_paths r) else Ok []"
      show ?thesis
      proof (cases ?sel)
        case (Inl e)
        with Pair s1 Inr1 rl Inr2 have "res = Inl e" "w' = w2" by (simp_all add: run_build_def bind_s_def)
        with Pair f1 Inr1 reg ls show ?thesis by auto
      next
        case sel: (Inr outs)
        let ?m = "BuildFinished \<lparr>success = realise_success r, finished_output_paths = map as_str outs\<rparr>"
        obtain r3 w3 where s3: "send_message ?m w2 = (r3, w3)" by fastforce
        note f3 = send_frame [OF s3] send_message_cases [OF s3]
        show ?thesis
        proof (cases r3)
          case (Inl e)
          with Pair s1 Inr1 rl Inr2 sel s3 have "res = Inl e" "w' = w3" by (simp_all add: run_build_def bind_s_def)
          with Pair Inl f1 Inr1 f3 reg ls show ?thesis by (auto simp: off_board_def)
        next
          case Inr3: (Inr v)
          have fb: "res = Inr \<lparr>fb_success = realise_success r, fb_output_paths = outs\<rparr>" "w' = w3"
            using Pair s1 Inr1 rl Inr2 sel s3 Inr3 by (simp_all add: run_build_def bind_s_def)
          have outs: "set outs \<subseteq> set (realise_output_paths r)" "outs = (if realise_success r then requested else [])"
            using sel by (auto simp: selected_outputs_def selected_loop_Ok split: if_splits)
          from realise_log [OF rl [unfolded Inr2]] obtain c logs where c:
            "fst (spawn_realise (nixp E) (realise_args mode again @ [as_str drv]) w1) = Ok c"
            "tx w2 = tx w1 @ map nix_log_message logs" "log_of_child c logs"
            "child_status c = Ok (realise_success r)" by blast
          have "tx w3 = tx w @ BuildStarted # map nix_log_message logs @ [?m]"
            using f1 f3 Inr1 Inr3 c(2) by simp
          moreover have "registry w3 = registry w" using f3 reg by (simp add: off_board_def)
          moreover have "\<exists>w1 w2 c r'. fst (spawn_realise (nixp E) (realise_args mode again @ [as_str drv]) w1) = Ok c
                \<and> log_of_child c logs \<and> child_status c = Ok (realise_success r)
                \<and> realise (nixc E) (nixp E) deadline drv mode again wire_log_sink w1 = (Ok r', w2)
                \<and> set outs \<subseteq> set (realise_output_paths r')
                \<and> outs = (if realise_success r then requested else [])"
            using c(1,3,4) outs rl [unfolded Inr2] by blast
          ultimately show ?thesis
            unfolding Pair fb prod.case sum.case finished_build.simps by blast
        qed
      qed
    qed
  qed
qed

end
