(* ===== verification/Server_Connection.thy ===== *)
theory Server_Connection
  imports Server_Build
begin

text \<open>
  \<open>server/connection.rs\<close>: one connection from the greeting to the end of its build. The queue of
  builds is the permit the connection waits for; \<open>env_queue_open\<close> says whether it is handed out.
\<close>

section \<open>The greeting\<close>

definition check_hello :: "'id endpoint_text \<Rightarrow> 'id \<Rightarrow> hello \<Rightarrow> unit result" where
  "check_hello I peer h =
    (if hello_version h \<noteq> VERSION then bail (''unsupported protocol version: '' @ show_word (hello_version h))
     else
       bind_r (with_context (''parse hello node id: '' @ node_id h) (parse_id I (node_id h))) (\<lambda>claimed.
       if claimed \<noteq> peer then
         bail (''hello node id '' @ show_id I claimed @ '' does not match connection peer '' @ show_id I peer)
       else Ok ()))"

definition read_hello :: "('id, 'addr, 'n) server_env \<Rightarrow> 'id \<Rightarrow> ('n srv_world, unit) step" where
  "read_hello E peer =
    bind_s read_message (\<lambda>message.
      case message of
        Hello h \<Rightarrow> lift_r (check_hello (ids (env_tickets E)) peer h)
      | _ \<Rightarrow> lift_r (bail (''expected hello, got '' @ debug_message (env_debug E) message)))"

section \<open>The build\<close>

definition finish_control :: "('n srv_world, unit) step" where
  "finish_control = finish_stream"

text \<open>\<open>read_checked_build\<close> only passes its arguments on.\<close>

definition read_build_or_report ::
  "('id, 'addr, 'n) server_env \<Rightarrow> ('n srv_world, checked_build_request option) step" where
  "read_build_or_report E =
    bind_s recv_timed (\<lambda>message.
      case message of
        BuildRequest request \<Rightarrow>
          match_s (read_checked_build_request E request) (\<lambda>r.
            case r of
              Inr build \<Rightarrow> ret (Some build)
            | Inl err \<Rightarrow>
                bind_s (send_error (err_text err)) (\<lambda>_.
                bind_s finish_control (\<lambda>_. ret None)))
      | _ \<Rightarrow> lift_r (bail (''expected build request, got '' @ debug_message (env_debug E) message)))"

definition finish_status ::
  "('id, 'addr, 'n) server_env \<Rightarrow> string \<Rightarrow> build_result \<Rightarrow> string option \<Rightarrow> ('n srv_world, unit) step" where
  "finish_status E request_id result err w =
    (Ok (), on_registry (\<lambda>st. status_finish (env_status E) request_id result err st) w)"

definition start_status :: "('id, 'addr, 'n) server_env \<Rightarrow> string \<Rightarrow> ('n srv_world, unit) step" where
  "start_status E request_id w =
    (Ok (), on_registry (\<lambda>st. status_start (env_status E) request_id st) w)"

definition enqueue_build ::
  "('id, 'addr, 'n) server_env \<Rightarrow> string \<Rightarrow> string \<Rightarrow> ('n srv_world, string) step" where
  "enqueue_build E label inst w =
    (case status_enqueue (env_status E) label inst (registry w) w of
       (request_id, st, w') \<Rightarrow> (Ok request_id, w'\<lparr>registry := st\<rparr>))"

definition send_build_queued :: "('id, 'addr, 'n) server_env \<Rightarrow> string \<Rightarrow> ('n srv_world, unit) step" where
  "send_build_queued E request_id =
    match_s (send_message BuildQueued) (\<lambda>r.
      case r of
        Inl err \<Rightarrow> bind_s (finish_status E request_id Build_Error (Some (err_text err))) (\<lambda>_. lift_r (Inl err))
      | Inr _ \<Rightarrow> ret ())"

datatype run_outcome = Queue_Closed | Build_Ended "bool result"

definition run_when_permitted ::
  "('id, 'addr, 'n) server_env \<Rightarrow> string \<Rightarrow> checked_build_request \<Rightarrow> authorized_connection \<Rightarrow>
     ('n srv_world, run_outcome) step" where
  "run_when_permitted E request_id build authorized =
    (if \<not> env_queue_open E then
       bind_s (finish_status E request_id Build_Error (Some ''build queue is closed'')) (\<lambda>_.
       bind_s (send_error ''build queue is closed'') (\<lambda>_.
       bind_s finish_control (\<lambda>_. ret Queue_Closed)))
     else
       bind_s (start_status E request_id) (\<lambda>_.
       match_s (run_queued_build E build authorized request_id) (\<lambda>r. ret (Build_Ended r))))"

definition record_build_result ::
  "('id, 'addr, 'n) server_env \<Rightarrow> string \<Rightarrow> bool result \<Rightarrow> ('n srv_world, unit) step" where
  "record_build_result E request_id result =
    (case result of
       Inr True \<Rightarrow> finish_status E request_id Success None
     | Inr False \<Rightarrow> finish_status E request_id Failed (Some ''nix build failed'')
     | Inl err \<Rightarrow>
         bind_s (finish_status E request_id Build_Error (Some (err_text err))) (\<lambda>_. send_error (err_text err)))"

text \<open>From the queue to the end.\<close>

definition queue_and_run ::
  "('id, 'addr, 'n) server_env \<Rightarrow> checked_build_request \<Rightarrow> authorized_connection \<Rightarrow> ('n srv_world, unit) step" where
  "queue_and_run E build authorized =
    bind_s (enqueue_build E (client_label authorized) (cb_installable build)) (\<lambda>request_id.
    bind_s (send_build_queued E request_id) (\<lambda>_.
    bind_s (run_when_permitted E request_id build authorized) (\<lambda>run_outcome.
    case run_outcome of
      Queue_Closed \<Rightarrow> ret ()
    | Build_Ended build_result \<Rightarrow>
        bind_s (record_build_result E request_id build_result) (\<lambda>_. finish_control))))"

definition serve_request ::
  "('id, 'addr, 'n) server_env \<Rightarrow> 'id \<Rightarrow> authorized_connection \<Rightarrow> checked_build_request \<Rightarrow> ('n srv_world, unit) step" where
  "serve_request E peer authorized build =
    bind_s (redeem_ticket_if_needed E authorized peer) (\<lambda>redeemed.
    case redeemed of
      None \<Rightarrow> finish_control
    | Some authorized \<Rightarrow> queue_and_run E build authorized)"

definition serve_authorized ::
  "('id, 'addr, 'n) server_env \<Rightarrow> 'id \<Rightarrow> authorized_connection \<Rightarrow> ('n srv_world, unit) step" where
  "serve_authorized E peer authorized =
    bind_s (read_build_or_report E) (\<lambda>build.
    case build of
      None \<Rightarrow> ret ()
    | Some build \<Rightarrow> serve_request E peer authorized build)"

definition handle_incoming :: "('id, 'addr, 'n) server_env \<Rightarrow> 'id \<Rightarrow> ('n srv_world, unit) step" where
  "handle_incoming E peer =
    bind_s (io_call ''accept_bi'') (\<lambda>_.
    bind_s (read_hello E peer) (\<lambda>_.
    bind_s (authorize_connection E peer) (\<lambda>authorized.
    case authorized of
      None \<Rightarrow> finish_control
    | Some authorized \<Rightarrow> serve_authorized E peer authorized)))"

section \<open>Nothing happens without admission\<close>

lemma talks_accept [talks]: "keeps only_talks (io_call c)"
  by (auto simp: keeps_def io_call_def only_talks_def ticked_def split: fault.splits)

lemma talks_request [talks]: "keeps only_talks (read_checked_build_request E q)"
  unfolding read_checked_build_request_def
  by (intro talks keeps_read_with_timeout only_talks_reflp only_talks_transp)

lemma talks_finish [talks]: "keeps only_talks finish_control"
  by (simp add: finish_control_def talks)

lemma talks_hello [talks]: "keeps only_talks (read_hello E peer)"
  unfolding read_hello_def by (auto intro!: talks split: message.splits)

lemma talks_build [talks]: "keeps only_talks (read_build_or_report E)"
  unfolding read_build_or_report_def by (auto intro!: talks split: message.splits sum.splits)

lemma read_hello_Ok:
  assumes "read_hello E peer w = (Inr u, w')"
  shows "\<exists>h. rx w = Inr (Hello h) # rx w' \<and> check_hello (ids (env_tickets E)) peer h = Ok ()"
proof -
  from assms obtain m w1 where m: "recv_timed w = (Inr m, w1)"
    and rest: "(case m of Hello h \<Rightarrow> lift_r (check_hello (ids (env_tickets E)) peer h)
      | _ \<Rightarrow> lift_r (bail (''expected hello, got '' @ debug_message (env_debug E) m))) w1 = (Inr u, w')"
    unfolding read_hello_def read_message_def bind_s_Ok_iff by blast
  from rest obtain h where "m = Hello h" "check_hello (ids (env_tickets E)) peer h = Ok ()" "w' = w1"
    by (cases m) auto
  with recv_timed_cases [OF m] show ?thesis by auto
qed

lemma read_build_Ok:
  assumes "read_build_or_report E w = (Inr (Some b), w')"
  shows "\<exists>q rest closure. rx w = Inr (BuildRequest q) # rest \<and> check_build_request q closure = Ok b"
proof -
  from assms obtain m w1 where m: "recv_timed w = (Inr m, w1)"
    and rest: "(case m of BuildRequest request \<Rightarrow>
          match_s (read_checked_build_request E request) (\<lambda>r.
            case r of
              Inr build \<Rightarrow> ret (Some build)
            | Inl err \<Rightarrow>
                bind_s (send_error (err_text err)) (\<lambda>_.
                bind_s finish_control (\<lambda>_. ret None)))
      | _ \<Rightarrow> lift_r (bail (''expected build request, got '' @ debug_message (env_debug E) m))) w1 = (Inr (Some b), w')"
    unfolding read_build_or_report_def bind_s_Ok_iff by blast
  from rest obtain q where q: "m = BuildRequest q" by (cases m) auto
  obtain r w2 where r: "read_checked_build_request E q w1 = (r, w2)" by fastforce
  have "r = Inr b"
    using rest q r by (cases r) (auto simp: match_s_def bind_s_def split: prod.splits sum.splits)
  with r obtain closure where "check_build_request q closure = Ok b"
    by (auto simp: read_checked_build_request_def bind_s_Ok_iff)
  with q recv_timed_cases [OF m] show ?thesis by auto
qed

text \<open>A connection that greeted with its own id, was authorized, and sent a good request.\<close>

definition admitted ::
  "('id, 'addr, 'n) server_env \<Rightarrow> 'id \<Rightarrow> 'n srv_world \<Rightarrow> authorized_connection \<Rightarrow> checked_build_request \<Rightarrow> bool" where
  "admitted E peer w a b \<longleftrightarrow>
    (\<exists>h auth q rest closure.
      rx w = Inr (Hello h) # Inr auth # Inr (BuildRequest q) # rest
      \<and> check_hello (ids (env_tickets E)) peer h = Ok ()
      \<and> (auth = AuthTrustedClient \<and> trusted_grant E peer a
         \<or> (\<exists>t. auth = AuthTicket t \<and> ticket_grant E peer (auth_secret t) w a))
      \<and> check_build_request q closure = Ok b)"

lemma ticket_grant_talks: "only_talks w w1 \<Longrightarrow> ticket_grant E peer secret w1 a = ticket_grant E peer secret w a"
  by (simp add: ticket_grant_def stored_def only_talks_def)

text \<open>
  Either a connection ends in the steps before the request is served, or it is admitted and the
  request is served from a state those steps lead to.
\<close>

lemma incoming_cases:
  assumes run: "handle_incoming E peer w = (r, w')"
    and R: "reflp R" "transp R" "keeps R (io_call ''accept_bi'')" "keeps R (read_hello E peer)"
      "keeps R (authorize_connection E peer)" "keeps R (read_build_or_report E)" "keeps R finish_control"
  shows "R w w' \<or> (\<exists>a b w3. admitted E peer w a b \<and> R w w3 \<and> serve_request E peer a b w3 = (r, w'))"
proof -
  note trans = transpD [OF R(2)]
  obtain r0 w0 where r0: "io_call ''accept_bi'' w = (r0, w0)" by fastforce
  have t0: "R w w0" using R(3) r0 by (rule keepsD)
  have o0: "only_talks w w0" using talks_accept r0 by (rule keepsD)
  have rx0: "rx w0 = rx w" using r0 by (auto simp: io_call_def ticked_def split: fault.splits)
  obtain r1 w1 where r1: "read_hello E peer w0 = (r1, w1)" by fastforce
  have "R w0 w1" using R(4) r1 by (rule keepsD)
  with t0 have t1: "R w w1" by (rule trans)
  have "only_talks w0 w1" using talks_hello r1 by (rule keepsD)
  with o0 have o1: "only_talks w w1" by (rule only_talks_trans)
  obtain r2 w2 where r2: "authorize_connection E peer w1 = (r2, w2)" by fastforce
  have "R w1 w2" using R(5) r2 by (rule keepsD)
  with t1 have t2: "R w w2" by (rule trans)
  show ?thesis
  proof (cases "is_ok r0 \<and> is_ok r1 \<and> (\<exists>a. r2 = Inr (Some a))")
    case False
    obtain r3 w3 where f: "finish_control w2 = (r3, w3)" by fastforce
    have "R w2 w3" using R(7) f by (rule keepsD)
    with t2 have t3: "R w w3" by (rule trans)
    have "(\<exists>e. r2 = Inl e) \<or> r2 = Inr None \<or> (\<exists>a. r2 = Inr (Some a))"
      by (metis sum.exhaust option.exhaust)
    with False have "(\<exists>e. r0 = Inl e) \<or> (\<exists>u e. r0 = Inr u \<and> r1 = Inl e)
      \<or> (\<exists>u v e. r0 = Inr u \<and> r1 = Inr v \<and> r2 = Inl e) \<or> (\<exists>u v. r0 = Inr u \<and> r1 = Inr v \<and> r2 = Inr None)"
      by (cases r0; cases r1) auto
    then have "w' = w0 \<or> w' = w1 \<or> w' = w2 \<or> w' = w3"
      using run r0 r1 r2 f by (elim disjE exE conjE) (simp_all add: handle_incoming_def serve_authorized_def bind_s_def)
    with t0 t1 t2 t3 show ?thesis by blast
  next
    case True
    then obtain u v a where ok: "r0 = Inr u" "r1 = Inr v" "r2 = Inr (Some a)" by (auto simp: is_ok_iff)
    obtain r3 w3 where r3: "read_build_or_report E w2 = (r3, w3)" by fastforce
    have "R w2 w3" using R(6) r3 by (rule keepsD)
    with t2 have t3: "R w w3" by (rule trans)
    show ?thesis
    proof (cases "\<exists>b. r3 = Inr (Some b)")
      case False
      then have "w' = w3"
        using run r0 r1 r2 r3 ok
        by (cases r3) (auto simp: handle_incoming_def serve_authorized_def bind_s_def split: option.splits)
      with t3 show ?thesis by blast
    next
      case True
      then obtain b where b: "r3 = Inr (Some b)" by blast
      from read_hello_Ok [OF r1 [unfolded ok(2)]] obtain h where
        h: "rx w0 = Inr (Hello h) # rx w1" "check_hello (ids (env_tickets E)) peer h = Ok ()" by blast
      from authorize_connection_cases [OF r2] ok(3) obtain auth where
        auth: "rx w1 = Inr auth # rx w2" "auth = AuthTrustedClient \<and> trusted_grant E peer a
           \<or> (\<exists>t. auth = AuthTicket t \<and> ticket_grant E peer (auth_secret t) w1 a)" by blast
      from read_build_Ok [OF r3 [unfolded b]] obtain q rest closure where
        q: "rx w2 = Inr (BuildRequest q) # rest" "check_build_request q closure = Ok b" by blast
      have "admitted E peer w a b"
        unfolding admitted_def using h auth q rx0 ticket_grant_talks [OF o1] by metis
      moreover have "serve_request E peer a b w3 = (r, w')"
        using run r0 r1 r2 r3 ok b by (simp add: handle_incoming_def serve_authorized_def bind_s_def)
      ultimately show ?thesis using t3 by blast
    qed
  qed
qed

text \<open>
  Unless a connection is admitted, handling it changes no file, no build of the status board and
  nothing of the system: no ticket is spent, no command run, no upload accepted.
\<close>

text \<open>
  C2: Unless a connection greets with its own id and the right version, is authorized and sends
  a well-formed request, handling it changes no file, no build on the status board and nothing
  of the system: no ticket is spent, no command is run and no upload is accepted.
\<close>

theorem nothing_happens_without_admission:
  "case handle_incoming E peer w of
     (r, w') \<Rightarrow>
       (files w' = files w \<and> registry w' = registry w \<and> sys_state w' = sys_state w
          \<and> uploads w' = uploads w \<and> served w' = served w)
       \<or> (\<exists>a b. admitted E peer w a b)"
proof -
  obtain r w' where run: "handle_incoming E peer w = (r, w')" by fastforce
  from incoming_cases [OF run only_talks_reflp only_talks_transp talks_accept talks_hello
      authorize_connection_talks talks_build talks_finish]
  show ?thesis using run by (auto simp: only_talks_def)
qed

section \<open>The board during a build\<close>

lemma with_status_update_frame: "only_files (\<lambda>_. True) w (snd (snd (with_status_update E upd st w)))"
proof -
  obtain r w1 where c: "read_clock w = (r, w1)" by fastforce
  have k: "keeps (only_files (\<lambda>_. True)) read_clock" by (rule frame)
  have o1: "only_files (\<lambda>_. True) w w1" using k c by (rule keepsD)
  show ?thesis
  proof (cases r)
    case (Inl e)
    with c o1 show ?thesis by (simp add: with_status_update_def)
  next
    case (Inr now)
    obtain x st1 where u: "upd st now = (x, st1)" by fastforce
    obtain r2 w2 where wr: "write_atomic (status_pid E) (status_json E) (status_file E)
      (snapshot (refreshed st1 now)) ''encode status JSON'' w1 = (r2, w2)" by fastforce
    from write_atomic_inner_split [OF wr [unfolded write_atomic_def]]
    have "only_files (\<lambda>_. True) w1 w2" by (auto simp: only_files_def)
    with o1 have "only_files (\<lambda>_. True) w w2" by (rule only_files_trans)
    with c Inr u wr show ?thesis by (simp add: with_status_update_def Let_def split: sum.splits)
  qed
qed

lemma with_status_update_clock: "clock (snd (snd (with_status_update E upd st w))) = clock w"
  using with_status_update_frame [of w E upd st] by (simp add: only_files_def)

lemma on_registry_update:
  fixes w :: "'n srv_world"
  assumes "\<And>st (v :: 'n srv_world). f st v = snd (with_status_update E upd st v)"
  shows "clock (on_registry f w) = clock w
    \<and> registry (on_registry f w) = (case clock w (ticks w) of None \<Rightarrow> registry w
         | Some now \<Rightarrow> refreshed (snd (upd (registry w) now)) now)"
proof -
  obtain st w1 where s: "snd (with_status_update E upd (registry w) w) = (st, w1)" by fastforce
  have "clock w1 = clock w" using with_status_update_clock [of E upd "registry w" w] s by simp
  with s assms with_status_update_cases [of E upd "registry w" w] show ?thesis
    by (auto simp: on_registry_def split: option.splits)
qed

text \<open>
  What happens on the board while the build with id \<open>i\<close> is handled: only its own entry may move.
\<close>

definition on_build :: "string \<Rightarrow> 'n srv_world \<Rightarrow> 'n srv_world \<Rightarrow> bool" where
  "on_build i w w' \<longleftrightarrow>
    clock w' = clock w
    \<and> (status_inv (registry w) \<longrightarrow>
        status_inv (registry w')
        \<and> (\<forall>j. (j \<noteq> i \<or> stage_of (registry w) i = None) \<longrightarrow> stage_of (registry w') j = stage_of (registry w) j))"

lemma on_build_reflp [simp]: "reflp (on_build i)"
  by (simp add: reflp_def on_build_def)

lemma on_build_trans: "on_build i u v \<Longrightarrow> on_build i v w \<Longrightarrow> on_build i u w"
  unfolding on_build_def by metis

lemma on_build_transp [simp]: "transp (on_build i)"
  by (meson on_build_trans transpI)

lemma off_board_on_build: "keeps off_board m \<Longrightarrow> keeps (on_build i) m"
  unfolding keeps_def off_board_def on_build_def by metis

named_theorems building

lemma building_combine [building]:
  "keeps (on_build i) (ret x)" "keeps (on_build i) (lift_r r)"
  "keeps (on_build i) m \<Longrightarrow> (\<And>x. keeps (on_build i) (f x)) \<Longrightarrow> keeps (on_build i) (bind_s m f)"
  "keeps (on_build i) m \<Longrightarrow> (\<And>x. keeps (on_build i) (h x)) \<Longrightarrow> keeps (on_build i) (match_s m h)"
  by (simp_all add: keeps_ret keeps_lift_r keeps_bind_s keeps_match_s)

lemma building_phase [building]: "keeps (on_build i) (enter_phase E i p)"
proof (rule keepsI)
  fix w r t
  assume "enter_phase E i p w = (r, t)"
  then have t: "t = on_registry (\<lambda>st. status_phase (env_status E) i p st) w" by (simp add: enter_phase_def)
  note u = on_registry_update [of "\<lambda>st. status_phase (env_status E) i p st" "env_status E" "phase_update i p" w,
      OF status_phase_def]
  show "on_build i w t"
    unfolding on_build_def t using u phase_update_stage [of "registry w" i p]
    by (auto split: option.splits stage.splits)
qed

lemma building_start [building]: "keeps (on_build i) (start_status E i)"
proof (rule keepsI)
  fix w r t
  assume "start_status E i w = (r, t)"
  then have t: "t = on_registry (\<lambda>st. status_start (env_status E) i st) w" by (simp add: start_status_def)
  note u = on_registry_update [of "\<lambda>st. status_start (env_status E) i st" "env_status E" "start_update i" w,
      OF status_start_def]
  show "on_build i w t"
    unfolding on_build_def t using u start_update_stage [of "registry w" i]
    by (auto split: option.splits)
qed

lemma aside_run_build: "keeps off_board (run_build E drv mode again deadline requested)"
proof -
  have "keeps off_board (realise (nixc E) (nixp E) deadline drv mode again wire_log_sink)"
    using logging_realise unfolding keeps_def logs_only_def by blast
  then show ?thesis unfolding run_build_def by (auto intro!: aside)
qed

lemma aside_import [aside]: "keeps off_board (import_missing_inputs E missing limit)"
proof (rule keeps_import_missing_inputs)
  show "keeps off_board accept_upload"
    by (auto simp: keeps_def accept_upload_def off_board_def ticked_def split: fault.splits list.splits)
qed (simp_all add: nixp_def lift_children_def aside, simp add: off_board_def ticked_def)

lemma building_aside [building]:
  "keeps (on_build i) (missing_paths (nixc E) ps)" "keeps (on_build i) (write_paths chunks mk)"
  "keeps (on_build i) (import_missing_inputs E missing limit)" "keeps (on_build i) (export_outputs E outs)"
  "keeps (on_build i) (send_message m)" "keeps (on_build i) (send_error t)"
  "keeps (on_build i) finish_stream"
  by (rule off_board_on_build, rule aside)+

lemma building_run [building]: "keeps (on_build i) (run_queued_build E b a i)"
  unfolding run_queued_build_def
  by (auto intro!: building off_board_on_build [OF aside_run_build])

section \<open>The end of a build\<close>

definition readable :: "'z io_world_scheme \<Rightarrow> bool" where
  "readable w \<longleftrightarrow> (\<forall>n. clock w n \<noteq> None)"

definition build_over :: "string \<Rightarrow> 'n srv_world \<Rightarrow> 'n srv_world \<Rightarrow> bool" where
  "build_over i w w' \<longleftrightarrow>
    clock w' = clock w
    \<and> (status_inv (registry w) \<longrightarrow>
        status_inv (registry w') \<and> stage_of (registry w') = (stage_of (registry w))(i := None))"

lemma ended_before: "on_build i u v \<Longrightarrow> build_over i v w \<Longrightarrow> build_over i u w"
  unfolding on_build_def build_over_def by (auto simp: fun_eq_iff)

lemma ended_after: "build_over i u v \<Longrightarrow> off_board v w \<Longrightarrow> build_over i u w"
  by (simp add: build_over_def off_board_def)

lemma off_board_ended: "off_board u v \<Longrightarrow> build_over i v w \<Longrightarrow> build_over i u w"
  by (simp add: build_over_def off_board_def)

lemma finish_status_ended:
  assumes "readable w" "finish_status E i result err w = (r, w')"
  shows "r = Inr () \<and> build_over i w w'"
proof -
  from assms(2) have t: "w' = on_registry (\<lambda>st. status_finish (env_status E) i result err st) w" "r = Inr ()"
    by (simp_all add: finish_status_def)
  obtain now where now: "clock w (ticks w) = Some now" using assms(1) by (auto simp: readable_def)
  note u = on_registry_update [of "\<lambda>st. status_finish (env_status E) i result err st" "env_status E"
      "finish_update i result err" w, OF status_finish_def]
  show ?thesis
    unfolding build_over_def t(1) using u now t(2) finish_update_stage [of "registry w" i result err now]
    by auto
qed

lemma send_build_queued_cases:
  assumes "readable w" "send_build_queued E i w = (r, w')"
  shows "r = Inr () \<and> off_board w w' \<or> (\<exists>e. r = Inl e) \<and> build_over i w w'"
proof -
  obtain r1 w1 where s: "send_message BuildQueued w = (r1, w1)" by fastforce
  have o1: "off_board w w1" using aside_talk(1) s by (rule keepsD)
  then have rd: "readable w1" using assms(1) by (simp add: readable_def off_board_def)
  show ?thesis
  proof (cases r1)
    case (Inr u)
    with assms(2) s o1 show ?thesis by (simp add: send_build_queued_def match_s_def)
  next
    case (Inl e)
    obtain r2 w2 where f: "finish_status E i Build_Error (Some (err_text e)) w1 = (r2, w2)" by fastforce
    note fs = finish_status_ended [OF rd f]
    with assms(2) s Inl f have "r = Inl e" "w' = w2"
      by (simp_all add: send_build_queued_def match_s_def bind_s_def)
    with fs o1 show ?thesis by (auto intro: off_board_ended)
  qed
qed

lemma run_when_permitted_cases:
  fixes w :: "'n srv_world"
  assumes "readable w" "run_when_permitted E i b a w = (r, w')"
  shows "(\<exists>x. r = Inr (Build_Ended x)) \<and> on_build i w w'
    \<or> (r = Inr Queue_Closed \<or> (\<exists>e. r = Inl e)) \<and> build_over i w w'"
proof (cases "env_queue_open E")
  case True
  have "keeps (on_build i) (bind_s (start_status E i) (\<lambda>_.
       match_s (run_queued_build E b a i) (\<lambda>r. ret (Build_Ended r))))"
    by (intro building)
  moreover from True assms(2) have "bind_s (start_status E i) (\<lambda>_.
       match_s (run_queued_build E b a i) (\<lambda>r. ret (Build_Ended r))) w = (r, w')"
    by (simp add: run_when_permitted_def)
  ultimately have "on_build i w w'" by (rule keepsD)
  moreover have "\<exists>x. r = Inr (Build_Ended x)"
    using True assms(2)
    by (auto simp: run_when_permitted_def bind_s_def match_s_def start_status_def split: prod.splits)
  ultimately show ?thesis by simp
next
  case False
  let ?rest = "bind_s (send_error ''build queue is closed'') (\<lambda>_.
       bind_s finish_control (\<lambda>_. ret Queue_Closed)) :: ('n srv_world, run_outcome) step"
  obtain r1 w1 where f: "finish_status E i Build_Error (Some ''build queue is closed'') w = (r1, w1)" by fastforce
  note fs = finish_status_ended [OF assms(1) f]
  have rest: "?rest w1 = (r, w')"
    using False assms(2) f fs by (simp add: run_when_permitted_def bind_s_def)
  have "keeps off_board ?rest" unfolding finish_control_def by (intro aside)
  then have "off_board w1 w'" using rest by (rule keepsD)
  with fs have "build_over i w w'" by (auto intro: ended_after)
  moreover have "r = Inr Queue_Closed \<or> (\<exists>e. r = Inl e)"
    using rest by (auto simp: bind_s_def split: prod.splits sum.splits)
  ultimately show ?thesis by simp
qed

lemma record_build_result_ended:
  assumes "readable w" "record_build_result E i result w = (r, w')"
  shows "build_over i w w'"
proof (cases result)
  case (Inr ok)
  with assms show ?thesis
    by (cases ok) (auto simp: record_build_result_def dest: finish_status_ended)
next
  case (Inl err)
  obtain r1 w1 where f: "finish_status E i Build_Error (Some (err_text err)) w = (r1, w1)" by fastforce
  note fs = finish_status_ended [OF assms(1) f]
  have "send_error (err_text err) w1 = (r, w')"
    using Inl assms(2) f fs by (simp add: record_build_result_def bind_s_def)
  with aside_talk(5) have "off_board w1 w'" by (rule keepsD)
  with fs show ?thesis by (auto intro: ended_after)
qed

text \<open>Whatever happens after a build was queued under the id \<open>i\<close>, its entry is removed.\<close>

lemma queued_build_ends:
  assumes "readable w"
    and "bind_s (send_build_queued E i) (\<lambda>_.
      bind_s (run_when_permitted E i b a) (\<lambda>run_outcome.
      case run_outcome of
        Queue_Closed \<Rightarrow> ret ()
      | Build_Ended build_result \<Rightarrow>
          bind_s (record_build_result E i build_result) (\<lambda>_. finish_control))) w = (r, w')"
  shows "build_over i w w'"
proof -
  obtain r1 w1 where s: "send_build_queued E i w = (r1, w1)" by fastforce
  from send_build_queued_cases [OF assms(1) s] show ?thesis
  proof (elim disjE conjE exE)
    fix e assume "r1 = Inl e" "build_over i w w1"
    with assms(2) s show ?thesis by (simp add: bind_s_def)
  next
    assume r1: "r1 = Inr ()" and o1: "off_board w w1"
    obtain r2 w2 where p: "run_when_permitted E i b a w1 = (r2, w2)" by fastforce
    have rd1: "readable w1" using o1 assms(1) by (simp add: readable_def off_board_def)
    from run_when_permitted_cases [OF rd1 p] show ?thesis
    proof (elim disjE conjE exE)
      fix x assume r2: "r2 = Inr (Build_Ended x)" and o2: "on_build i w1 w2"
      obtain r3 w3 where d: "record_build_result E i x w2 = (r3, w3)" by fastforce
      have "readable w2" using o2 rd1 by (simp add: readable_def on_build_def)
      from record_build_result_ended [OF this d] o2 have "build_over i w1 w3" by (rule ended_before [rotated])
      with o1 have e: "build_over i w w3" by (rule off_board_ended)
      show ?thesis
      proof (cases r3)
        case (Inl err)
        with assms(2) s r1 p r2 d e show ?thesis by (simp add: bind_s_def)
      next
        case (Inr u)
        with assms(2) s r1 p r2 d have "finish_stream w3 = (r, w')" by (simp add: bind_s_def finish_control_def)
        with aside_talk(4) have "off_board w3 w'" by (rule keepsD)
        with e show ?thesis by (rule ended_after)
      qed
    next
      assume "r2 = Inr Queue_Closed" "build_over i w1 w2"
      with assms(2) s r1 p o1 show ?thesis by (auto simp: bind_s_def intro: off_board_ended)
    next
      fix e assume "r2 = Inl e" "build_over i w1 w2"
      with assms(2) s r1 p o1 show ?thesis by (auto simp: bind_s_def intro: off_board_ended)
    qed
  qed
qed

lemma enqueue_build_board:
  fixes w :: "'n srv_world"
  assumes "status_inv (registry w)" "status_room (registry w)" "readable w"
    and "enqueue_build E label inst w = (r, w')"
  shows "clock w' = clock w \<and> status_inv (registry w')
    \<and> (\<exists>k. stage_of (registry w) (build_id k) = None
         \<and> stage_of (registry w') = (stage_of (registry w))(build_id k \<mapsto> Waiting)
         \<and> (r = Inr (build_id k)
            \<or> r = Inr ''build-unknown''
              \<and> fst (status_enqueue (env_status E) label inst (registry w) w) = ''build-unknown''))"
proof -
  obtain now where now: "clock w (ticks w) = Some now" using assms(3) by (auto simp: readable_def)
  obtain i t where t: "enqueue_update label inst (registry w) now = (i, t)" by fastforce
  note eq = enqueue_update_eq [OF assms(2) t] and stg = enqueue_update_stage [OF assms(1,2) t]
  obtain id st v where q: "with_status_update (env_status E) (enqueue_update label inst) (registry w) w = (id, st, v)"
    by (metis prod.collapse)
  have st: "st = refreshed t now"
    using with_status_update_cases [of "env_status E" "enqueue_update label inst" "registry w" w] q now t by auto
  have v: "clock v = clock w"
    using with_status_update_clock [of "env_status E" "enqueue_update label inst" "registry w" w] q by simp
  have id: "id = None \<or> id = Some i"
    using q t now by (auto simp: with_status_update_def read_clock_def Let_def split: prod.splits sum.splits)
  have r: "w' = v\<lparr>registry := st\<rparr>"
    "r = Inr (case id of Some request_id \<Rightarrow> request_id | None \<Rightarrow> ''build-unknown'')"
    using assms(4) q by (auto simp: enqueue_build_def status_enqueue_def split: option.splits)
  have "id = None \<Longrightarrow> fst (status_enqueue (env_status E) label inst (registry w) w) = ''build-unknown''"
    using q by (simp add: status_enqueue_def)
  with id r st v eq stg show ?thesis by auto
qed

definition board_kept :: "('id, 'addr, 'n) server_env \<Rightarrow> 'n srv_world \<Rightarrow> 'n srv_world \<Rightarrow> bool" where
  "board_kept E w w' \<longleftrightarrow>
    status_inv (registry w')
    \<and> (stage_of (registry w') = stage_of (registry w)
       \<or> (\<exists>k label inst v. stage_of (registry w') = (stage_of (registry w))(build_id k \<mapsto> Waiting)
            \<and> registry v = registry w
            \<and> fst (status_enqueue (env_status E) label inst (registry w) (v :: 'n srv_world)) = ''build-unknown''))"

lemma queue_and_run_board:
  assumes v: "status_inv (registry v)" "status_room (registry v)" "readable v"
    and q: "queue_and_run E b a v = (r', v')"
  shows "board_kept E v v'"
proof -
  obtain r1 v1 where e: "enqueue_build E (client_label a) (cb_installable b) v = (r1, v1)" by fastforce
  from enqueue_build_board [OF v e] obtain k where k: "clock v1 = clock v" "status_inv (registry v1)"
    "stage_of (registry v) (build_id k) = None"
    "stage_of (registry v1) = (stage_of (registry v))(build_id k \<mapsto> Waiting)"
    and r1: "r1 = Inr (build_id k) \<or> r1 = Inr ''build-unknown''
      \<and> fst (status_enqueue (env_status E) (client_label a) (cb_installable b) (registry v) v) = ''build-unknown''"
    by blast
  obtain i where i: "r1 = Inr i" using r1 by blast
  have "readable v1" using v(3) k(1) by (simp add: readable_def)
  moreover have "bind_s (send_build_queued E i) (\<lambda>_.
    bind_s (run_when_permitted E i b a) (\<lambda>run_outcome.
    case run_outcome of
      Queue_Closed \<Rightarrow> ret ()
    | Build_Ended build_result \<Rightarrow>
        bind_s (record_build_result E i build_result) (\<lambda>_. finish_control))) v1 = (r', v')"
    using q e i by (simp add: queue_and_run_def bind_s_def)
  ultimately have "build_over i v1 v'" by (rule queued_build_ends)
  then have v': "status_inv (registry v')" "stage_of (registry v') = (stage_of (registry v1))(i := None)"
    using k(2) by (simp_all add: build_over_def)
  show ?thesis
  proof (cases "i = build_id k")
    case True
    have "(stage_of (registry v))(build_id k := None) = stage_of (registry v)"
      using k(3) by (auto simp: fun_eq_iff)
    with v' k(4) True show ?thesis by (simp add: board_kept_def)
  next
    case False
    with r1 i have u: "i = ''build-unknown''"
      "fst (status_enqueue (env_status E) (client_label a) (cb_installable b) (registry v) v) = ''build-unknown''"
      by auto
    have ids: "set (live_ids (registry v1)) \<subseteq> build_id ` {1..unat (next_request_seq (registry v1))}"
      using k(2) by (simp add: status_inv_def)
    have "i \<notin> set (live_ids (registry v1))"
    proof
      assume "i \<in> set (live_ids (registry v1))"
      with ids obtain m where "i = build_id m" by blast
      with u(1) build_id_not_unknown [of m] show False by simp
    qed
    then have "stage_of (registry v1) i = None" by (simp add: stage_of_None_iff)
    then have "stage_of (registry v') = (stage_of (registry v))(build_id k \<mapsto> Waiting)"
      using v'(2) k(4) False by (auto simp: fun_eq_iff)
    with v'(1) u(2) show ?thesis unfolding board_kept_def
      by (intro conjI disjI2 exI [of _ k] exI [of _ "client_label a"] exI [of _ "cb_installable b"] exI [of _ v]) simp_all
  qed
qed

lemma disk_ticket_store:
  fixes E :: "('id, 'addr, 'n) server_env"
  shows "keeps on_disk (ticket_redeem (env_tickets E) (env_store E) secret peer :: ('n srv_world, ticket_record) step)"
    "keeps on_disk (ticket_check (env_tickets E) (env_store E) secret peer :: ('n srv_world, ticket_record) step)"
proof -
  show "keeps on_disk (ticket_redeem (env_tickets E) (env_store E) secret peer :: ('n srv_world, ticket_record) step)"
  proof (rule keepsI)
    fix w t :: "'n srv_world" and r
    assume "ticket_redeem (env_tickets E) (env_store E) secret peer w = (r, t)"
    from redeem_outcome [OF this] have "\<exists>P. only_files P w t"
      by (auto simp: installed_def not_installed_def split: option.splits)
    then show "on_disk w t" using only_files_on_disk by blast
  qed
  show "keeps on_disk (ticket_check (env_tickets E) (env_store E) secret peer :: ('n srv_world, ticket_record) step)"
  proof (rule keepsI)
    fix w t :: "'n srv_world" and r
    assume "ticket_check (env_tickets E) (env_store E) secret peer w = (r, t)"
    from check_outcome [OF this] show "on_disk w t" using only_files_on_disk by blast
  qed
qed

lemma aside_redeem: "keeps off_board (redeem_ticket_if_needed (E :: ('id, 'addr, 'n) server_env) a peer)"
  unfolding redeem_ticket_if_needed_def
  by (auto intro!: aside disk_off_board [OF disk_ticket_store(1)] split: option.splits sum.splits)

text \<open>
  A connection that has been handled leaves no build on the status board: every entry it queued
  is removed, whatever fails on the way. The one exception is a failed write of the status file
  when the build is queued: then its entry stays.
\<close>


section \<open>A server at work\<close>

definition demo_children :: "unit sys children" where
  "demo_children =
    (let done_ok = \<lparr>exit_ok = True, exit_text = [], out_bytes = [], err_bytes = []\<rparr> in
     \<lparr>spawn_realise = (\<lambda>args. ret \<lparr>child_stdout = [Ok ''building''], child_stderr = [Ok ''warning''], child_schedule = [False],
          child_status = Ok True, child_duration = 9, turns_within = (\<lambda>d. 0)\<rparr>),
      spawn_export = (\<lambda>args. ret ()), export_stdout = ret ([], None), wait_export = ret done_ok,
      spawn_import = (\<lambda>args. ret ()), import_stdin = (\<lambda>bytes. ret ()), wait_import = ret done_ok,
      kill_import = ret ()\<rparr>)"

text \<open>A store in which nothing is missing and every derivation has one output.\<close>

definition demo_nix :: "unit sys commands" where
  "demo_nix =
    \<lparr>output_of = (\<lambda>program args.
       ret \<lparr>exit_ok = True, exit_text = [],
            out_bytes = (if hd args = ''--check-validity'' then [] else as_str (demo_path ''out'')), err_bytes = []\<rparr>)\<rparr>"

definition demo_server :: "(nat, unit, unit) server_env" where
  "demo_server =
    \<lparr>env_tickets = demo_env, env_store = demo_store,
     env_policy = access_from_endpoint_ids (ids demo_env) [3], env_status = demo_status_env,
     env_commands = demo_nix, env_children = demo_children,
     env_cache = \<lparr>cache_dir = ''/d/cache'', cache_key = \<lparr>key_public = ''k:1'', key_secret_path = ''/d/k''\<rparr>\<rparr>,
     env_debug = (\<lambda>m. []), env_queue_open = True\<rparr>"

text \<open>A trusted client that asks for a build and needs none of its outputs.\<close>

definition demo_request :: "message list" where
  "demo_request =
    [Hello \<lparr>hello_version = 5, node_id = ''3''\<rparr>, AuthTrustedClient,
     BuildRequest \<lparr>installable = ''pkg'', drv_path = as_str (demo_path ''pkg.drv''),
       request_output_paths = [as_str (demo_path ''out'')], output_mode = Plain, rebuild = False\<rparr>,
     BuildPaths \<lparr>chunk_paths = [as_str (demo_path ''pkg.drv'')], chunk_done = True\<rparr>,
     OutputRequest \<lparr>chunk_paths = [], chunk_done = True\<rparr>]"

definition demo_srv_world :: "(nat \<Rightarrow> fault) \<Rightarrow> message list \<Rightarrow> unit srv_world" where
  "demo_srv_world fs msgs =
    \<lparr>files = (\<lambda>p. None), clock = (\<lambda>n. Some 50), faults = fs, ticks = 0, rx = map Inr msgs, tx = [],
     registry = demo_status, uploads = [], serve_events = [], sys_state = (), body_out = [], fin = False,
     allowed_nar = [], served = []\<rparr>"


end
