(* ===== verification/Local_Cache.thy ===== *)
theory Local_Cache
  imports Cache_Path World
begin

text \<open>
  The HTTP side of the client's cache bridge: \<open>read_http_request\<close>, \<open>write_http_head\<close> and
  \<open>write_http_error\<close> of \<open>client_cache/mod.rs\<close> and the request handler of
  \<open>client_cache/local_server.rs\<close>, which serves the mirrored files to the local Nix.

  A connection is the chunks its reads will return (an empty chunk or the end of the list is the
  end of the stream) and the bytes written to it.
\<close>

datatype http_method = Http_Get | Http_Head | Http_Other

record http_request =
  http_method :: http_method
  http_target :: string

record http_world = io_world +
  chunks_in :: "string result list"
  http_out :: string

abbreviation CRLF :: string where "CRLF \<equiv> [CHR 0x0D, CHR 0x0A]"

section \<open>Reading a request\<close>

fun read_head :: "string \<Rightarrow> string result list \<Rightarrow> string result \<times> string result list" where
  "read_head buf [] = (bail ''HTTP request closed before headers'', [])"
| "read_head buf (Inl e # rest) = (Err (Context ''read HTTP request'' e), rest)"
| "read_head buf (Inr chunk # rest) =
    (if chunk = [] then (bail ''HTTP request closed before headers'', rest)
     else
       let buf = buf @ chunk in
       if contains_str (CRLF @ CRLF) buf then (Ok buf, rest)
       else if 16 * 1024 < length buf then (bail ''HTTP request headers too large'', rest)
       else read_head buf rest)"

definition parse_http_request :: "string \<Rightarrow> http_request result" where
  "parse_http_request buf =
    bind_r (with_context ''HTTP request was not UTF-8'' (from_utf8 buf)) (\<lambda>request.
    case str_lines request of
      [] \<Rightarrow> Err (Msg ''HTTP request missing line'')
    | first_line # _ \<Rightarrow>
        (case split_whitespace first_line of
           [] \<Rightarrow> Err (Msg ''HTTP request missing method'')
         | m # parts \<Rightarrow>
             let verb = (if m = ''GET'' then Http_Get else if m = ''HEAD'' then Http_Head else Http_Other) in
             (case parts of
                [] \<Rightarrow> Err (Msg ''HTTP request missing target'')
              | [target] \<Rightarrow> Err (Msg ''HTTP request missing version'')
              | target # version # extra \<Rightarrow>
                  if \<not> starts_with ''HTTP/1.'' version \<or> extra \<noteq> []
                  then bail ''invalid HTTP request line''
                  else Ok \<lparr>http_method = verb, http_target = target\<rparr>)))"

definition read_http_request :: "('z http_world_scheme, http_request) step" where
  "read_http_request w =
    (case read_head [] (chunks_in w) of
       (Inl e, rest) \<Rightarrow> (Err e, w\<lparr>chunks_in := rest\<rparr>)
     | (Inr buf, rest) \<Rightarrow> (parse_http_request buf, w\<lparr>chunks_in := rest\<rparr>))"

section \<open>Writing a response\<close>

definition http_write :: "string \<Rightarrow> ('z http_world_scheme, unit) step" where
  "http_write bytes w =
    (case next_fault w of
       Fine \<Rightarrow> (Ok (), (ticked w)\<lparr>http_out := http_out w @ bytes\<rparr>)
     | Fault n \<Rightarrow> (Err (lib_error ''write_all''), (ticked w)\<lparr>http_out := http_out w @ take n bytes\<rparr>))"

definition http_reason :: "nat \<Rightarrow> string" where
  "http_reason code =
    (if code = 200 then ''OK'' else if code = 400 then ''Bad Request''
     else if code = 404 then ''Not Found'' else if code = 405 then ''Method Not Allowed''
     else if code = 502 then ''Bad Gateway'' else ''Error'')"

definition http_head :: "nat \<Rightarrow> nat \<Rightarrow> string" where
  "http_head code content_length =
    ''HTTP/1.1 '' @ show_nat code @ '' '' @ http_reason code @ CRLF
    @ ''Content-Length: '' @ show_nat content_length @ CRLF
    @ ''Content-Type: application/octet-stream'' @ CRLF @ ''Connection: close'' @ CRLF @ CRLF"

definition write_http_head :: "nat \<Rightarrow> nat \<Rightarrow> ('z http_world_scheme, unit) step" where
  "write_http_head code content_length =
    context_s ''write HTTP response'' (http_write (http_head code content_length))"

definition write_http_error :: "nat \<Rightarrow> string \<Rightarrow> ('z http_world_scheme, unit) step" where
  "write_http_error code message =
    bind_s (write_http_head code (length message)) (\<lambda>_.
    context_s ''write HTTP error body'' (http_write message))"

section \<open>The handler\<close>

text \<open>\<open>metadata(p).len()\<close>; \<open>Ok None\<close> stands for \<open>NotFound\<close>.\<close>

definition http_file_len :: "string \<Rightarrow> ('z http_world_scheme, nat option) step" where
  "http_file_len p w =
    (case next_fault w of
       Fine \<Rightarrow> (Ok (map_option length (files w p)), ticked w)
     | Fault n \<Rightarrow> (Err (lib_error ''metadata''), ticked w))"

text \<open>\<open>File::open\<close> and \<open>tokio::io::copy\<close> into the connection: the number of bytes copied.\<close>

definition send_file_body :: "string \<Rightarrow> string \<Rightarrow> nat \<Rightarrow> ('z http_world_scheme, unit) step" where
  "send_file_body file_path path len =
    bind_s (context_s (''open '' @ file_path) (fs_read file_path)) (\<lambda>content.
    case content of
      None \<Rightarrow> lift_r (Err (Context (''open '' @ file_path) (lib_error ''open'')))
    | Some bytes \<Rightarrow>
        bind_s (context_s (''serve local cache file '' @ path) (http_write bytes)) (\<lambda>_.
        if length bytes \<noteq> len then
          lift_r (bail (''short local cache response: '' @ show_nat (length bytes) @ '' of '' @ show_nat len
            @ '' bytes''))
        else ret ()))"

definition serve_local_file :: "http_method \<Rightarrow> string \<Rightarrow> string \<Rightarrow> ('z http_world_scheme, unit) step" where
  "serve_local_file verb file_path path =
    bind_s (context_s (''stat '' @ file_path) (http_file_len file_path)) (\<lambda>metadata.
    case metadata of
      None \<Rightarrow> write_http_error 404 (''cache file not found: '' @ path @ [CHR 0x0A])
    | Some len \<Rightarrow>
        bind_s (write_http_head 200 len) (\<lambda>_.
        bind_s (if verb = Http_Get then send_file_body file_path path len else ret ()) (\<lambda>_.
        context_s ''close HTTP response'' (io_call ''shutdown''))))"

definition handle_local_cache_http :: "string \<Rightarrow> ('z http_world_scheme, unit) step" where
  "handle_local_cache_http cache_dir =
    match_s read_http_request (\<lambda>request.
    case request of
      Inl err \<Rightarrow> match_s (write_http_head 400 0) (\<lambda>_. lift_r (Err err))
    | Inr request \<Rightarrow>
        if http_method request = Http_Other then write_http_head 405 0
        else
          (case sanitize_http_cache_path (http_target request) of
             Inl _ \<Rightarrow> write_http_head 400 0
           | Inr path \<Rightarrow>
               bind_s (lift_r (cache_file_path cache_dir path)) (\<lambda>file_path.
               serve_local_file (http_method request) file_path path)))"

section \<open>What a connection is answered\<close>

definition http_frame :: "'z http_world_scheme \<Rightarrow> 'z http_world_scheme \<Rightarrow> bool" where
  "http_frame w w' \<longleftrightarrow> files w' = files w \<and> (\<exists>o1. http_out w' = http_out w @ o1)"

lemma http_frame_rel [simp]: "reflp http_frame" "transp http_frame"
  unfolding http_frame_def reflp_def transp_def by auto

named_theorems http

lemma http_calls [http]:
  "keeps http_frame (http_write bytes)" "keeps http_frame (http_file_len p)"
  "keeps http_frame (fs_read p)" "keeps http_frame (io_call c)" "keeps http_frame read_http_request"
  by (auto simp: keeps_def http_frame_def http_write_def http_file_len_def fs_read_def io_call_def
      read_http_request_def ticked_def split: fault.splits prod.splits sum.splits)

lemma http_combine [http]:
  "keeps http_frame (ret x)" "keeps http_frame (lift_r r)"
  "keeps http_frame m \<Longrightarrow> (\<And>x. keeps http_frame (f x)) \<Longrightarrow> keeps http_frame (bind_s m f)"
  "keeps http_frame m \<Longrightarrow> (\<And>x. keeps http_frame (g x)) \<Longrightarrow> keeps http_frame (match_s m g)"
  "keeps http_frame m \<Longrightarrow> keeps http_frame (context_s c m)"
  by auto

lemma http_responses [http]:
  "keeps http_frame (write_http_head code n)" "keeps http_frame (write_http_error code msg)"
  unfolding write_http_error_def write_http_head_def by (intro http)+

lemma http_send_file_body [http]: "keeps http_frame (send_file_body f p n)"
  unfolding send_file_body_def by (intro http; auto split: option.split intro!: http)

lemma http_serve_local_file [http]: "keeps http_frame (serve_local_file v f p)"
  unfolding serve_local_file_def by (intro http; auto split: option.split intro!: http)

lemma http_handle: "keeps http_frame (handle_local_cache_http dir)"
  unfolding handle_local_cache_http_def
  by (intro http; auto split: sum.split intro!: http)

text \<open>The whole answer of a connection whose calls all succeed.\<close>

definition local_answer :: "string \<Rightarrow> (string \<Rightarrow> string option) \<Rightarrow> http_request result \<Rightarrow> string" where
  "local_answer dir fs request =
    (case request of
       Inl err \<Rightarrow> http_head 400 0
     | Inr request \<Rightarrow>
         if http_method request = Http_Other then http_head 405 0
         else
           (case sanitize_http_cache_path (http_target request) of
              Inl _ \<Rightarrow> http_head 400 0
            | Inr path \<Rightarrow>
                (case fs (path_join dir path) of
                   None \<Rightarrow>
                     (let body = ''cache file not found: '' @ path @ [CHR 0x0A]
                      in http_head 404 (length body) @ body)
                 | Some bytes \<Rightarrow>
                     http_head 200 (length bytes) @ (if http_method request = Http_Get then bytes else []))))"

lemma sanitized_file_path:
  "sanitize_http_cache_path target = Inr path \<Longrightarrow> cache_file_path dir path = Inr (path_join dir path)"
proof -
  assume "sanitize_http_cache_path target = Inr path"
  then obtain p where "sanitize_cache_path p = Inr path"
    by (auto simp: sanitize_http_cache_path_def Let_def split: option.splits)
  then have "sanitize_cache_path path = Inr path" unfolding sanitize_ok_iff by blast
  then show ?thesis by (simp add: cache_file_path_def)
qed

lemma serve_local_file_quiet:
  assumes "faults w = (\<lambda>n. Fine)"
  shows "http_out (snd (serve_local_file verb f path w)) = http_out w @
    (case files w f of
       None \<Rightarrow> (let body = ''cache file not found: '' @ path @ [CHR 0x0A] in http_head 404 (length body) @ body)
     | Some bytes \<Rightarrow> http_head 200 (length bytes) @ (if verb = Http_Get then bytes else []))"
  using assms
  by (cases "files w f")
    (simp_all add: serve_local_file_def send_file_body_def http_file_len_def write_http_error_def
      write_http_head_def http_write_def fs_read_def io_call_def bind_s_def context_s_def next_fault_def
      ticked_def Let_def)

text \<open>
  The local HTTP bridge changes no file, and a connection whose calls succeed is answered
  with exactly the file of the mirror that an admissible path names, or the right error.
\<close>

theorem local_server_serves_only_cache_files:
  fixes w :: "'z http_world_scheme"
  shows "(case handle_local_cache_http dir w of (r, w') \<Rightarrow>
    files w' = files w \<and> (\<exists>o1. http_out w' = http_out w @ o1)
    \<and> (if faults w = (\<lambda>n. Fine)
       then http_out w' = http_out w @ local_answer dir (files w) (fst (read_http_request w))
       else True))"
proof -
  obtain r w' where eq: "handle_local_cache_http dir w = (r, w')" by fastforce
  have frame: "http_frame w w'" using http_handle eq by (rule keepsD)
  have "http_out w' = http_out w @ local_answer dir (files w) (fst (read_http_request w))"
    if fine: "faults w = (\<lambda>n. Fine)"
  proof -
    obtain q w1 where rd: "read_http_request w = (q, w1)" by fastforce
    then have w1: "files w1 = files w" "faults w1 = faults w" "http_out w1 = http_out w"
      by (auto simp: read_http_request_def split: prod.splits sum.splits)
    have head: "http_out (snd (write_http_head code n w1)) = http_out w @ http_head code n" for code n
      using fine w1 by (simp add: write_http_head_def http_write_def context_s_def next_fault_def ticked_def)
    show ?thesis
    proof (cases q)
      case (Inl err)
      with eq rd head [of 400 0] show ?thesis
        by (auto simp: handle_local_cache_http_def match_s_def local_answer_def split: prod.splits)
    next
      case (Inr request)
      show ?thesis
      proof (cases "http_method request = Http_Other")
        case True
        with eq rd head [of 405 0] Inr show ?thesis
          by (auto simp: handle_local_cache_http_def match_s_def local_answer_def)
      next
        case get: False
        show ?thesis
        proof (cases "sanitize_http_cache_path (http_target request)")
          case (Inl e)
          with eq rd head [of 400 0] Inr get show ?thesis
            by (auto simp: handle_local_cache_http_def match_s_def local_answer_def)
        next
          case path: (Inr path)
          let ?f = "path_join dir path"
          have "serve_local_file (http_method request) ?f path w1 = (r, w')"
            using eq rd Inr get path sanitized_file_path [OF path]
            by (simp add: handle_local_cache_http_def match_s_def bind_s_def)
          with serve_local_file_quiet [of w1 "http_method request" ?f path] fine w1
          show ?thesis using rd Inr get path by (simp add: local_answer_def)
        qed
      qed
    qed
  qed
  with eq frame show ?thesis by (simp add: http_frame_def)
qed

end
