(* ===== verification/Client_World.thy ===== *)
theory Client_World
  imports Path_Chunks Nix_Build Cache_Path
begin

text \<open>
  What the client's code works with: the control stream of its connection (\<open>rx\<close>, \<open>tx\<close>), the
  answers its cache file streams will get, the bytes it uploads, its files, the surroundings of its
  commands and what it shows the user. Also the parts of \<open>client_status.rs\<close> that the client steps
  through: phases, transfers and their byte counter. How a status line is drawn is the subject of
  \<open>Status_Line\<close>.
\<close>

datatype console_event =
    Phase string
  | Clear_Phase
  | Transfer string
  | Transfer_Message string
  | Log_Line string
  | Nom_Input string
  | Notice string
  | Summary "string list"

text \<open>
  What the server sends on one cache file stream: the results of the reads of messages, then
  bytes, and possibly an error after them.
\<close>

record file_reply =
  fr_messages :: "message result list"
  fr_body :: string
  fr_error :: "anyhow option"

text \<open>\<open>asked\<close> logs what was written on each cache file stream; \<open>transferred\<close> is the byte counter.\<close>

record 'n client_world = chan_world +
  cl_sys :: 'n
  console :: "console_event list"
  file_replies :: "file_reply list"
  asked :: "(message list) list"
  uploaded :: "string list"
  transferred :: u64

definition show_event :: "console_event \<Rightarrow> ('n client_world, unit) step" where
  "show_event e w = (Ok (), w\<lparr>console := console w @ [e]\<rparr>)"

definition phase :: "string \<Rightarrow> ('n client_world, unit) step" where
  "phase message = show_event (Phase message)"

definition clear_phase :: "('n client_world, unit) step" where
  "clear_phase = show_event Clear_Phase"

text \<open>\<open>ClientStatus::transfer\<close> starts a new counter.\<close>

definition transfer :: "string \<Rightarrow> ('n client_world, unit) step" where
  "transfer message w = (Ok (), w\<lparr>console := console w @ [Transfer message], transferred := 0\<rparr>)"

definition add_bytes :: "nat \<Rightarrow> 'n client_world \<Rightarrow> 'n client_world" where
  "add_bytes n w = w\<lparr>transferred := transferred w + of_nat n\<rparr>"

section \<open>Commands in the client's world\<close>

definition cl_step :: "((string \<Rightarrow> string option) \<times> 'n, 'a) step \<Rightarrow> ('n client_world, 'a) step" where
  "cl_step = on_part (\<lambda>w. (files w, cl_sys w)) (\<lambda>(fs, n) w. w\<lparr>files := fs, cl_sys := n\<rparr>)"

definition client_commands :: "((string \<Rightarrow> string option) \<times> 'n) commands \<Rightarrow> 'n client_world commands" where
  "client_commands E = \<lparr>output_of = (\<lambda>program args. cl_step (output_of E program args))\<rparr>"

definition client_children :: "((string \<Rightarrow> string option) \<times> 'n) children \<Rightarrow> 'n client_world children" where
  "client_children C =
    \<lparr>spawn_realise = (\<lambda>args. cl_step (spawn_realise C args)),
     spawn_export = (\<lambda>args. cl_step (spawn_export C args)),
     export_stdout = cl_step (export_stdout C),
     wait_export = cl_step (wait_export C),
     spawn_import = (\<lambda>args. cl_step (spawn_import C args)),
     import_stdin = (\<lambda>bytes. cl_step (import_stdin C bytes)),
     wait_import = cl_step (wait_import C),
     kill_import = cl_step (kill_import C)\<rparr>"

declare show_event_def [drv_eval] phase_def [drv_eval] clear_phase_def [drv_eval] transfer_def [drv_eval]
  add_bytes_def [drv_eval] cl_step_def [drv_eval] client_commands_def [drv_eval] client_children_def [drv_eval]
  on_part_def [drv_eval]

end
