(* ===== verification/Cache_Mirror.thy ===== *)
theory Cache_Mirror
  imports Client_World
begin

text \<open>
  The client's mirror of the signed output cache: \<open>fetch_cache_file\<close> and \<open>CacheProgress\<close> of
  \<open>client_cache/mod.rs\<close> and all of \<open>client_cache/mirror.rs\<close>. The fetches of one phase run
  concurrently in the program, each on a stream of its own and into a file of its own; here they
  run one after the other in the order in which they are spawned.
\<close>

definition MAX_NARINFO_BYTES :: nat where "MAX_NARINFO_BYTES = 1024 * 1024"
definition DEFAULT_PARALLEL_NAR_FETCHES :: nat where "DEFAULT_PARALLEL_NAR_FETCHES = 8"
definition MAX_AUTO_PARALLEL_NAR_FETCHES :: nat where "MAX_AUTO_PARALLEL_NAR_FETCHES = 32"
definition NAR_FETCHES_ENV :: string where "NAR_FETCHES_ENV = ''DRV_THRU_NAR_FETCHES''"

section \<open>Progress\<close>

type_synonym path_set = "(string, unit) btree_map"

record cache_progress =
  metadata_seen :: path_set
  payload_seen :: path_set
  metadata_total :: nat
  payload_total :: nat
  progress_fetches :: nat

definition progress_count :: "nat \<Rightarrow> nat \<Rightarrow> string" where
  "progress_count count overall =
    (if overall = 0 then show_nat count else show_nat count @ ''/'' @ show_nat overall)"

definition progress_message :: "cache_progress \<Rightarrow> string" where
  "progress_message st =
    ''cache metadata '' @ progress_count (length (metadata_seen st)) (metadata_total st)
    @ '', payloads '' @ progress_count (length (payload_seen st)) (payload_total st)
    @ '', nar '' @ show_nat (progress_fetches st) @ ''x''"

definition cache_progress_new :: "nat \<Rightarrow> nat \<Rightarrow> nat \<Rightarrow> cache_progress" where
  "cache_progress_new metadata payload fetches =
    \<lparr>metadata_seen = [], payload_seen = [], metadata_total = metadata, payload_total = payload,
     progress_fetches = fetches\<rparr>"

definition record_cache_file :: "string \<Rightarrow> bool \<Rightarrow> cache_progress \<Rightarrow> cache_progress" where
  "record_cache_file path body st =
    (if ends_with ''.narinfo'' path then st\<lparr>metadata_seen := bt_insert path () (metadata_seen st)\<rparr>
     else if body \<and> starts_with ''nar/'' path then st\<lparr>payload_seen := bt_insert path () (payload_seen st)\<rparr>
     else st)"

definition refresh_progress :: "cache_progress \<Rightarrow> ('n client_world, unit) step" where
  "refresh_progress st = show_event (Transfer_Message (progress_message st))"

section \<open>Fetching a cache file\<close>

record fetched_file =
  fetched_count :: u64
  fetched_body :: "(string \<times> anyhow option) option"

text \<open>Opening a stream may time out or fail; the stream is gone once it is opened.\<close>

definition open_file_stream :: "('n client_world, file_reply) step" where
  "open_file_stream w =
    (case next_fault w of
       Fault n \<Rightarrow> (Err (Context ''open cache file stream timed out'' (lib_error ''elapsed'')), ticked w)
     | Fine \<Rightarrow>
         (case file_replies w of
            [] \<Rightarrow> (Err (Context ''open cache file stream'' (lib_error ''open_bi'')), ticked w)
          | r # rs \<Rightarrow> (Ok r, (ticked w)\<lparr>file_replies := rs\<rparr>)))"

text \<open>Steps on the stream just opened, and back to the control stream.\<close>

definition on_file_stream :: "file_reply \<Rightarrow> ('n client_world, 'a) step \<Rightarrow> ('n client_world, 'a) step" where
  "on_file_stream r m w =
    (case m (w\<lparr>rx := fr_messages r, tx := []\<rparr>) of
       (res, w') \<Rightarrow> (res, w'\<lparr>rx := rx w, tx := tx w, asked := asked w' @ [tx w']\<rparr>))"

definition recv_file_response :: "('n client_world, message) step" where
  "recv_file_response w =
    (case next_fault w of
       Fine \<Rightarrow> recv_message (ticked w)
     | Fault n \<Rightarrow> (Err (Context ''cache file response timed out'' (lib_error ''elapsed'')), ticked w))"

definition read_file_response :: "(message \<Rightarrow> string) \<Rightarrow> ('n client_world, cache_file_response) step" where
  "read_file_response derived =
    bind_s recv_file_response (\<lambda>message.
    case message of
      CacheFileResponse response \<Rightarrow> ret response
    | Error err \<Rightarrow> lift_r (bail (message_text err))
    | message \<Rightarrow> lift_r (bail (''unexpected cache response: '' @ debug_message derived message)))"

definition request_cache_file ::
  "(message \<Rightarrow> string) \<Rightarrow> string \<Rightarrow> bool \<Rightarrow> ('n client_world, cache_file_response) step" where
  "request_cache_file derived path body =
    bind_s (send_message (CacheFileRequest \<lparr>request_path = path, send_body = body\<rparr>)) (\<lambda>_.
    bind_s (io_call ''finish'') (\<lambda>_.
    read_file_response derived))"

definition fetch_cache_file ::
  "(message \<Rightarrow> string) \<Rightarrow> string \<Rightarrow> bool \<Rightarrow> ('n client_world, fetched_file option) step" where
  "fetch_cache_file derived path body =
    bind_s open_file_stream (\<lambda>r.
    bind_s (on_file_stream r (request_cache_file derived path body)) (\<lambda>response.
    ret (if \<not> found response then None
         else Some \<lparr>fetched_count = byte_count response,
                    fetched_body = (if body then Some (fr_body r, fr_error r) else None)\<rparr>)))"

section \<open>Reading and writing bodies\<close>

text \<open>
  \<open>body.take(n)\<close> read to its end through the byte counter: at most \<open>n\<close> bytes, and the error of
  the stream only if it comes before them.
\<close>

definition take_body :: "nat \<Rightarrow> string \<times> anyhow option \<Rightarrow> string \<times> anyhow option" where
  "take_body n body =
    (take n (fst body), if length (fst body) < n then snd body else None)"

definition read_fetched_body :: "fetched_file \<Rightarrow> string \<Rightarrow> ('n client_world, string) step" where
  "read_fetched_body fetched path w =
    (let n = unat (fetched_count fetched) in
     if MAX_NARINFO_BYTES < n then
       (bail (''cache metadata too large: '' @ show_nat n @ '' bytes for '' @ path), w)
     else
       case fetched_body fetched of
         None \<Rightarrow> (bail (''cache response had no body: '' @ path), w)
       | Some body \<Rightarrow>
           (case take_body n body of (bytes, error) \<Rightarrow>
             (case error of
                Some e \<Rightarrow> Err (Context (''read cache body '' @ path) e)
              | None \<Rightarrow>
                  if length bytes \<noteq> n then
                    bail (''short cache body: '' @ show_nat (length bytes) @ '' of '' @ show_nat n @ '' bytes'')
                  else Ok bytes,
              add_bytes (length bytes) w)))"

definition create_parent_dir :: "string \<Rightarrow> ('z io_world_scheme, unit) step" where
  "create_parent_dir file_path =
    (case path_parent file_path of
       None \<Rightarrow> ret ()
     | Some parent \<Rightarrow> context_s (''create '' @ parent) (fs_create_dir_all parent))"

text \<open>\<open>tokio::io::copy\<close> of a body into the file: what was read is written, then an error is reported.\<close>

definition copy_fetched_body :: "nat \<Rightarrow> string \<times> anyhow option \<Rightarrow> string \<Rightarrow> ('n client_world, nat) step" where
  "copy_fetched_body n body file_path w =
    (case take_body n body of (bytes, error) \<Rightarrow>
      (case fs_write_all file_path bytes (add_bytes (length bytes) w) of
         (Inl e, w') \<Rightarrow> (Err e, w')
       | (Inr _, w') \<Rightarrow> (case error of Some e \<Rightarrow> (Err e, w') | None \<Rightarrow> (Ok (length bytes), w'))))"

definition write_fetched_file :: "fetched_file \<Rightarrow> string \<Rightarrow> string \<Rightarrow> ('n client_world, unit) step" where
  "write_fetched_file fetched file_path path =
    (case fetched_body fetched of
       None \<Rightarrow> lift_r (bail (''cache response had no body: '' @ path))
     | Some body \<Rightarrow>
         let n = unat (fetched_count fetched) in
         bind_s (create_parent_dir file_path) (\<lambda>_.
         bind_s (context_s (''create '' @ file_path) (fs_open_truncate file_path)) (\<lambda>_.
         bind_s (context_s (''mirror cache file '' @ path) (copy_fetched_body n body file_path)) (\<lambda>copied.
         bind_s (context_s (''flush '' @ file_path) (io_call ''flush'')) (\<lambda>_.
         if copied \<noteq> n then
           lift_r (bail (''short cache body: '' @ show_nat copied @ '' of '' @ show_nat n @ '' bytes''))
         else ret ())))))"

definition write_cache_bytes :: "string \<Rightarrow> string \<Rightarrow> string \<Rightarrow> ('z io_world_scheme, unit) step" where
  "write_cache_bytes dir path bytes =
    bind_s (lift_r (cache_file_path dir path)) (\<lambda>file_path.
    bind_s (create_parent_dir file_path) (\<lambda>_.
    context_s (''write '' @ file_path)
      (bind_s (fs_open_truncate file_path) (\<lambda>_. fs_write_all file_path bytes))))"

definition write_nix_cache_info :: "string \<Rightarrow> ('z io_world_scheme, unit) step" where
  "write_nix_cache_info dir = write_cache_bytes dir ''nix-cache-info'' (''StoreDir: /nix/store'' @ [CHR 0x0A])"

section \<open>Mirroring\<close>

definition narinfo_path_for_store_path :: "store_path \<Rightarrow> string" where
  "narinfo_path_for_store_path path = store_path_hash path @ ''.narinfo''"

text \<open>A mirrored file is recorded in the progress, which is shown again.\<close>

definition mirror_narinfo ::
  "(message \<Rightarrow> string) \<Rightarrow> string \<Rightarrow> string \<Rightarrow> bool \<Rightarrow> cache_progress \<Rightarrow>
     ('n client_world, string option \<times> cache_progress) step" where
  "mirror_narinfo derived dir narinfo_path copy_path st =
    bind_s (fetch_cache_file derived narinfo_path True) (\<lambda>fetched.
    case fetched of
      None \<Rightarrow> lift_r (bail (''cache metadata not found: '' @ narinfo_path))
    | Some fetched \<Rightarrow>
        bind_s (read_fetched_body fetched narinfo_path) (\<lambda>bytes.
        bind_s (write_cache_bytes dir narinfo_path bytes) (\<lambda>_.
        let st = record_cache_file narinfo_path True st in
        bind_s (refresh_progress st) (\<lambda>_.
        if copy_path then bind_s (lift_r (narinfo_nar_path bytes)) (\<lambda>nar. ret (nar, st))
        else ret (None, st)))))"

definition mirror_nar ::
  "(message \<Rightarrow> string) \<Rightarrow> string \<Rightarrow> string \<Rightarrow> cache_progress \<Rightarrow> ('n client_world, cache_progress) step" where
  "mirror_nar derived dir nar_path st =
    bind_s (fetch_cache_file derived nar_path True) (\<lambda>fetched.
    case fetched of
      None \<Rightarrow> lift_r (bail (''cache payload not found: '' @ nar_path))
    | Some fetched \<Rightarrow>
        bind_s (lift_r (cache_file_path dir nar_path)) (\<lambda>file_path.
        bind_s (write_fetched_file fetched file_path nar_path) (\<lambda>_.
        let st = record_cache_file nar_path True st in
        bind_s (refresh_progress st) (\<lambda>_. ret st))))"

fun mirror_metadata ::
  "(message \<Rightarrow> string) \<Rightarrow> string \<Rightarrow> string list \<Rightarrow> store_path list \<Rightarrow> string list \<Rightarrow> cache_progress \<Rightarrow>
     ('n client_world, string list \<times> cache_progress) step" where
  "mirror_metadata derived dir copy_narinfos [] nars st = ret (nars, st)"
| "mirror_metadata derived dir copy_narinfos (p # ps) nars st =
    (let narinfo = narinfo_path_for_store_path p in
     bind_s (mirror_narinfo derived dir narinfo (narinfo \<in> set copy_narinfos) st) (\<lambda>(nar, st).
     mirror_metadata derived dir copy_narinfos ps
       (nars @ (case nar of None \<Rightarrow> [] | Some n \<Rightarrow> [n])) st))"

fun mirror_payloads ::
  "(message \<Rightarrow> string) \<Rightarrow> string \<Rightarrow> string list \<Rightarrow> cache_progress \<Rightarrow> ('n client_world, unit) step" where
  "mirror_payloads derived dir [] st = ret ()"
| "mirror_payloads derived dir (n # ns) st =
    bind_s (mirror_nar derived dir n st) (\<lambda>st. mirror_payloads derived dir ns st)"

definition mirror_cache_files ::
  "(message \<Rightarrow> string) \<Rightarrow> string \<Rightarrow> store_path list \<Rightarrow> string list \<Rightarrow> cache_progress \<Rightarrow> ('n client_world, unit) step" where
  "mirror_cache_files derived dir closure_paths copy_narinfos st =
    bind_s (mirror_metadata derived dir copy_narinfos closure_paths [] st) (\<lambda>(nars, st).
    mirror_payloads derived dir nars st)"

text \<open>The directory is named after the process and the clock, which the caller's environment gives.\<close>

definition create_local_cache_dir :: "string \<Rightarrow> u32 \<Rightarrow> nat \<Rightarrow> ('z io_world_scheme, string) step" where
  "create_local_cache_dir temp_dir pid nanos =
    (let dir = path_join temp_dir (''drv-thru-cache-'' @ show_word pid @ ''-'' @ show_nat nanos) in
     bind_s (context_s (''create '' @ dir) (fs_create_dir_all dir)) (\<lambda>_. ret dir))"

definition mirror_build ::
  "(message \<Rightarrow> string) \<Rightarrow> ('n client_world, string) step \<Rightarrow> store_path list \<Rightarrow> store_path list \<Rightarrow> cache_progress \<Rightarrow>
     ('n client_world, string) step" where
  "mirror_build derived create_dir closure_paths copies st =
    bind_s create_dir (\<lambda>dir.
    bind_s (write_nix_cache_info dir) (\<lambda>_.
    bind_s (context_s (''mirror cache files into '' @ dir)
      (mirror_cache_files derived dir closure_paths (map narinfo_path_for_store_path copies) st)) (\<lambda>_.
    ret dir)))"

text \<open>\<open>remove_dir_all\<close>, for which an absent directory is no error.\<close>

definition below :: "string \<Rightarrow> string \<Rightarrow> bool" where
  "below dir p \<longleftrightarrow> starts_with (dir @ ''/'') p"

definition mirror_cleanup :: "string \<Rightarrow> ('z io_world_scheme, unit) step" where
  "mirror_cleanup dir w =
    (case next_fault w of
       Fine \<Rightarrow> (Ok (), (ticked w)\<lparr>files := (\<lambda>p. if below dir p then None else files w p)\<rparr>)
     | Fault n \<Rightarrow> (Err (Context (''remove '' @ dir) (lib_error ''remove_dir_all'')), ticked w))"

section \<open>How many payloads at a time\<close>

definition auto_parallel_nar_fetches :: "nat \<Rightarrow> nat" where
  "auto_parallel_nar_fetches available =
    (if available < DEFAULT_PARALLEL_NAR_FETCHES then DEFAULT_PARALLEL_NAR_FETCHES
     else if MAX_AUTO_PARALLEL_NAR_FETCHES < available then MAX_AUTO_PARALLEL_NAR_FETCHES
     else available)"

text \<open>\<open>var\<close> is the environment variable, \<open>cpus\<close> what the system says of its parallelism.\<close>

definition parallel_nar_fetches :: "nat option \<Rightarrow> string option \<Rightarrow> nat option \<Rightarrow> nat result" where
  "parallel_nar_fetches configured var cpus =
    (case configured of
       Some n \<Rightarrow> if n = 0 then bail ''--nar-fetches must be at least 1'' else Ok n
     | None \<Rightarrow>
         (case var of
            Some v \<Rightarrow>
              (case parse_unsigned USIZE_MAX v of
                 None \<Rightarrow> Err (Context (''parse '' @ NAR_FETCHES_ENV @ ''='' @ v) (lib_error ''parse''))
               | Some n \<Rightarrow> if n = 0 then bail (NAR_FETCHES_ENV @ '' must be at least 1'') else Ok n)
          | None \<Rightarrow>
              Ok (auto_parallel_nar_fetches
                (case cpus of None \<Rightarrow> DEFAULT_PARALLEL_NAR_FETCHES | Some n \<Rightarrow> n))))"


section \<open>What a mirror asks for and writes\<close>

text \<open>The files a mirror in \<open>dir\<close> consists of.\<close>

definition cache_region :: "string \<Rightarrow> string \<Rightarrow> bool" where
  "cache_region dir p \<longleftrightarrow> (\<exists>q. sanitize_cache_path q = Ok q \<and> p = path_join dir q)"

text \<open>A stream on which nothing, or one request for the body of an admissible path was written.\<close>

fun asks :: "(string \<Rightarrow> bool) \<Rightarrow> message list \<Rightarrow> bool" where
  "asks ok [] = True"
| "asks ok [CacheFileRequest r] = (ok (request_path r) \<and> send_body r)"
| "asks ok _ = False"

definition mirrors :: "string \<Rightarrow> (string \<Rightarrow> bool) \<Rightarrow> 'n client_world \<Rightarrow> 'n client_world \<Rightarrow> bool" where
  "mirrors dir ok w w' \<longleftrightarrow>
    (\<forall>p. \<not> cache_region dir p \<longrightarrow> files w' p = files w p)
    \<and> rx w' = rx w \<and> tx w' = tx w \<and> uploaded w' = uploaded w \<and> cl_sys w' = cl_sys w \<and> faults w' = faults w
    \<and> (\<exists>a. asked w' = asked w @ a \<and> list_all (asks ok) a)"

lemma mirrors_refl: "reflp (mirrors dir ok)"
  by (auto simp: reflp_def mirrors_def)

lemma mirrors_trans: "transp (mirrors dir ok)"
  by (rule transpI) (fastforce simp: mirrors_def)

named_theorems mirroring

lemma mirroring_combine [mirroring]:
  "keeps (mirrors dir ok) (ret x)" "keeps (mirrors dir ok) (lift_r r)"
  "keeps (mirrors dir ok) m \<Longrightarrow> (\<And>x. keeps (mirrors dir ok) (f x)) \<Longrightarrow> keeps (mirrors dir ok) (bind_s m f)"
  "keeps (mirrors dir ok) m \<Longrightarrow> keeps (mirrors dir ok) (context_s c m)"
  by (auto intro: mirrors_refl mirrors_trans)

lemma mirrors_only_files:
  assumes "only_files (cache_region dir) w w'"
  shows "mirrors dir ok w (w' :: 'n client_world)"
proof -
  from assms have "io_world.more w' = io_world.more w" by (simp add: only_files_def)
  then have "rx w' = rx w" "tx w' = tx w" "uploaded w' = uploaded w" "cl_sys w' = cl_sys w" "asked w' = asked w"
    by (cases w, cases w', simp)+
  with assms show ?thesis by (simp add: only_files_def mirrors_def)
qed

lemma mirroring_files: "keeps (only_files (cache_region dir)) m \<Longrightarrow> keeps (mirrors dir ok) m"
  by (auto simp: keeps_def intro: mirrors_only_files)

lemma frame_create_parent_dir [frame]: "keeps (only_files P) (create_parent_dir p)"
  unfolding create_parent_dir_def by (cases "path_parent p") (auto intro!: frame)

lemma mirroring_shows [mirroring]:
  "keeps (mirrors dir ok) (show_event e)" "keeps (mirrors dir ok) (refresh_progress st)"
  by (simp_all add: keeps_def show_event_def refresh_progress_def mirrors_def)

lemma mirroring_open [mirroring]: "keeps (mirrors dir ok) open_file_stream"
  by (auto simp: keeps_def open_file_stream_def ticked_def mirrors_def split: fault.splits list.splits)

text \<open>A request on a stream of its own: the control stream stays as it is.\<close>

definition on_stream_only :: "'n client_world \<Rightarrow> 'n client_world \<Rightarrow> bool" where
  "on_stream_only w w' \<longleftrightarrow> files w' = files w \<and> tx w' = tx w \<and> uploaded w' = uploaded w
    \<and> cl_sys w' = cl_sys w \<and> faults w' = faults w \<and> asked w' = asked w"

lemma read_file_response_frame: "keeps on_stream_only (read_file_response derived)"
  by (auto simp: keeps_def read_file_response_def recv_file_response_def recv_message_def bind_s_def
      on_stream_only_def ticked_def split: fault.splits list.splits message.splits sum.splits prod.splits)

lemma request_cache_file_frame:
  assumes "request_cache_file derived path body w = (r, w')" "tx w = []"
  shows "on_stream_only (w\<lparr>tx := tx w'\<rparr>) w'
    \<and> (tx w' = [] \<or> tx w' = [CacheFileRequest \<lparr>request_path = path, send_body = body\<rparr>])"
proof -
  let ?m = "CacheFileRequest \<lparr>request_path = path, send_body = body\<rparr>"
  show ?thesis
  proof (cases "next_fault w")
    case (Fault n)
    with assms show ?thesis
      by (auto simp: request_cache_file_def bind_s_def send_message_def on_stream_only_def ticked_def)
  next
    case Fine
    let ?w1 = "(ticked w)\<lparr>tx := [?m]\<rparr>"
    have eq: "bind_s (io_call ''finish'') (\<lambda>_. read_file_response derived) ?w1 = (r, w')"
      using assms Fine by (simp add: request_cache_file_def bind_s_def send_message_def)
    have "keeps on_stream_only (bind_s (io_call ''finish'') (\<lambda>_. read_file_response derived) :: ('n client_world, _) step)"
    proof (rule keeps_bind_s)
      show "transp (on_stream_only :: 'n client_world \<Rightarrow> _)" by (rule transpI) (simp add: on_stream_only_def)
      show "keeps on_stream_only (io_call ''finish'' :: ('n client_world, _) step)"
        by (auto simp: keeps_def io_call_def on_stream_only_def ticked_def split: fault.splits)
    qed (rule read_file_response_frame)
    then have "on_stream_only ?w1 w'" using eq by (rule keepsD)
    then show ?thesis by (simp add: on_stream_only_def ticked_def)
  qed
qed

lemma mirroring_fetch [mirroring]:
  assumes "ok path"
  shows "keeps (mirrors dir ok) (fetch_cache_file derived path True :: ('n client_world, _) step)"
proof -
  have "mirrors dir ok w w'" if eq: "on_file_stream r (request_cache_file derived path True) w = (s, w')"
    for r s and w w' :: "'n client_world"
  proof -
    let ?w = "w\<lparr>rx := fr_messages r, tx := []\<rparr>"
    obtain s1 w1 where rq: "request_cache_file derived path True ?w = (s1, w1)" by fastforce
    with eq have w': "w' = w1\<lparr>rx := rx w, tx := tx w, asked := asked w1 @ [tx w1]\<rparr>"
      by (simp add: on_file_stream_def)
    from request_cache_file_frame [OF rq] have "on_stream_only (?w\<lparr>tx := tx w1\<rparr>) w1"
      "tx w1 = [] \<or> tx w1 = [CacheFileRequest \<lparr>request_path = path, send_body = True\<rparr>]" by simp_all
    with w' assms show ?thesis by (auto simp: mirrors_def on_stream_only_def)
  qed
  then have "keeps (mirrors dir ok) (on_file_stream r (request_cache_file derived path True)
      :: ('n client_world, _) step)" for r
    by (rule keepsI)
  then show ?thesis unfolding fetch_cache_file_def by (intro mirroring)
qed

lemma mirroring_read_body [mirroring]: "keeps (mirrors dir ok) (read_fetched_body f p)"
  by (auto simp: keeps_def read_fetched_body_def add_bytes_def mirrors_def Let_def
      split: option.splits prod.splits)

lemma region_file: "cache_file_path dir q = Ok p \<Longrightarrow> cache_region dir p"
  by (auto simp: cache_file_path_def cache_region_def sanitize_ok_iff)

lemma mirroring_write_bytes [mirroring]: "keeps (mirrors dir ok) (write_cache_bytes dir p bytes)"
proof (rule mirroring_files)
  show "keeps (only_files (cache_region dir)) (write_cache_bytes dir p bytes)"
  proof (cases "cache_file_path dir p")
    case (Inl e)
    then show ?thesis by (simp add: write_cache_bytes_def keeps_def bind_s_def)
  next
    case (Inr q)
    then have "cache_region dir q" by (rule region_file)
    then have "keeps (only_files (cache_region dir)) (bind_s (create_parent_dir q) (\<lambda>_.
        context_s (''write '' @ q) (bind_s (fs_open_truncate q) (\<lambda>_. fs_write_all q bytes))))"
      by (intro frame)
    with Inr show ?thesis by (simp add: write_cache_bytes_def keeps_def bind_s_lift_r)
  qed
qed

lemma mirroring_copy_body:
  assumes "cache_region dir q"
  shows "keeps (mirrors dir ok) (copy_fetched_body n body q)"
proof (rule keepsI)
  fix w r and w' :: "'a client_world"
  assume eq: "copy_fetched_body n body q w = (r, w')"
  obtain s w1 where wr: "fs_write_all q (fst (take_body n body)) (add_bytes (length (fst (take_body n body))) w) = (s, w1)"
    by fastforce
  with eq have "w' = w1" by (auto simp: copy_fetched_body_def split: prod.splits sum.splits option.splits)
  have "keeps (only_files (cache_region dir)) (fs_write_all q (fst (take_body n body)) :: ('a client_world, _) step)"
    using assms by (intro frame)
  then have "only_files (cache_region dir) (add_bytes (length (fst (take_body n body))) w) w1"
    using wr by (rule keepsD)
  then have "mirrors dir ok (add_bytes (length (fst (take_body n body))) w) w1" by (rule mirrors_only_files)
  with \<open>w' = w1\<close> show "mirrors dir ok w w'" by (simp add: mirrors_def add_bytes_def)
qed

lemma mirroring_write_file:
  assumes "cache_region dir q"
  shows "keeps (mirrors dir ok) (write_fetched_file f q p)"
proof (cases "fetched_body f")
  case None
  then show ?thesis by (simp add: write_fetched_file_def mirroring)
next
  case (Some body)
  have "keeps (mirrors dir ok) (create_parent_dir q)" "keeps (mirrors dir ok) (fs_open_truncate q)"
    "keeps (mirrors dir ok) (io_call ''flush'')"
    using assms by (intro mirroring_files frame; simp)+
  then show ?thesis
    unfolding write_fetched_file_def Some option.case Let_def
    by (intro mirroring mirroring_copy_body assms) (simp_all add: mirroring)
qed

lemma nar_form_sanitized: "nar_form q \<Longrightarrow> sanitize_cache_path q = Ok q"
  by (simp add: sanitize_ok_iff)

lemma narinfo_nar_form: "narinfo_nar_path bytes = Ok (Some q) \<Longrightarrow> nar_form q"
  by (auto simp: narinfo_nar_path_def dest: first_url_nar)

lemma mirror_narinfo_keeps:
  assumes "ok narinfo"
  shows "keeps (mirrors dir ok) (mirror_narinfo derived dir narinfo copy st)"
  unfolding mirror_narinfo_def Let_def
  by (intro mirroring assms; auto split: option.split intro!: mirroring)

lemma mirror_nar_keeps:
  assumes "ok nar"
  shows "keeps (mirrors dir ok) (mirror_nar derived dir nar st)"
proof -
  have "keeps (mirrors dir ok) (bind_s (lift_r (cache_file_path dir nar)) (\<lambda>file_path.
      bind_s (write_fetched_file f file_path nar) (\<lambda>_.
      bind_s (refresh_progress st') (\<lambda>_. ret st'))))" for f st'
  proof (cases "cache_file_path dir nar")
    case (Inl e)
    then show ?thesis by (simp add: keeps_def bind_s_def mirrors_def)
  next
    case (Inr q)
    then have "keeps (mirrors dir ok) (bind_s (write_fetched_file f q nar) (\<lambda>_.
      bind_s (refresh_progress st') (\<lambda>_. ret st')))"
      by (intro mirroring mirroring_write_file region_file)
    with Inr show ?thesis by (simp add: keeps_def bind_s_lift_r)
  qed
  then have "keeps (mirrors dir ok) (case fetched of
      None \<Rightarrow> lift_r (bail (''cache payload not found: '' @ nar))
    | Some fetched \<Rightarrow> bind_s (lift_r (cache_file_path dir nar)) (\<lambda>file_path.
        bind_s (write_fetched_file fetched file_path nar) (\<lambda>_.
        bind_s (refresh_progress (record_cache_file nar True st)) (\<lambda>_.
        ret (record_cache_file nar True st)))))" for fetched
    by (cases fetched) (simp_all only: option.case mirroring)
  then show ?thesis
    unfolding mirror_nar_def Let_def by (intro mirroring assms)
qed

lemma mirror_narinfo_nar:
  "mirror_narinfo derived dir narinfo copy st w = (Ok (Some nar, st'), w') \<Longrightarrow> nar_form nar"
  unfolding mirror_narinfo_def Let_def bind_s_Ok_iff
  by (auto simp: bind_s_Ok_iff narinfo_nar_form split: option.splits if_splits)

lemma mirror_payloads_keeps:
  "\<forall>n\<in>set nars. ok n \<Longrightarrow> keeps (mirrors dir ok) (mirror_payloads derived dir nars st)"
proof (induction nars arbitrary: st)
  case Nil
  show ?case by (simp only: mirror_payloads.simps mirroring)
next
  case (Cons n ns)
  then show ?case unfolding mirror_payloads.simps by (intro mirroring mirror_nar_keeps) auto
qed

lemma mirror_metadata_keeps:
  assumes "\<forall>p\<in>set ps. ok (narinfo_path_for_store_path p)"
  shows "keeps (mirrors dir ok) (mirror_metadata derived dir copies ps nars st)"
  using assms
proof (induction ps arbitrary: nars st)
  case Nil
  show ?case by (simp only: mirror_metadata.simps mirroring)
next
  case (Cons p ps)
  then show ?case
    unfolding mirror_metadata.simps Let_def
    by (intro mirroring mirror_narinfo_keeps) (auto split: prod.split)
qed

lemma mirror_metadata_nars:
  "mirror_metadata derived dir copies ps nars st w = (Ok (nars', st'), w') \<Longrightarrow>
   \<forall>n\<in>set nars. nar_form n \<Longrightarrow> \<forall>n\<in>set nars'. nar_form n"
proof (induction ps arbitrary: nars st w)
  case Nil
  then show ?case by simp
next
  case (Cons p ps)
  from Cons.prems(1) obtain nar st1 w1 where
    one: "mirror_narinfo derived dir (narinfo_path_for_store_path p)
      (narinfo_path_for_store_path p \<in> set copies) st w = (Ok (nar, st1), w1)"
    and rest: "mirror_metadata derived dir copies ps (nars @ (case nar of None \<Rightarrow> [] | Some n \<Rightarrow> [n])) st1 w1
      = (Ok (nars', st'), w')"
    by (auto simp: bind_s_Ok_iff Let_def)
  have "\<forall>n\<in>set (nars @ (case nar of None \<Rightarrow> [] | Some n \<Rightarrow> [n])). nar_form n"
    using Cons.prems(2) one by (cases nar) (auto dest: mirror_narinfo_nar)
  then show ?case by (rule Cons.IH [OF rest])
qed

definition mirror_path :: "store_path list \<Rightarrow> string \<Rightarrow> bool" where
  "mirror_path closure_paths q \<longleftrightarrow> q \<in> narinfo_path_for_store_path ` set closure_paths \<or> nar_form q"

lemma mirror_cache_files_keeps:
  "keeps (mirrors dir (mirror_path closure_paths))
     (mirror_cache_files derived dir closure_paths copies st :: ('n client_world, unit) step)"
proof (rule keepsI)
  fix r and w w' :: "'n client_world"
  let ?R = "mirrors dir (mirror_path closure_paths)"
  assume eq: "mirror_cache_files derived dir closure_paths copies st w = (r, w')"
  obtain r1 w1 where meta: "mirror_metadata derived dir copies closure_paths [] st w = (r1, w1)" by fastforce
  have "keeps ?R (mirror_metadata derived dir copies closure_paths [] st)"
    by (rule mirror_metadata_keeps) (simp add: mirror_path_def)
  then have m1: "?R w w1" using meta by (rule keepsD)
  show "?R w w'"
  proof (cases r1)
    case (Inl e)
    with eq meta m1 show ?thesis by (simp add: mirror_cache_files_def bind_s_def)
  next
    case (Inr res)
    obtain nars st1 where res: "res = (nars, st1)" by fastforce
    with Inr meta have "\<forall>n\<in>set nars. nar_form n" by (auto dest: mirror_metadata_nars)
    then have "keeps ?R (mirror_payloads derived dir nars st1)"
      by (intro mirror_payloads_keeps) (simp add: mirror_path_def)
    moreover have "mirror_payloads derived dir nars st1 w1 = (r, w')"
      using eq meta Inr res by (simp add: mirror_cache_files_def bind_s_def)
    ultimately have "?R w1 w'" by (rule keepsD)
    with m1 show ?thesis by (meson mirrors_trans transpD)
  qed
qed

text \<open>
  C16: Whatever the builder answers, mirroring writes no file but cache files below the mirror
  directory, asks only for the narinfos of the closure and nar files, and touches neither the
  control stream nor the uploads.
\<close>

theorem mirror_asks_and_writes_only_cache_files:
  fixes w :: "'n client_world"
  shows "(case mirror_cache_files derived dir closure_paths copies st w of (r, w') \<Rightarrow>
    (\<forall>p. files w' p = files w p \<or> cache_region dir p)
    \<and> rx w' = rx w \<and> tx w' = tx w \<and> uploaded w' = uploaded w \<and> cl_sys w' = cl_sys w
    \<and> (\<exists>a. asked w' = asked w @ a \<and> list_all (asks (mirror_path closure_paths)) a))"
proof -
  obtain r w' where eq: "mirror_cache_files derived dir closure_paths copies st w = (r, w')" by fastforce
  with mirror_cache_files_keeps have "mirrors dir (mirror_path closure_paths) w w'" by (rule keepsD)
  with eq show ?thesis by (auto simp: mirrors_def)
qed

section \<open>A mirror is complete\<close>

abbreviation same_files :: "'n client_world \<Rightarrow> 'n client_world \<Rightarrow> bool" where
  "same_files w w' \<equiv> files w' = files w"

lemma fetch_files:
  assumes "fetch_cache_file derived path body w = (r, w')"
  shows "files w' = files w"
proof -
  obtain r1 w1 where op: "open_file_stream w = (r1, w1)" by fastforce
  then have w1: "files w1 = files w"
    by (auto simp: open_file_stream_def ticked_def split: fault.splits list.splits)
  show ?thesis
  proof (cases r1)
    case (Inl e)
    with assms op w1 show ?thesis by (simp add: fetch_cache_file_def bind_s_def)
  next
    case (Inr rep)
    let ?w = "w1\<lparr>rx := fr_messages rep, tx := []\<rparr>"
    obtain s w2 where rq: "request_cache_file derived path body ?w = (s, w2)" by fastforce
    with request_cache_file_frame [OF rq] have "files w2 = files w" by (simp add: on_stream_only_def w1)
    with assms op Inr rq show ?thesis
      by (auto simp: fetch_cache_file_def bind_s_def on_file_stream_def split: sum.splits)
  qed
qed

lemma read_fetched_body_Ok:
  "read_fetched_body f p w = (Ok bytes, w') \<Longrightarrow> files w' = files w \<and> length bytes = unat (fetched_count f)"
  by (auto simp: read_fetched_body_def add_bytes_def Let_def
      split: option.splits prod.splits if_splits)

lemma create_parent_dir_files: "create_parent_dir q w = (r, w') \<Longrightarrow> files w' = files w"
  by (auto simp: create_parent_dir_def context_s_def fs_create_dir_all_def io_call_def ticked_def
      split: option.splits fault.splits prod.splits)

lemma write_cache_bytes_Ok:
  assumes "write_cache_bytes dir p bytes w = (Ok (), w')"
  shows "files w' = (files w)(path_join dir p \<mapsto> bytes)"
proof -
  from assms obtain q where q: "cache_file_path dir p = Ok q" "q = path_join dir p"
    by (auto simp: write_cache_bytes_def bind_s_Ok_iff cache_file_path_def sanitize_ok_iff)
  from assms obtain w1 where "create_parent_dir q w = (Ok (), w1)" and
    wr: "context_s (''write '' @ q) (bind_s (fs_open_truncate q) (\<lambda>_. fs_write_all q bytes)) w1 = (Ok (), w')"
    using q(1) unfolding write_cache_bytes_def bind_s_lift_r by (auto simp: bind_s_Ok_iff)
  from create_parent_dir_files [OF this(1)] have "files w1 = files w" .
  with wr q(2) show ?thesis
    by (auto simp: context_s_def bind_s_def fs_open_truncate_def fs_write_all_def ticked_def file_text_def
        split: fault.splits prod.splits)
qed

lemma mirror_narinfo_Ok:
  assumes "mirror_narinfo derived dir narinfo copy st w = (Ok (nar, st'), w')"
  shows "\<exists>bytes. files w' = (files w)(path_join dir narinfo \<mapsto> bytes)
    \<and> (if copy then narinfo_nar_path bytes = Ok nar else nar = None)"
proof -
  from assms obtain f w1 bytes w2 w3 where
    f: "fetch_cache_file derived narinfo True w = (Ok (Some f), w1)"
    and rd: "read_fetched_body f narinfo w1 = (Ok bytes, w2)"
    and wr: "write_cache_bytes dir narinfo bytes w2 = (Ok (), w3)"
    and rest: "bind_s (refresh_progress (record_cache_file narinfo True st)) (\<lambda>_.
        if copy then bind_s (lift_r (narinfo_nar_path bytes)) (\<lambda>nar. ret (nar, record_cache_file narinfo True st))
        else ret (None, record_cache_file narinfo True st)) w3 = (Ok (nar, st'), w')"
    unfolding mirror_narinfo_def Let_def bind_s_Ok_iff
    by (auto simp: bind_s_Ok_iff split: option.splits)
  from rest have "files w' = files w3" and "if copy then narinfo_nar_path bytes = Ok nar else nar = None"
    by (auto simp: bind_s_Ok_iff refresh_progress_def show_event_def split: if_splits)
  with fetch_files [OF f] read_fetched_body_Ok [OF rd] write_cache_bytes_Ok [OF wr] show ?thesis by auto
qed

lemma copy_fetched_body_Ok:
  "copy_fetched_body n body q w = (Ok k, w') \<Longrightarrow>
    files w' = (files w)(q \<mapsto> file_text w q @ take n (fst body)) \<and> k = length (take n (fst body))"
  by (auto simp: copy_fetched_body_def take_body_def fs_write_all_def add_bytes_def ticked_def file_text_def
      split: prod.splits sum.splits option.splits fault.splits if_splits)

lemma write_fetched_file_Ok:
  assumes "write_fetched_file f q p w = (Ok (), w')"
  shows "\<exists>bytes. files w' = (files w)(q \<mapsto> bytes) \<and> length bytes = unat (fetched_count f)"
proof -
  let ?n = "unat (fetched_count f)"
  from assms obtain body where b: "fetched_body f = Some body"
    by (auto simp: write_fetched_file_def split: option.splits)
  from assms obtain w1 w2 k w3 w4 where "create_parent_dir q w = (Ok (), w1)"
    and op: "fs_open_truncate q w1 = (Ok (), w2)" and cp: "copy_fetched_body ?n body q w2 = (Ok k, w3)"
    and fl: "io_call ''flush'' w3 = (Ok (), w4)" and k: "k = ?n" "w' = w4"
    unfolding write_fetched_file_def b option.case Let_def
    by (auto simp: bind_s_Ok_iff context_s_Ok_iff split: if_splits)
  from create_parent_dir_files [OF this(1)] op have "files w2 = (files w)(q \<mapsto> [])"
    by (auto simp: fs_open_truncate_def ticked_def split: fault.splits)
  with copy_fetched_body_Ok [OF cp] have "files w3 = (files w)(q \<mapsto> take ?n (fst body))" "length (take ?n (fst body)) = ?n"
    using k by (simp_all add: file_text_def)
  moreover have "files w4 = files w3" using fl by (auto simp: io_call_def ticked_def split: fault.splits)
  ultimately show ?thesis using k by metis
qed

lemma mirror_nar_Ok:
  assumes "mirror_nar derived dir nar st w = (Ok st', w')"
  shows "\<exists>bytes. files w' = (files w)(path_join dir nar \<mapsto> bytes)"
proof -
  from assms obtain f w1 q w2 where
    f: "fetch_cache_file derived nar True w = (Ok (Some f), w1)"
    and q: "cache_file_path dir nar = Ok q"
    and wr: "write_fetched_file f q nar w1 = (Ok (), w2)"
    and rest: "bind_s (refresh_progress (record_cache_file nar True st))
      (\<lambda>_. ret (record_cache_file nar True st)) w2 = (Ok st', w')"
    unfolding mirror_nar_def Let_def bind_s_Ok_iff
    by (auto simp: bind_s_Ok_iff split: option.splits)
  from rest have "files w' = files w2" by (auto simp: bind_s_Ok_iff refresh_progress_def show_event_def)
  moreover from q have "q = path_join dir nar" by (auto simp: cache_file_path_def sanitize_ok_iff)
  ultimately show ?thesis using fetch_files [OF f] write_fetched_file_Ok [OF wr] by auto
qed

lemma path_join_inj:
  "\<not> starts_with ''/'' a \<Longrightarrow> \<not> starts_with ''/'' b \<Longrightarrow> path_join dir a = path_join dir b \<longleftrightarrow> a = b"
  by (auto simp: path_join_def)

lemma narinfo_path_relative: "\<not> starts_with ''/'' (narinfo_path_for_store_path p)"
proof
  assume "starts_with ''/'' (narinfo_path_for_store_path p)"
  then obtain r where r: "store_path_hash p @ ''.narinfo'' = CHR ''/'' # r"
    by (auto simp: narinfo_path_for_store_path_def starts_with_iff)
  have h: "good_hash (store_path_hash p)" using store_path_text by blast
  then obtain c cs where c: "store_path_hash p = c # cs" by (cases "store_path_hash p") (auto simp: good_hash_def HASH_LEN_def)
  with r h have "base32_char (CHR ''/'')" by (auto simp: good_hash_def)
  then show False by (simp add: base32_char_def NIX_BASE32_def)
qed

lemma nar_form_relative: "nar_form q \<Longrightarrow> \<not> starts_with ''/'' q"
  by (auto simp: nar_form_def starts_with_iff)

lemma nar_not_narinfo: "nar_form q \<Longrightarrow> q \<noteq> narinfo_path_for_store_path p"
  by (auto simp: nar_form_def narinfo_path_for_store_path_def ends_with_iff)

text \<open>The narinfo of a path is mirrored, and it names a payload among \<open>nars\<close> if it is to be copied.\<close>

definition entry_mirrored :: "string \<Rightarrow> string list \<Rightarrow> (string \<Rightarrow> string option) \<Rightarrow> (string \<Rightarrow> bool) \<Rightarrow> store_path \<Rightarrow> bool" where
  "entry_mirrored dir copies fs has_nar p =
    (let narinfo = narinfo_path_for_store_path p in
     case fs (path_join dir narinfo) of
       None \<Rightarrow> False
     | Some bytes \<Rightarrow>
         if narinfo \<in> set copies then
           (case narinfo_nar_path bytes of
              Inl _ \<Rightarrow> False
            | Inr None \<Rightarrow> True
            | Inr (Some n) \<Rightarrow> has_nar n)
         else True)"

lemma entry_mirrored_mono:
  "entry_mirrored dir copies fs P p \<Longrightarrow> (\<And>n. P n \<Longrightarrow> Q n) \<Longrightarrow> entry_mirrored dir copies fs Q p"
  by (auto simp: entry_mirrored_def Let_def split: option.splits sum.splits if_splits)

lemma entry_mirrored_step:
  assumes "entry_mirrored dir copies fs P q"
    and "fs' = fs(path_join dir (narinfo_path_for_store_path p) \<mapsto> bytes)"
    and "if narinfo_path_for_store_path p \<in> set copies then narinfo_nar_path bytes = Ok nar else nar = None"
    and "\<And>n. P n \<or> nar = Some n \<Longrightarrow> Q n"
  shows "entry_mirrored dir copies fs' Q q"
proof (cases "narinfo_path_for_store_path q = narinfo_path_for_store_path p")
  case True
  with assms show ?thesis by (auto simp: entry_mirrored_def Let_def split: option.splits)
next
  case False
  then have "fs' (path_join dir (narinfo_path_for_store_path q)) = fs (path_join dir (narinfo_path_for_store_path q))"
    using assms(2) by (simp add: path_join_inj narinfo_path_relative)
  with assms(1) have "entry_mirrored dir copies fs' P q" by (simp add: entry_mirrored_def Let_def)
  then show ?thesis using assms(4) by (blast intro: entry_mirrored_mono)
qed

lemma entry_mirrored_new:
  assumes "fs' = fs(path_join dir (narinfo_path_for_store_path p) \<mapsto> bytes)"
    and "if narinfo_path_for_store_path p \<in> set copies then narinfo_nar_path bytes = Ok nar else nar = None"
    and "\<And>n. nar = Some n \<Longrightarrow> Q n"
  shows "entry_mirrored dir copies fs' Q p"
  using assms by (auto simp: entry_mirrored_def Let_def split: option.splits)

lemma mirror_metadata_complete:
  "mirror_metadata derived dir copies ps nars st w = (Ok (nars', st'), w') \<Longrightarrow>
   \<forall>q\<in>D. entry_mirrored dir copies (files w) (\<lambda>n. n \<in> set nars) q \<Longrightarrow>
   \<forall>q\<in>D \<union> set ps. entry_mirrored dir copies (files w') (\<lambda>n. n \<in> set nars') q"
proof (induction ps arbitrary: nars st w D)
  case Nil
  then show ?case by simp
next
  case (Cons p ps)
  let ?narinfo = "narinfo_path_for_store_path p"
  from Cons.prems(1) obtain nar st1 w1 where
    one: "mirror_narinfo derived dir ?narinfo (?narinfo \<in> set copies) st w = (Ok (nar, st1), w1)"
    and rest: "mirror_metadata derived dir copies ps (nars @ (case nar of None \<Rightarrow> [] | Some n \<Rightarrow> [n])) st1 w1
      = (Ok (nars', st'), w')"
    by (auto simp: bind_s_Ok_iff Let_def)
  let ?nars = "nars @ (case nar of None \<Rightarrow> [] | Some n \<Rightarrow> [n])"
  from mirror_narinfo_Ok [OF one] obtain bytes where
    b: "files w1 = (files w)(path_join dir ?narinfo \<mapsto> bytes)"
      "if ?narinfo \<in> set copies then narinfo_nar_path bytes = Ok nar else nar = None" by blast
  have old: "entry_mirrored dir copies (files w1) (\<lambda>n. n \<in> set ?nars) q" if "q \<in> D" for q
    by (rule entry_mirrored_step [OF _ b, where P = "\<lambda>n. n \<in> set nars"]) (use Cons.prems(2) that in auto)
  have new: "entry_mirrored dir copies (files w1) (\<lambda>n. n \<in> set ?nars) p"
    by (rule entry_mirrored_new [OF b]) auto
  from Cons.IH [OF rest, of "insert p D"] old new show ?case by auto
qed

lemma mirror_payloads_complete:
  "mirror_payloads derived dir nars st w = (Ok (), w') \<Longrightarrow> \<forall>n\<in>set nars. nar_form n \<Longrightarrow>
   (\<forall>n. n \<in> set nars \<or> files w (path_join dir n) \<noteq> None \<longrightarrow> files w' (path_join dir n) \<noteq> None)
   \<and> (\<forall>p. files w' (path_join dir (narinfo_path_for_store_path p)) = files w (path_join dir (narinfo_path_for_store_path p)))"
proof (induction nars arbitrary: st w)
  case Nil
  then show ?case by simp
next
  case (Cons n ns)
  from Cons.prems(1) obtain st1 w1 where one: "mirror_nar derived dir n st w = (Ok st1, w1)"
    and rest: "mirror_payloads derived dir ns st1 w1 = (Ok (), w')"
    by (auto simp: bind_s_Ok_iff)
  from mirror_nar_Ok [OF one] obtain bytes where b: "files w1 = (files w)(path_join dir n \<mapsto> bytes)" by blast
  have "path_join dir (narinfo_path_for_store_path p) \<noteq> path_join dir n" for p
    using Cons.prems(2) nar_not_narinfo [of n p]
    by (auto simp: path_join_inj narinfo_path_relative nar_form_relative)
  with b Cons.IH [OF rest] Cons.prems(2) show ?case by auto
qed

text \<open>
  C15: A mirror that is reported as done holds the narinfo of every path of the closure and the
  nar that the narinfo of each copied path names.
\<close>

theorem mirror_is_complete:
  fixes w :: "'n client_world"
  shows "(case mirror_cache_files derived dir closure_paths copies st w of
      (Inl e, w') \<Rightarrow> True
    | (Inr _, w') \<Rightarrow>
        list_all (\<lambda>p.
          let narinfo = narinfo_path_for_store_path p in
          case files w' (path_join dir narinfo) of
            None \<Rightarrow> False
          | Some bytes \<Rightarrow>
              if narinfo \<in> set copies then
                (case narinfo_nar_path bytes of
                   Inl _ \<Rightarrow> False
                 | Inr None \<Rightarrow> True
                 | Inr (Some n) \<Rightarrow> files w' (path_join dir n) \<noteq> None)
              else True) closure_paths)"
proof -
  have "list_all (entry_mirrored dir copies (files w') (\<lambda>n. files w' (path_join dir n) \<noteq> None)) closure_paths"
    if run: "mirror_cache_files derived dir closure_paths copies st w = (Ok (), w')" for w'
  proof -
    from run obtain nars st1 w1 where
      meta: "mirror_metadata derived dir copies closure_paths [] st w = (Ok (nars, st1), w1)"
      and pay: "mirror_payloads derived dir nars st1 w1 = (Ok (), w')"
      by (auto simp: mirror_cache_files_def bind_s_Ok_iff)
    have form: "\<forall>n\<in>set nars. nar_form n" using meta by (rule mirror_metadata_nars) simp
    note pays = mirror_payloads_complete [OF pay form]
    show ?thesis
      unfolding list_all_iff
    proof
      fix p
      assume "p \<in> set closure_paths"
      with mirror_metadata_complete [OF meta, of "{}"]
      have "entry_mirrored dir copies (files w1) (\<lambda>n. n \<in> set nars) p" by auto
      then have "entry_mirrored dir copies (files w1) (\<lambda>n. files w' (path_join dir n) \<noteq> None) p"
        by (rule entry_mirrored_mono) (use pays in blast)
      then show "entry_mirrored dir copies (files w') (\<lambda>n. files w' (path_join dir n) \<noteq> None) p"
        using pays by (simp add: entry_mirrored_def Let_def)
    qed
  qed
  then have goal: "list_all (entry_mirrored dir copies (files w') (\<lambda>n. files w' (path_join dir n) \<noteq> None)) closure_paths"
    if "mirror_cache_files derived dir closure_paths copies st w = (Inr u, w')" for u w'
    using that by simp
  obtain r w' where eq: "mirror_cache_files derived dir closure_paths copies st w = (r, w')" by fastforce
  show ?thesis
  proof (cases r)
    case (Inl e)
    with eq show ?thesis by simp
  next
    case (Inr u)
    with goal eq have "list_all (entry_mirrored dir copies (files w') (\<lambda>n. files w' (path_join dir n) \<noteq> None)) closure_paths"
      by blast
    then show ?thesis unfolding eq Inr prod.case sum.case entry_mirrored_def .
  qed
qed

end
