(* ===== verification/Import_Helper.thy ===== *)
theory Import_Helper
  imports Wire Nix_Commands
begin

text \<open>
  \<open>import_helper.rs\<close>: the privileged helper that imports signed outputs on behalf of a client
  whose user Nix does not trust. It listens on a Unix socket, reads one request per connection,
  and runs \<open>nix copy\<close> only for a builder key that the local configuration lists, a cache on the
  loopback interface and valid store paths. \<open>serde_json\<close>, the commands and the connecting of the
  socket are parameters. Trusted keys are a \<open>BTreeSet\<close>, a sorted map to \<open>()\<close>.
\<close>

definition DEFAULT_SOCKET_PATH :: string where "DEFAULT_SOCKET_PATH = ''/run/drv-thru/import-helper.sock''"
definition MAX_IMPORT_PATHS :: nat where "MAX_IMPORT_PATHS = 8192"
definition MAX_ERROR_CHARS :: nat where "MAX_ERROR_CHARS = 16 * 1024"

record import_request =
  ir_public_key :: string
  ir_cache_url :: string
  ir_paths :: "string list"

record import_response =
  ir_success :: bool
  ir_error :: "string option"

record validated_import_request =
  vi_public_key :: string
  vi_cache_url :: string
  vi_paths :: "store_path list"

type_synonym key_set = "(string, unit) btree_map"

record 'n helper_world = stream_world +
  helper_sys :: 'n
  helper_log :: "string list"
  socket_kind :: "string \<Rightarrow> (bool option) result"

section \<open>The socket\<close>

text \<open>
  \<open>socket_kind\<close> is what \<open>metadata\<close> says of a path: \<open>Ok None\<close> for \<open>NotFound\<close>, otherwise whether
  it is a socket.
\<close>

datatype helper_socket_state = Available | Missing | NotSocket | Inaccessible string

definition helper_socket_status :: "(bool option) result \<Rightarrow> helper_socket_state" where
  "helper_socket_status metadata =
    (case metadata of
       Inr (Some True) \<Rightarrow> Available
     | Inr (Some False) \<Rightarrow> NotSocket
     | Inr None \<Rightarrow> Missing
     | Inl err \<Rightarrow> Inaccessible (err_text err))"

definition remove_stale_socket :: "string \<Rightarrow> ('n helper_world, unit) step" where
  "remove_stale_socket socket w =
    (case socket_kind w socket of
       Inr (Some True) \<Rightarrow>
         (case context_s (''remove stale socket '' @ socket) (io_call ''remove_file'') w of
            (Inr _, w') \<Rightarrow> (Ok (), w'\<lparr>socket_kind := (socket_kind w')(socket := Ok None)\<rparr>)
          | (Inl e, w') \<Rightarrow> (Inl e, w'))
     | Inr (Some False) \<Rightarrow> (bail (socket @ '' exists and is not a Unix socket''), w)
     | Inr None \<Rightarrow> (Ok (), w)
     | Inl err \<Rightarrow> (Err (Context (''stat socket '' @ socket) err), w))"

text \<open>\<open>UnixListener::bind\<close> fails where something exists, and otherwise makes the socket.\<close>

definition bind_socket :: "string \<Rightarrow> ('n helper_world, unit) step" where
  "bind_socket socket w =
    (case (socket_kind w socket, io_call ''bind'' w) of
       (Inr None, (Inr _, w')) \<Rightarrow> (Ok (), w'\<lparr>socket_kind := (socket_kind w')(socket := Ok (Some True))\<rparr>)
     | (_, (_, w')) \<Rightarrow> (Err (lib_error ''bind''), w'))"

section \<open>Validation\<close>

definition validate_port :: "string \<Rightarrow> unit result" where
  "validate_port port =
    (if port = [] \<or> \<not> list_all is_ascii_digit port then bail ''cache URL must include a numeric port''
     else
       case parse_u16 port of
         None \<Rightarrow> Err (Context ''cache URL port is out of range'' (lib_error ''parse''))
       | Some n \<Rightarrow> if n = 0 then bail ''cache URL port must be non-zero'' else Ok ())"

definition validate_loopback_http_url :: "string \<Rightarrow> unit result" where
  "validate_loopback_http_url url =
    (if trim url \<noteq> url then bail ''cache URL has surrounding whitespace''
     else
       case strip_prefix ''http://'' url of
         None \<Rightarrow> bail ''cache URL must use http://''
       | Some authority \<Rightarrow>
           if authority = [] \<or> CHR ''/'' \<in> set authority \<or> CHR ''?'' \<in> set authority
              \<or> CHR ''#'' \<in> set authority \<or> CHR ''@'' \<in> set authority
           then bail ''cache URL must be a loopback HTTP origin only''
           else
             case strip_prefix ''127.0.0.1:'' authority of
               Some port \<Rightarrow> validate_port port
             | None \<Rightarrow>
                 (case strip_prefix ''[::1]:'' authority of
                    Some port \<Rightarrow> validate_port port
                  | None \<Rightarrow> bail ''cache URL host must be 127.0.0.1 or [::1]''))"

definition valid_key_name_char :: "char \<Rightarrow> bool" where
  "valid_key_name_char c \<longleftrightarrow> is_ascii_alphanumeric c \<or> c \<in> set ''._-''"

definition valid_base64_byte :: "char \<Rightarrow> bool" where
  "valid_base64_byte c \<longleftrightarrow> is_ascii_alphanumeric c \<or> c \<in> set ''+/=''"

definition validate_nix_public_key :: "string \<Rightarrow> unit result" where
  "validate_nix_public_key key =
    (if trim key \<noteq> key \<or> key = [] then bail ''builder public key is empty or has surrounding whitespace''
     else if list_ex is_whitespace (utf8_chars key) then bail ''builder public key contains whitespace''
     else
       case split_once CHR '':'' key of
         None \<Rightarrow> bail ''builder public key must be name:key''
       | Some (name, body) \<Rightarrow>
           if name = [] \<or> \<not> list_all (ascii_char valid_key_name_char) (utf8_chars name)
           then bail ''builder public key name is invalid''
           else if body = [] \<or> \<not> list_all valid_base64_byte body
           then bail ''builder public key body is invalid''
           else Ok ())"

definition validate_request_shape :: "import_request \<Rightarrow> validated_import_request result" where
  "validate_request_shape request =
    bind_r (validate_loopback_http_url (ir_cache_url request)) (\<lambda>_.
    bind_r (validate_nix_public_key (ir_public_key request)) (\<lambda>_.
    if ir_paths request = [] then bail ''import request path list is empty''
    else if MAX_IMPORT_PATHS < length (ir_paths request) then
      bail (''import request has too many paths: '' @ show_nat (length (ir_paths request)) @ '' > ''
        @ show_nat MAX_IMPORT_PATHS)
    else
      bind_r (collect_r store_path_new (ir_paths request)) (\<lambda>paths.
      Ok \<lparr>vi_public_key = ir_public_key request, vi_cache_url = ir_cache_url request, vi_paths = paths\<rparr>)))"

definition untrusted_key_text :: "string \<Rightarrow> string" where
  "untrusted_key_text key =
    ''builder public key is not allowed by local import helper trust config: '' @ key
    @ [CHR 0x0A, CHR 0x0A]
    @ ''Add this key to services.drv-thru.client.ticketHelper.trustedBuilderPublicKeys, rebuild, log out and back in if group membership changed, then retry.''"

definition validate_trusted_request :: "import_request \<Rightarrow> key_set \<Rightarrow> validated_import_request result" where
  "validate_trusted_request request trusted_public_keys =
    bind_r (validate_request_shape request) (\<lambda>request.
    if bt_get (vi_public_key request) trusted_public_keys = None
    then bail (untrusted_key_text (vi_public_key request))
    else Ok request)"

section \<open>The list of trusted keys\<close>

fun load_keys_loop :: "string \<Rightarrow> nat \<Rightarrow> string list \<Rightarrow> key_set \<Rightarrow> key_set result" where
  "load_keys_loop path index [] keys = Ok keys"
| "load_keys_loop path index (line # lines) keys =
    (let line = trim line in
     if line = [] \<or> starts_with ''#'' line then load_keys_loop path (index + 1) lines keys
     else
       bind_r (with_context (''invalid trusted builder public key at '' @ path @ '':'' @ show_nat (index + 1))
         (validate_nix_public_key line)) (\<lambda>_.
       load_keys_loop path (index + 1) lines (bt_insert line () keys)))"

definition load_trusted_public_keys :: "string \<Rightarrow> ('z io_world_scheme, key_set) step" where
  "load_trusted_public_keys path =
    bind_s (context_s (''read trusted builder public keys from '' @ path)
      (bind_s (fs_read_to_string path) (\<lambda>t. lift_r (case t of None \<Rightarrow> Err (lib_error ''read'') | Some s \<Rightarrow> Ok s))))
      (\<lambda>s. lift_r (load_keys_loop path 0 (str_lines s) []))"

definition public_key_name :: "string \<Rightarrow> string" where
  "public_key_name key = (case split_once CHR '':'' key of None \<Rightarrow> ''<invalid>'' | Some (name, _) \<Rightarrow> name)"

definition public_key_names :: "key_set \<Rightarrow> string" where
  "public_key_names keys =
    (let names = map (\<lambda>(key, _). public_key_name key) keys in
     if names = [] then ''<none>'' else join_with '','' names)"

section \<open>Requests and responses on the socket\<close>

definition helper_write_json :: "('m \<Rightarrow> string result) \<Rightarrow> 'm \<Rightarrow> ('z stream_world_scheme, unit) step" where
  "helper_write_json ser message =
    bind_s (lift_r (with_context ''encode helper message'' (ser message))) (\<lambda>body.
    if MAX_MESSAGE_LEN < length body then
      lift_r (bail (''helper message too large: '' @ show_nat (length body) @ '' bytes''))
    else
      bind_s (lift_r (if length body < 2 ^ 32 then Ok (of_nat (length body) :: u32)
                      else Err (Context ''helper message length overflow'' (lib_error ''try_from''))))
        (\<lambda>len.
      bind_s (stream_write_all (to_be_bytes len)) (\<lambda>_.
      bind_s (stream_write_all body) (\<lambda>_.
      io_call ''flush''))))"

definition helper_read_json :: "(string \<Rightarrow> 'm result) \<Rightarrow> ('z stream_world_scheme, 'm) step" where
  "helper_read_json de =
    bind_s (context_s ''read helper message length'' (stream_read_exact 4)) (\<lambda>len.
    let len = unat (from_be_bytes len) in
    if MAX_MESSAGE_LEN < len then
      lift_r (bail (''helper message too large: '' @ show_nat len @ '' bytes''))
    else
      bind_s (context_s ''read helper message body'' (stream_read_exact len)) (\<lambda>body.
      lift_r (with_context ''decode helper message'' (de body))))"

definition truncate_import_error :: "string \<Rightarrow> string" where
  "truncate_import_error message =
    (let chars = utf8_chars message; truncated = concat (take MAX_ERROR_CHARS chars) in
     if drop MAX_ERROR_CHARS chars \<noteq> [] then truncated @ [CHR 0x0A] @ ''[truncated]'' else truncated)"

text \<open>What the helper is built on: the JSON of requests and responses, and the commands.\<close>

record 'n helper_env =
  he_encode :: "import_response \<Rightarrow> string result"
  he_decode :: "string \<Rightarrow> import_request result"
  he_commands :: "'n commands"
  he_peer :: "u32 \<times> u32"

definition helper_commands :: "'n commands \<Rightarrow> 'n helper_world commands" where
  "helper_commands E = \<lparr>output_of = (\<lambda>program args.
     on_part helper_sys (\<lambda>n w. w\<lparr>helper_sys := n\<rparr>) (output_of E program args))\<rparr>"

definition log_helper :: "string \<Rightarrow> ('n helper_world, unit) step" where
  "log_helper line w = (Ok (), w\<lparr>helper_log := helper_log w @ [line]\<rparr>)"

definition request_line :: "u32 \<times> u32 \<Rightarrow> key_set \<Rightarrow> import_request \<Rightarrow> string" where
  "request_line peer keys request =
    ''drv-thru import-helper: uid='' @ show_word (fst peer) @ '' gid='' @ show_word (snd peer)
    @ '' builder='' @ public_key_name (ir_public_key request)
    @ '' trusted='' @ (if bt_get (ir_public_key request) keys \<noteq> None then ''true'' else ''false'')
    @ '' paths='' @ show_nat (length (ir_paths request))"

definition run_import_request :: "'n helper_env \<Rightarrow> key_set \<Rightarrow> ('n helper_world, unit) step" where
  "run_import_request E keys =
    bind_s (context_s ''read request'' (helper_read_json (he_decode E))) (\<lambda>request.
    bind_s (log_helper (request_line (he_peer E) keys request)) (\<lambda>_.
    bind_s (lift_r (validate_trusted_request request keys)) (\<lambda>request.
    copy_from_signed_binary_cache (helper_commands (he_commands E)) (vi_cache_url request)
      (vi_public_key request) CanPassPublicKey (vi_paths request))))"

definition import_response_of :: "unit result \<Rightarrow> import_response" where
  "import_response_of result =
    (case result of
       Inr _ \<Rightarrow> \<lparr>ir_success = True, ir_error = None\<rparr>
     | Inl err \<Rightarrow> \<lparr>ir_success = False, ir_error = Some (truncate_import_error (err_text err))\<rparr>)"

definition handle_import_connection :: "'n helper_env \<Rightarrow> key_set \<Rightarrow> ('n helper_world, unit) step" where
  "handle_import_connection E keys =
    match_s (run_import_request E keys) (\<lambda>result.
    context_s ''write response'' (helper_write_json (he_encode E) (import_response_of result)))"

text \<open>\<open>serve\<close> up to its accept loop, which hands every connection to the handler above.\<close>

definition helper_listen :: "string \<Rightarrow> key_set \<Rightarrow> ('n helper_world, unit) step" where
  "helper_listen socket keys =
    bind_s (case path_parent socket of
        None \<Rightarrow> ret ()
      | Some parent \<Rightarrow>
          context_s (''create import helper socket directory '' @ parent) (fs_create_dir_all parent)) (\<lambda>_.
    bind_s (remove_stale_socket socket) (\<lambda>_.
    bind_s (context_s (''bind import helper socket '' @ socket) (bind_socket socket)) (\<lambda>_.
    bind_s (context_s (''chmod import helper socket '' @ socket) (fs_set_permissions socket)) (\<lambda>_.
    log_helper (''drv-thru import-helper: listening on '' @ socket @ '' with '' @ show_nat (length keys)
      @ '' trusted builder key(s): '' @ public_key_names keys)))))"

section \<open>The client of the helper\<close>

datatype connect_outcome = Connected | Connect_Denied | Connect_Missing | Connect_Failed

definition connect_result :: "string \<Rightarrow> connect_outcome \<Rightarrow> unit result" where
  "connect_result socket outcome =
    (case outcome of
       Connected \<Rightarrow> Ok ()
     | Connect_Denied \<Rightarrow>
         bail (''cannot connect to drv-thru import helper at '' @ socket @ '': permission denied''
           @ [CHR 0x0A, CHR 0x0A]
           @ ''Add this user to services.drv-thru.client.ticketHelper.group (default: wheel), rebuild, log out and back in, then retry.'')
     | Connect_Missing \<Rightarrow>
         bail (''cannot connect to drv-thru import helper at '' @ socket @ '': socket not found''
           @ [CHR 0x0A, CHR 0x0A]
           @ ''Enable services.drv-thru.client.ticketHelper, rebuild, log out and back in, then retry.'')
     | Connect_Failed \<Rightarrow> Err (Context (''connect import helper socket '' @ socket) (lib_error ''connect'')))"

definition import_via_helper ::
  "(import_request \<Rightarrow> string result) \<Rightarrow> (string \<Rightarrow> import_response result) \<Rightarrow> connect_outcome \<Rightarrow>
     string \<Rightarrow> import_request \<Rightarrow> ('z stream_world_scheme, unit) step" where
  "import_via_helper encode decode outcome socket request =
    bind_s (lift_r (validate_request_shape request)) (\<lambda>_.
    bind_s (lift_r (connect_result socket outcome)) (\<lambda>_.
    bind_s (context_s ''send import helper request'' (helper_write_json encode request)) (\<lambda>_.
    bind_s (context_s ''read import helper response'' (helper_read_json decode)) (\<lambda>response.
    if ir_success response then ret ()
    else lift_r (bail (''import helper failed: ''
      @ (case ir_error response of Some e \<Rightarrow> e | None \<Rightarrow> ''unknown error'')))))))"


section \<open>The loopback origin\<close>

lemma validate_port_Ok_iff:
  "validate_port port = Inr u \<longleftrightarrow>
     port \<noteq> [] \<and> list_all is_ascii_digit port \<and> 1 \<le> digits_val port \<and> digits_val port \<le> 65535"
proof -
  have nz: "(of_nat n :: u16) = 0 \<longleftrightarrow> n = 0" if "n \<le> 65535" for n
    using that by (simp add: word_unat_eq_iff unsigned_of_nat take_bit_nat_eq_self)
  show ?thesis
    by (auto simp: validate_port_def parse_u16_def parse_unsigned_digits parse_digits_def nz
        split: option.splits if_splits)
qed

lemma digit_not_url_char: "is_ascii_digit c \<Longrightarrow> c \<notin> set ''/?#@''"
  by (auto simp: is_ascii_digit_def byte_def)

lemma loopback_authority:
  assumes "list_all is_ascii_digit port" "host = ''127.0.0.1:'' \<or> host = ''[::1]:''"
  shows "list_all visible (host @ port)" "CHR ''/'' \<notin> set (host @ port)" "CHR ''?'' \<notin> set (host @ port)"
    "CHR ''#'' \<notin> set (host @ port)" "CHR ''@'' \<notin> set (host @ port)"
proof -
  have "list_all visible host"
    using assms(2) by (elim disjE) (simp_all add: visible_def is_ascii_def is_space_byte_def byte_def)
  moreover have "list_all visible port"
    using assms(1) by (auto simp: list_all_iff visible_alphanumeric is_ascii_alphanumeric_def)
  ultimately show "list_all visible (host @ port)" by simp
  have port: "c \<notin> set port" if "c \<in> set ''/?#@''" for c
    using assms(1) that digit_not_url_char [of c] unfolding list_all_iff by blast
  have free: "CHR ''/'' \<notin> set port" "CHR ''?'' \<notin> set port" "CHR ''#'' \<notin> set port" "CHR ''@'' \<notin> set port"
    by (rule port, simp)+
  from assms(2) free show "CHR ''/'' \<notin> set (host @ port)" "CHR ''?'' \<notin> set (host @ port)"
    "CHR ''#'' \<notin> set (host @ port)" "CHR ''@'' \<notin> set (host @ port)"
    by (elim disjE; simp)+
qed

lemma loopback_url_accepted:
  assumes "list_all is_ascii_digit port" "host = ''127.0.0.1:'' \<or> host = ''[::1]:''"
  shows "validate_loopback_http_url (''http://'' @ host @ port) = validate_port port"
proof -
  note loopback_authority [OF assms]
  moreover from this have "list_all visible (''http://'' @ host @ port)"
    by (simp add: visible_def is_ascii_def is_space_byte_def byte_def)
  then have "trim (''http://'' @ host @ port) = ''http://'' @ host @ port" by (rule trim_visible)
  moreover have "strip_prefix ''127.0.0.1:'' (''[::1]:'' @ port) = None" by simp
  ultimately show ?thesis
    using assms(2) unfolding validate_loopback_http_url_def
    by (elim disjE) simp_all
qed

theorem loopback_url_exact:
  "validate_loopback_http_url url = Ok () \<longleftrightarrow>
    (\<exists>host port. (host = ''127.0.0.1'' \<or> host = ''[::1]'') \<and> url = ''http://'' @ host @ '':'' @ port
       \<and> port \<noteq> [] \<and> list_all is_ascii_digit port \<and> 1 \<le> digits_val port \<and> digits_val port \<le> 65535)"
  (is "?lhs \<longleftrightarrow> ?rhs")
proof
  assume ?lhs
  then obtain authority where "url = ''http://'' @ authority"
    "(\<exists>port. authority = ''127.0.0.1:'' @ port \<and> validate_port port = Inr ())
     \<or> (\<exists>port. authority = ''[::1]:'' @ port \<and> validate_port port = Inr ())"
    unfolding validate_loopback_http_url_def by (auto split: if_splits option.splits)
  then show ?rhs unfolding validate_port_Ok_iff by fastforce
next
  assume ?rhs
  then obtain host port where hp: "host = ''127.0.0.1'' \<or> host = ''[::1]''"
    "url = ''http://'' @ host @ '':'' @ port" "list_all is_ascii_digit port" "validate_port port = Ok ()"
    unfolding validate_port_Ok_iff by blast
  then have "validate_loopback_http_url (''http://'' @ (host @ '':'') @ port) = validate_port port"
    by (intro loopback_url_accepted) auto
  with hp show ?lhs by simp
qed

section \<open>The trusted keys\<close>

text \<open>The lines that name a key: trimmed, not empty, not a comment.\<close>

definition key_lines :: "string list \<Rightarrow> string list" where
  "key_lines lines = filter (\<lambda>l. l \<noteq> [] \<and> \<not> starts_with ''#'' l) (map trim lines)"

lemma key_lines_Cons:
  "key_lines (l # ls) =
    (if trim l = [] \<or> starts_with ''#'' (trim l) then key_lines ls else trim l # key_lines ls)"
  by (simp add: key_lines_def)

lemma load_keys_loop_Ok_iff:
  "load_keys_loop path i lines keys = Inr ks \<longleftrightarrow>
    list_all (\<lambda>l. validate_nix_public_key l = Ok ()) (key_lines lines)
    \<and> ks = bt_extend keys (map (\<lambda>l. (l, ())) (key_lines lines))"
proof (induction lines arbitrary: i keys)
  case Nil
  show ?case by (auto simp: key_lines_def bt_extend_def)
next
  case (Cons l ls)
  then show ?case by (auto simp: key_lines_Cons bt_extend_def Let_def)
qed

text \<open>
  The trusted keys of the helper are exactly the lines of its file that are neither empty nor
  comments, all of them well-formed.
\<close>

theorem trusted_keys_exact:
  "(case load_trusted_public_keys path w of
      (Inl e, w') \<Rightarrow> files w' = files w
    | (Inr keys, w') \<Rightarrow> files w' = files w
        \<and> (\<exists>t. files w path = Some t
            \<and> list_all (\<lambda>l. validate_nix_public_key l = Ok ()) (key_lines (str_lines t))
            \<and> (\<forall>k. bt_get k keys = Some () \<longleftrightarrow> k \<in> set (key_lines (str_lines t)))))"
proof -
  let ?pairs = "\<lambda>ls. map (\<lambda>l. (l, ())) ls"
  have get: "bt_get k (bt_extend [] (?pairs ls)) = Some () \<longleftrightarrow> k \<in> set ls" for k :: string and ls
  proof -
    have "bt_get k (bt_extend [] (?pairs ls)) = map_of (rev (?pairs ls)) k"
      using bt_get_collect by (simp add: bt_collect_def bt_extend_def)
    also have "\<dots> = Some () \<longleftrightarrow> k \<in> set ls"
    proof -
      have "map_of (rev (?pairs ls)) k \<noteq> None \<longleftrightarrow> k \<in> set ls"
        unfolding map_of_eq_None_iff by (auto simp: image_image)
      then show ?thesis by auto
    qed
    finally show ?thesis .
  qed
  show ?thesis
    by (auto simp: load_trusted_public_keys_def fs_read_to_string_def fs_read_def bind_s_def
        context_s_def ticked_def load_keys_loop_Ok_iff get split: prod.splits sum.splits option.splits fault.splits
        dest: from_utf8_Ok)
qed


section \<open>What the helper runs\<close>

lemma tracks_run_nix [tracking]:
  assumes "\<And>program args. tracks get (output_of E' program args) (output_of E program args)"
  shows "tracks get (run_nix_command E' args what) (run_nix_command E args what)"
  unfolding run_nix_command_def Let_def
proof (intro tracking assms)
  fix o1
  show "tracks get
      (if \<not> exit_ok o1
       then if trim (utf8_lossy (err_bytes o1)) = [] then lift_r (bail (what @ '' failed with '' @ exit_text o1))
            else lift_r (bail (what @ '' failed: '' @ trim (utf8_lossy (err_bytes o1))))
       else ret ())
      (if \<not> exit_ok o1
       then if trim (utf8_lossy (err_bytes o1)) = [] then lift_r (bail (what @ '' failed with '' @ exit_text o1))
            else lift_r (bail (what @ '' failed: '' @ trim (utf8_lossy (err_bytes o1))))
       else ret ())"
    by (simp add: tracks_units)
qed

lemma tracks_copy_from_chunks:
  assumes "\<And>program args. tracks get (output_of E' program args) (output_of E program args)"
  shows "tracks get (copy_from_chunks E' url key trust chunks) (copy_from_chunks E url key trust chunks)"
proof (induction chunks)
  case Nil
  show ?case by (simp add: tracks_units)
next
  case (Cons chunk rest)
  have rest: "tracks get
      (case r of
        Inl err \<Rightarrow>
          if is_signature_or_trust_error (err_text err) then
            lift_r (bail (''signed cache/public key import failed; Nix rejected cache signatures/trust: ''
                          @ err_text err))
          else lift_r (Err err)
      | Inr _ \<Rightarrow> copy_from_chunks E' url key trust rest)
      (case r of
        Inl err \<Rightarrow>
          if is_signature_or_trust_error (err_text err) then
            lift_r (bail (''signed cache/public key import failed; Nix rejected cache signatures/trust: ''
                          @ err_text err))
          else lift_r (Err err)
      | Inr _ \<Rightarrow> copy_from_chunks E url key trust rest)" for r
    using Cons.IH by (cases r) (simp_all add: tracks_units)
  show ?case
    unfolding copy_from_chunks.simps by (intro tracks_match_s tracks_run_nix assms rest)
qed

lemma tracks_copy_from:
  assumes "\<And>program args. tracks get (output_of E' program args) (output_of E program args)"
  shows "tracks get (copy_from_signed_binary_cache E' url key trust ps) (copy_from_signed_binary_cache E url key trust ps)"
  using tracks_copy_from_chunks [of get E' E, OF assms]
  by (simp add: copy_from_signed_binary_cache_def Let_def tracks_units)

lemma helper_commands_track:
  "tracks helper_sys (output_of (helper_commands E) program args) (output_of E program args)"
  unfolding helper_commands_def by (simp add: tracks_on_part)

lemma stream_calls_keep_sys:
  "keeps (\<lambda>w w'. helper_sys w' = helper_sys w) (stream_read_exact n)"
  "keeps (\<lambda>w w'. helper_sys w' = helper_sys w) (stream_write_all bytes)"
  "keeps (\<lambda>w w'. helper_sys w' = helper_sys w) (io_call c)"
  by (auto simp: keeps_def stream_read_exact_def stream_write_all_def io_call_def ticked_def split: fault.splits)

abbreviation same_helper_sys :: "'n helper_world \<Rightarrow> 'n helper_world \<Rightarrow> bool" where
  "same_helper_sys w w' \<equiv> helper_sys w' = helper_sys w"

lemma same_helper_sys_rel [simp]: "reflp same_helper_sys" "transp same_helper_sys"
  by (auto simp: reflp_def transp_def)

lemma helper_read_keeps_sys: "keeps same_helper_sys (helper_read_json de)"
  unfolding helper_read_json_def Let_def
  by (intro keeps_bind_s keeps_context_s stream_calls_keep_sys same_helper_sys_rel)
    (auto intro!: keeps_bind_s keeps_context_s stream_calls_keep_sys)

lemma helper_write_keeps_sys: "keeps same_helper_sys (helper_write_json ser m)"
  unfolding helper_write_json_def
  by (intro keeps_bind_s keeps_lift_r same_helper_sys_rel)
    (auto intro!: keeps_bind_s stream_calls_keep_sys)

lemma validate_trusted_request_Ok:
  "validate_trusted_request request keys = Inr v \<longleftrightarrow>
     bt_get (ir_public_key request) keys = Some ()
     \<and> validate_loopback_http_url (ir_cache_url request) = Ok ()
     \<and> validate_nix_public_key (ir_public_key request) = Ok ()
     \<and> 1 \<le> length (ir_paths request) \<and> length (ir_paths request) \<le> 8192
     \<and> (\<exists>paths. collect_r store_path_new (ir_paths request) = Ok paths
         \<and> v = \<lparr>vi_public_key = ir_public_key request, vi_cache_url = ir_cache_url request, vi_paths = paths\<rparr>)"
  by (auto simp: validate_trusted_request_def validate_request_shape_def MAX_IMPORT_PATHS_def Suc_le_eq
      split: if_splits) (metis validated_import_request.select_convs(1))

text \<open>
  C17: The privileged helper runs a command only for a request that it read whole, whose builder
  key the local configuration lists, whose cache is on the loopback interface and whose 1 to
  8192 paths are store paths; it then copies exactly those.
\<close>

theorem helper_imports_only_trusted:
  fixes w :: "'n helper_world"
  shows "(case handle_import_connection E keys w of (r, w') \<Rightarrow>
    helper_sys w' = helper_sys w
    \<or> (\<exists>request paths w1. helper_read_json (he_decode E) w = (Ok request, w1)
         \<and> bt_get (ir_public_key request) keys = Some ()
         \<and> validate_loopback_http_url (ir_cache_url request) = Ok ()
         \<and> 1 \<le> length paths \<and> length paths \<le> 8192 \<and> ir_paths request = map as_str paths
         \<and> helper_sys w' = snd (copy_from_signed_binary_cache (he_commands E) (ir_cache_url request)
              (ir_public_key request) CanPassPublicKey paths (helper_sys w))))"
proof -
  obtain r1 w1 where run: "run_import_request E keys w = (r1, w1)" by fastforce
  obtain r w' where handle: "handle_import_connection E keys w = (r, w')" by fastforce
  have "keeps same_helper_sys (context_s ''write response'' (helper_write_json (he_encode E) (import_response_of r1)))"
    by (intro keeps_context_s helper_write_keeps_sys)
  moreover have "context_s ''write response'' (helper_write_json (he_encode E) (import_response_of r1)) w1 = (r, w')"
    using handle run by (simp add: handle_import_connection_def match_s_def)
  ultimately have w': "helper_sys w' = helper_sys w1" by (rule keepsD)
  obtain r2 w2 where read: "helper_read_json (he_decode E) w = (r2, w2)" by fastforce
  with helper_read_keeps_sys have w2: "helper_sys w2 = helper_sys w" by (rule keepsD)
  have "helper_sys w1 = helper_sys w \<or> (\<exists>request v. r2 = Ok request
      \<and> validate_trusted_request request keys = Ok v
      \<and> helper_sys w1 = snd (copy_from_signed_binary_cache (he_commands E) (vi_cache_url v)
            (vi_public_key v) CanPassPublicKey (vi_paths v) (helper_sys w)))"
  proof (cases r2)
    case (Inl e)
    with run read w2 show ?thesis by (simp add: run_import_request_def bind_s_def context_s_def)
  next
    case (Inr request)
    show ?thesis
    proof (cases "validate_trusted_request request keys")
      case (Inl e)
      with Inr run read w2 show ?thesis
        by (auto simp: run_import_request_def bind_s_def context_s_def log_helper_def)
    next
      case valid: (Inr v)
      let ?copy = "\<lambda>E. copy_from_signed_binary_cache E (vi_cache_url v) (vi_public_key v) CanPassPublicKey (vi_paths v)"
      have "?copy (helper_commands (he_commands E))
          (w2\<lparr>helper_log := helper_log w2 @ [request_line (he_peer E) keys request]\<rparr>) = (r1, w1)"
        using run read Inr valid by (simp add: run_import_request_def bind_s_def context_s_def log_helper_def)
      with tracks_copy_from [OF helper_commands_track]
      have "?copy (he_commands E) (helper_sys (w2\<lparr>helper_log := helper_log w2 @ [request_line (he_peer E) keys request]\<rparr>))
          = (r1, helper_sys w1)" by (rule tracksD)
      with w2 Inr valid show ?thesis by simp
    qed
  qed
  then show ?thesis
  proof (elim disjE exE conjE)
    assume "helper_sys w1 = helper_sys w"
    with handle w' show ?thesis by simp
  next
    fix request v
    assume v: "r2 = Ok request" "validate_trusted_request request keys = Ok v"
      "helper_sys w1 = snd (copy_from_signed_binary_cache (he_commands E) (vi_cache_url v)
            (vi_public_key v) CanPassPublicKey (vi_paths v) (helper_sys w))"
    from v(2) obtain paths where "collect_r store_path_new (ir_paths request) = Ok paths"
      and vi: "v = \<lparr>vi_public_key = ir_public_key request, vi_cache_url = ir_cache_url request, vi_paths = paths\<rparr>"
      and ok: "bt_get (ir_public_key request) keys = Some ()"
        "validate_loopback_http_url (ir_cache_url request) = Ok ()"
        "1 \<le> length (ir_paths request)" "length (ir_paths request) \<le> 8192"
      unfolding validate_trusted_request_Ok by blast
    then have "ir_paths request = map as_str paths" by (simp add: collect_store_paths)
    with ok v(1,3) read handle w' vi show ?thesis by auto
  qed
qed

end
