(* ===== verification/Client_Cache.thy ===== *)
theory Client_Cache
  imports Cache_Mirror Import_Helper
begin

text \<open>
  \<open>client_cache/mod.rs\<close>: how the outputs of a build come to the client. The signed cache is
  mirrored into a directory, served to Nix over the local HTTP bridge (\<open>Local_Cache\<close>), and copied
  from there either directly or through the import helper (\<open>Import_Helper\<close>).
\<close>

text \<open>
  What the code does not fix itself: the commands, the socket of the helper and what it answers, the
  directory for temporary files, the variable and the processors that set the number of fetches.
\<close>

record 'n cache_env =
  ce_commands :: "((string \<Rightarrow> string option) \<times> 'n) commands"
  ce_debug :: "message \<Rightarrow> string"
  ce_socket :: "(bool option) result"
  ce_connect :: connect_outcome
  ce_encode :: "import_request \<Rightarrow> string result"
  ce_decode :: "string \<Rightarrow> import_response result"
  ce_answer :: string
  ce_temp_dir :: string
  ce_pid :: u32
  ce_nanos :: nat
  ce_bridge_url :: string
  ce_fetches_var :: "string option"
  ce_cpus :: "nat option"

section \<open>The import method\<close>

datatype output_import_method = Direct signed_cache_import_trust | Helper

definition helper_status_text :: "helper_socket_state \<Rightarrow> string" where
  "helper_status_text status =
    (case status of
       Available \<Rightarrow>
         ''A drv-thru import helper is available at '' @ DEFAULT_SOCKET_PATH @ '', but it was not selected.''
     | Missing \<Rightarrow> ''No drv-thru import helper socket was found at '' @ DEFAULT_SOCKET_PATH @ ''.''
     | NotSocket \<Rightarrow> ''The path '' @ DEFAULT_SOCKET_PATH @ '' exists, but it is not a Unix socket.''
     | Inaccessible err \<Rightarrow>
         ''The drv-thru import helper socket at '' @ DEFAULT_SOCKET_PATH @ '' could not be inspected: '' @ err)"

text \<open>The lines of advice at the end of the message.\<close>

definition setup_advice :: "string list" where
  "setup_advice =
     [''On an admin client machine, install the client module; the helper defaults on for wheel users:'',
      [],
      ''services.drv-thru.client.enable = true;'',
      [],
      ''For ticket-helper imports, allow the builder signing key locally:'',
      [],
      ''services.drv-thru.client.ticketHelper.trustedBuilderPublicKeys = [ '' @ [CHR 0x22] @ ''<builder-public-key>'' @ [CHR 0x22] @ '' ];'',
      [],
      ''For delegated non-admin access, use a narrower helper group:'',
      [],
      ''services.drv-thru.client.ticketHelper.group = '' @ [CHR 0x22] @ ''drv-thru'' @ [CHR 0x22] @ '';'',
      ''users.users.<name>.extraGroups = [ '' @ [CHR 0x22] @ ''drv-thru'' @ [CHR 0x22] @ '' ];'',
      [],
      ''Then rebuild, log out and back in if group membership changed, and retry.'',
      [],
      ''For a persistent trusted builder, add its signing key to:'',
      [],
      ''services.drv-thru.client.trustedBuilders.<name>.publicKey'',
      [],
      [CHR 0x60] @ ''nix run github:adeci/drv-thru#drv-thru'' @ [CHR 0x60] @ '' only runs the CLI; it does not install the helper or change Nix trust.'']"

definition output_import_setup_error :: "string \<Rightarrow> helper_socket_state \<Rightarrow> string" where
  "output_import_setup_error direct_import_error status =
    join_with [CHR 0x0A]
      ([''This client cannot import outputs from this ticket builder.'', [],
        ''Nix does not trust this builder key for the current user, and no usable drv-thru import helper is available.'',
        helper_status_text status, []] @ setup_advice)"

definition choose_output_import_method ::
  "string + signed_cache_import_trust \<Rightarrow> helper_socket_state \<Rightarrow> string + output_import_method" where
  "choose_output_import_method direct_import status =
    (case direct_import of
       Inr trust \<Rightarrow> Inr (Direct trust)
     | Inl err \<Rightarrow>
         if status = Available then Inr Helper else Inl (output_import_setup_error err status))"

definition output_import_method :: "'n cache_env \<Rightarrow> string \<Rightarrow> ('n client_world, output_import_method) step" where
  "output_import_method E key =
    match_s (signed_cache_import_trust (client_commands (ce_commands E)) key) (\<lambda>r.
    case r of
      Inr trust \<Rightarrow> ret (Direct trust)
    | Inl err \<Rightarrow>
        lift_r (case choose_output_import_method (Inl (err_text err)) (helper_socket_status (ce_socket E)) of
                  Inr m \<Rightarrow> Ok m
                | Inl message \<Rightarrow> bail message))"

definition preflight_output_import :: "'n cache_env \<Rightarrow> string \<Rightarrow> ('n client_world, unit) step" where
  "preflight_output_import E key = bind_s (output_import_method E key) (\<lambda>_. ret ())"

section \<open>The import\<close>

definition cache_bridge_status_error :: "anyhow \<Rightarrow> bool" where
  "cache_bridge_status_error err \<longleftrightarrow>
    list_ex (\<lambda>message. starts_with ''cache bridge returned 404'' message
               \<or> starts_with ''cache bridge returned 502'' message) (err_chain err)"

text \<open>The exchange with the helper, on a socket of its own.\<close>

definition ask_helper :: "'n cache_env \<Rightarrow> import_request \<Rightarrow> ('n client_world, unit) step" where
  "ask_helper E request w =
    (case import_via_helper (ce_encode E) (ce_decode E) (ce_connect E) DEFAULT_SOCKET_PATH request
        \<lparr>files = files w, clock = clock w, faults = faults w, ticks = ticks w,
         incoming = ce_answer E, sent = []\<rparr> of
       (r, s) \<Rightarrow> (r, w\<lparr>ticks := ticks s\<rparr>))"

definition copy_outputs ::
  "'n cache_env \<Rightarrow> output_import_method \<Rightarrow> string \<Rightarrow> store_path list \<Rightarrow> ('n client_world, unit) step" where
  "copy_outputs E how key copies =
    (case how of
       Direct trust \<Rightarrow>
         copy_from_signed_binary_cache (client_commands (ce_commands E)) (ce_bridge_url E) key trust copies
     | Helper \<Rightarrow>
         ask_helper E \<lparr>ir_public_key = key, ir_cache_url = ce_bridge_url E, ir_paths = map as_str copies\<rparr>)"

definition start_bridge :: "('n client_world, unit) step" where
  "start_bridge = context_s ''bind local cache server'' (io_call ''bind'')"

definition stop_bridge :: "('n client_world, unit) step" where
  "stop_bridge = io_call ''local cache server''"

fun and_r :: "unit result \<Rightarrow> unit result \<Rightarrow> unit result" where
  "and_r (Inl e) r = Inl e"
| "and_r (Inr u) r = r"

definition import_outcome :: "unit result \<Rightarrow> unit result \<Rightarrow> u64 \<Rightarrow> u64 result" where
  "import_outcome copy_result bridge_result bytes =
    (case (copy_result, bridge_result) of
       (Inr _, Inr _) \<Rightarrow> Ok bytes
     | (Inl err, Inr _) \<Rightarrow> Err err
     | (Inr _, Inl err) \<Rightarrow> Err err
     | (Inl copy_err, Inl bridge_err) \<Rightarrow>
         if cache_bridge_status_error bridge_err then Err (Context (err_text bridge_err) copy_err)
         else Err copy_err)"

definition copy_through_bridge ::
  "'n cache_env \<Rightarrow> output_import_method \<Rightarrow> string \<Rightarrow> store_path list \<Rightarrow> string \<Rightarrow> ('n client_world, u64) step" where
  "copy_through_bridge E how key copies dir =
    bind_s start_bridge (\<lambda>_.
    match_s (copy_outputs E how key copies) (\<lambda>copy_result.
    match_s stop_bridge (\<lambda>server_result.
    match_s (mirror_cleanup dir) (\<lambda>mirror_result w.
    (import_outcome copy_result (and_r server_result mirror_result) (transferred w),
     w\<lparr>console := console w @ [Clear_Phase]\<rparr>)))))"

definition import_outputs_from_cache ::
  "'n cache_env \<Rightarrow> output_cache_ready \<Rightarrow> string \<Rightarrow> string list \<Rightarrow> nat option \<Rightarrow> ('n client_world, u64) step" where
  "import_outputs_from_cache E cache key closure nar_fetches =
    bind_s (lift_r (collect_r store_path_new (copy_paths cache))) (\<lambda>copies.
    bind_s (lift_r (collect_r store_path_new closure)) (\<lambda>closure_paths.
    bind_s (phase ''checking output import trust'') (\<lambda>_.
    bind_s (output_import_method E key) (\<lambda>how.
    bind_s (transfer ''mirroring signed output cache'') (\<lambda>_.
    bind_s (lift_r (parallel_nar_fetches nar_fetches (ce_fetches_var E) (ce_cpus E))) (\<lambda>fetches.
    let st = cache_progress_new (length closure_paths) (length copies) fetches in
    bind_s (refresh_progress st) (\<lambda>_.
    bind_s (mirror_build (ce_debug E) (create_local_cache_dir (ce_temp_dir E) (ce_pid E) (ce_nanos E))
              closure_paths copies st) (\<lambda>dir.
    copy_through_bridge E how key copies dir))))))))"

definition read_server_done :: "(message \<Rightarrow> string) \<Rightarrow> ('n client_world, unit) step" where
  "read_server_done derived =
    bind_s recv_message (\<lambda>message.
    case message of
      Done \<Rightarrow> ret ()
    | Error err \<Rightarrow> lift_r (bail (message_text err))
    | message \<Rightarrow> lift_r (bail (''unexpected server message: '' @ debug_message derived message)))"

definition finish_import :: "'n cache_env \<Rightarrow> u64 result \<Rightarrow> ('n client_world, u64) step" where
  "finish_import E import_result =
    match_s (send_message OutputCacheDone) (\<lambda>done_result.
    match_s (if is_ok done_result then read_server_done (ce_debug E) else ret ()) (\<lambda>server_done_result.
    lift_r (bind_r import_result (\<lambda>bytes.
            bind_r done_result (\<lambda>_.
            bind_r server_done_result (\<lambda>_. Ok bytes))))))"

definition import_output_cache ::
  "'n cache_env \<Rightarrow> string \<Rightarrow> string list \<Rightarrow> nat option \<Rightarrow> ('n client_world, u64) step" where
  "import_output_cache E key closure nar_fetches =
    bind_s (phase ''waiting for signed output cache'') (\<lambda>_.
    bind_s recv_message (\<lambda>message.
    case message of
      OutputCacheReady cache \<Rightarrow>
        match_s (import_outputs_from_cache E cache key closure nar_fetches) (finish_import E)
    | Done \<Rightarrow> ret 0
    | Error err \<Rightarrow> lift_r (bail (message_text err))
    | message \<Rightarrow> lift_r (bail (''unexpected server message: '' @ debug_message (ce_debug E) message))))"

section \<open>Off the wire\<close>

text \<open>What leaves the control stream and the uploads alone.\<close>

definition off_wire :: "'n client_world \<Rightarrow> 'n client_world \<Rightarrow> bool" where
  "off_wire w w' \<longleftrightarrow> rx w' = rx w \<and> tx w' = tx w \<and> uploaded w' = uploaded w \<and> faults w' = faults w"

lemma off_wire_rel [simp]: "reflp off_wire" "transp off_wire"
  by (auto simp: reflp_def transp_def off_wire_def)

named_theorems offwire

lemma offwire_combine [offwire]:
  "keeps off_wire (ret x)" "keeps off_wire (lift_r r)"
  "keeps off_wire m \<Longrightarrow> (\<And>x. keeps off_wire (f x)) \<Longrightarrow> keeps off_wire (bind_s m f)"
  "keeps off_wire m \<Longrightarrow> (\<And>x. keeps off_wire (g x)) \<Longrightarrow> keeps off_wire (match_s m g)"
  "keeps off_wire m \<Longrightarrow> keeps off_wire (context_s c m)"
  by auto

lemma offwire_mirrors: "keeps (mirrors dir ok) m \<Longrightarrow> keeps off_wire m"
  by (simp add: keeps_def mirrors_def off_wire_def)

lemma offwire_simple [offwire]:
  "keeps off_wire (show_event e)" "keeps off_wire (phase s)" "keeps off_wire clear_phase"
  "keeps off_wire (transfer s)" "keeps off_wire (refresh_progress st)"
  "keeps off_wire (io_call c)" "keeps off_wire (mirror_cleanup dir)" "keeps off_wire start_bridge"
  "keeps off_wire stop_bridge" "keeps off_wire (cl_step m)" "keeps off_wire (ask_helper E q)"
  by (auto simp: keeps_def off_wire_def show_event_def phase_def clear_phase_def transfer_def
      refresh_progress_def io_call_def mirror_cleanup_def ticked_def cl_step_def on_part_def
      start_bridge_def stop_bridge_def ask_helper_def context_s_def split: fault.splits prod.splits)

lemma offwire_commands [offwire]: "keeps off_wire (output_of (client_commands C) program args)"
  by (simp add: client_commands_def offwire)


lemma offwire_import_trust [offwire]:
  "keeps off_wire (signed_cache_import_trust (client_commands C) key)"
  unfolding signed_cache_import_trust_def current_uid_is_root_def current_user_name_def current_group_names_def
    nix_config_values_def run_command_def command_output_def Let_def
  by (auto intro!: offwire)

lemma offwire_method [offwire]: "keeps off_wire (output_import_method E key)"
  unfolding output_import_method_def by (auto intro!: offwire split: sum.split)

lemma offwire_copy_from_chunks [offwire]:
  "keeps off_wire (copy_from_chunks (client_commands C) url key trust chunks)"
proof (induction chunks)
  case Nil
  show ?case by (simp only: copy_from_chunks.simps offwire)
next
  case (Cons c cs)
  then show ?case
    unfolding copy_from_chunks.simps run_nix_command_def Let_def by (auto intro!: offwire split: sum.split)
qed

lemma offwire_copy_outputs [offwire]: "keeps off_wire (copy_outputs E how key copies)"
  unfolding copy_outputs_def copy_from_signed_binary_cache_def Let_def
  by (auto intro!: offwire split: output_import_method.split)

lemma offwire_copy_through_bridge [offwire]: "keeps off_wire (copy_through_bridge E how key copies dir)"
proof -
  have clear: "keeps off_wire (\<lambda>w. (f w, w\<lparr>console := console w @ [Clear_Phase]\<rparr>))"
    for f :: "'a client_world \<Rightarrow> u64 result" by (simp add: keeps_def off_wire_def)
  show ?thesis unfolding copy_through_bridge_def by (intro offwire clear)
qed

lemma offwire_create_dir [offwire]: "keeps off_wire (create_local_cache_dir t p n)"
  unfolding create_local_cache_dir_def Let_def fs_create_dir_all_def by (intro offwire)

lemma offwire_mirror_build [offwire]:
  "keeps off_wire (mirror_build derived (create_local_cache_dir t p n) closure_paths copies st)"
proof -
  have "keeps off_wire (write_nix_cache_info dir)" for dir
    unfolding write_nix_cache_info_def by (rule offwire_mirrors, rule mirroring_write_bytes)
  moreover have "keeps off_wire (mirror_cache_files derived dir closure_paths ns st)" for dir ns
    by (rule offwire_mirrors, rule mirror_cache_files_keeps)
  ultimately show ?thesis unfolding mirror_build_def by (intro offwire)
qed

lemma offwire_import [offwire]: "keeps off_wire (import_outputs_from_cache E cache key closure n)"
  unfolding import_outputs_from_cache_def Let_def by (intro offwire)

section \<open>The conversation about the cache\<close>

text \<open>
  An import ends on the control stream as the builder expects: once the cache is announced, the
  client reports that it is done with it, whether or not the import worked, and a successful
  import has seen the builder's own end.
\<close>

text \<open>
  An import that succeeds has told the builder once that it is done and has read its Done;
  a failed one has said so at most once; nothing is uploaded.
\<close>

theorem import_closes_the_conversation:
  fixes w :: "'n client_world"
  shows "(case import_output_cache E key closure nar_fetches w of
      (Inl e, w') \<Rightarrow> tx w' = tx w \<or> tx w' = tx w @ [OutputCacheDone]
    | (Inr n, w') \<Rightarrow>
        (case rx w of
           Inr Done # rest \<Rightarrow> n = 0 \<and> rx w' = rest \<and> tx w' = tx w
         | Inr (OutputCacheReady cache) # Inr Done # rest \<Rightarrow> rx w' = rest \<and> tx w' = tx w @ [OutputCacheDone]
         | _ \<Rightarrow> False))
    \<and> uploaded (snd (import_output_cache E key closure nar_fetches w)) = uploaded w"
proof -
  let ?w1 = "w\<lparr>console := console w @ [Phase ''waiting for signed output cache'']\<rparr>"
  obtain r w' where eq: "import_output_cache E key closure nar_fetches w = (r, w')" by fastforce
  show ?thesis
  proof (cases "\<exists>cache rest. rx w = Inr (OutputCacheReady cache) # rest")
    case False
    with eq show ?thesis
      by (auto simp: import_output_cache_def bind_s_def phase_def show_event_def recv_message_def
          split: list.splits sum.splits message.splits)
  next
    case True
    then obtain cache rest where rx: "rx w = Inr (OutputCacheReady cache) # rest" by blast
    obtain r2 w2 where imp: "import_outputs_from_cache E cache key closure nar_fetches (?w1\<lparr>rx := rest\<rparr>) = (r2, w2)"
      by fastforce
    have "off_wire (?w1\<lparr>rx := rest\<rparr>) w2" using offwire_import imp by (rule keepsD)
    then have w2: "rx w2 = rest" "tx w2 = tx w" "uploaded w2 = uploaded w" by (simp_all add: off_wire_def)
    have "finish_import E r2 w2 = (r, w')"
      using eq imp rx
      by (simp add: import_output_cache_def bind_s_def phase_def show_event_def recv_message_def match_s_def)
    then have fin: "(case r of
        Inl e \<Rightarrow> tx w' = tx w2 \<or> tx w' = tx w2 @ [OutputCacheDone]
      | Inr n \<Rightarrow> tx w' = tx w2 @ [OutputCacheDone] \<and> rx w2 = Inr Done # rx w') \<and> uploaded w' = uploaded w2"
      by (cases "next_fault w2")
        (auto simp: finish_import_def match_s_def send_message_def read_server_done_def recv_message_def
          bind_s_def ticked_def split: list.splits sum.splits message.splits prod.splits)
    with eq rx w2 show ?thesis by (cases r) auto
  qed
qed


section \<open>A mirror that failed\<close>

text \<open>
  \<open>import_outputs_from_cache\<close> removes the mirror only at its end. If the mirroring itself fails, the
  error is returned at once, and the directory stays with what was written to it.
\<close>

lemma mirror_build_without_streams:
  fixes w :: "'n client_world"
  assumes "faults w = (\<lambda>n. Fine)" "file_replies w = []"
  shows "\<exists>e w'. mirror_build derived (create_local_cache_dir t p n) (c # cs) copies st w = (Inl e, w')
    \<and> files w' (path_join (path_join t (''drv-thru-cache-'' @ show_word p @ ''-'' @ show_nat n)) ''nix-cache-info'') \<noteq> None"
proof -
  let ?dir = "path_join t (''drv-thru-cache-'' @ show_word p @ ''-'' @ show_nat n)"
  let ?file = "path_join ?dir ''nix-cache-info''"
  have place: "cache_file_path ?dir ''nix-cache-info'' = Ok ?file"
    by (simp add: cache_file_path_def sanitize_cache_path_def)
  have fine: "next_fault v = Fine" if "faults v = faults w" for v :: "'n client_world"
    using that assms(1) by (simp add: next_fault_def)
  obtain k where dir: "create_local_cache_dir t p n w = (Ok ?dir, w\<lparr>ticks := k\<rparr>)"
    using fine by (auto simp: create_local_cache_dir_def fs_create_dir_all_def io_call_def bind_s_def
        context_s_def ticked_def Let_def)
  have "\<exists>w1. write_nix_cache_info ?dir (w\<lparr>ticks := k\<rparr>) = (Ok (), w1) \<and> files w1 ?file \<noteq> None
      \<and> faults w1 = faults w \<and> file_replies w1 = []"
    using place fine assms
    by (auto simp: write_nix_cache_info_def write_cache_bytes_def create_parent_dir_def fs_create_dir_all_def
        io_call_def bind_s_def context_s_def fs_open_truncate_def fs_write_all_def ticked_def
        split: option.split)
  then obtain w1 where w1: "write_nix_cache_info ?dir (w\<lparr>ticks := k\<rparr>) = (Ok (), w1)" "files w1 ?file \<noteq> None"
    "faults w1 = faults w" "file_replies w1 = []" by blast
  have "fetch_cache_file derived q True w1 =
      (Err (Context ''open cache file stream'' (lib_error ''open_bi'')), ticked w1)" for q
    using w1(4) fine [OF w1(3)] by (simp add: fetch_cache_file_def open_file_stream_def bind_s_def)
  then have "\<exists>e. mirror_cache_files derived ?dir (c # cs) (map narinfo_path_for_store_path copies) st w1 = (Inl e, ticked w1)"
    by (simp add: mirror_cache_files_def mirror_narinfo_def bind_s_def Let_def)
  with dir w1 show ?thesis by (auto simp: mirror_build_def bind_s_def context_s_def ticked_def)
qed

theorem failed_mirror_is_left_behind:
  fixes w :: "'n client_world"
  assumes "faults w = (\<lambda>n. Fine)" "file_replies w = []" "1 \<le> fetches"
    and "ce_commands E = \<lparr>output_of = (\<lambda>program args s. (Ok \<lparr>exit_ok = True, exit_text = [], out_bytes = ''0'', err_bytes = []\<rparr>, s))\<rparr>"
  shows "case import_outputs_from_cache E \<lparr>copy_paths = []\<rparr> ''builder:key'' [as_str p] (Some fetches) w of
      (r, w') \<Rightarrow> \<not> is_ok r
        \<and> files w' (path_join (path_join (ce_temp_dir E)
            (''drv-thru-cache-'' @ show_word (ce_pid E) @ ''-'' @ show_nat (ce_nanos E))) ''nix-cache-info'') \<noteq> None"
proof -
  let ?E = "client_commands (ce_commands E) :: 'n client_world commands"
  have run: "run_command ?E program args v = (Ok ''0'', v)" for program args v
    using assms(4) by (simp add: run_command_def command_output_def client_commands_def cl_step_def on_part_def
        bind_s_def context_s_def from_utf8_def byte_def)
  have zero: "trim ''0'' = ''0''" "trim ''builder:key'' = ''builder:key''" by (simp_all add: drv_eval)
  have how: "output_import_method E ''builder:key'' v = (Ok (Direct CanPassPublicKey), v)" for v
    using run zero by (simp add: output_import_method_def signed_cache_import_trust_def current_uid_is_root_def
        match_s_def bind_s_def context_s_def Let_def)
  have paths: "collect_r store_path_new [as_str p] = Ok [p]" by (simp add: collect_store_paths)
  let ?v = "w\<lparr>transferred := 0,
      console := console w @ [Phase ''checking output import trust'', Transfer ''mirroring signed output cache'',
        Transfer_Message (progress_message (cache_progress_new 1 0 fetches))]\<rparr>"
  have "\<exists>e w'. mirror_build (ce_debug E) (create_local_cache_dir (ce_temp_dir E) (ce_pid E) (ce_nanos E)) [p] []
      (cache_progress_new 1 0 fetches) ?v = (Inl e, w')
    \<and> files w' (path_join (path_join (ce_temp_dir E)
        (''drv-thru-cache-'' @ show_word (ce_pid E) @ ''-'' @ show_nat (ce_nanos E))) ''nix-cache-info'') \<noteq> None"
    by (rule mirror_build_without_streams) (use assms in simp_all)
  then show ?thesis
    using how paths assms(3)
    by (auto simp: import_outputs_from_cache_def bind_s_def phase_def transfer_def show_event_def
        parallel_nar_fetches_def refresh_progress_def Let_def)
qed


definition demo_cache_env :: "unit cache_env" where
  "demo_cache_env =
    \<lparr>ce_commands = \<lparr>output_of = (\<lambda>program args s.
       (Ok \<lparr>exit_ok = True, exit_text = [], out_bytes = ''0'', err_bytes = []\<rparr>, s))\<rparr>,
     ce_debug = (\<lambda>m. ''message''), ce_socket = Ok None, ce_connect = Connect_Missing,
     ce_encode = (\<lambda>q. Ok ''{}''), ce_decode = (\<lambda>s. bail ''none''), ce_answer = [],
     ce_temp_dir = ''/tmp'', ce_pid = 7, ce_nanos = 0, ce_bridge_url = ''http://127.0.0.1:1'',
     ce_fetches_var = None, ce_cpus = None\<rparr>"

definition demo_client_world :: "message result list \<Rightarrow> unit client_world" where
  "demo_client_world messages =
    \<lparr>files = (\<lambda>p. None), clock = (\<lambda>n. None), faults = (\<lambda>n. Fine), ticks = 0, rx = messages, tx = [],
     cl_sys = (), console = [], file_replies = [], asked = [], uploaded = [], transferred = 0\<rparr>"

theorem failed_mirror_is_left_behind_witness:
  "files (snd (import_outputs_from_cache demo_cache_env \<lparr>copy_paths = []\<rparr> ''builder:key''
      [as_str (demo_path ''x'')] (Some 1) (demo_client_world [])))
    (path_join (path_join ''/tmp'' (''drv-thru-cache-'' @ show_word (7 :: u32) @ ''-'' @ show_nat 0)) ''nix-cache-info'') \<noteq> None"
proof -
  have "faults (demo_client_world []) = (\<lambda>n. Fine)" "file_replies (demo_client_world []) = []"
    "(1 :: nat) \<le> 1"
    "ce_commands demo_cache_env = \<lparr>output_of = (\<lambda>program args s.
       (Ok \<lparr>exit_ok = True, exit_text = [], out_bytes = ''0'', err_bytes = []\<rparr>, s))\<rparr>"
    by (simp_all add: demo_client_world_def demo_cache_env_def)
  note left = failed_mirror_is_left_behind [OF this, of "demo_path ''x''"]
  have env: "ce_temp_dir demo_cache_env = ''/tmp''" "ce_pid demo_cache_env = 7" "ce_nanos demo_cache_env = 0"
    by (simp_all add: demo_cache_env_def)
  obtain r w' where eq: "import_outputs_from_cache demo_cache_env \<lparr>copy_paths = []\<rparr> ''builder:key''
      [as_str (demo_path ''x'')] (Some 1) (demo_client_world []) = (r, w')" by fastforce
  from left show ?thesis unfolding eq env prod.case snd_conv by blast
qed

end
