(* ===== verification/Keys.thy ===== *)
theory Keys
  imports Process_Lock World Nix_Commands
begin

text \<open>
  \<open>keys.rs\<close>: the secret keys of client and server, the signing key pair of the builder, and the
  lock that keeps two clients from using one key at a time. Files have permission bits here, and
  the lock path holds a symbolic link (whose target is the owner text) or, from older versions, a
  directory. \<open>iroh\<close>'s key parser and generator and \<open>nix-store\<close> are parameters.
\<close>

unbundle bit_operations_syntax

datatype lock_entry = Link string | Lock_Dir "string option" | Other_File

record 'n key_world = io_world +
  modes :: "string \<Rightarrow> u32"
  lock_entries :: "string \<Rightarrow> lock_entry option"
  key_sys :: 'n
  notices :: "string list"

type_synonym secret_key = string

record key_file_lock =
  lock_path :: string

record key_pair =
  secret_path :: string
  pair_public_key :: string

text \<open>The files, their modes and the rest of the system, which \<open>nix-store\<close> may change.\<close>

type_synonym 'n key_sys_state = "(string \<Rightarrow> string option) \<times> (string \<Rightarrow> u32) \<times> 'n"

record 'n key_env =
  ke_parse :: "string \<Rightarrow> secret_key result"
  ke_generate :: "nat \<Rightarrow> secret_key"
  ke_home :: "string option"
  ke_commands :: "'n key_sys_state commands"
  ke_linux :: bool
  ke_proc :: "nat \<Rightarrow> proc_stat"
  ke_pid :: u32

definition key_commands :: "'n key_env \<Rightarrow> 'n key_world commands" where
  "key_commands E = \<lparr>output_of = (\<lambda>program args.
     on_part (\<lambda>w. (files w, modes w, key_sys w))
       (\<lambda>(fs, ms, n) w. w\<lparr>files := fs, modes := ms, key_sys := n\<rparr>) (output_of (ke_commands E) program args))\<rparr>"

section \<open>Permissions\<close>

text \<open>The octal modes \<open>600\<close>, \<open>644\<close> and \<open>077\<close>.\<close>

definition MODE_600 :: u32 where "MODE_600 = 0x180"
definition MODE_644 :: u32 where "MODE_644 = 0x1A4"
definition MODE_077 :: u32 where "MODE_077 = 0x3F"

definition chmod :: "u32 \<Rightarrow> string \<Rightarrow> ('n key_world, unit) step" where
  "chmod mode path w =
    (case next_fault w of
       Fine \<Rightarrow> (Ok (), (ticked w)\<lparr>modes := (modes w)(path := mode)\<rparr>)
     | Fault n \<Rightarrow> (Err (lib_error ''set_permissions''), ticked w))"

definition set_private_key_permissions :: "string \<Rightarrow> ('n key_world, unit) step" where
  "set_private_key_permissions path = context_s (''chmod 600 '' @ path) (chmod MODE_600 path)"

definition set_public_key_permissions :: "string \<Rightarrow> ('n key_world, unit) step" where
  "set_public_key_permissions path = context_s (''chmod 644 '' @ path) (chmod MODE_644 path)"

definition file_mode :: "string \<Rightarrow> ('n key_world, u32) step" where
  "file_mode path w =
    (case next_fault w of
       Fine \<Rightarrow> (if files w path = None then Err (lib_error ''metadata'') else Ok (modes w path), ticked w)
     | Fault n \<Rightarrow> (Err (lib_error ''metadata''), ticked w))"

definition check_key_permissions :: "string \<Rightarrow> ('n key_world, unit) step" where
  "check_key_permissions path =
    bind_s (context_s (''stat '' @ path) (file_mode path)) (\<lambda>mode.
    if mode AND MODE_077 \<noteq> 0 then lift_r (bail (path @ '' permissions are too open; run chmod 600''))
    else ret ())"

text \<open>\<open>Path::exists\<close> takes an error for absence.\<close>

definition path_exists :: "string \<Rightarrow> ('z io_world_scheme, bool) step" where
  "path_exists path w =
    (case next_fault w of
       Fine \<Rightarrow> (Ok (files w path \<noteq> None), ticked w)
     | Fault n \<Rightarrow> (Ok False, ticked w))"

section \<open>Secret keys\<close>

definition read_key :: "'n key_env \<Rightarrow> string \<Rightarrow> ('n key_world, secret_key) step" where
  "read_key E path =
    bind_s (check_key_permissions path) (\<lambda>_.
    bind_s (context_s (''read '' @ path)
      (bind_s (fs_read path) (\<lambda>b. lift_r (case b of None \<Rightarrow> Err (lib_error ''read'') | Some bytes \<Rightarrow> Ok bytes))))
      (\<lambda>bytes.
    if length bytes = 32 then ret bytes
    else
      bind_s (lift_r (with_context (path @ '' is not a raw or text secret key'') (from_utf8 bytes))) (\<lambda>t.
      lift_r (with_context (''parse '' @ path) (ke_parse E (trim t))))))"

text \<open>
  \<open>create_new\<close> with mode \<open>0o600\<close>, then the 32 bytes; \<open>Ok False\<close> stands for \<open>AlreadyExists\<close>.
\<close>

definition create_new_file :: "u32 \<Rightarrow> string \<Rightarrow> ('n key_world, bool) step" where
  "create_new_file mode path w =
    (case next_fault w of
       Fine \<Rightarrow>
         (if files w path \<noteq> None then (Ok False, ticked w)
          else (Ok True, (ticked w)\<lparr>files := (files w)(path \<mapsto> []), modes := (modes w)(path := mode)\<rparr>))
     | Fault n \<Rightarrow> (Err (lib_error ''open''), ticked w))"

definition write_new_key :: "string \<Rightarrow> secret_key \<Rightarrow> ('n key_world, bool) step" where
  "write_new_key path key =
    bind_s (create_new_file MODE_600 path) (\<lambda>created.
    if \<not> created then ret False
    else bind_s (fs_write_all path key) (\<lambda>_. ret True))"

definition create_key_parent :: "string \<Rightarrow> ('z io_world_scheme, unit) step" where
  "create_key_parent path =
    (case path_parent path of
       None \<Rightarrow> ret ()
     | Some parent \<Rightarrow> context_s (''create '' @ parent) (fs_create_dir_all parent))"

definition generate_key :: "'n key_env \<Rightarrow> ('n key_world, secret_key) step" where
  "generate_key E w = (Ok (ke_generate E (ticks w)), ticked w)"

definition load_or_create :: "'n key_env \<Rightarrow> string \<Rightarrow> ('n key_world, secret_key) step" where
  "load_or_create E path =
    bind_s (path_exists path) (\<lambda>present.
    if present then read_key E path
    else
      bind_s (create_key_parent path) (\<lambda>_.
      bind_s (generate_key E) (\<lambda>key.
      bind_s (context_s (''write '' @ path) (write_new_key path key)) (\<lambda>created.
      if created then ret key else read_key E path))))"

definition default_client_key_path :: "'n key_env \<Rightarrow> string result" where
  "default_client_key_path E =
    (case ke_home E of
       None \<Rightarrow> Err (Msg ''HOME is not set; pass --key-file'')
     | Some home \<Rightarrow> Ok (path_join home ''.config/drv-thru/secret.key''))"

section \<open>The signing key pair\<close>

definition server_key_path :: "string \<Rightarrow> string" where
  "server_key_path data_dir = path_join data_dir ''secret.key''"

definition signing_secret_key_path :: "string \<Rightarrow> string" where
  "signing_secret_key_path data_dir = path_join data_dir ''signing-secret.key''"

definition signing_public_key_path :: "string \<Rightarrow> string" where
  "signing_public_key_path data_dir = path_join data_dir ''signing-public.key''"

definition read_public_signing_key :: "string \<Rightarrow> ('z io_world_scheme, string) step" where
  "read_public_signing_key path =
    bind_s (context_s (''read signing public key '' @ path)
      (bind_s (fs_read_to_string path)
        (\<lambda>t. lift_r (case t of None \<Rightarrow> Err (lib_error ''read_to_string'') | Some s \<Rightarrow> Ok s)))) (\<lambda>s.
    if trim s = [] then lift_r (bail (''signing public key is empty: '' @ path)) else ret (trim s))"

definition generate_signing_keypair :: "'n key_env \<Rightarrow> string \<Rightarrow> string \<Rightarrow> string \<Rightarrow> ('n key_world, unit) step" where
  "generate_signing_keypair E data_dir secret public =
    bind_s (context_s (''create '' @ data_dir) (fs_create_dir_all data_dir)) (\<lambda>_.
    bind_s (context_s ''run nix-store --generate-binary-cache-key''
      (output_of (key_commands E) ''nix-store'' [''--generate-binary-cache-key'', ''drv-thru'', secret, public]))
      (\<lambda>out.
    if \<not> exit_ok out then
      lift_r (bail (''nix-store --generate-binary-cache-key failed: '' @ trim (utf8_lossy (err_bytes out))))
    else
      bind_s (set_private_key_permissions secret) (\<lambda>_.
      set_public_key_permissions public)))"

definition load_signing_key :: "string \<Rightarrow> string \<Rightarrow> ('n key_world, key_pair) step" where
  "load_signing_key secret public =
    bind_s (check_key_permissions secret) (\<lambda>_.
    bind_s (read_public_signing_key public) (\<lambda>key.
    ret \<lparr>secret_path = secret, pair_public_key = key\<rparr>))"

definition load_or_create_signing_key :: "'n key_env \<Rightarrow> string \<Rightarrow> ('n key_world, key_pair) step" where
  "load_or_create_signing_key E data_dir =
    (let secret = signing_secret_key_path data_dir; public = signing_public_key_path data_dir in
     bind_s (path_exists secret) (\<lambda>has_secret.
     bind_s (path_exists public) (\<lambda>has_public.
     if has_secret \<and> has_public then load_signing_key secret public
     else if \<not> has_secret \<and> \<not> has_public then
       bind_s (generate_signing_keypair E data_dir secret public) (\<lambda>_.
       load_signing_key secret public)
     else lift_r (bail (''incomplete signing keypair; expected both '' @ secret @ '' and '' @ public)))))"

section \<open>The lock of a client key\<close>

definition key_file_lock_path :: "string \<Rightarrow> string result" where
  "key_file_lock_path path =
    (case path_file_name path of
       None \<Rightarrow> Err (Msg ''key file path must include a file name'')
     | Some name \<Rightarrow> Ok (with_file_name path (''.'' @ utf8_lossy name @ ''.lock'')))"

text \<open>\<open>symlink\<close>; \<open>Ok False\<close> stands for \<open>AlreadyExists\<close>.\<close>

definition create_key_file_lock :: "'n key_env \<Rightarrow> string \<Rightarrow> ('n key_world, bool) step" where
  "create_key_file_lock E path w =
    (case next_fault w of
       Fault n \<Rightarrow> (Err (lib_error ''symlink''), ticked w)
     | Fine \<Rightarrow>
         if lock_entries w path \<noteq> None then (Ok False, ticked w)
         else (Ok True, (ticked w)\<lparr>lock_entries := (lock_entries w)
                (path \<mapsto> Link (current_owner_text (ke_proc E (ticks w)) (ke_pid E)))\<rparr>))"

definition remove_key_file_lock :: "string \<Rightarrow> ('n key_world, unit) step" where
  "remove_key_file_lock path w =
    (case next_fault w of
       Fault n \<Rightarrow> (Err (Context (''remove '' @ path) (lib_error ''remove_file'')), ticked w)
     | Fine \<Rightarrow> (Ok (), (ticked w)\<lparr>lock_entries := (lock_entries w)(path := None)\<rparr>))"

text \<open>The owner text: the target of the link, else the \<open>pid\<close> file of an old lock directory.\<close>

definition lock_owner_text :: "string \<Rightarrow> 'n key_world \<Rightarrow> string" where
  "lock_owner_text path w =
    (case (next_fault w, lock_entries w path) of
       (Fine, Some (Link target)) \<Rightarrow> utf8_lossy target
     | (_, Some (Lock_Dir (Some pid))) \<Rightarrow> (case from_utf8 pid of Inr t \<Rightarrow> t | Inl _ \<Rightarrow> [])
     | _ \<Rightarrow> [])"

definition remove_stale_key_file_lock :: "'n key_env \<Rightarrow> string \<Rightarrow> ('n key_world, unit) step" where
  "remove_stale_key_file_lock E path w =
    (if owner_is_live (ke_linux E) (ke_proc E (ticks w)) (lock_owner_text path w) then (Ok (), ticked w)
     else remove_key_file_lock path (ticked w))"

definition print_notice :: "string \<Rightarrow> ('n key_world, unit) step" where
  "print_notice line w = (Ok (), w\<lparr>notices := notices w @ [line]\<rparr>)"

text \<open>
  The loop of \<open>lock_key_file\<close>. While it sleeps, other processes change what is at the lock path;
  \<open>others\<close> lists what they do to it during each sleep. The result is \<open>None\<close> if the process
  still waits when the list ends.
\<close>

fun lock_key_loop ::
  "'n key_env \<Rightarrow> string \<Rightarrow> string \<Rightarrow> bool \<Rightarrow> (lock_entry option \<Rightarrow> lock_entry option) list \<Rightarrow>
     ('n key_world, key_file_lock option) step" where
  "lock_key_loop E path lock printed others w =
    (case create_key_file_lock E lock w of
       (Inr True, w1) \<Rightarrow> (Ok (Some \<lparr>lock_path = lock\<rparr>), w1)
     | (Inl err, w1) \<Rightarrow> (Err (Context (''lock '' @ path) err), w1)
     | (Inr False, w1) \<Rightarrow>
         (case remove_stale_key_file_lock E lock w1 of
            (Inl err, w2) \<Rightarrow> (Err err, w2)
          | (Inr _, w2) \<Rightarrow>
              let w3 = (if printed then w2
                        else snd (print_notice (''client key in use; waiting: '' @ path) w2)) in
              (case others of
                 [] \<Rightarrow> (Ok None, w3)
               | other # rest \<Rightarrow>
                   lock_key_loop E path lock True rest
                     (w3\<lparr>lock_entries := (lock_entries w3)(lock := other (lock_entries w3 lock))\<rparr>))))"

declare lock_key_loop.simps [simp del]

definition lock_key_file ::
  "'n key_env \<Rightarrow> (lock_entry option \<Rightarrow> lock_entry option) list \<Rightarrow> string \<Rightarrow> ('n key_world, key_file_lock option) step" where
  "lock_key_file E others path =
    bind_s (create_key_parent path) (\<lambda>_.
    bind_s (lift_r (key_file_lock_path path)) (\<lambda>lock.
    lock_key_loop E path lock False others))"

text \<open>\<open>Drop\<close> of the lock ignores its errors.\<close>

definition drop_key_file_lock :: "key_file_lock \<Rightarrow> 'n key_world \<Rightarrow> 'n key_world" where
  "drop_key_file_lock l w = snd (remove_key_file_lock (lock_path l) w)"


section \<open>What a loaded key is\<close>

text \<open>A step that changes no file but the given one, nor the mode of another.\<close>

definition only_key :: "string \<Rightarrow> 'n key_world \<Rightarrow> 'n key_world \<Rightarrow> bool" where
  "only_key path w w' \<longleftrightarrow> (\<forall>p. p \<noteq> path \<longrightarrow> files w' p = files w p \<and> modes w' p = modes w p)"

definition good_key_file :: "'n key_env \<Rightarrow> string \<Rightarrow> secret_key \<Rightarrow> 'n key_world \<Rightarrow> bool" where
  "good_key_file E path key w \<longleftrightarrow>
    modes w path AND MODE_077 = 0
    \<and> (case files w path of None \<Rightarrow> False
       | Some bytes \<Rightarrow> bytes = key \<or> length bytes \<noteq> 32 \<and> ke_parse E (trim bytes) = Ok key)"

lemma check_key_permissions_cases:
  "check_key_permissions path w = (r, w') \<Longrightarrow>
    files w' = files w \<and> modes w' = modes w \<and> faults w' = faults w \<and> ticks w' = Suc (ticks w)
    \<and> (is_ok r \<longrightarrow> modes w path AND MODE_077 = 0 \<and> files w path \<noteq> None)"
  by (auto simp: check_key_permissions_def file_mode_def bind_s_def context_s_def ticked_def
      split: fault.splits if_splits)

lemma read_key_cases:
  "read_key E path w = (r, w') \<Longrightarrow>
    files w' = files w \<and> modes w' = modes w \<and> (\<forall>key. r = Inr key \<longrightarrow> good_key_file E path key w)"
proof -
  assume eq: "read_key E path w = (r, w')"
  obtain r1 w1 where chk: "check_key_permissions path w = (r1, w1)" by fastforce
  note same = check_key_permissions_cases [OF chk]
  show ?thesis
  proof (cases r1)
    case (Inl e)
    with eq chk same show ?thesis by (auto simp: read_key_def bind_s_def)
  next
    case (Inr u)
    with eq chk same show ?thesis
      by (auto simp: read_key_def bind_s_def context_s_def fs_read_def ticked_def good_key_file_def
          split: fault.splits option.splits if_splits sum.splits dest: from_utf8_Ok)
  qed
qed

lemma MODE_600_private [simp]: "MODE_600 AND MODE_077 = 0"
  by (simp add: MODE_600_def MODE_077_def)

lemma create_key_parent_keeps:
  "create_key_parent path w = (r, w') \<Longrightarrow> files w' = files w \<and> modes (w' :: 'n key_world) = modes w"
  by (auto simp: create_key_parent_def context_s_def fs_create_dir_all_def io_call_def ticked_def
      split: option.splits fault.splits)

lemma write_new_key_cases:
  "write_new_key path key w = (r, w') \<Longrightarrow>
    only_key path w w' \<and> (r = Inr True \<longrightarrow> files w' path = Some key \<and> modes w' path = MODE_600)"
  by (auto simp: write_new_key_def create_new_file_def fs_write_all_def bind_s_def ticked_def only_key_def
      file_text_def split: fault.splits if_splits)

lemma path_exists_answers: "\<exists>present. path_exists path w = (Inr present, ticked w)"
  by (cases "next_fault w") (auto simp: path_exists_def intro: exI [of _ False])

lemma load_or_create_cases:
  "load_or_create E path w = (r, w') \<Longrightarrow>
    only_key path w w' \<and> (\<forall>key. r = Inr key \<longrightarrow> good_key_file E path key w')"
proof -
  assume eq: "load_or_create E path w = (r, w')"
  obtain present w1 where ex: "path_exists path w = (Inr present, w1)" "files w1 = files w" "modes w1 = modes w"
    using path_exists_answers [of path w] by (auto simp: ticked_def)
  have read: "only_key path w v' \<and> (\<forall>key. s = Inr key \<longrightarrow> good_key_file E path key v')"
    if "read_key E path v = (s, v')" "only_key path w v" for v v' s
    using read_key_cases [OF that(1)] that(2) by (auto simp: only_key_def good_key_file_def)
  show ?thesis
  proof (cases present)
    case True
    with eq ex have "read_key E path w1 = (r, w')" by (simp add: load_or_create_def bind_s_def)
    then show ?thesis by (rule read) (simp add: only_key_def ex)
  next
    case False
    obtain r2 w2 where mk: "create_key_parent path w1 = (r2, w2)" by fastforce
    note par = create_key_parent_keeps [OF mk]
    show ?thesis
    proof (cases r2)
      case (Inl e)
      with False eq ex mk par show ?thesis by (auto simp: load_or_create_def bind_s_def only_key_def)
    next
      case (Inr u)
      define key where "key = ke_generate E (ticks w2)"
      obtain r3 w3 where wr: "write_new_key path key (ticked w2) = (r3, w3)" by fastforce
      note new = write_new_key_cases [OF wr]
      have w3: "only_key path w w3" using new par ex by (simp add: only_key_def ticked_def)
      have rest: "(case with_context (''write '' @ path) r3 of
          Inl e \<Rightarrow> (Inl e, w3)
        | Inr created \<Rightarrow> (if created then ret key else read_key E path) w3) = (r, w')"
        using False Inr eq ex mk wr
        by (cases r3)
          (auto simp: load_or_create_def bind_s_def context_s_def generate_key_def key_def split: if_splits)
      show ?thesis
      proof (cases r3)
        case (Inl e)
        with rest w3 show ?thesis by auto
      next
        case c: (Inr created)
        show ?thesis
        proof (cases created)
          case True
          with rest w3 new c show ?thesis by (auto simp: good_key_file_def)
        next
          case False
          with rest c have "read_key E path w3 = (r, w')" by simp
          then show ?thesis using w3 by (rule read)
        qed
      qed
    qed
  qed
qed

text \<open>
  C35: A secret key that was loaded or created is the content of its file, which is closed to
  others, and no other file is touched.
\<close>

theorem loaded_key_is_private:
  fixes w :: "'n key_world"
  shows "(case load_or_create E path w of
      (Inl e, w') \<Rightarrow> only_key path w w'
    | (Inr key, w') \<Rightarrow> only_key path w w' \<and> modes w' path AND MODE_077 = 0
        \<and> (case files w' path of None \<Rightarrow> False
           | Some bytes \<Rightarrow> bytes = key \<or> length bytes \<noteq> 32 \<and> ke_parse E (trim bytes) = Ok key))"
proof -
  obtain r w' where eq: "load_or_create E path w = (r, w')" by fastforce
  show ?thesis using load_or_create_cases [OF eq] eq by (cases r) (auto simp: good_key_file_def)
qed


text \<open>A new key comes back at the next start.\<close>

lemma fine_next: "faults w = (\<lambda>n. Fine) \<Longrightarrow> next_fault w = Fine"
  by (simp add: next_fault_def)

lemma read_good_key:
  assumes "faults w = (\<lambda>n. Fine)" "files w path = Some key" "length key = 32" "modes w path = MODE_600"
  shows "\<exists>w'. read_key E path w = (Ok key, w')"
  using assms by (simp add: read_key_def check_key_permissions_def file_mode_def fs_read_def bind_s_def
      context_s_def ticked_def fine_next)

lemma load_or_create_new:
  assumes "faults w = (\<lambda>n. Fine)" "files w path = None"
  shows "\<exists>key w'. load_or_create E path w = (Ok key, w') \<and> (\<exists>n. key = ke_generate E n)
    \<and> files w' path = Some key \<and> modes w' path = MODE_600 \<and> faults w' = faults w"
  using assms by (auto simp: load_or_create_def path_exists_def create_key_parent_def generate_key_def
      write_new_key_def create_new_file_def fs_write_all_def fs_create_dir_all_def io_call_def
      bind_s_def context_s_def ticked_def fine_next file_text_def split: option.split)

theorem created_key_is_loaded_again:
  assumes "faults w = (\<lambda>n. Fine)" "files w path = None" "\<And>n. length (ke_generate E n) = 32"
  shows "\<exists>key w1 w2. load_or_create E path w = (Ok key, w1) \<and> load_or_create E path w1 = (Ok key, w2)"
proof -
  obtain key w1 where new: "load_or_create E path w = (Ok key, w1)" "length key = 32"
    "files w1 path = Some key" "modes w1 path = MODE_600" "faults w1 = (\<lambda>n. Fine)"
    using load_or_create_new [OF assms(1,2), of E] assms(1,3) by auto
  have "\<exists>w2. read_key E path (ticked w1) = (Ok key, w2)"
    by (rule read_good_key) (use new in \<open>simp_all add: ticked_def\<close>)
  then obtain w2 where "read_key E path (ticked w1) = (Ok key, w2)" by blast
  then have "load_or_create E path w1 = (Ok key, w2)"
    using new by (simp add: load_or_create_def path_exists_def bind_s_def fine_next)
  with new show ?thesis by blast
qed

section \<open>The signing pair\<close>

lemma read_public_signing_key_cases:
  fixes w :: "'n key_world"
  shows "read_public_signing_key path w = (r, w') \<Longrightarrow>
    files w' = files w \<and> modes w' = modes w
    \<and> (\<forall>key. r = Inr key \<longrightarrow> key \<noteq> [] \<and> (\<exists>t. files w path = Some t \<and> key = trim t))"
  by (auto simp: read_public_signing_key_def fs_read_to_string_def fs_read_def bind_s_def context_s_def
      ticked_def split: fault.splits option.splits prod.splits if_splits sum.splits dest: from_utf8_Ok)

lemma load_signing_key_cases:
  assumes "load_signing_key secret public w = (r, w')"
  shows "files w' = files w \<and> modes w' = modes w
    \<and> (\<forall>kp. r = Inr kp \<longrightarrow> secret_path kp = secret \<and> modes w secret AND MODE_077 = 0 \<and> files w secret \<noteq> None
        \<and> pair_public_key kp \<noteq> [] \<and> (\<exists>t. files w public = Some t \<and> pair_public_key kp = trim t))"
proof -
  obtain r1 w1 where chk: "check_key_permissions secret w = (r1, w1)" by fastforce
  note c1 = check_key_permissions_cases [OF chk]
  show ?thesis
  proof (cases r1)
    case (Inl e)
    with assms chk c1 show ?thesis by (auto simp: load_signing_key_def bind_s_def)
  next
    case (Inr u)
    obtain r2 w2 where rd: "read_public_signing_key public w1 = (r2, w2)" by fastforce
    note c2 = read_public_signing_key_cases [OF rd]
    show ?thesis
      by (cases r2) (use assms chk c1 Inr rd c2 in \<open>auto simp: load_signing_key_def bind_s_def\<close>)
  qed
qed



section \<open>A write that failed\<close>

text \<open>
  The new key file is made before its bytes are written. If the write fails, the file stays, and
  every later start finds it and cannot read it.
\<close>

theorem failed_key_write_blocks_later_starts:
  assumes "files w path = None" "path_parent path = Some d" "n < 32" "length (ke_generate E (ticks w + 2)) = 32"
    and "faults w = (\<lambda>k. if k = ticks w + 4 then Fault n else Fine)"
    and "\<And>t. length t < 32 \<Longrightarrow> \<not> is_ok (ke_parse E t)"
  shows "case load_or_create E path w of (r, w1) \<Rightarrow>
    \<not> is_ok r \<and> (case load_or_create E path w1 of (r', w2) \<Rightarrow> \<not> is_ok r' \<and> files w2 = files w1)"
proof -
  let ?key = "ke_generate E (ticks w + 2)"
  let ?w1 = "w\<lparr>ticks := ticks w + 5, files := (files w)(path \<mapsto> take n ?key), modes := (modes w)(path := MODE_600)\<rparr>"
  have first: "load_or_create E path w =
      (Err (Context (''write '' @ path) (lib_error ''write_all'')), ?w1)"
    using assms by (simp add: load_or_create_def path_exists_def create_key_parent_def generate_key_def
        write_new_key_def create_new_file_def fs_write_all_def fs_create_dir_all_def io_call_def bind_s_def
        context_s_def next_fault_def ticked_def file_text_def)
  have short: "length (take n ?key) = n" using assms by simp
  have "\<not> is_ok (ke_parse E (trim (take n ?key)))"
    using assms(6) length_trim [of "take n ?key"] short assms(3) by simp
  then obtain e1 where "ke_parse E (trim (take n ?key)) = Inl e1"
    by (cases "ke_parse E (trim (take n ?key))") auto
  then have second: "\<exists>e w2. read_key E path (ticked ?w1) = (Inl e, w2) \<and> files w2 = files ?w1"
    using assms short by (auto simp: read_key_def check_key_permissions_def file_mode_def fs_read_def bind_s_def
        context_s_def next_fault_def ticked_def from_utf8_def)
  then obtain e w2 where rd: "read_key E path (ticked ?w1) = (Inl e, w2)" and same: "files w2 = files ?w1"
    by blast
  have "load_or_create E path ?w1 = (Inl e, w2)"
    using rd assms by (simp add: load_or_create_def path_exists_def bind_s_def next_fault_def)
  with first same show ?thesis by (simp add: is_ok_iff)
qed

definition demo_key_env :: "unit key_env" where
  "demo_key_env =
    \<lparr>ke_parse = (\<lambda>t. bail ''short key''), ke_generate = (\<lambda>n. replicate 32 (CHR ''k'')), ke_home = None,
     ke_commands = \<lparr>output_of = (\<lambda>program args s. (bail ''no nix'', s))\<rparr>,
     ke_linux = True, ke_proc = (\<lambda>n p. None), ke_pid = 7\<rparr>"

definition demo_key_world :: "(nat \<Rightarrow> fault) \<Rightarrow> unit key_world" where
  "demo_key_world fs =
    \<lparr>files = (\<lambda>p. None), clock = (\<lambda>n. None), faults = fs, ticks = 0,
     modes = (\<lambda>p. 0), lock_entries = (\<lambda>p. None), key_sys = (), notices = []\<rparr>"

theorem failed_key_write_blocks_later_starts_witness:
  "\<not> is_ok (fst (load_or_create demo_key_env ''key''
      (demo_key_world (\<lambda>k. if k = 4 then Fault 0 else Fine))))"
proof -
  let ?w = "demo_key_world (\<lambda>k. if k = 4 then Fault 0 else Fine)"
  have "path_parent ''key'' = Some []" by (simp add: drv_eval)
  then show ?thesis
    using failed_key_write_blocks_later_starts [of ?w "''key''" "[]" 0 demo_key_env]
    by (simp add: demo_key_world_def demo_key_env_def split: prod.splits)
qed

theorem created_key_is_loaded_again_witness:
  "\<exists>key w1 w2. load_or_create demo_key_env ''key'' (demo_key_world (\<lambda>k. Fine)) = (Ok key, w1)
    \<and> load_or_create demo_key_env ''key'' w1 = (Ok key, w2)"
  by (rule created_key_is_loaded_again) (simp_all add: demo_key_world_def demo_key_env_def)


section \<open>The lock respects the living\<close>

definition live_link :: "'n key_env \<Rightarrow> string \<Rightarrow> bool" where
  "live_link E t \<longleftrightarrow> (\<forall>n. owner_is_live (ke_linux E) (ke_proc E n) (utf8_lossy t))"

lemma lock_turn_live:
  assumes "faults w = (\<lambda>n. Fine)" "lock_entries w lock = Some (Link t)" "live_link E t"
  shows "create_key_file_lock E lock w = (Ok False, ticked w)"
    "remove_stale_key_file_lock E lock (ticked w) = (Ok (), ticked (ticked w))"
  using assms by (simp_all add: create_key_file_lock_def remove_stale_key_file_lock_def lock_owner_text_def
      fine_next ticked_def live_link_def)

theorem live_key_lock_is_respected:
  assumes "faults w = (\<lambda>n. Fine)" "lock_entries w lock = Some (Link t)"
    and "\<And>n. owner_is_live (ke_linux E) (ke_proc E n) (utf8_lossy t)"
    and "\<And>f. f \<in> set others \<Longrightarrow> f (Some (Link t)) = Some (Link t)"
  shows "case lock_key_loop E path lock printed others w of (r, w') \<Rightarrow>
    r = Ok None \<and> lock_entries w' lock = Some (Link t)"
  using assms
proof (induction others arbitrary: w printed)
  case Nil
  then show ?case
    using lock_turn_live [of w lock t E]
    by (subst lock_key_loop.simps) (simp add: live_link_def Let_def print_notice_def ticked_def)
next
  case (Cons f fs)
  let ?w = "\<lambda>v. v\<lparr>lock_entries := (lock_entries v)(lock := f (lock_entries v lock))\<rparr>"
  let ?v = "if printed then ticked (ticked w)
    else snd (print_notice (''client key in use; waiting: '' @ path) (ticked (ticked w)))"
  have "lock_key_loop E path lock printed (f # fs) w = lock_key_loop E path lock True fs (?w ?v)"
    using Cons.prems lock_turn_live [of w lock t E]
    by (subst lock_key_loop.simps) (simp add: live_link_def Let_def)
  moreover have "faults (?w ?v) = (\<lambda>n. Fine)" "lock_entries (?w ?v) lock = Some (Link t)"
    using Cons.prems by (simp_all add: print_notice_def ticked_def)
  ultimately show ?case
    using Cons.IH [of "?w ?v" True] Cons.prems(3,4) by (simp del: fun_upd_apply)
qed

text \<open>A lock that no living process owns is taken over at the next attempt.\<close>

theorem stale_key_lock_is_taken_over:
  assumes "faults w = (\<lambda>n. Fine)" "lock_entries w lock = Some (Link t)"
    and "\<And>n. \<not> owner_is_live (ke_linux E) (ke_proc E n) (utf8_lossy t)"
  shows "case lock_key_loop E path lock printed (id # others) w of (r, w') \<Rightarrow>
    r = Ok (Some \<lparr>lock_path = lock\<rparr>)
    \<and> (\<exists>n. lock_entries w' lock = Some (Link (current_owner_text (ke_proc E n) (ke_pid E))))"
proof -
  have turn: "create_key_file_lock E lock w = (Ok False, ticked w)"
    "remove_stale_key_file_lock E lock (ticked w) =
      (Ok (), (ticked (ticked (ticked w)))\<lparr>lock_entries := (lock_entries w)(lock := None)\<rparr>)"
    using assms by (simp_all add: create_key_file_lock_def remove_stale_key_file_lock_def
        remove_key_file_lock_def lock_owner_text_def fine_next ticked_def)
  show ?thesis
    using assms turn
    by (subst lock_key_loop.simps, subst lock_key_loop.simps)
      (auto simp: Let_def print_notice_def create_key_file_lock_def fine_next ticked_def next_fault_def)
qed

section \<open>The wait for the lock ends\<close>

lemma free_lock_turn:
  assumes "faults w = (\<lambda>n. Fine)" "lock_entries w lock = None"
  shows "\<exists>w' n. lock_key_loop E path lock printed others w = (Ok (Some \<lparr>lock_path = lock\<rparr>), w')
    \<and> lock_entries w' lock = Some (Link (current_owner_text (ke_proc E n) (ke_pid E)))"
  using assms by (subst lock_key_loop.simps) (auto simp: create_key_file_lock_def fine_next)

text \<open>
  A turn before a lock that stands: the loop removes it if its owner is dead at this reading, and
  sleeps while others may act.
\<close>

lemma standing_lock_turn:
  assumes "faults w = (\<lambda>n. Fine)" "lock_entries w lock = Some (Link t)"
  shows "\<exists>v. lock_key_loop E path lock printed (f # others) w = lock_key_loop E path lock True others v
    \<and> faults v = (\<lambda>n. Fine) \<and> ticks w + 2 \<le> ticks v
    \<and> lock_entries v lock =
        f (if owner_is_live (ke_linux E) (ke_proc E (Suc (ticks w))) (utf8_lossy t) then Some (Link t) else None)"
  using assms
  by (subst lock_key_loop.simps)
    (auto simp: Let_def print_notice_def create_key_file_lock_def remove_stale_key_file_lock_def
      remove_key_file_lock_def lock_owner_text_def fine_next ticked_def next_fault_def)



end
