(* ===== verification/Client_Session.thy ===== *)
theory Client_Session
  imports Client_Cache Ticket_Addr Keys
begin

text \<open>
  \<open>client/session.rs\<close> with \<open>client/logs.rs\<close>, \<open>client/mod.rs\<close> and \<open>client/summary.rs\<close>: one build
  from the client's side. The outputs are looked for locally, the builder is greeted, the request
  and its closure are sent, missing inputs are uploaded when the builder asks for them, the log is
  shown, and the outputs are imported.

  The endpoint, its connection and the size formatter are library code: their steps are calls that
  may fail, and the text of a size is a parameter. Keys live in the world of \<open>Keys\<close>, so the key is
  loaded (\<open>load_build_key\<close>) before the session is opened with the endpoint id it stands for.
\<close>

definition SERVER_PATH_LIST_LIMITS :: read_limits where
  "SERVER_PATH_LIST_LIMITS = \<lparr>limit_chunks = 512, limit_paths = 100000, limit_bytes = 16 * 1024 * 1024\<rparr>"

datatype ('id, 'url, 'addr) build_auth =
    TrustedClient 'id "'url option"
  | Ticket "'addr build_ticket"

record requested_outputs =
  ro_paths :: "store_path list"
  ro_strings :: "string list"

record prepared_build =
  pb_drv_path :: store_path
  pb_path_count :: nat
  pb_closure :: "string list"

record remote_build_result =
  rb_missing_count :: nat
  rb_success :: bool
  rb_output_paths :: "string list"
  rb_received :: u64

record 'n session_env =
  se_cache :: "'n cache_env"
  se_children :: "((string \<Rightarrow> string option) \<times> 'n) children"
  se_plan :: "string \<Rightarrow> build_plan result"
  se_id_text :: string
  se_server_id :: string
  se_nom_status :: "bool \<times> string"
  se_human :: "u64 \<Rightarrow> string"

abbreviation se_debug :: "'n session_env \<Rightarrow> message \<Rightarrow> string" where
  "se_debug E \<equiv> ce_debug (se_cache E)"

definition clc :: "'n session_env \<Rightarrow> 'n client_world commands" where
  "clc E = client_commands (ce_commands (se_cache E))"

definition server_addr ::
  "('id, 'url, 'sock, 'addr) addr_api \<Rightarrow> ('id, 'url, 'addr) build_auth \<Rightarrow> 'addr" where
  "server_addr A auth =
    (case auth of
       TrustedClient server_id relay_url \<Rightarrow>
         (case relay_url of
            Some url \<Rightarrow> with_relay_url A (addr_new A server_id) url
          | None \<Rightarrow> addr_new A server_id)
     | Ticket ticket \<Rightarrow> ticket_addr ticket)"

section \<open>The key of the client\<close>

definition load_locked_key ::
  "'n key_env \<Rightarrow> (lock_entry option \<Rightarrow> lock_entry option) list \<Rightarrow> string \<Rightarrow>
     ('n key_world, (secret_key \<times> key_file_lock option) option) step" where
  "load_locked_key K others path =
    bind_s (lock_key_file K others path) (\<lambda>lock.
    case lock of
      None \<Rightarrow> ret None
    | Some l \<Rightarrow> bind_s (load_or_create K path) (\<lambda>key. ret (Some (key, Some l))))"

text \<open>The result is \<open>None\<close> while the lock is still waited for.\<close>

definition load_build_key ::
  "'n key_env \<Rightarrow> (lock_entry option \<Rightarrow> lock_entry option) list \<Rightarrow> ('id, 'url, 'addr) build_auth \<Rightarrow> string option \<Rightarrow>
     ('n key_world, (secret_key \<times> key_file_lock option) option) step" where
  "load_build_key K others auth key_file =
    (case key_file of
       Some path \<Rightarrow> load_locked_key K others path
     | None \<Rightarrow>
         (case auth of
            TrustedClient _ _ \<Rightarrow>
              bind_s (lift_r (default_client_key_path K)) (\<lambda>path. load_locked_key K others path)
          | Ticket _ \<Rightarrow> bind_s (generate_key K) (\<lambda>key. ret (Some (key, None)))))"

section \<open>The greeting\<close>

definition write_hello :: "'n session_env \<Rightarrow> ('n client_world, unit) step" where
  "write_hello E = send_message (Hello \<lparr>hello_version = VERSION, node_id = se_id_text E\<rparr>)"

definition write_auth :: "('id, 'url, 'addr) build_auth \<Rightarrow> ('n client_world, unit) step" where
  "write_auth auth =
    (case auth of
       TrustedClient _ _ \<Rightarrow> send_message AuthTrustedClient
     | Ticket ticket \<Rightarrow> send_message (AuthTicket \<lparr>auth_secret = ticket_secret ticket\<rparr>))"

definition read_auth_ok :: "'n session_env \<Rightarrow> ('n client_world, string) step" where
  "read_auth_ok E =
    bind_s recv_message (\<lambda>message.
    case message of
      AuthOk auth \<Rightarrow>
        bind_s (phase (case client_name auth of
            Some name \<Rightarrow> ''authorized as '' @ name
          | None \<Rightarrow> ''authorized'')) (\<lambda>_.
        ret (builder_public_key auth))
    | Error err \<Rightarrow> lift_r (bail (message_text err))
    | message \<Rightarrow> lift_r (bail (''unexpected server message: '' @ debug_message (se_debug E) message)))"

definition connect_step :: "('n client_world, unit) step" where
  "connect_step w =
    (case next_fault w of
       Fine \<Rightarrow> (Ok (), ticked w)
     | Fault n \<Rightarrow>
         (if n = 0 then Err (Context ''connect timed out'' (lib_error ''elapsed'')) else Err (lib_error ''connect''),
          ticked w))"

definition session_open :: "'n session_env \<Rightarrow> ('id, 'url, 'addr) build_auth \<Rightarrow> ('n client_world, string) step" where
  "session_open E auth =
    bind_s (io_call ''bind'') (\<lambda>_.
    bind_s (phase ''connecting'') (\<lambda>_.
    bind_s connect_step (\<lambda>_.
    bind_s (io_call ''open_bi'') (\<lambda>_.
    bind_s (write_hello E) (\<lambda>_.
    bind_s (write_auth auth) (\<lambda>_.
    read_auth_ok E))))))"

definition session_close :: "('n client_world, unit) step" where
  "session_close = io_call ''finish''"

section \<open>What is to be built\<close>

definition resolve_requested_outputs ::
  "'n session_env \<Rightarrow> string \<Rightarrow> eval_options \<Rightarrow> ('n client_world, requested_outputs) step" where
  "resolve_requested_outputs E label options =
    bind_s (phase ''resolving outputs'') (\<lambda>_.
    bind_s (resolve_outputs (clc E) (se_plan E) label options) (\<lambda>paths.
    ret \<lparr>ro_paths = paths, ro_strings = map as_str paths\<rparr>))"

definition local_outputs_present :: "'n session_env \<Rightarrow> store_path list \<Rightarrow> bool \<Rightarrow> ('n client_world, bool) step" where
  "local_outputs_present E requested again =
    bind_s (phase ''checking local outputs'') (\<lambda>_.
    if again then ret False
    else bind_s (missing_paths (clc E) requested) (\<lambda>missing. ret (missing = [])))"

definition prepare_build :: "'n session_env \<Rightarrow> string \<Rightarrow> eval_options \<Rightarrow> ('n client_world, prepared_build) step" where
  "prepare_build E label options =
    bind_s (phase ''resolving derivation'') (\<lambda>_.
    bind_s (resolve_derivation (clc E) label options) (\<lambda>drv.
    bind_s (phase ''checking closure'') (\<lambda>_.
    bind_s (nix_closure (clc E) drv) (\<lambda>closure.
    ret \<lparr>pb_drv_path = drv, pb_path_count = length closure, pb_closure = map as_str closure\<rparr>))))"

definition request_message :: "string \<Rightarrow> string list \<Rightarrow> prepared_build \<Rightarrow> output_mode \<Rightarrow> bool \<Rightarrow> message" where
  "request_message label outputs prepared mode again =
    BuildRequest \<lparr>installable = label, drv_path = as_str (pb_drv_path prepared),
      request_output_paths = outputs, output_mode = mode, rebuild = again\<rparr>"

definition send_build_request ::
  "string \<Rightarrow> string list \<Rightarrow> prepared_build \<Rightarrow> output_mode \<Rightarrow> bool \<Rightarrow> ('n client_world, unit) step" where
  "send_build_request label outputs prepared mode again =
    bind_s (send_message (request_message label outputs prepared mode again)) (\<lambda>_.
    write_paths (pb_closure prepared) BuildPaths)"

section \<open>Inputs\<close>

definition read_queued :: "'n session_env \<Rightarrow> ('n client_world, unit) step" where
  "read_queued E =
    bind_s recv_message (\<lambda>message.
    case message of
      BuildQueued \<Rightarrow> phase ''queued''
    | Error err \<Rightarrow> lift_r (bail (message_text err))
    | message \<Rightarrow> lift_r (bail (''unexpected server message: '' @ debug_message (se_debug E) message)))"

definition read_queued_missing_paths :: "'n session_env \<Rightarrow> ('n client_world, string list) step" where
  "read_queued_missing_paths E =
    bind_s (read_queued E) (\<lambda>_.
    read_with_timeout (se_debug E) Kind_MissingPaths SERVER_PATH_LIST_LIMITS ''unexpected server message'')"

definition read_upload_ready :: "'n session_env \<Rightarrow> ('n client_world, unit) step" where
  "read_upload_ready E =
    bind_s recv_message (\<lambda>message.
    case message of
      InputUploadReady \<Rightarrow> ret ()
    | Error err \<Rightarrow> lift_r (bail (message_text err))
    | message \<Rightarrow> lift_r (bail (''unexpected server message: '' @ debug_message (se_debug E) message)))"

definition path_word :: "nat \<Rightarrow> string" where
  "path_word count = (if count = 1 then ''path'' else ''paths'')"

text \<open>An upload stream is the bytes written to it; the last of \<open>uploaded\<close> is the open one.\<close>

definition open_upload :: "('n client_world, unit) step" where
  "open_upload w =
    (case next_fault w of
       Fine \<Rightarrow> (Ok (), (ticked w)\<lparr>uploaded := uploaded w @ [[]]\<rparr>)
     | Fault n \<Rightarrow> (Err (Context ''open input upload stream'' (lib_error ''open_uni'')), ticked w))"

definition append_last :: "string \<Rightarrow> string list \<Rightarrow> string list" where
  "append_last bytes us = butlast us @ [last us @ bytes]"

definition write_upload :: "string \<Rightarrow> ('n client_world, unit) step" where
  "write_upload bytes w =
    (case next_fault w of
       Fine \<Rightarrow> (Ok (), add_bytes (length bytes) ((ticked w)\<lparr>uploaded := append_last bytes (uploaded w)\<rparr>))
     | Fault n \<Rightarrow>
         (Err (lib_error ''write_all''),
          add_bytes (min n (length bytes)) ((ticked w)\<lparr>uploaded := append_last (take n bytes) (uploaded w)\<rparr>)))"

definition upload_missing_paths :: "'n session_env \<Rightarrow> string list \<Rightarrow> ('n client_world, unit) step" where
  "upload_missing_paths E names =
    bind_s (phase ''preparing input upload'') (\<lambda>_.
    bind_s (lift_r (collect_r store_path_new names)) (\<lambda>paths.
    bind_s open_upload (\<lambda>_.
    bind_s (transfer (''send '' @ show_nat (length paths) @ '' '' @ path_word (length paths))) (\<lambda>_.
    match_s (export_paths (client_children (se_children E)) write_upload paths) (\<lambda>result.
    bind_s clear_phase (\<lambda>_.
    bind_s (lift_r result) (\<lambda>_.
    io_call ''finish'')))))))"

section \<open>The log\<close>

datatype log_renderer = Log_Plain | Log_Nom | Log_Disabled

text \<open>\<open>{err:#}\<close>.\<close>

definition full_text :: "anyhow \<Rightarrow> string" where
  "full_text err = join_with '': '' (err_chain err)"

definition log_renderer_new :: "output_mode \<Rightarrow> ('n client_world, log_renderer) step" where
  "log_renderer_new mode =
    (case mode of
       Plain \<Rightarrow> ret Log_Plain
     | Nom \<Rightarrow>
         bind_s (context_s (''start `nom --json`; install nom or use `--no-nom`'') (io_call ''spawn'')) (\<lambda>_.
         ret Log_Nom))"

definition nom_print :: "string \<Rightarrow> ('n client_world, unit) step" where
  "nom_print line =
    bind_s (context_s ''write log line to nom'' (io_call ''write_all'')) (\<lambda>_.
    bind_s (show_event (Nom_Input line)) (\<lambda>_.
    bind_s (context_s ''write log newline to nom'' (io_call ''write_all'')) (\<lambda>_.
    show_event (Nom_Input [CHR 0x0A]))))"

definition log_print :: "log_renderer \<Rightarrow> string \<Rightarrow> ('n client_world, unit) step" where
  "log_print logs line =
    (case logs of
       Log_Plain \<Rightarrow> show_event (Log_Line line)
     | Log_Nom \<Rightarrow> nom_print line
     | Log_Disabled \<Rightarrow> ret ())"

definition log_finish :: "'n session_env \<Rightarrow> log_renderer \<Rightarrow> ('n client_world, unit) step" where
  "log_finish E logs =
    (case logs of
       Log_Nom \<Rightarrow>
         bind_s (context_s ''wait for nom'' (io_call ''wait'')) (\<lambda>_.
         if \<not> fst (se_nom_status E) then lift_r (bail (''nom exited with '' @ snd (se_nom_status E)))
         else ret ())
     | _ \<Rightarrow> ret ())"

text \<open>A renderer that fails is given up, and the build goes on.\<close>

definition print_log_line :: "log_renderer \<Rightarrow> string \<Rightarrow> ('n client_world, log_renderer) step" where
  "print_log_line logs line =
    match_s (log_print logs line) (\<lambda>r.
    case r of
      Inl err \<Rightarrow>
        bind_s (show_event (Notice (''nom failed; continuing without log rendering: '' @ full_text err))) (\<lambda>_.
        ret Log_Disabled)
    | Inr _ \<Rightarrow> ret logs)"

definition finish_logs ::
  "'n session_env \<Rightarrow> log_renderer \<Rightarrow> build_finished \<Rightarrow> ('n client_world, build_finished) step" where
  "finish_logs E logs finished =
    match_s (log_finish E logs) (\<lambda>r.
    bind_s (case r of
        Inl err \<Rightarrow>
          if success finished then show_event (Notice (''nom cleanup failed: '' @ full_text err)) else ret ()
      | Inr _ \<Rightarrow> ret ()) (\<lambda>_.
    bind_s clear_phase (\<lambda>_. ret finished)))"

definition finish_after_error ::
  "'n session_env \<Rightarrow> log_renderer \<Rightarrow> string \<Rightarrow> ('n client_world, build_finished) step" where
  "finish_after_error E logs message =
    match_s (log_finish E logs) (\<lambda>r.
    bind_s (case r of
        Inl err \<Rightarrow> show_event (Notice (''nom cleanup failed after server error: '' @ full_text err))
      | Inr _ \<Rightarrow> ret ()) (\<lambda>_.
    bind_s clear_phase (\<lambda>_. lift_r (bail message))))"

lemma offwire_renderer [offwire]:
  "keeps off_wire (log_renderer_new mode)" "keeps off_wire (nom_print line)" "keeps off_wire (log_print logs line)"
  "keeps off_wire (log_finish E logs)"
  unfolding log_renderer_new_def nom_print_def log_print_def log_finish_def
  by (auto intro!: offwire split: output_mode.split log_renderer.split)

lemma offwire_log_line [offwire]: "keeps off_wire (print_log_line logs line)"
  unfolding print_log_line_def by (auto intro!: offwire split: sum.split)

lemma print_log_line_rx: "print_log_line logs line w = (r, w') \<Longrightarrow> rx w' = rx w"
  using keepsD [OF offwire_log_line] unfolding off_wire_def by blast

function build_message_loop ::
  "'n session_env \<Rightarrow> log_renderer \<Rightarrow> 'n client_world \<Rightarrow> build_finished result \<times> 'n client_world" where
  "build_message_loop E logs w =
    (case recv_message w of
       (Inl e, w1) \<Rightarrow> (Err e, w1)
     | (Inr message, w1) \<Rightarrow>
         (case message of
            BuildStarted \<Rightarrow> build_message_loop E logs w1
          | NixLog log \<Rightarrow>
              (case print_log_line logs (log_line log) w1 of
                 (Inl e, w2) \<Rightarrow> (Err e, w2)
               | (Inr logs, w2) \<Rightarrow> build_message_loop E logs w2)
          | BuildFinished finished \<Rightarrow> finish_logs E logs finished w1
          | Error err \<Rightarrow> finish_after_error E logs (message_text err) w1
          | message \<Rightarrow> (bail (''unexpected server message: '' @ debug_message (se_debug E) message), w1)))"
  by pat_completeness auto

termination
  by (relation "measure (\<lambda>(E, logs, w). length (rx w))")
    (auto dest!: recv_message_shrinks [OF sym] print_log_line_rx [OF sym])

declare build_message_loop.simps [simp del]


definition read_build_messages :: "'n session_env \<Rightarrow> output_mode \<Rightarrow> ('n client_world, build_finished) step" where
  "read_build_messages E mode =
    bind_s (phase (case mode of Nom \<Rightarrow> ''building via nom'' | Plain \<Rightarrow> ''building'')) (\<lambda>_.
    bind_s (if mode = Nom then clear_phase else ret ()) (\<lambda>_.
    bind_s (log_renderer_new mode) (\<lambda>logs.
    build_message_loop E logs)))"

section \<open>Outputs\<close>

definition wait_for_output_closure :: "'n session_env \<Rightarrow> ('n client_world, string list) step" where
  "wait_for_output_closure E =
    bind_s (phase ''receiving output closure'') (\<lambda>_.
    read_with_timeout (se_debug E) Kind_OutputClosure SERVER_PATH_LIST_LIMITS ''unexpected server message'')"

definition locally_missing_paths :: "'n session_env \<Rightarrow> string list \<Rightarrow> ('n client_world, string list) step" where
  "locally_missing_paths E names =
    bind_s (phase ''checking local outputs'') (\<lambda>_.
    bind_s (lift_r (collect_r store_path_new names)) (\<lambda>paths.
    bind_s (missing_paths (clc E) paths) (\<lambda>missing.
    ret (map as_str missing))))"

definition fetch_outputs :: "'n session_env \<Rightarrow> string \<Rightarrow> nat option \<Rightarrow> ('n client_world, u64) step" where
  "fetch_outputs E key nar_fetches =
    bind_s (wait_for_output_closure E) (\<lambda>output_closure.
    bind_s (locally_missing_paths E output_closure) (\<lambda>missing_outputs.
    bind_s (write_paths missing_outputs OutputRequest) (\<lambda>_.
    import_output_cache (se_cache E) key output_closure nar_fetches)))"

text \<open>The inputs are uploaded only if some are missing.\<close>

definition provide_inputs :: "'n session_env \<Rightarrow> string list \<Rightarrow> ('n client_world, unit) step" where
  "provide_inputs E missing =
    (if missing \<noteq> [] then bind_s (read_upload_ready E) (\<lambda>_. upload_missing_paths E missing) else ret ())"

definition run_remote_build ::
  "'n session_env \<Rightarrow> string \<Rightarrow> output_mode \<Rightarrow> nat option \<Rightarrow> ('n client_world, remote_build_result) step" where
  "run_remote_build E key mode nar_fetches =
    bind_s (read_queued_missing_paths E) (\<lambda>missing.
    bind_s (provide_inputs E missing) (\<lambda>_.
    bind_s (read_build_messages E mode) (\<lambda>finished.
    if \<not> success finished then
      ret \<lparr>rb_missing_count = length missing, rb_success = False,
           rb_output_paths = finished_output_paths finished, rb_received = 0\<rparr>
    else
      bind_s (fetch_outputs E key nar_fetches) (\<lambda>received.
      ret \<lparr>rb_missing_count = length missing, rb_success = True,
           rb_output_paths = finished_output_paths finished, rb_received = received\<rparr>))))"

section \<open>What the user is told\<close>

text \<open>\<open>{:<12}\<close>, then the rest of the line.\<close>

definition labelled :: "string \<Rightarrow> string \<Rightarrow> string" where
  "labelled label rest = label @ replicate (12 - length (utf8_chars label)) (CHR '' '') @ '' '' @ rest"

definition short_endpoint_id :: "string \<Rightarrow> string" where
  "short_endpoint_id ident =
    (let chars = utf8_chars ident in
     if length chars \<le> 14 then ident
     else concat (take 8 chars) @ ''...'' @ concat (rev (take 4 (rev chars))))"

definition local_outputs_lines :: "string \<Rightarrow> string list \<Rightarrow> string list" where
  "local_outputs_lines label outputs =
    [''drv-thru: outputs already present locally'', [],
     labelled ''installable'' label,
     labelled ''outputs'' (show_nat (length outputs) @ '' '' @ path_word (length outputs)),
     labelled ''remote'' ''skipped'', [],
     ''output paths:''] @ outputs"

definition build_lines ::
  "(u64 \<Rightarrow> string) \<Rightarrow> string \<Rightarrow> string \<Rightarrow> prepared_build \<Rightarrow> remote_build_result \<Rightarrow> string list" where
  "build_lines human server_id label prepared result =
    [if rb_success result then ''drv-thru: build complete'' else ''drv-thru: remote build failed'', [],
     ''drv-thru -> '' @ short_endpoint_id server_id,
     labelled ''installable'' label,
     labelled ''drv'' (as_str (pb_drv_path prepared)),
     labelled ''inputs'' (show_nat (rb_missing_count result) @ '' missing / ''
       @ show_nat (pb_path_count prepared) @ '' '' @ path_word (pb_path_count prepared)),
     labelled ''queue'' ''started'',
     labelled ''build'' (if rb_success result then ''succeeded'' else ''failed; see logs above''),
     labelled ''outputs'' (show_nat (length (rb_output_paths result)) @ '' ''
       @ path_word (length (rb_output_paths result))),
     labelled ''received'' (human (rb_received result) @ '' ('' @ show_word (rb_received result) @ '' bytes)''), [],
     ''output paths:''] @ rb_output_paths result"

definition print_summary ::
  "'n session_env \<Rightarrow> string \<Rightarrow> prepared_build \<Rightarrow> remote_build_result \<Rightarrow> ('n client_world, unit) step" where
  "print_summary E label prepared result =
    show_event (Summary (build_lines (se_human E) (se_server_id E) label prepared result))"

section \<open>The build\<close>

definition report_build ::
  "'n session_env \<Rightarrow> string \<Rightarrow> prepared_build \<Rightarrow> remote_build_result \<Rightarrow> ('n client_world, unit) step" where
  "report_build E label prepared result =
    (if \<not> rb_success result then
       bind_s clear_phase (\<lambda>_.
       bind_s (print_summary E label prepared result) (\<lambda>_.
       bind_s session_close (\<lambda>_.
       lift_r (bail ''remote build failed''))))
     else
       bind_s (phase ''done'') (\<lambda>_.
       bind_s clear_phase (\<lambda>_.
       bind_s (print_summary E label prepared result) (\<lambda>_.
       session_close))))"

definition no_auth_text :: string where
  "no_auth_text = ''build requires either --server or --ticket when requested outputs are missing locally or --rebuild is set''"

definition remote_build ::
  "'n session_env \<Rightarrow> string \<Rightarrow> string list \<Rightarrow> ('id, 'url, 'addr) build_auth \<Rightarrow> output_mode \<Rightarrow> nat option \<Rightarrow>
     eval_options \<Rightarrow> bool \<Rightarrow> ('n client_world, unit) step" where
  "remote_build E label outputs auth mode nar_fetches options again =
    bind_s (session_open E auth) (\<lambda>key.
    bind_s (phase ''checking output import trust'') (\<lambda>_.
    bind_s (preflight_output_import (se_cache E) key) (\<lambda>_.
    bind_s (prepare_build E label options) (\<lambda>prepared.
    bind_s (send_build_request label outputs prepared mode again) (\<lambda>_.
    bind_s (run_remote_build E key mode nar_fetches) (\<lambda>result.
    report_build E label prepared result))))))"

definition client_build ::
  "'n session_env \<Rightarrow> string \<Rightarrow> ('id, 'url, 'addr) build_auth option \<Rightarrow> output_mode \<Rightarrow> nat option \<Rightarrow>
     eval_options \<Rightarrow> bool \<Rightarrow> ('n client_world, unit) step" where
  "client_build E label auth mode nar_fetches options again =
    bind_s (resolve_requested_outputs E label options) (\<lambda>requested.
    bind_s (local_outputs_present E (ro_paths requested) again) (\<lambda>present.
    if present then
      bind_s clear_phase (\<lambda>_. show_event (Summary (local_outputs_lines label (ro_strings requested))))
    else
      bind_s (lift_r (ok_or no_auth_text auth)) (\<lambda>auth.
      remote_build E label (ro_strings requested) auth mode nar_fetches options again)))"

section \<open>Uploads\<close>

text \<open>What writes nothing to an upload stream, and reads the control stream only forward.\<close>

definition no_upload :: "'n client_world \<Rightarrow> 'n client_world \<Rightarrow> bool" where
  "no_upload w w' \<longleftrightarrow> uploaded w' = uploaded w \<and> (\<exists>heard. rx w = heard @ rx w')"

lemma no_upload_refl: "reflp no_upload"
  by (auto simp: reflp_def no_upload_def)

lemma no_upload_trans: "transp no_upload"
  by (rule transpI) (fastforce simp: no_upload_def)

lemma off_wire_no_upload: "keeps off_wire m \<Longrightarrow> keeps no_upload m"
  by (simp add: keeps_def off_wire_def no_upload_def)

named_theorems quieting

lemma quieting_combine [quieting]:
  "keeps no_upload (ret x)" "keeps no_upload (lift_r r)"
  "keeps no_upload m \<Longrightarrow> (\<And>x. keeps no_upload (f x)) \<Longrightarrow> keeps no_upload (bind_s m f)"
  "keeps no_upload m \<Longrightarrow> (\<And>x. keeps no_upload (g x)) \<Longrightarrow> keeps no_upload (match_s m g)"
  "keeps no_upload m \<Longrightarrow> keeps no_upload (context_s c m)"
  by (auto intro: no_upload_refl no_upload_trans)

lemma quieting_wire [quieting]:
  "keeps no_upload recv_message" "keeps no_upload recv_timed" "keeps no_upload (send_message m)"
  by (auto simp: keeps_def no_upload_def recv_message_def recv_timed_def send_message_def ticked_def
      split: list.splits fault.splits)

lemma quieting_off_wire [quieting]:
  "keeps no_upload (show_event e)" "keeps no_upload (phase s)" "keeps no_upload clear_phase"
  "keeps no_upload (io_call c)" "keeps no_upload (log_renderer_new mode)"
  "keeps no_upload (print_log_line logs line)" "keeps no_upload (log_finish E logs)"
  "keeps no_upload (output_import_method C key)" "keeps no_upload (output_of (client_commands D) program args)"
  "keeps no_upload (import_outputs_from_cache C cache key closure n)"
  by (rule off_wire_no_upload, rule offwire)+


lemma quieting_lists [quieting]:
  "keeps no_upload (write_paths ps mk)" "keeps no_upload (read_with_timeout d kind l c)"
  by (rule keeps_write_paths keeps_read_with_timeout; intro quieting no_upload_refl no_upload_trans)+

lemma quieting_missing_paths [quieting]: "keeps no_upload (missing_paths (client_commands C) ps)"
  by (rule keeps_missing_paths; intro quieting no_upload_refl no_upload_trans)

lemma quieting_loop: "no_upload w (snd (build_message_loop E logs w))"
proof (induction E logs w rule: build_message_loop.induct)
  case (1 E logs w)
  obtain r w1 where rd: "recv_message w = (r, w1)" by fastforce
  have n1: "no_upload w w1" using quieting_wire(1) rd by (rule keepsD)
  note trans = no_upload_trans [THEN transpD, OF n1]
  have fin: "keeps no_upload (finish_logs E logs f)" "keeps no_upload (finish_after_error E logs m)" for f m
    unfolding finish_logs_def finish_after_error_def
    by (intro quieting; auto split: sum.split intro!: quieting)+
  show ?case
  proof (cases r)
    case (Inl e)
    with rd n1 show ?thesis by (simp add: build_message_loop.simps)
  next
    case (Inr message)
    show ?thesis
    proof (cases message)
      case BuildStarted
      with rd Inr 1 trans show ?thesis by (subst build_message_loop.simps) simp
    next
      case (NixLog log)
      obtain s w2 where pr: "print_log_line logs (log_line log) w1 = (s, w2)" by fastforce
      have n2: "no_upload w1 w2" using quieting_off_wire(6) pr by (rule keepsD)
      show ?thesis
      proof (cases s)
        case (Inl e)
        with rd Inr NixLog pr trans n2 show ?thesis by (subst build_message_loop.simps) simp
      next
        case logs': (Inr logs')
        have "no_upload w2 (snd (build_message_loop E logs' w2))"
          using 1(2) rd Inr NixLog pr logs' by fastforce
        with no_upload_trans [THEN transpD, OF n2] trans
        have "no_upload w (snd (build_message_loop E logs' w2))" by blast
        with rd Inr NixLog pr logs' show ?thesis by (subst build_message_loop.simps) simp
      qed
    next
      case (BuildFinished f)
      with rd Inr trans keeps_snd [OF fin(1)] show ?thesis by (subst build_message_loop.simps) simp
    next
      case (Error e)
      with rd Inr trans keeps_snd [OF fin(2)] show ?thesis by (subst build_message_loop.simps) simp
    qed (use rd Inr n1 in \<open>subst build_message_loop.simps, simp\<close>)+
  qed
qed

lemma quieting_read_build_messages [quieting]: "keeps no_upload (read_build_messages E mode)"
proof -
  have "keeps no_upload (build_message_loop E logs)" for logs
    unfolding keeps_def by (rule allI, rule quieting_loop)
  then show ?thesis unfolding read_build_messages_def by (auto intro!: quieting)
qed

lemma quieting_import [quieting]: "keeps no_upload (import_output_cache C key closure n)"
proof -
  have done1: "keeps no_upload (read_server_done d)" for d
    unfolding read_server_done_def by (intro quieting; auto split: message.split intro!: quieting)
  have "keeps no_upload (finish_import C r)" for r
    unfolding finish_import_def by (auto intro!: quieting done1)
  then show ?thesis
    unfolding import_output_cache_def by (intro quieting; auto split: message.split intro!: quieting)
qed

lemma quieting_fetch_outputs [quieting]: "keeps no_upload (fetch_outputs E key n)"
  unfolding fetch_outputs_def wait_for_output_closure_def locally_missing_paths_def clc_def
  by (intro quieting)

lemma quieting_queued [quieting]: "keeps no_upload (read_queued_missing_paths E)"
  unfolding read_queued_missing_paths_def read_queued_def by (intro quieting; auto split: message.split intro!: quieting)

lemma quieting_ready [quieting]: "keeps no_upload (read_upload_ready E)"
  unfolding read_upload_ready_def by (intro quieting; auto split: message.split intro!: quieting)


text \<open>An upload is one stream, and the control stream rests meanwhile.\<close>

lemma write_upload_frame:
  "write_upload bytes w = (r, w') \<Longrightarrow> rx w' = rx w \<and> (uploaded w \<noteq> [] \<longrightarrow> (\<exists>u. uploaded w' = butlast (uploaded w) @ [u]))"
  by (auto simp: write_upload_def append_last_def add_bytes_def ticked_def split: fault.splits)

definition one_stream :: "string list \<Rightarrow> 'n client_world \<Rightarrow> 'n client_world \<Rightarrow> bool" where
  "one_stream us w w' \<longleftrightarrow> rx w' = rx w
     \<and> ((\<exists>u. uploaded w = us @ [u]) \<longrightarrow> (\<exists>u. uploaded w' = us @ [u]))"

lemma one_stream_rel [simp]: "reflp (one_stream us)" "transp (one_stream us)"
  by (auto simp: reflp_def transp_def one_stream_def)

lemma one_stream_off_wire: "keeps off_wire m \<Longrightarrow> keeps (one_stream us) m"
  by (simp add: keeps_def off_wire_def one_stream_def)

lemma one_stream_write: "keeps (one_stream us) (write_upload bytes)"
proof (rule keepsI)
  fix r and w w' :: "'a client_world"
  assume "write_upload bytes w = (r, w')"
  from write_upload_frame [OF this] show "one_stream us w w'" by (auto simp: one_stream_def)
qed

lemma one_stream_export: "keeps (one_stream us) (export_paths (client_children C) write_upload ps)"
proof -
  have cl: "keeps (one_stream us) (cl_step m)" for m :: "((string \<Rightarrow> string option) \<times> 'a, 'b) step"
    by (rule one_stream_off_wire, rule offwire)
  have cl': "keeps (one_stream us) (spawn_export (client_children C) args)"
    "keeps (one_stream us) (export_stdout (client_children C))"
    "keeps (one_stream us) (wait_export (client_children C))" for args
    unfolding client_children_def by (simp_all add: one_stream_off_wire offwire)
  show ?thesis by (rule keeps_export_paths) (simp_all add: cl' one_stream_write)
qed

lemma upload_frame:
  assumes "upload_missing_paths E ps w = (r, w')"
  shows "rx w' = rx w \<and> (uploaded w' = uploaded w \<or> (\<exists>u. uploaded w' = uploaded w @ [u]))"
proof -
  let ?us = "uploaded w"
  obtain w1 where w1: "phase ''preparing input upload'' w = (Ok (), w1)" "rx w1 = rx w" "uploaded w1 = ?us"
    by (simp add: phase_def show_event_def)
  show ?thesis
  proof (cases "collect_r store_path_new ps")
    case (Inl e)
    with assms w1 show ?thesis by (auto simp: upload_missing_paths_def bind_s_def)
  next
    case (Inr paths)
    obtain r2 w2 where op: "open_upload w1 = (r2, w2)" by fastforce
    show ?thesis
    proof (cases r2)
      case (Inl e)
      with assms w1 Inr op show ?thesis
        by (auto simp: upload_missing_paths_def bind_s_def open_upload_def ticked_def split: fault.splits)
    next
      case ok: (Inr u)
      with op w1 have w2: "rx w2 = rx w" "uploaded w2 = ?us @ [[]]"
        by (auto simp: open_upload_def ticked_def split: fault.splits)
      let ?rest = "bind_s (transfer (''send '' @ show_nat (length paths) @ '' '' @ path_word (length paths))) (\<lambda>_.
        match_s (export_paths (client_children (se_children E)) write_upload paths) (\<lambda>result.
        bind_s clear_phase (\<lambda>_. bind_s (lift_r result) (\<lambda>_. io_call ''finish''))))"
      have "keeps (one_stream ?us) (transfer s)" "keeps (one_stream ?us) clear_phase"
        "keeps (one_stream ?us) (io_call c)" for s c
        by (rule one_stream_off_wire, rule offwire)+
      then have "keeps (one_stream ?us) ?rest"
        by (intro keeps_bind_s keeps_match_s keeps_lift_r one_stream_rel one_stream_export)
      moreover have "?rest w2 = (r, w')"
        using assms w1 Inr op ok by (simp add: upload_missing_paths_def bind_s_def)
      ultimately have "one_stream ?us w2 w'" by (rule keepsD)
      with w2 show ?thesis by (auto simp: one_stream_def)
    qed
  qed
qed

lemma recv_message_Ok: "recv_message w = (Ok m, w') \<Longrightarrow> rx w = Inr m # rx w' \<and> w' = w\<lparr>rx := rx w'\<rparr>"
  by (auto simp: recv_message_def split: list.splits)

lemma read_queued_Ok1: "read_queued E w = (Ok (), w') \<Longrightarrow> rx w = Inr BuildQueued # rx w'"
proof -
  assume "read_queued E w = (Ok (), w')"
  then obtain m w1 where m: "recv_message w = (Ok m, w1)" and k: "(case m of
      BuildQueued \<Rightarrow> phase ''queued''
    | Error err \<Rightarrow> lift_r (bail (message_text err))
    | message \<Rightarrow> lift_r (bail (''unexpected server message: '' @ debug_message (se_debug E) message))) w1 = (Ok (), w')"
    unfolding read_queued_def bind_s_Ok_iff by blast
  from k have "m = BuildQueued \<and> rx w' = rx w1"
    by (cases m) (auto simp: phase_def show_event_def)
  with recv_message_Ok [OF m] show ?thesis by simp
qed

lemma read_queued_Ok:
  assumes "read_queued_missing_paths E w = (Ok missing, w')"
  shows "\<exists>cs. rx w = Inr BuildQueued # map (\<lambda>c. Inr (MissingPaths c)) cs @ rx w'
    \<and> complete_list cs \<and> missing = concat (map chunk_paths cs)"
proof -
  from assms obtain w1 where q: "read_queued E w = (Ok (), w1)"
    and rd: "read_with_timeout (se_debug E) Kind_MissingPaths SERVER_PATH_LIST_LIMITS ''unexpected server message'' w1
      = (Ok missing, w')"
    unfolding read_queued_missing_paths_def bind_s_Ok_iff by fastforce
  from rd obtain cs where "rx w1 = map (\<lambda>c. Inr (MissingPaths c)) cs @ rx w'"
    "complete_list cs" "missing = concat (map chunk_paths cs)"
    unfolding read_with_timeout_def read_paths_def
    by (auto dest!: read_loop_Ok simp: total_bytes_def)
  with read_queued_Ok1 [OF q] show ?thesis by auto
qed

lemma read_ready_Ok:
  "read_upload_ready E w = (Ok u, w') \<Longrightarrow> rx w = Inr InputUploadReady # rx w' \<and> uploaded w' = uploaded w"
proof -
  assume "read_upload_ready E w = (Ok u, w')"
  then obtain m w1 where m: "recv_message w = (Ok m, w1)" and k: "(case m of
      InputUploadReady \<Rightarrow> ret ()
    | Error err \<Rightarrow> lift_r (bail (message_text err))
    | message \<Rightarrow> lift_r (bail (''unexpected server message: '' @ debug_message (se_debug E) message))) w1 = (Ok u, w')"
    unfolding read_upload_ready_def bind_s_Ok_iff by blast
  from k have "m = InputUploadReady \<and> w' = w1" by (cases m) auto
  moreover have "rx w = Inr m # rx w1" "uploaded w1 = uploaded w"
    using m by (auto simp: recv_message_def split: list.splits)
  ultimately show ?thesis by simp
qed

lemma provide_inputs_uploads:
  assumes "provide_inputs E missing w = (r, w')"
  shows "(\<exists>heard. rx w = heard @ rx w') \<and> (uploaded w' = uploaded w
    \<or> missing \<noteq> [] \<and> rx w = Inr InputUploadReady # rx w' \<and> (\<exists>u. uploaded w' = uploaded w @ [u]))"
proof (cases "missing = []")
  case True
  with assms show ?thesis by (simp add: provide_inputs_def)
next
  case False
  obtain r1 w1 where rd: "read_upload_ready E w = (r1, w1)" by fastforce
  have n1: "no_upload w w1" using quieting_ready rd by (rule keepsD)
  show ?thesis
  proof (cases r1)
    case (Inl e)
    with False rd n1 assms show ?thesis by (auto simp: provide_inputs_def bind_s_def no_upload_def)
  next
    case (Inr u)
    with False rd assms have "upload_missing_paths E missing w1 = (r, w')"
      by (simp add: provide_inputs_def bind_s_def)
    from upload_frame [OF this] read_ready_Ok [OF rd [unfolded Inr]] False show ?thesis by auto
  qed
qed

text \<open>
  C14: The client uploads at most one stream of inputs, and only after the builder has queued
  the build, named missing paths in one complete list and said that it is ready for them.
\<close>

theorem uploads_only_what_was_asked_for:
  fixes w :: "'n client_world"
  shows "(case run_remote_build E key mode nar_fetches w of (r, w') \<Rightarrow>
    (\<exists>heard. rx w = heard @ rx w')
    \<and> (uploaded w' = uploaded w
       \<or> (\<exists>cs rest u. rx w = Inr BuildQueued # map (\<lambda>c. Inr (MissingPaths c)) cs @ Inr InputUploadReady # rest
            \<and> complete_list cs \<and> concat (map chunk_paths cs) \<noteq> []
            \<and> uploaded w' = uploaded w @ [u])))"
proof -
  obtain r w' where eq: "run_remote_build E key mode nar_fetches w = (r, w')" by fastforce
  obtain r1 w1 where q: "read_queued_missing_paths E w = (r1, w1)" by fastforce
  have n1: "no_upload w w1" using quieting_queued q by (rule keepsD)
  show ?thesis
  proof (cases r1)
    case (Inl e)
    with eq q n1 show ?thesis by (auto simp: run_remote_build_def bind_s_def no_upload_def)
  next
    case (Inr missing)
    let ?rest = "bind_s (read_build_messages E mode) (\<lambda>finished.
      if \<not> success finished then
        ret \<lparr>rb_missing_count = length missing, rb_success = False,
             rb_output_paths = finished_output_paths finished, rb_received = 0\<rparr>
      else
        bind_s (fetch_outputs E key nar_fetches) (\<lambda>received.
        ret \<lparr>rb_missing_count = length missing, rb_success = True,
             rb_output_paths = finished_output_paths finished, rb_received = received\<rparr>))"
    obtain r2 w2 where p: "provide_inputs E missing w1 = (r2, w2)" by fastforce
    have fin: "no_upload w2 w'"
    proof (cases r2)
      case (Inl e)
      with eq q Inr p show ?thesis by (auto simp: run_remote_build_def bind_s_def no_upload_def)
    next
      case ok: (Inr u)
      have "keeps no_upload ?rest" by (auto intro!: quieting)
      moreover have "?rest w2 = (r, w')" using eq q Inr p ok by (simp add: run_remote_build_def bind_s_def)
      ultimately show ?thesis by (rule keepsD)
    qed
    from read_queued_Ok [OF q [unfolded Inr]] obtain cs where
      cs: "rx w = Inr BuildQueued # map (\<lambda>c. Inr (MissingPaths c)) cs @ rx w1" "complete_list cs"
        "missing = concat (map chunk_paths cs)" by blast
    from provide_inputs_uploads [OF p] fin n1 cs eq show ?thesis
      by (auto simp: no_upload_def)
  qed
qed


section \<open>The log as it is shown\<close>

definition build_progress :: "message \<Rightarrow> bool" where
  "build_progress m = (case m of BuildStarted \<Rightarrow> True | NixLog log \<Rightarrow> True | _ \<Rightarrow> False)"

definition shown_lines :: "message list \<Rightarrow> console_event list" where
  "shown_lines ms = concat (map (\<lambda>m. case m of NixLog log \<Rightarrow> [Log_Line (log_line log)] | _ \<Rightarrow> []) ms)"

lemma build_progress_simps [simp]: "build_progress BuildStarted" "build_progress (NixLog log)"
  by (simp_all add: build_progress_def)

lemma shown_lines_simps [simp]:
  "shown_lines [] = []" "shown_lines (BuildStarted # ms) = shown_lines ms"
  "shown_lines (NixLog log # ms) = Log_Line (log_line log) # shown_lines ms"
  by (simp_all add: shown_lines_def)

lemma plain_line: "print_log_line Log_Plain line w = (Ok Log_Plain, w\<lparr>console := console w @ [Log_Line line]\<rparr>)"
  by (simp add: print_log_line_def log_print_def match_s_def show_event_def)

lemma plain_finish:
  "finish_logs E Log_Plain f w = (Ok f, w\<lparr>console := console w @ [Clear_Phase]\<rparr>)"
  by (simp add: finish_logs_def log_finish_def match_s_def bind_s_def clear_phase_def show_event_def)

lemma plain_finish_error: "finish_after_error E Log_Plain m w = (r, w') \<Longrightarrow> \<not> is_ok r"
  by (auto simp: finish_after_error_def log_finish_def match_s_def bind_s_def clear_phase_def show_event_def)

lemma plain_loop_Ok:
  "build_message_loop E logs w = (Ok f, w') \<Longrightarrow> logs = Log_Plain \<Longrightarrow>
   \<exists>ms. rx w = map Inr ms @ Inr (BuildFinished f) # rx w' \<and> list_all build_progress ms
     \<and> w' = w\<lparr>rx := rx w', console := console w @ shown_lines ms @ [Clear_Phase]\<rparr>"
proof (induction E logs w rule: build_message_loop.induct)
  case (1 E logs w)
  obtain r w1 where rd: "recv_message w = (r, w1)" by fastforce
  with 1(3) obtain m where m: "r = Inr m"
    by (cases r) (auto simp: build_message_loop.simps [of E logs w])
  from rd m have rx: "rx w = Inr m # rx w1" "w1 = w\<lparr>rx := rx w1\<rparr>" by (auto dest: recv_message_Ok)
  show ?case
  proof (cases m)
    case BuildStarted
    with 1(3) rd m have "build_message_loop E logs w1 = (Ok f, w')"
      by (subst (asm) build_message_loop.simps) simp
    with 1(1) [OF rd [symmetric] m BuildStarted] 1(4) obtain ms where
      "rx w1 = map Inr ms @ Inr (BuildFinished f) # rx w'" "list_all build_progress ms"
      "w' = w1\<lparr>rx := rx w', console := console w1 @ shown_lines ms @ [Clear_Phase]\<rparr>" by blast
    with rx BuildStarted show ?thesis
      by (intro exI [of _ "BuildStarted # ms"]) simp
  next
    case (NixLog log)
    let ?w2 = "w1\<lparr>console := console w1 @ [Log_Line (log_line log)]\<rparr>"
    have pr: "print_log_line logs (log_line log) w1 = (Ok Log_Plain, ?w2)" using 1(4) by (simp add: plain_line)
    with 1(3) rd m NixLog have "build_message_loop E Log_Plain ?w2 = (Ok f, w')"
      by (subst (asm) build_message_loop.simps) simp
    with 1(2) [OF rd [symmetric] m NixLog pr [symmetric] refl] obtain ms where
      "rx ?w2 = map Inr ms @ Inr (BuildFinished f) # rx w'" "list_all build_progress ms"
      "w' = ?w2\<lparr>rx := rx w', console := console ?w2 @ shown_lines ms @ [Clear_Phase]\<rparr>" by blast
    with rx NixLog show ?thesis
      by (intro exI [of _ "NixLog log # ms"]) simp
  next
    case (BuildFinished g)
    with 1(3,4) rd m have "finish_logs E Log_Plain g w1 = (Ok f, w')"
      by (subst (asm) build_message_loop.simps) simp
    moreover from rx(2) have "console w1 = console w" using rd by (auto simp: recv_message_def split: list.splits)
    ultimately show ?thesis using rx BuildFinished
      by (intro exI [of _ "[]"]) (auto simp: plain_finish)
  next
    case (Error e)
    with 1(3,4) rd m have "finish_after_error E Log_Plain (message_text e) w1 = (Ok f, w')"
      by (subst (asm) build_message_loop.simps) simp
    from plain_finish_error [OF this] show ?thesis by simp
  qed (use 1(3) rd m in \<open>subst (asm) build_message_loop.simps, simp\<close>)+
qed

text \<open>Without a renderer every line of the log is shown, in the order in which the builder sent them.\<close>

text \<open>
  A client that got the result of its build has shown every log line that came before it,
  in order, and changed no file.
\<close>

theorem plain_log_is_shown_in_order:
  fixes w :: "'n client_world"
  shows "(case read_build_messages E Plain w of
      (Inl e, w') \<Rightarrow> True
    | (Inr f, w') \<Rightarrow>
        (\<exists>ms. rx w = map Inr ms @ Inr (BuildFinished f) # rx w' \<and> list_all build_progress ms
          \<and> console w' = console w @ [Phase ''building''] @ shown_lines ms @ [Clear_Phase]
          \<and> tx w' = tx w \<and> files w' = files w))"
proof -
  have "\<exists>ms. rx w = map Inr ms @ Inr (BuildFinished f) # rx w' \<and> list_all build_progress ms
      \<and> console w' = console w @ [Phase ''building''] @ shown_lines ms @ [Clear_Phase]
      \<and> tx w' = tx w \<and> files w' = files w"
    if run: "read_build_messages E Plain w = (Inr f, w')" for f w'
  proof -
    let ?w1 = "w\<lparr>console := console w @ [Phase ''building'']\<rparr>"
    have "build_message_loop E Log_Plain ?w1 = (Ok f, w')"
      using run by (simp add: read_build_messages_def bind_s_def phase_def show_event_def log_renderer_new_def)
    from plain_loop_Ok [OF this refl] obtain ms where ms:
      "rx ?w1 = map Inr ms @ Inr (BuildFinished f) # rx w'" "list_all build_progress ms"
      "w' = ?w1\<lparr>rx := rx w', console := console ?w1 @ shown_lines ms @ [Clear_Phase]\<rparr>" by blast
    show ?thesis
    proof (intro exI conjI)
      show "rx w = map Inr ms @ Inr (BuildFinished f) # rx w'" using ms(1) by simp
      show "list_all build_progress ms" by (rule ms(2))
    qed (subst ms(3), simp)+
  qed
  then show ?thesis by (auto split: prod.split sum.split)
qed

section \<open>When a builder is spoken to\<close>

lemma offwire_queries [offwire]:
  "keeps off_wire (run_command (client_commands C) program args)" "keeps off_wire (missing_paths (client_commands C) ps)"
  by (rule keeps_run_command keeps_missing_paths; intro offwire off_wire_rel)+

lemma offwire_resolve [offwire]: "keeps off_wire (resolve_requested_outputs E label options)"
  unfolding resolve_requested_outputs_def resolve_outputs_def clc_def by (intro offwire)

lemma offwire_local [offwire]: "keeps off_wire (local_outputs_present E requested again)"
  unfolding local_outputs_present_def clc_def by (auto intro!: offwire)

text \<open>
  A build says nothing to a builder unless a builder was named and the outputs were resolved and
  are either missing from the store or to be rebuilt.
\<close>

text \<open>
  C13: A client that finds its outputs present, or that has no builder to ask, writes nothing to
  the network; otherwise it has resolved the outputs, found one missing or was told to rebuild,
  and runs the remote build for exactly those outputs.
\<close>

theorem builder_is_asked_only_when_needed:
  fixes w :: "'n client_world"
  shows "(case client_build E label auth mode nar_fetches options again w of (r, w') \<Rightarrow>
    (tx w' = tx w \<and> rx w' = rx w \<and> uploaded w' = uploaded w)
    \<or> (\<exists>a requested w1 w2. auth = Some a
         \<and> resolve_requested_outputs E label options w = (Ok requested, w1)
         \<and> local_outputs_present E (ro_paths requested) again w1 = (Ok False, w2)
         \<and> (r, w') = remote_build E label (ro_strings requested) a mode nar_fetches options again w2))"
proof -
  obtain r w' where eq: "client_build E label auth mode nar_fetches options again w = (r, w')" by fastforce
  obtain r1 w1 where res: "resolve_requested_outputs E label options w = (r1, w1)" by fastforce
  have o1: "off_wire w w1" using offwire_resolve res by (rule keepsD)
  show ?thesis
  proof (cases r1)
    case (Inl e)
    with eq res o1 show ?thesis by (auto simp: client_build_def bind_s_def off_wire_def)
  next
    case (Inr requested)
    obtain r2 w2 where pres: "local_outputs_present E (ro_paths requested) again w1 = (r2, w2)" by fastforce
    have "off_wire w1 w2" using offwire_local pres by (rule keepsD)
    with o1 have o2: "off_wire w w2" by (simp add: off_wire_def)
    show ?thesis
    proof (cases "r2 = Ok False \<and> auth \<noteq> None")
      case False
      with eq res pres Inr o2 show ?thesis
        by (cases r2) (auto simp: client_build_def bind_s_def off_wire_def clear_phase_def show_event_def
          split: if_splits)
    next
      case True
      with eq res pres Inr show ?thesis by (auto simp: client_build_def bind_s_def)
    qed
  qed
qed

end
