(* ===== verification/Client_Server.thy ===== *)
theory Client_Server
  imports Server_Connection Client_Session
begin

text \<open>
  The two ends of a connection together. A client that reports success has been told so by its
  builder (\<open>BuildFinished\<close>), and a builder says so only after \<open>nix-store --realise\<close> succeeded. Nothing
  is assumed of the network but that the ends read what the other wrote; their calls may fail in
  any way.
\<close>

section \<open>Results on the wire\<close>

definition results :: "message list \<Rightarrow> build_finished list" where
  "results ms = concat (map (\<lambda>m. case m of BuildFinished f \<Rightarrow> [f] | _ \<Rightarrow> []) ms)"

lemma results_simps [simp]:
  "results [] = []" "results (ms @ ns) = results ms @ results ns"
  "results (BuildFinished f # ms) = f # results ms"
  by (simp_all add: results_def)

lemma results_map: "(\<And>x. results [g x] = []) \<Longrightarrow> results (map g xs) = []"
  by (induction xs) (simp_all add: results_def)

lemma set_results: "BuildFinished f \<in> set ms \<Longrightarrow> f \<in> set (results ms)"
  by (force simp: results_def)

text \<open>Steps that send no result.\<close>

definition no_result :: "'n srv_world \<Rightarrow> 'n srv_world \<Rightarrow> bool" where
  "no_result w w' \<longleftrightarrow> results (tx w') = results (tx w)"

lemma no_result_rel [simp]: "reflp no_result" "transp no_result"
  by (simp_all add: reflp_def transp_def no_result_def)

lemma no_result_trans: "no_result u v \<Longrightarrow> no_result v w \<Longrightarrow> no_result u w"
  by (simp add: no_result_def)

lemma disk_no_result: "keeps on_disk m \<Longrightarrow> keeps no_result m"
  by (simp add: keeps_def on_disk_def no_result_def)

named_theorems undecided

lemma undecided_combine [undecided]:
  "keeps no_result (ret x)" "keeps no_result (lift_r r)"
  "keeps no_result m \<Longrightarrow> (\<And>x. keeps no_result (f x)) \<Longrightarrow> keeps no_result (bind_s m f)"
  "keeps no_result m \<Longrightarrow> (\<And>x. keeps no_result (h x)) \<Longrightarrow> keeps no_result (match_s m h)"
  "keeps no_result m \<Longrightarrow> keeps no_result (context_s c m)"
  by auto

lemma send_no_result: "results [m] = [] \<Longrightarrow> keeps no_result (send_message m)"
  by (auto simp: keeps_def no_result_def send_message_def ticked_def split: fault.splits)

lemma undecided_wire [undecided]:
  "keeps no_result recv_message" "keeps no_result recv_timed" "keeps no_result finish_stream"
  "keeps no_result (io_call c)" "keeps no_result accept_upload" "keeps no_result read_message"
  by (auto simp: keeps_def no_result_def recv_message_def recv_timed_def finish_stream_def io_call_def
      accept_upload_def read_message_def ticked_def split: fault.splits list.splits)

lemma undecided_messages [undecided]:
  "keeps no_result (send_message BuildQueued)" "keeps no_result (send_message BuildStarted)"
  "keeps no_result (send_message InputUploadReady)" "keeps no_result (send_message Done)"
  "keeps no_result (send_message (OutputCacheReady c))" "keeps no_result (send_error t)"
  "keeps no_result (write_auth_ok n k)" "keeps no_result (wire_log_sink line)"
  unfolding send_error_def write_auth_ok_def wire_log_sink_def
  by (rule send_no_result, simp add: results_def)+

lemma undecided_lists [undecided]:
  "keeps no_result (read_with_timeout d kind l c)"
  "keeps no_result (write_paths ps MissingPaths)" "keeps no_result (write_paths ps OutputClosure)"
  by (rule keeps_read_with_timeout keeps_write_paths;
      intro undecided no_result_rel send_no_result; simp add: results_def)+

lemma undecided_queries [undecided]:
  "keeps no_result (missing_paths (nixc E) ps)" "keeps no_result (query_closure (nixc E) ps)"
  by (rule keeps_missing_paths keeps_query_closure; intro disk_no_result disk no_result_rel)+

lemma undecided_import [undecided]: "keeps no_result (import_missing_inputs E missing limit)"
proof (rule keeps_import_missing_inputs)
  show "keeps no_result (output_of (nixc E) program args)" for program args
    by (rule disk_no_result, rule disk)
qed (simp_all add: nixp_def lift_children_def undecided disk_no_result disk, simp add: no_result_def ticked_def)

lemma no_result_registry:
  assumes "\<And>st (v :: 'n srv_world). f st v = snd (with_status_update S upd st v)"
  shows "no_result w (on_registry f w)"
proof -
  have "io_world.more (snd (snd (with_status_update S upd (registry w) w))) = io_world.more w"
    using with_status_update_frame [of w S upd "registry w"] by (simp add: only_files_def)
  moreover have "tx v = tx w" if "io_world.more v = io_world.more w" for v :: "'n srv_world"
    using that by (cases v, cases w) simp
  ultimately have "tx (snd (snd (with_status_update S upd (registry w) w))) = tx w" by blast
  with assms show ?thesis by (auto simp: on_registry_def no_result_def split: prod.split)
qed

lemma undecided_registry [undecided]:
  "keeps no_result (enter_phase E i ph)" "keeps no_result (start_status E i)"
  "keeps no_result (finish_status E i res err)" "keeps no_result (enqueue_build E label inst)"
proof -
  show "keeps no_result (enter_phase E i ph)" "keeps no_result (start_status E i)"
    "keeps no_result (finish_status E i res err)"
    unfolding keeps_def enter_phase_def start_status_def finish_status_def
    by (simp_all add: no_result_registry [OF status_phase_def] no_result_registry [OF status_start_def]
        no_result_registry [OF status_finish_def])
  have more: "tx v = tx w" if "io_world.more v = io_world.more w" for v w :: "'n srv_world"
    using that by (cases v, cases w) simp
  show "keeps no_result (enqueue_build E label inst)"
  proof (rule keepsI)
    fix w r t
    assume "enqueue_build E label inst w = (r, t)"
    moreover have "only_files (\<lambda>_. True) w (snd (snd (with_status_update (env_status E) (enqueue_update label inst) (registry w) w)))"
      by (rule with_status_update_frame)
    ultimately show "no_result w t"
      by (auto simp: enqueue_build_def status_enqueue_def only_files_def no_result_def
          split: prod.splits option.splits dest!: more)
  qed
qed

lemma undecided_serve_loop: "no_result w (snd (serve_loop E access pending events w))"
proof (induction E access pending events w rule: serve_loop.induct)
  case (3 E access pending msgs events w)
  have "no_result w (on_stream msgs (handle_cache_file_stream E access) w)"
    by (simp add: no_result_def on_stream_def Let_def)
  with 3 show ?case by (auto intro: no_result_trans)
next
  case (5 E access pending events w)
  show ?case
  proof (cases pending)
    case Nil
    with 5 show ?thesis by simp
  next
    case (Cons p ps)
    have "keeps no_result (context_s (''prewarm '' @ as_str p) (ensure_cache_entry E p))"
      by (rule disk_no_result) (intro disk)
    then have "no_result w (prewarm_fill E p w)" by (simp add: prewarm_fill_def keeps_def)
    with 5 Cons show ?thesis by (auto intro: no_result_trans)
  qed
qed (auto simp: control_message_def recv_message_def bind_s_def no_result_def
    split: prod.splits sum.splits list.splits message.splits)

lemma undecided_export_outputs [undecided]: "keeps no_result (export_outputs E ps)"
proof -
  have "keeps no_result (serve_output_cache E access pending)" for access pending
  proof (rule keepsI)
    fix w r t
    assume "serve_output_cache E access pending w = (r, t)"
    with undecided_serve_loop [of "w\<lparr>allowed_nar := [], serve_events := []\<rparr>" E access pending "serve_events w"]
    show "no_result w t" by (simp add: serve_output_cache_def no_result_def)
  qed
  then show ?thesis unfolding export_outputs_def output_closure_def by (auto intro!: undecided)
qed

section \<open>Where a result comes from\<close>

text \<open>A step that sends at most one result, and one of the given kind.\<close>

definition decides :: "(build_finished \<Rightarrow> bool) \<Rightarrow> 'n srv_world \<Rightarrow> 'n srv_world \<Rightarrow> bool" where
  "decides P w w' \<longleftrightarrow>
    results (tx w') = results (tx w) \<or> (\<exists>f. P f \<and> results (tx w') = results (tx w) @ [f])"

lemma decides_no_result:
  "decides P u v \<Longrightarrow> no_result v w \<Longrightarrow> decides P u w" "no_result u v \<Longrightarrow> decides P v w \<Longrightarrow> decides P u w"
  by (auto simp: decides_def no_result_def)

lemma decides_quiet: "keeps no_result m \<Longrightarrow> keeps (decides P) m"
  by (simp add: keeps_def decides_def no_result_def)

lemma decides_then:
  assumes "keeps no_result m" "\<And>x v w. m v = (Inr x, w) \<Longrightarrow> decides P w (snd (f x w))"
  shows "keeps (decides P) (bind_s m f)"
proof (rule keepsI)
  fix w r t
  assume eq: "bind_s m f w = (r, t)"
  obtain r1 w1 where m: "m w = (r1, w1)" by fastforce
  have n: "no_result w w1" using assms(1) m by (rule keepsD)
  show "decides P w t"
  proof (cases r1)
    case (Inl e)
    with eq m n show ?thesis by (simp add: bind_s_def decides_def no_result_def)
  next
    case (Inr x)
    with eq m have "f x w1 = (r, t)" by (simp add: bind_s_def)
    with assms(2) [OF m [unfolded Inr]] have "decides P w1 t" by simp
    with n show ?thesis by (rule decides_no_result(2))
  qed
qed

lemma decides_before:
  "keeps no_result m \<Longrightarrow> (\<And>x. keeps (decides P) (f x)) \<Longrightarrow> keeps (decides P) (bind_s m f)"
  by (rule decides_then) (simp_all add: keeps_def)

lemma decides_after:
  assumes "keeps (decides P) m" "\<And>x. keeps no_result (f x)"
  shows "keeps (decides P) (bind_s m f)"
proof (rule keepsI)
  fix w r t
  assume eq: "bind_s m f w = (r, t)"
  obtain r1 w1 where m: "m w = (r1, w1)" by fastforce
  have d: "decides P w w1" using assms(1) m by (rule keepsD)
  show "decides P w t"
  proof (cases r1)
    case (Inl e)
    with eq m d show ?thesis by (simp add: bind_s_def)
  next
    case (Inr x)
    with eq m have "f x w1 = (r, t)" by (simp add: bind_s_def)
    with assms(2) have "no_result w1 t" by (rule keepsD)
    with d show ?thesis by (rule decides_no_result(1))
  qed
qed

text \<open>A result the realisation of a derivation stands for.\<close>

definition realised ::
  "('id, 'addr, 'n) server_env \<Rightarrow> store_path \<Rightarrow> output_mode \<Rightarrow> bool \<Rightarrow> store_path list \<Rightarrow> build_finished \<Rightarrow> bool" where
  "realised E drv mode again requested f \<longleftrightarrow>
    (\<exists>deadline w1 r w2. realise (nixc E) (nixp E) deadline drv mode again wire_log_sink w1 = (Ok r, w2)
       \<and> success f = realise_success r
       \<and> (if realise_success r
          then set requested \<subseteq> set (realise_output_paths r) \<and> finished_output_paths f = map as_str requested
          else finished_output_paths f = []))"

lemma undecided_realise: "keeps no_result (realise (nixc E) (nixp E) deadline drv mode again wire_log_sink)"
proof (rule keepsI)
  fix w r t
  assume "realise (nixc E) (nixp E) deadline drv mode again wire_log_sink w = (r, t)"
  with logging_realise have "logs_only w t" by (rule keepsD)
  then show "no_result w t" by (auto simp: logs_only_def no_result_def results_def)
qed

lemma run_build_decides:
  "keeps (decides (realised E drv mode again requested)) (run_build E drv mode again deadline requested)"
proof -
  let ?sel = "\<lambda>r. if realise_success r then selected_outputs requested (realise_output_paths r) else Ok []"
  let ?rest = "\<lambda>r. bind_s (lift_r (?sel r)) (\<lambda>outputs.
    bind_s (send_message (BuildFinished \<lparr>success = realise_success r, finished_output_paths = map as_str outputs\<rparr>)) (\<lambda>_.
    ret \<lparr>fb_success = realise_success r, fb_output_paths = outputs\<rparr>))"
  have "decides (realised E drv mode again requested) w (snd (?rest r w))"
    if rl: "realise (nixc E) (nixp E) deadline drv mode again wire_log_sink v = (Ok r, w)" for v r w
  proof (cases "?sel r")
    case (Inl e)
    then show ?thesis by (simp add: bind_s_def decides_def)
  next
    case (Inr outs)
    let ?f = "\<lparr>success = realise_success r, finished_output_paths = map as_str outs\<rparr>"
    have "realised E drv mode again requested ?f"
      unfolding realised_def using rl Inr by (fastforce simp: selected_outputs_def selected_loop_Ok split: if_splits)
    then show ?thesis
      using Inr by (auto simp: bind_s_def decides_def send_message_def ticked_def split: fault.splits)
  qed
  with undecided_realise
  have "keeps (decides (realised E drv mode again requested))
    (bind_s (realise (nixc E) (nixp E) deadline drv mode again wire_log_sink) ?rest)"
    by (rule decides_then)
  with undecided_messages(2) show ?thesis unfolding run_build_def by (rule decides_before)
qed

text \<open>What the result of a checked request stands for.\<close>

abbreviation built ::
  "('id, 'addr, 'n) server_env \<Rightarrow> checked_build_request \<Rightarrow> build_finished \<Rightarrow> bool" where
  "built E b \<equiv> realised E (cb_drv_path b) (cb_output_mode b) (cb_rebuild b) (cb_output_paths b)"

lemma run_queued_build_decides: "keeps (decides (built E b)) (run_queued_build E b a i)"
  unfolding run_queued_build_def
  by (auto intro!: decides_before decides_after [OF run_build_decides] undecided)

lemma run_when_permitted_decides: "keeps (decides (built E b)) (run_when_permitted E i b a)"
proof (cases "env_queue_open E")
  case True
  have "keeps (decides (built E b)) (match_s (run_queued_build E b a i) (\<lambda>r. ret (Build_Ended r)))"
    using run_queued_build_decides [of E b a i] by (auto simp: keeps_def match_s_def case_prod_unfold)
  with True show ?thesis
    unfolding run_when_permitted_def by (simp add: decides_before undecided)
next
  case False
  then show ?thesis
    unfolding run_when_permitted_def finish_control_def by (auto intro!: decides_quiet undecided)
qed

lemma undecided_record [undecided]: "keeps no_result (record_build_result E i r)"
  unfolding record_build_result_def by (auto intro!: undecided split: sum.split bool.split)

lemma serve_request_decides: "keeps (decides (built E b)) (serve_request E peer a b)"
proof -
  have queued: "keeps no_result (send_build_queued E i)" for i
    unfolding send_build_queued_def by (auto intro!: undecided split: sum.split)
  have redeem: "keeps no_result (redeem_ticket_if_needed E a peer)"
    unfolding redeem_ticket_if_needed_def
    by (auto intro!: undecided disk_no_result [OF disk_ticket_store(1)] split: option.splits sum.splits)
  have "keeps no_result (case x of Queue_Closed \<Rightarrow> ret ()
    | Build_Ended r \<Rightarrow> bind_s (record_build_result E i r) (\<lambda>_. finish_control))" for x i
    unfolding finish_control_def by (cases x) (auto intro!: undecided)
  then have "keeps (decides (built E b)) (queue_and_run E b a)" for a
    unfolding queue_and_run_def
    by (intro decides_before decides_after [OF run_when_permitted_decides] undecided queued)
  then show ?thesis unfolding serve_request_def finish_control_def
    by (intro decides_before redeem; auto intro!: decides_quiet undecided split: option.split)
qed

lemma undecided_incoming [undecided]:
  "keeps no_result (read_hello E peer)" "keeps no_result (read_build_or_report E)" "keeps no_result finish_control"
  "keeps no_result (authorize_connection E peer)"
proof -
  show "keeps no_result (read_hello E peer)"
    unfolding read_hello_def by (auto intro!: undecided split: message.splits)
  show fin: "keeps no_result finish_control" by (simp add: finish_control_def undecided)
  have "keeps no_result (read_checked_build_request E q)" for q
    unfolding read_checked_build_request_def by (intro undecided)
  with fin show "keeps no_result (read_build_or_report E)"
    unfolding read_build_or_report_def by (auto intro!: undecided split: message.splits sum.splits)
  have "keeps no_result (authorize_ticket E peer secret)" for secret
    unfolding authorize_ticket_def Let_def
    by (auto intro!: undecided disk_no_result [OF disk_ticket_store(2)] split: sum.splits)
  moreover have "keeps no_result (authorize_trusted_client E peer)"
    unfolding authorize_trusted_client_def Let_def by (auto intro!: undecided split: option.splits)
  ultimately show "keeps no_result (authorize_connection E peer)"
    unfolding authorize_connection_def by (auto intro!: undecided split: message.splits)
qed

text \<open>A connection sends a result only if it was admitted, and then the one of the build it asked for.\<close>

lemma incoming_decides:
  assumes "handle_incoming E peer w = (r, w')" "f \<in> set (results (tx w'))" "results (tx w) = []"
  shows "\<exists>a b. admitted E peer w a b \<and> built E b f"
proof -
  from incoming_cases [OF assms(1) no_result_rel undecided_wire(4) undecided_incoming(1,4,2,3)]
  show ?thesis
  proof
    assume "no_result w w'"
    with assms show ?thesis by (simp add: no_result_def)
  next
    assume "\<exists>a b w3. admitted E peer w a b \<and> no_result w w3 \<and> serve_request E peer a b w3 = (r, w')"
    then obtain a b w3 where ab: "admitted E peer w a b" "no_result w w3" and sv: "serve_request E peer a b w3 = (r, w')"
      by blast
    have "decides (built E b) w3 w'" using serve_request_decides sv by (rule keepsD)
    with ab(2) have "decides (built E b) w w'" by (blast intro: decides_no_result)
    with assms(2,3) have "built E b f" by (auto simp: decides_def)
    with ab(1) show ?thesis by blast
  qed
qed

section \<open>What a client says and hears\<close>

lemma send_message_Ok: "send_message m w = (Inr u, w') \<Longrightarrow> tx w' = tx w @ [m] \<and> rx w' = rx w"
  by (auto simp: send_message_def ticked_def split: fault.splits)

text \<open>Steps that add to what was written and read the control stream only forward.\<close>

definition converses :: "'n client_world \<Rightarrow> 'n client_world \<Rightarrow> bool" where
  "converses w w' \<longleftrightarrow> (\<exists>ms. tx w' = tx w @ ms) \<and> (\<exists>heard. rx w = heard @ rx w')"

lemma converses_rel [simp]: "reflp converses" "transp converses"
proof -
  show "reflp converses" by (auto simp: reflp_def converses_def)
  show "transp converses" by (rule transpI) (fastforce simp: converses_def)
qed

lemma off_wire_converses: "keeps off_wire m \<Longrightarrow> keeps converses m"
  by (simp add: keeps_def off_wire_def converses_def)

named_theorems conversing

lemma conversing_combine [conversing]:
  "keeps converses (ret x)" "keeps converses (lift_r r)"
  "keeps converses m \<Longrightarrow> (\<And>x. keeps converses (f x)) \<Longrightarrow> keeps converses (bind_s m f)"
  "keeps converses m \<Longrightarrow> (\<And>x. keeps converses (g x)) \<Longrightarrow> keeps converses (match_s m g)"
  by auto

lemma conversing_wire [conversing]:
  "keeps converses recv_message" "keeps converses recv_timed" "keeps converses (send_message m)"
  by (auto simp: keeps_def converses_def recv_message_def recv_timed_def send_message_def ticked_def
      split: list.splits fault.splits)

lemma conversing_off_wire [conversing]:
  "keeps converses (phase s)" "keeps converses clear_phase" "keeps converses (io_call c)"
  "keeps converses (show_event e)"
  "keeps converses (log_renderer_new mode)" "keeps converses (print_log_line logs line)"
  "keeps converses (log_finish E logs)" "keeps converses (import_outputs_from_cache C cache key closure n)"
  "keeps converses (missing_paths (client_commands D) ps)"
  by (rule off_wire_converses, rule offwire)+

lemma conversing_lists [conversing]:
  "keeps converses (write_paths ps mk)" "keeps converses (read_with_timeout d kind l c)"
  by (rule keeps_write_paths keeps_read_with_timeout; intro conversing converses_rel)+

lemma conversing_reads [conversing]:
  "keeps converses (read_queued_missing_paths E)" "keeps converses (read_upload_ready E)"
  "keeps converses (read_server_done d)"
  unfolding read_queued_missing_paths_def read_queued_def read_upload_ready_def read_server_done_def
  by (intro conversing; auto split: message.split intro!: conversing)+

lemma conversing_fetch [conversing]: "keeps converses (fetch_outputs E key n)"
proof -
  have "keeps converses (finish_import C r)" for C :: "'a cache_env" and r
    unfolding finish_import_def by (auto intro!: conversing)
  then have "keeps converses (import_output_cache C key closure n)" for C :: "'a cache_env" and closure
    unfolding import_output_cache_def by (intro conversing; auto split: message.split intro!: conversing)
  then show ?thesis
    unfolding fetch_outputs_def wait_for_output_closure_def locally_missing_paths_def clc_def
    by (intro conversing)
qed

lemma conversing_upload [conversing]: "keeps converses (upload_missing_paths E ps)"
proof -
  have cl: "keeps converses (cl_step m)" for m :: "((string \<Rightarrow> string option) \<times> 'a, 'b) step"
    by (rule off_wire_converses, rule offwire)
  have kids: "keeps converses (spawn_export (client_children C) args)"
    "keeps converses (export_stdout (client_children C))" "keeps converses (wait_export (client_children C))"
    for C :: "((string \<Rightarrow> string option) \<times> 'a) children" and args
    unfolding client_children_def by (simp_all add: off_wire_converses offwire)
  have wr: "keeps converses (write_upload bytes)" for bytes
    by (auto simp: keeps_def converses_def write_upload_def add_bytes_def ticked_def split: fault.splits)
  have ex: "keeps converses (export_paths (client_children C) write_upload ps)"
    for C :: "((string \<Rightarrow> string option) \<times> 'a) children" and ps
    by (rule keeps_export_paths) (simp_all add: kids wr)
  have op: "keeps converses open_upload" and tr: "keeps converses (transfer t)" for t
    by (auto simp: keeps_def converses_def open_upload_def transfer_def ticked_def split: fault.splits)
  show ?thesis unfolding upload_missing_paths_def by (intro conversing ex op tr)
qed

lemma loop_converses:
  "converses w (snd (build_message_loop E logs w))
    \<and> (\<forall>f w'. build_message_loop E logs w = (Inr f, w') \<longrightarrow> Inr (BuildFinished f) \<in> set (rx w))"
  (is "?C E logs w \<and> ?F E logs w")
proof (induction E logs w rule: build_message_loop.induct)
  case (1 E logs w)
  obtain r w1 where rd: "recv_message w = (r, w1)" by fastforce
  have n1: "converses w w1" using conversing_wire(1) rd by (rule keepsD)
  have fin: "keeps converses (finish_logs E logs f)" "keeps converses (finish_after_error E logs m)" for f m
    unfolding finish_logs_def finish_after_error_def
    by (intro conversing; auto split: sum.split intro!: conversing)+
  have same: "\<forall>f' v'. finish_logs E logs f v = (Inr f', v') \<longrightarrow> f' = f" for f v
    by (auto simp: finish_logs_def match_s_def bind_s_def split: prod.splits sum.splits)
  have never: "\<forall>f' v'. finish_after_error E logs m v \<noteq> (Inr f', v')" for m v
    by (auto simp: finish_after_error_def match_s_def bind_s_def split: prod.splits sum.splits)
  note trans = transpD [OF converses_rel(2) n1]
  show ?case
  proof (cases r)
    case (Inl e)
    with rd n1 show ?thesis by (simp add: build_message_loop.simps)
  next
    case (Inr message)
    from rd Inr have rx: "rx w = Inr message # rx w1" by (auto dest: recv_message_Ok)
    show ?thesis
    proof (cases message)
      case BuildStarted
      with rd Inr have step: "build_message_loop E logs w = build_message_loop E logs w1"
        by (subst build_message_loop.simps) simp
      from 1(1) [OF rd [symmetric] Inr BuildStarted] trans rx show ?thesis unfolding step by auto
    next
      case (NixLog log)
      obtain s w2 where pr: "print_log_line logs (log_line log) w1 = (s, w2)" by fastforce
      have "converses w1 w2" using conversing_off_wire(6) pr by (rule keepsD)
      then have n2: "converses w w2" by (rule trans)
      show ?thesis
      proof (cases s)
        case (Inl e)
        with rd Inr NixLog pr have "build_message_loop E logs w = (Inl e, w2)"
          by (subst build_message_loop.simps) simp
        with n2 show ?thesis by simp
      next
        case logs': (Inr logs')
        with rd Inr NixLog pr have step: "build_message_loop E logs w = build_message_loop E logs' w2"
          by (subst build_message_loop.simps) simp
        have ih: "?C E logs' w2 \<and> ?F E logs' w2"
          by (rule 1(2) [OF rd [symmetric] Inr NixLog pr [symmetric] logs'])
        with transpD [OF converses_rel(2) n2] print_log_line_rx [OF pr] rx show ?thesis unfolding step by auto
      qed
    next
      case (BuildFinished f)
      with rd Inr have step: "build_message_loop E logs w = finish_logs E logs f w1"
        by (subst build_message_loop.simps) simp
      from trans [OF keeps_snd [OF fin(1)]] same rx BuildFinished show ?thesis unfolding step by auto
    next
      case (Error e)
      with rd Inr have step: "build_message_loop E logs w = finish_after_error E logs (message_text e) w1"
        by (subst build_message_loop.simps) simp
      from trans [OF keeps_snd [OF fin(2)]] never show ?thesis unfolding step by auto
    qed (use rd Inr n1 in \<open>subst build_message_loop.simps, simp\<close>)+
  qed
qed

lemma read_build_messages_converses:
  "keeps converses (read_build_messages E mode)"
  "read_build_messages E mode w = (Inr f, w') \<Longrightarrow> \<exists>heard rest. rx w = heard @ Inr (BuildFinished f) # rest"
proof -
  have loop: "keeps converses (build_message_loop E logs)" for logs
    unfolding keeps_def by (intro allI conjunct1 [OF loop_converses])
  then show "keeps converses (read_build_messages E mode)"
    unfolding read_build_messages_def by (auto intro!: conversing)
  assume "read_build_messages E mode w = (Inr f, w')"
  then obtain u w1 v w2 logs w3 where
    ph: "phase (case mode of Nom \<Rightarrow> ''building via nom'' | Plain \<Rightarrow> ''building'') w = (Inr u, w1)"
    and cl: "(if mode = Nom then clear_phase else ret ()) w1 = (Inr v, w2)"
    and lg: "log_renderer_new mode w2 = (Inr logs, w3)" and loop: "build_message_loop E logs w3 = (Inr f, w')"
    unfolding read_build_messages_def bind_s_Ok_iff by blast
  have "keeps off_wire (if mode = Nom then clear_phase else ret ())" by (auto intro!: offwire)
  then have "off_wire w1 w2" using cl by (rule keepsD)
  moreover have "off_wire w w1" using offwire_simple(2) ph by (rule keepsD)
  moreover have "off_wire w2 w3" using offwire_renderer(1) lg by (rule keepsD)
  ultimately have "rx w3 = rx w" by (simp add: off_wire_def)
  moreover have "Inr (BuildFinished f) \<in> set (rx w3)" using loop_converses loop by blast
  ultimately show "\<exists>heard rest. rx w = heard @ Inr (BuildFinished f) # rest" by (auto dest: split_list)
qed

text \<open>A remote build that reports success has heard a successful result.\<close>

lemma run_remote_build_Ok:
  assumes "run_remote_build E key mode fetches w = (Inr result, w')" "rb_success result"
  shows "(\<exists>f. Inr (BuildFinished f) \<in> set (rx w) \<and> success f \<and> rb_output_paths result = finished_output_paths f)
    \<and> (\<exists>ms. tx w' = tx w @ ms)"
proof -
  from assms(1) obtain missing w1 u w2 f w3 where
    s1: "read_queued_missing_paths E w = (Inr missing, w1)" and s2: "provide_inputs E missing w1 = (Inr u, w2)"
    and s3: "read_build_messages E mode w2 = (Inr f, w3)"
    and s4: "(if \<not> success f then
        ret \<lparr>rb_missing_count = length missing, rb_success = False,
             rb_output_paths = finished_output_paths f, rb_received = 0\<rparr>
      else
        bind_s (fetch_outputs E key fetches) (\<lambda>received.
        ret \<lparr>rb_missing_count = length missing, rb_success = True,
             rb_output_paths = finished_output_paths f, rb_received = received\<rparr>)) w3 = (Inr result, w')"
    unfolding run_remote_build_def bind_s_Ok_iff by blast
  have "keeps converses (provide_inputs E missing)"
    unfolding provide_inputs_def by (auto intro!: conversing)
  then have c2: "converses w1 w2" using s2 by (rule keepsD)
  have c1: "converses w w1" using conversing_reads(1) s1 by (rule keepsD)
  have c3: "converses w2 w3" using read_build_messages_converses(1) s3 by (rule keepsD)
  from c1 c2 c3 have w3: "converses w w3" "converses w w2" using converses_rel(2) by (meson transpD)+
  have ok: "success f" using s4 assms(2) by (auto split: if_splits)
  then obtain received where ft: "fetch_outputs E key fetches w3 = (Inr received, w')"
    and res: "rb_output_paths result = finished_output_paths f"
    using s4 by (auto simp: bind_s_Ok_iff)
  have "converses w3 w'" using conversing_fetch ft by (rule keepsD)
  with w3 have "\<exists>ms. tx w' = tx w @ ms" by (auto simp: converses_def)
  moreover obtain heard rest where "rx w2 = heard @ Inr (BuildFinished f) # rest"
    using read_build_messages_converses(2) [OF s3] by blast
  then have "Inr (BuildFinished f) \<in> set (rx w)" using w3(2) by (auto simp: converses_def)
  ultimately show ?thesis using ok res by blast
qed

definition auth_message :: "('id, 'url, 'addr) build_auth \<Rightarrow> message" where
  "auth_message auth =
    (case auth of
       TrustedClient _ _ \<Rightarrow> AuthTrustedClient
     | Ticket ticket \<Rightarrow> AuthTicket \<lparr>auth_secret = ticket_secret ticket\<rparr>)"

lemma session_open_Ok:
  assumes "session_open E auth w = (Inr key, w')"
  shows "tx w' = tx w @ [Hello \<lparr>hello_version = VERSION, node_id = se_id_text E\<rparr>, auth_message auth]
    \<and> (\<exists>heard. rx w = heard @ rx w')"
proof -
  from assms obtain w1 w2 w3 w4 w5 w6 where
    "io_call ''bind'' w = (Inr (), w1)" "phase ''connecting'' w1 = (Inr (), w2)" and c: "connect_step w2 = (Inr (), w3)"
    and "io_call ''open_bi'' w3 = (Inr (), w4)" and h: "write_hello E w4 = (Inr (), w5)"
    and a: "write_auth auth w5 = (Inr (), w6)" and r: "read_auth_ok E w6 = (Inr key, w')"
    unfolding session_open_def bind_s_Ok_iff by auto
  note steps = this
  have "off_wire w2 w3" using c by (auto simp: connect_step_def off_wire_def ticked_def split: fault.splits)
  moreover have "off_wire w w1" using offwire_simple(6) steps(1) by (rule keepsD)
  moreover have "off_wire w1 w2" using offwire_simple(2) steps(2) by (rule keepsD)
  moreover have "off_wire w3 w4" using offwire_simple(6) steps(4) by (rule keepsD)
  ultimately have w4: "tx w4 = tx w" "rx w4 = rx w" by (simp_all add: off_wire_def)
  from a have "send_message (auth_message auth) w5 = (Inr (), w6)"
    by (simp add: write_auth_def auth_message_def split: build_auth.splits)
  with send_message_Ok [OF h [unfolded write_hello_def]] w4 have
    w6: "tx w6 = tx w @ [Hello \<lparr>hello_version = VERSION, node_id = se_id_text E\<rparr>, auth_message auth]" "rx w6 = rx w"
    by (auto dest: send_message_Ok)
  have "tx w' = tx w6 \<and> (\<exists>heard. rx w6 = heard @ rx w')"
  proof -
    from r obtain m w7 where m: "recv_message w6 = (Inr m, w7)" and k: "(case m of
      AuthOk auth \<Rightarrow>
        bind_s (phase (case client_name auth of
            Some name \<Rightarrow> ''authorized as '' @ name
          | None \<Rightarrow> ''authorized'')) (\<lambda>_.
        ret (builder_public_key auth))
    | Error err \<Rightarrow> lift_r (bail (message_text err))
    | message \<Rightarrow> lift_r (bail (''unexpected server message: '' @ debug_message (se_debug E) message))) w7 = (Inr key, w')"
      unfolding read_auth_ok_def bind_s_Ok_iff by blast
    from k have "tx w' = tx w7" "rx w' = rx w7"
      by (cases m; auto simp: bind_s_def phase_def show_event_def)+
    with m show ?thesis by (auto simp: recv_message_def split: list.splits)
  qed
  with w6 show ?thesis by simp
qed

lemma offwire_prepare [offwire]: "keeps off_wire (prepare_build E label options)"
proof -
  have "keeps off_wire (resolve_derivation (client_commands C) label options)"
    for C :: "((string \<Rightarrow> string option) \<times> 'a) commands"
    unfolding resolve_derivation_def by (auto intro!: offwire split: list.split)
  moreover have "keeps off_wire (query_closure (client_commands C) ps)"
    for C :: "((string \<Rightarrow> string option) \<times> 'a) commands" and ps
    by (rule keeps_query_closure) (simp_all add: offwire)
  ultimately show ?thesis
    unfolding prepare_build_def clc_def nix_closure_def by (auto intro!: offwire)
qed

lemma remote_build_Ok:
  assumes "remote_build E label outs auth mode fetches options again w = (Inr u, w')"
  shows "\<exists>prepared w1 w2 result h f ms.
    prepare_build E label options w1 = (Ok prepared, w2)
    \<and> tx w' = tx w @ [Hello h, auth_message auth, request_message label outs prepared mode again] @ ms
    \<and> Inr (BuildFinished f) \<in> set (rx w) \<and> success f
    \<and> rb_success result \<and> rb_output_paths result = finished_output_paths f
    \<and> Summary (build_lines (se_human E) (se_server_id E) label prepared result) \<in> set (console w')"
proof -
  from assms obtain key w1 w2 w3 u1 u2 u3 prepared w4 w5 result w6 where
    open_s: "session_open E auth w = (Inr key, w1)"
    and ph: "phase ''checking output import trust'' w1 = (Inr u1, w2)"
    and pre: "preflight_output_import (se_cache E) key w2 = (Inr u2, w3)"
    and prep: "prepare_build E label options w3 = (Inr prepared, w4)"
    and req: "send_build_request label outs prepared mode again w4 = (Inr u3, w5)"
    and run: "run_remote_build E key mode fetches w5 = (Inr result, w6)"
    and rep: "report_build E label prepared result w6 = (Inr u, w')"
    unfolding remote_build_def bind_s_Ok_iff by blast
  note op = session_open_Ok [OF open_s]
  have "keeps off_wire (preflight_output_import (se_cache E) key :: ('a client_world, unit) step)"
    unfolding preflight_output_import_def by (intro offwire)
  then have "off_wire w2 w3" using pre by (rule keepsD)
  moreover have "off_wire w1 w2" using offwire_simple(2) ph by (rule keepsD)
  moreover have "off_wire w3 w4" using offwire_prepare prep by (rule keepsD)
  ultimately have w4: "tx w4 = tx w1" "rx w4 = rx w1" by (simp_all add: off_wire_def)
  from req obtain u4 w45 where sm: "send_message (request_message label outs prepared mode again) w4 = (Inr u4, w45)"
    and wp: "write_paths (pb_closure prepared) BuildPaths w45 = (Inr u3, w5)"
    unfolding send_build_request_def bind_s_Ok_iff by blast
  have "converses w45 w5" using conversing_lists(1) wp by (rule keepsD)
  then obtain ms heard where "tx w5 = tx w45 @ ms" "rx w45 = heard @ rx w5" unfolding converses_def by blast
  with send_message_Ok [OF sm] have
    w5: "tx w5 = tx w4 @ [request_message label outs prepared mode again] @ ms" "rx w4 = heard @ rx w5" by simp_all
  have ok: "rb_success result" using rep by (auto simp: report_build_def bind_s_def split: prod.splits sum.splits if_splits)
  note rr = run_remote_build_Ok [OF run ok]
  have "tx w' = tx w6 \<and> Summary (build_lines (se_human E) (se_server_id E) label prepared result) \<in> set (console w')"
    using rep ok by (auto simp: report_build_def bind_s_def phase_def clear_phase_def show_event_def print_summary_def
        session_close_def io_call_def ticked_def split: fault.splits)
  then have w': "tx w' = tx w6"
    and shown: "Summary (build_lines (se_human E) (se_server_id E) label prepared result) \<in> set (console w')" by blast+
  from rr obtain f ms' where f: "Inr (BuildFinished f) \<in> set (rx w5)" "success f"
    "rb_output_paths result = finished_output_paths f" and w6: "tx w6 = tx w5 @ ms'" by blast
  from op obtain heard' where "rx w = heard' @ rx w1" by blast
  with w4 w5 have "rx w = heard' @ heard @ rx w5" by simp
  with f(1) have heard: "Inr (BuildFinished f) \<in> set (rx w)" by simp
  have "tx w' = tx w @ [Hello \<lparr>hello_version = VERSION, node_id = se_id_text E\<rparr>, auth_message auth,
      request_message label outs prepared mode again] @ (ms @ ms')"
    using w' w6 w5(1) w4(1) op by simp
  with prep heard f(2,3) ok shown show ?thesis by blast
qed

section \<open>End to end\<close>

text \<open>What one end reads is a part of what the other wrote, in order, and then errors.\<close>

definition hears :: "message result list \<Rightarrow> message list \<Rightarrow> bool" where
  "hears reads written \<longleftrightarrow> (\<exists>n es. reads = map Inr (take n written) @ map Inl es)"

lemma hears_member: "hears reads written \<Longrightarrow> Inr m \<in> set reads \<Longrightarrow> m \<in> set written"
  by (auto simp: hears_def dest: in_set_takeD)

lemma hears_nth: "hears reads written \<Longrightarrow> k < length reads \<Longrightarrow> reads ! k = Inr m \<Longrightarrow> k < length written \<and> written ! k = m"
  by (auto simp: hears_def nth_append nth_map split: if_splits)

lemma check_build_request_Ok:
  assumes "check_build_request q closure = Ok b"
  shows "as_str (cb_drv_path b) = drv_path q \<and> map as_str (cb_output_paths b) = request_output_paths q
    \<and> cb_output_mode b = output_mode q \<and> cb_rebuild b = rebuild q"
  using assms unfolding check_build_request_def Let_def
  by (auto simp: bind_r_Ok_iff store_path_new_Ok_iff collect_store_paths split: if_splits)

text \<open>
  C3: A client that reports the success of a remote build over an honest connection reports what
  the builder did: with the client of the model at one end and the builder of the model at the
  other, the build that was reported as a success is one that the builder realised, with exactly
  the outputs that were asked for.
\<close>

theorem reported_success_was_built:
  assumes "handle_incoming S peer v = (s, v')" "tx v = []"
    and "remote_build E label outs auth mode fetches options again w = (Ok u, w')" "tx w = []"
    and "hears (rx w) (tx v')" "hears (rx v) (tx w')"
  shows "\<exists>prepared w1 w2 deadline v1 v2 r.
    prepare_build E label options w1 = (Ok prepared, w2)
    \<and> realise (nixc S) (nixp S) deadline (pb_drv_path prepared) mode again wire_log_sink v1 = (Ok r, v2)
    \<and> realise_success r \<and> set outs \<subseteq> set (map as_str (realise_output_paths r))
    \<and> (\<exists>n received. Summary (build_lines (se_human E) (se_server_id E) label prepared
          \<lparr>rb_missing_count = n, rb_success = True, rb_output_paths = outs, rb_received = received\<rparr>) \<in> set (console w'))"
proof -
  from remote_build_Ok [OF assms(3)] assms(4) obtain prepared w1 w2 result h f ms where
    prep: "prepare_build E label options w1 = (Ok prepared, w2)"
    and said: "tx w' = [Hello h, auth_message auth, request_message label outs prepared mode again] @ ms"
    and heard: "Inr (BuildFinished f) \<in> set (rx w)" "success f"
    and res: "rb_success result" "rb_output_paths result = finished_output_paths f"
    and shown: "Summary (build_lines (se_human E) (se_server_id E) label prepared result) \<in> set (console w')"
    by auto
  have "f \<in> set (results (tx v'))" using hears_member [OF assms(5) heard(1)] by (rule set_results)
  from incoming_decides [OF assms(1) this] assms(2) obtain a b where
    adm: "admitted S peer v a b" and bt: "built S b f" by auto
  from adm obtain h' auth' q rest closure where rxv: "rx v = Inr (Hello h') # Inr auth' # Inr (BuildRequest q) # rest"
    and chk: "check_build_request q closure = Ok b" unfolding admitted_def by blast
  have "tx w' ! 2 = BuildRequest q"
    using hears_nth [OF assms(6), of 2 "BuildRequest q"] rxv by simp
  with said have q: "BuildRequest q = request_message label outs prepared mode again" by simp
  with check_build_request_Ok [OF chk] have b: "cb_drv_path b = pb_drv_path prepared"
    "map as_str (cb_output_paths b) = outs" "cb_output_mode b = mode" "cb_rebuild b = again"
    by (auto simp: request_message_def)
  from bt [unfolded realised_def] heard(2) b obtain deadline v1 r v2 where
    rl: "realise (nixc S) (nixp S) deadline (pb_drv_path prepared) mode again wire_log_sink v1 = (Ok r, v2)"
    and r: "realise_success r" "set (cb_output_paths b) \<subseteq> set (realise_output_paths r)" "finished_output_paths f = outs"
    by auto
  have sub: "set outs \<subseteq> set (map as_str (realise_output_paths r))"
    unfolding b(2) [symmetric] set_map by (rule image_mono [OF r(2)])
  have "result = \<lparr>rb_missing_count = rb_missing_count result, rb_success = True, rb_output_paths = outs,
      rb_received = rb_received result\<rparr>"
    using res r(3) by simp
  with shown have "\<exists>n received. Summary (build_lines (se_human E) (se_server_id E) label prepared
      \<lparr>rb_missing_count = n, rb_success = True, rb_output_paths = outs, rb_received = received\<rparr>) \<in> set (console w')"
    by metis
  with prep rl r(1) sub show ?thesis by blast
qed

end
