(* ===== verification/Session_Demo.thy ===== *)
theory Session_Demo
  imports Client_Server
begin

text \<open>
  A whole session evaluated on both ends: a trusted client whose inputs and outputs are all
  present where they are needed asks for a build, and the builder builds it. It shows that the
  assumptions of the end-to-end statement of \<open>Client_Server\<close> can hold.
\<close>

section \<open>Commands that only print\<close>

definition only_prints :: "'n commands \<Rightarrow> (string \<Rightarrow> string list \<Rightarrow> string) \<Rightarrow> bool" where
  "only_prints E tool \<longleftrightarrow> (\<forall>program args w. output_of E program args w =
    (Ok \<lparr>exit_ok = True, exit_text = [], out_bytes = tool program args, err_bytes = []\<rparr>, w))"

lemma from_utf8_paths: "from_utf8 (unlines (map as_str ps)) = Ok (unlines (map as_str ps))"
  by (rule from_utf8_ascii, rule unlines_ascii)

lemma run_command_prints:
  "only_prints E tool \<Longrightarrow> run_command E program args w =
    (with_context ''command output was not UTF-8'' (from_utf8 (tool program args)), w)"
  by (simp add: only_prints_def run_command_def command_output_def context_s_def bind_s_def)

lemma missing_paths_prints:
  "only_prints E tool \<Longrightarrow> (\<And>args. tool ''nix-store'' (''--check-validity'' # args) = []) \<Longrightarrow>
    missing_paths E [p] w = (Ok [], w)"
  using from_utf8_paths [of "[]"] output_lines_paths [of "[]"]
  by (simp add: missing_paths_def chunks_of_step PATH_ARG_CHUNK_SIZE_def only_prints_def command_output_def
      context_s_def bind_s_def unlines_def)

lemma query_closure_prints:
  "only_prints E tool \<Longrightarrow> tool ''nix-store'' [''-qR'', as_str p] = unlines (map as_str [p]) \<Longrightarrow>
    query_closure E [p] w = (Ok [p], w)"
  using from_utf8_paths [of "[p]"] output_lines_paths [of "[p]"]
  by (simp add: query_closure_def run_command_prints bind_s_def)

lemma query_outputs_prints:
  "only_prints E tool \<Longrightarrow> tool ''nix-store'' [''-q'', ''--outputs'', as_str p] = unlines (map as_str [q]) \<Longrightarrow>
    query_outputs E p w = (Ok [q], w)"
  using from_utf8_paths [of "[q]"] output_lines_paths [of "[q]"]
  by (simp add: query_outputs_def run_command_prints bind_s_def)

lemma resolve_derivation_prints:
  "only_prints E tool \<Longrightarrow> tool ''nix'' (eval_args [''path-info'', ''--derivation''] inst options) = unlines (map as_str [p]) \<Longrightarrow>
    resolve_derivation E inst options w = (Ok p, w)"
  using from_utf8_paths [of "[p]"] output_lines_paths [of "[p]"]
  by (simp add: resolve_derivation_def run_command_prints bind_s_def)

definition demo_tool :: "string \<Rightarrow> string list \<Rightarrow> string" where
  "demo_tool program args =
    (if program = ''id'' then ''0''
     else if hd args = ''--check-validity'' then []
     else if hd args = ''-qR'' then unlines (tl args)
     else if hd args = ''-q'' then unlines (map as_str [demo_path ''out''])
     else unlines (map as_str [demo_path ''pkg.drv'']))"

definition demo_commands :: "'w commands" where
  "demo_commands = \<lparr>output_of = (\<lambda>program args.
     ret \<lparr>exit_ok = True, exit_text = [], out_bytes = demo_tool program args, err_bytes = []\<rparr>)\<rparr>"

lemma sys_step_ret: "sys_step (ret x) w = (Ok x, w)"
  by (cases w) (simp add: sys_step_def)

lemma cl_step_ret: "cl_step (ret x) w = (Ok x, w)"
  by (cases w) (simp add: cl_step_def on_part_def)

section \<open>The builder\<close>

definition demo_builder :: "(nat, unit, unit) server_env" where
  "demo_builder = demo_server
    \<lparr>env_commands := demo_commands,
     env_policy := \<lparr>trusted_clients = [\<lparr>te_name = Some ''me'', endpoint_id = 3,
       te_policy = \<lparr>public_key = ''3'', tc_max_build_time = None, tc_max_upload_bytes = None\<rparr>\<rparr>]\<rparr>\<rparr>"

lemma demo_builder_prints: "only_prints (nixc demo_builder) demo_tool"
  by (simp add: only_prints_def nixc_def lift_commands_def demo_builder_def demo_commands_def sys_step_ret)

lemmas demo_builder_commands [simp] =
  missing_paths_prints [OF demo_builder_prints] query_closure_prints [OF demo_builder_prints]
  query_outputs_prints [OF demo_builder_prints]

lemma demo_builder_facts [simp]:
  "check_hello (ids (env_tickets demo_builder)) 3 \<lparr>hello_version = 5, node_id = ''3''\<rparr> = Ok ()"
  "access_authorize (env_policy demo_builder) 3 = Some \<lparr>ac_name = Some ''me'',
     ac_policy = \<lparr>public_key = ''3'', tc_max_build_time = None, tc_max_upload_bytes = None\<rparr>\<rparr>"
  "key_public (cache_key (env_cache demo_builder)) = ''k:1''" "env_queue_open demo_builder"
  by (simp_all add: check_hello_def demo_builder_def demo_server_def demo_env_def VERSION_def
      access_authorize_def drv_eval)

lemma demo_tool_facts [simp]:
  "demo_tool ''nix-store'' (''--check-validity'' # args) = []"
  "demo_tool ''nix-store'' [''-qR'', p] = unlines [p]"
  "demo_tool ''nix-store'' [''-q'', ''--outputs'', p] = unlines [as_str (demo_path ''out'')]"
  by (simp_all add: demo_tool_def)

text \<open>A world in which no call fails but reading the clock, so the status board rests.\<close>

definition calm :: "'z io_world_scheme \<Rightarrow> bool" where
  "calm w \<longleftrightarrow> faults w = (\<lambda>n. Fine) \<and> clock w = (\<lambda>n. None)"

lemma calm_calls:
  assumes "calm w"
  shows "next_fault w = Fine" "with_status_update S upd st w = (None, st, ticked w)"
  using assms by (simp_all add: calm_def next_fault_def with_status_update_def read_clock_def)

lemma demo_spawn:
  "spawn_realise (nixp demo_builder) args w =
    (Ok \<lparr>child_stdout = [Ok ''building''], child_stderr = [Ok ''warning''], child_schedule = [False],
       child_status = Ok True, child_duration = 9, turns_within = (\<lambda>d. 0)\<rparr>, w)"
  by (simp add: nixp_def lift_children_def demo_builder_def demo_server_def demo_children_def Let_def sys_step_ret)

lemma wire_log_sink_calm:
  "calm w \<Longrightarrow> wire_log_sink line w = (Ok (), w\<lparr>ticks := Suc (ticks w), tx := tx w @ [nix_log_message line]\<rparr>)"
  by (simp add: wire_log_sink_def send_message_def ticked_def calm_calls)

lemma calm_tx: "calm w \<Longrightarrow> calm (w\<lparr>ticks := n, tx := ms\<rparr>)"
  by (simp add: calm_def)

lemma demo_realise:
  assumes "calm w"
  shows "realise (nixc demo_builder) (nixp demo_builder) None drv mode again wire_log_sink w =
    (Ok \<lparr>realise_success = True, realise_output_paths = [demo_path ''out'']\<rparr>,
     w\<lparr>ticks := Suc (Suc (ticks w)), tx := tx w @ [nix_log_message ''warning'', nix_log_message ''building'']\<rparr>)"
  using assms
  by (simp add: realise_def deadline_turns_def demo_spawn bind_s_def context_s_def stream_child_lines.simps
      wire_log_sink_calm calm_tx)

lemma write_path_calm:
  "calm w \<Longrightarrow> write_paths [] mk w =
    (Ok (), w\<lparr>ticks := Suc (ticks w), tx := tx w @ [mk \<lparr>chunk_paths = [], chunk_done = True\<rparr>]\<rparr>)"
  "calm w \<Longrightarrow> write_paths [p] mk w =
    (Ok (), w\<lparr>ticks := Suc (ticks w), tx := tx w @ [mk \<lparr>chunk_paths = [p], chunk_done = True\<rparr>]\<rparr>)"
  by (simp_all add: write_paths_def chunks_of_step PATH_CHUNK_SIZE_def send_message_def ticked_def calm_calls bind_s_def)

lemma enter_phase_calm: "calm w \<Longrightarrow> enter_phase E i ph w = (Ok (), w\<lparr>ticks := Suc (ticks w)\<rparr>)"
  by (cases w) (simp add: enter_phase_def on_registry_def status_phase_def calm_calls ticked_def)

lemma as_str_demo:
  "as_str (demo_path ''out'') = store_text (replicate 32 (CHR ''a'')) ''out''"
  "as_str (demo_path ''pkg.drv'') = store_text (replicate 32 (CHR ''a'')) ''pkg.drv''"
  by (rule as_str_demo_path, simp add: drv_eval good_name_def)+

lemma few_paths:
  "check_limits [] \<lparr>chunk_paths = [], chunk_done = True\<rparr> \<lparr>state_chunks = 0, path_bytes = 0\<rparr> PATH_LIST_LIMITS =
    Ok \<lparr>state_chunks = 1, path_bytes = 0\<rparr>"
  "check_limits [] \<lparr>chunk_paths = [as_str (demo_path ''pkg.drv'')], chunk_done = True\<rparr>
      \<lparr>state_chunks = 0, path_bytes = 0\<rparr> PATH_LIST_LIMITS =
    Ok \<lparr>state_chunks = 1, path_bytes = length (as_str (demo_path ''pkg.drv''))\<rparr>"
  by (simp_all add: check_limits_def drv_eval total_bytes_def as_str_demo store_text_def USIZE_MAX_def)

lemma read_list_calm:
  assumes "calm w" "check_limits [] c \<lparr>state_chunks = 0, path_bytes = 0\<rparr> L = Ok st" "chunk_done c"
  shows "rx w = Inr (OutputRequest c) # ms \<Longrightarrow> read_with_timeout d Kind_OutputRequest L ctx w =
      (Ok (chunk_paths c), w\<lparr>ticks := Suc (ticks w), rx := ms\<rparr>)"
    "rx w = Inr (BuildPaths c) # ms \<Longrightarrow> read_with_timeout d Kind_BuildPaths L ctx w =
      (Ok (chunk_paths c), w\<lparr>ticks := Suc (ticks w), rx := ms\<rparr>)"
    "rx w = Inr (MissingPaths c) # ms \<Longrightarrow> read_with_timeout d Kind_MissingPaths L ctx w =
      (Ok (chunk_paths c), w\<lparr>ticks := Suc (ticks w), rx := ms\<rparr>)"
    "rx w = Inr (OutputClosure c) # ms \<Longrightarrow> read_with_timeout d Kind_OutputClosure L ctx w =
      (Ok (chunk_paths c), w\<lparr>ticks := Suc (ticks w), rx := ms\<rparr>)"
  using assms
  by (simp_all add: read_with_timeout_def read_paths_def read_loop.simps read_chunk_def read_message_opt_def bind_s_def
      recv_timed_def recv_message_def ticked_def calm_calls)

lemma demo_queued_build:
  assumes "calm w" "rx w = [Inr (OutputRequest \<lparr>chunk_paths = [], chunk_done = True\<rparr>)]"
    "max_time a = None" "cb_closure_paths b = [demo_path ''pkg.drv'']" "cb_output_paths b = [demo_path ''out'']"
  shows "run_queued_build demo_builder b a i w =
    (Ok True, w\<lparr>ticks := ticks w + 11, rx := [], tx := tx w @
      [MissingPaths \<lparr>chunk_paths = [], chunk_done = True\<rparr>, BuildStarted,
       nix_log_message ''warning'', nix_log_message ''building'',
       BuildFinished \<lparr>success = True, finished_output_paths = [as_str (demo_path ''out'')]\<rparr>,
       OutputClosure \<lparr>chunk_paths = [as_str (demo_path ''out'')], chunk_done = True\<rparr>, Done]\<rparr>)"
  using assms few_paths(1)
  by (simp add: run_queued_build_def bind_s_def enter_phase_calm calm_def write_path_calm run_build_def demo_realise
      send_message_def next_fault_def ticked_def selected_outputs_def export_outputs_def output_closure_def
      read_list_calm requested_output_paths_def)

lemma demo_admission:
  assumes "calm w" "rx w = map Inr demo_request"
  shows "handle_incoming demo_builder 3 w = queue_and_run demo_builder
    \<lparr>cb_installable = ''pkg'', cb_drv_path = demo_path ''pkg.drv'', cb_output_mode = Plain, cb_rebuild = False,
      cb_closure_paths = [demo_path ''pkg.drv''], cb_output_paths = [demo_path ''out'']\<rparr>
    \<lparr>client_label = ''client:me'', max_time = None, max_upload = None, spend_secret = None\<rparr>
    (w\<lparr>tx := tx w @ [AuthOk \<lparr>client_name = Some ''me'', builder_public_key = ''k:1''\<rparr>],
       ticks := Suc (Suc (Suc (Suc (Suc (Suc (ticks w)))))),
       rx := [Inr (OutputRequest \<lparr>chunk_paths = [], chunk_done = True\<rparr>)]\<rparr>)"
  using assms few_paths(2)
  by (simp add: handle_incoming_def bind_s_def read_hello_def read_message_def recv_timed_def recv_message_def
      next_fault_def calm_def demo_request_def ticked_def io_call_def send_message_def authorize_connection_def
      authorize_trusted_client_def write_auth_ok_def serve_authorized_def read_build_or_report_def
      match_s_def read_checked_build_request_def read_list_calm check_build_request_def serve_request_def
      redeem_ticket_if_needed_def)

lemma demo_builder_says:
  assumes "calm w" "rx w = map Inr demo_request" "tx w = []"
  shows "\<exists>r v. handle_incoming demo_builder 3 w = (r, v) \<and> tx v =
     [AuthOk \<lparr>client_name = Some ''me'', builder_public_key = ''k:1''\<rparr>, BuildQueued,
      MissingPaths \<lparr>chunk_paths = [], chunk_done = True\<rparr>, BuildStarted,
      nix_log_message ''warning'', nix_log_message ''building'',
      BuildFinished \<lparr>success = True, finished_output_paths = [as_str (demo_path ''out'')]\<rparr>,
      OutputClosure \<lparr>chunk_paths = [as_str (demo_path ''out'')], chunk_done = True\<rparr>, Done]"
  using assms
  by (simp add: demo_admission queue_and_run_def enqueue_build_def bind_s_def status_enqueue_def status_start_def
      calm_def next_fault_def ticked_def send_build_queued_def match_s_def run_when_permitted_def
      on_registry_def start_status_def with_status_update_def read_clock_def send_message_def demo_queued_build
      record_build_result_def finish_status_def status_finish_def finish_control_def finish_stream_def)
section \<open>The client\<close>

definition demo_session :: "unit session_env" where
  "demo_session =
    \<lparr>se_cache = demo_cache_env\<lparr>ce_commands := demo_commands\<rparr>,
     se_children = \<lparr>spawn_realise = (\<lambda>args. lift_r (bail ''none'')), spawn_export = (\<lambda>args. ret ()),
       export_stdout = ret ([], None), wait_export = lift_r (bail ''none''), spawn_import = (\<lambda>args. ret ()),
       import_stdin = (\<lambda>bytes. ret ()), wait_import = lift_r (bail ''none''), kill_import = ret ()\<rparr>,
     se_plan = (\<lambda>s. bail ''none''), se_id_text = ''3'', se_server_id = ''1'', se_nom_status = (True, []),
     se_human = show_word\<rparr>"

lemma demo_session_prints:
  "only_prints (clc demo_session) demo_tool" "only_prints (client_commands (ce_commands (se_cache demo_session))) demo_tool"
  by (simp_all add: only_prints_def clc_def client_commands_def demo_session_def demo_commands_def cl_step_ret)

lemmas demo_session_commands [simp] =
  missing_paths_prints [OF demo_session_prints(1)] query_closure_prints [OF demo_session_prints(1)]

definition no_options :: eval_options where
  "no_options = \<lparr>impure = False, refresh = False, override_inputs = []\<rparr>"

lemma demo_prepare:
  "prepare_build demo_session ''pkg'' no_options w =
    (Ok \<lparr>pb_drv_path = demo_path ''pkg.drv'', pb_path_count = 1, pb_closure = [as_str (demo_path ''pkg.drv'')]\<rparr>,
     w\<lparr>console := console w @ [Phase ''resolving derivation'', Phase ''checking closure'']\<rparr>)"
  using resolve_derivation_prints [OF demo_session_prints(1), of "''pkg''" no_options "demo_path ''pkg.drv''"]
  by (simp add: prepare_build_def bind_s_def phase_def show_event_def nix_closure_def demo_tool_def no_options_def eval_args_def)

lemma demo_trims: "trim ''k:1'' = ''k:1''" "trim ''0'' = ''0''" "from_utf8 ''0'' = Ok ''0''"
  by (simp_all add: drv_eval from_utf8_ascii)

lemma demo_preflight:
  "preflight_output_import (se_cache demo_session) ''k:1'' w = (Ok (), w)"
  using demo_trims
  by (simp add: demo_tool_def Let_def preflight_output_import_def output_import_method_def signed_cache_import_trust_def match_s_def bind_s_def
      current_uid_is_root_def context_s_def run_command_prints [OF demo_session_prints(2)])

text \<open>What the builder says to \<open>demo_request\<close>.\<close>

definition demo_answers :: "message list" where
  "demo_answers =
    [AuthOk \<lparr>client_name = Some ''me'', builder_public_key = ''k:1''\<rparr>, BuildQueued,
     MissingPaths \<lparr>chunk_paths = [], chunk_done = True\<rparr>, BuildStarted,
     nix_log_message ''warning'', nix_log_message ''building'',
     BuildFinished \<lparr>success = True, finished_output_paths = [as_str (demo_path ''out'')]\<rparr>,
     OutputClosure \<lparr>chunk_paths = [as_str (demo_path ''out'')], chunk_done = True\<rparr>, Done]"

lemma few_server_paths:
  "check_limits [] \<lparr>chunk_paths = [], chunk_done = True\<rparr> \<lparr>state_chunks = 0, path_bytes = 0\<rparr> SERVER_PATH_LIST_LIMITS =
    Ok \<lparr>state_chunks = 1, path_bytes = 0\<rparr>"
  "check_limits [] \<lparr>chunk_paths = [as_str (demo_path ''out'')], chunk_done = True\<rparr>
      \<lparr>state_chunks = 0, path_bytes = 0\<rparr> SERVER_PATH_LIST_LIMITS =
    Ok \<lparr>state_chunks = 1, path_bytes = length (as_str (demo_path ''out''))\<rparr>"
  by (simp_all add: check_limits_def SERVER_PATH_LIST_LIMITS_def total_bytes_def as_str_demo store_text_def USIZE_MAX_def
      STORE_PREFIX_def Let_def)

lemma demo_client_opens:
  "session_open demo_session (TrustedClient 1 None) (demo_client_world (map Inr demo_answers)) =
    (Ok ''k:1'', (demo_client_world (map Inr (tl demo_answers)))\<lparr>ticks := 5, tx := take 2 demo_request,
       console := [Phase ''connecting'', Phase ''authorized as me'']\<rparr>)"
  by (simp add: session_open_def bind_s_def io_call_def next_fault_def ticked_def phase_def show_event_def connect_step_def
      write_hello_def write_auth_def read_auth_ok_def send_message_def recv_message_def demo_client_world_def
      demo_answers_def demo_request_def VERSION_def demo_session_def)

lemma demo_client_runs:
  assumes "calm w" "rx w = map Inr (tl demo_answers)"
  shows "run_remote_build demo_session key Plain fetches w =
    (Ok \<lparr>rb_missing_count = 0, rb_success = True, rb_output_paths = [as_str (demo_path ''out'')], rb_received = 0\<rparr>,
     w\<lparr>ticks := Suc (Suc (Suc (ticks w))), tx := tx w @ [OutputRequest \<lparr>chunk_paths = [], chunk_done = True\<rparr>],
       console := console w @ [Phase ''queued'', Phase ''building'', Log_Line ''warning'', Log_Line ''building'', Clear_Phase,
         Phase ''receiving output closure'', Phase ''checking local outputs'', Phase ''waiting for signed output cache''],
       rx := []\<rparr>)"
  using assms few_server_paths
  by (simp add: run_remote_build_def bind_s_def read_queued_missing_paths_def read_queued_def recv_message_def
      phase_def show_event_def demo_answers_def calm_def read_list_calm provide_inputs_def read_build_messages_def
      log_renderer_new_def build_message_loop.simps print_log_line_def match_s_def log_print_def
      finish_logs_def log_finish_def clear_phase_def fetch_outputs_def wait_for_output_closure_def
      locally_missing_paths_def write_path_calm import_output_cache_def)

lemma demo_client_builds:
  "\<exists>w'. remote_build demo_session ''pkg'' [as_str (demo_path ''out'')] (TrustedClient 1 None) Plain (Some 1) no_options False
      (demo_client_world (map Inr demo_answers)) = (Ok (), w') \<and> tx w' = demo_request"
proof -
  have "calm w" if "faults w = (\<lambda>n. Fine)" "clock w = (\<lambda>n. None)" for w :: "unit client_world"
    using that by (simp add: calm_def)
  moreover have "faults (demo_client_world ms) = (\<lambda>n. Fine)" "clock (demo_client_world ms) = (\<lambda>n. None)"
    "rx (demo_client_world ms) = ms" for ms
    by (simp_all add: demo_client_world_def)
  ultimately show ?thesis
    by (simp add: remote_build_def demo_client_opens bind_s_def phase_def show_event_def demo_preflight demo_prepare
        send_build_request_def send_message_def next_fault_def ticked_def write_path_calm demo_client_runs
        report_build_def clear_phase_def print_summary_def session_close_def io_call_def
        request_message_def demo_request_def)
qed

section \<open>Both\<close>

theorem reported_success_was_built_witness:
  "\<exists>prepared w1 w2 deadline v1 v2 r.
    prepare_build demo_session ''pkg'' no_options w1 = (Ok prepared, w2)
    \<and> realise (nixc demo_builder) (nixp demo_builder) deadline (pb_drv_path prepared) Plain False wire_log_sink v1 = (Ok r, v2)
    \<and> realise_success r \<and> set [as_str (demo_path ''out'')] \<subseteq> set (map as_str (realise_output_paths r))"
proof -
  let ?v = "(demo_srv_world (\<lambda>n. Fine) demo_request)\<lparr>clock := \<lambda>n. None\<rparr>"
  have "calm ?v" "rx ?v = map Inr demo_request" "tx ?v = []"
    by (simp_all add: calm_def demo_srv_world_def)
  from demo_builder_says [OF this] obtain s v' where
    served: "handle_incoming demo_builder 3 ?v = (s, v')" "tx v' = demo_answers"
    unfolding demo_answers_def by blast
  from demo_client_builds obtain w' where
    called: "remote_build demo_session ''pkg'' [as_str (demo_path ''out'')] (TrustedClient 1 None) Plain (Some 1) no_options False
      (demo_client_world (map Inr demo_answers)) = (Ok (), w')" "tx w' = demo_request" by blast
  have hear: "hears (map Inr ms) ms" for ms :: "message list"
    unfolding hears_def by (intro exI [of _ "length ms"] exI [of _ "[]"]) simp
  have "tx ?v = []" "tx (demo_client_world (map Inr demo_answers)) = []"
    "hears (rx (demo_client_world (map Inr demo_answers))) (tx v')" "hears (rx ?v) (tx w')"
    unfolding served(2) called(2) by (simp_all add: demo_srv_world_def demo_client_world_def hear)
  from reported_success_was_built [OF served(1) this(1) called(1) this(2-4)] show ?thesis by blast
qed

end
