(* ===== verification/Status_Text.thy ===== *)
theory Status_Text
  imports Rust_Num
begin

text \<open>
  The text of the status line, from \<open>client_status.rs\<close>: its width without terminal escapes, its
  truncation to the columns of the terminal, and the elapsed time. Text is taken apart into Rust
  characters (\<open>utf8_chars\<close>); an escape is what stands from \<open>ESC [\<close> to the next ASCII letter.
\<close>

definition ESC :: string where
  "ESC = [CHR 0x1B]"

definition RESET :: string where
  "RESET = ESC @ ''[0m''"

definition DIM :: string where
  "DIM = ESC @ ''[2m''"

definition CYAN_BOLD :: string where
  "CYAN_BOLD = ESC @ ''[1;36m''"

definition GREEN_BOLD :: string where
  "GREEN_BOLD = ESC @ ''[1;32m''"

definition YELLOW_BOLD :: string where
  "YELLOW_BOLD = ESC @ ''[1;33m''"

definition DEFAULT_STATUS_COLUMNS :: nat where
  "DEFAULT_STATUS_COLUMNS = 72"

definition STATUS_RIGHT_MARGIN :: nat where
  "STATUS_RIGHT_MARGIN = 2"

section \<open>Escapes\<close>

definition is_ascii_alphabetic :: "char \<Rightarrow> bool" where
  "is_ascii_alphabetic c \<longleftrightarrow> is_ascii_upper c \<or> is_ascii_lower c"

text \<open>What \<open>for ch in chars.by_ref()\<close> takes, up to and with the first letter, and what it leaves.\<close>

fun escape_span :: "string list \<Rightarrow> string list \<times> string list" where
  "escape_span [] = ([], [])"
| "escape_span (ch # chars) =
    (if ascii_char is_ascii_alphabetic ch then ([ch], chars)
     else case escape_span chars of (taken, rest) \<Rightarrow> (ch # taken, rest))"

lemma escape_span_append: "escape_span chars = (taken, rest) \<Longrightarrow> chars = taken @ rest"
  by (induction chars arbitrary: taken rest) (auto split: if_splits prod.splits)

lemma escape_span_shrinks: "length (snd (escape_span chars)) \<le> length chars"
  by (induction chars) (auto split: prod.splits)

text \<open>\<open>ch == '\x1b' && chars.peek() == Some(&'[')\<close>.\<close>

definition starts_escape :: "string \<Rightarrow> string list \<Rightarrow> bool" where
  "starts_escape ch chars \<longleftrightarrow> ch = ESC \<and> chars \<noteq> [] \<and> hd chars = ''[''"

function width_loop :: "string list \<Rightarrow> nat \<Rightarrow> nat" where
  "width_loop [] width = width"
| "width_loop (ch # chars) width =
    (if starts_escape ch chars then width_loop (snd (escape_span chars)) width
     else width_loop chars (width + 1))"
  by pat_completeness auto

termination
  by (relation "measure (\<lambda>(chars, width). length chars)")
    (auto simp: le_imp_less_Suc escape_span_shrinks)

definition visible_width :: "string \<Rightarrow> nat" where
  "visible_width line = width_loop (utf8_chars line) 0"

function truncate_loop :: "nat \<Rightarrow> string list \<Rightarrow> string \<Rightarrow> nat \<Rightarrow> bool \<Rightarrow> string \<times> bool" where
  "truncate_loop columns [] out width saw_escape = (out, saw_escape)"
| "truncate_loop columns (ch # chars) out width saw_escape =
    (if starts_escape ch chars then
       (case escape_span chars of
          (taken, rest) \<Rightarrow> truncate_loop columns rest (out @ ch @ concat taken) width True)
     else if width < columns then truncate_loop columns chars (out @ ch) (width + 1) saw_escape
     else (out, saw_escape))"
  by pat_completeness auto

termination
  by (relation "measure (\<lambda>(columns, chars, out, width, saw). length chars)")
    (auto dest!: arg_cong [of _ _ "\<lambda>p. length (snd p)"] intro: le_imp_less_Suc [OF order_trans [OF eq_refl escape_span_shrinks]])

definition truncate_visible :: "string \<Rightarrow> nat \<Rightarrow> string" where
  "truncate_visible line columns =
    (case truncate_loop columns (utf8_chars line) [] 0 False of
       (out, saw_escape) \<Rightarrow> if saw_escape then out @ RESET else out)"

text \<open>\<open>fit_line\<close>, for the columns that \<open>status_columns\<close> finds.\<close>

definition fit_line :: "nat \<Rightarrow> string \<Rightarrow> string" where
  "fit_line columns line = (if visible_width line \<le> columns then line else truncate_visible line columns)"

section \<open>The columns\<close>

definition terminal_columns :: "(u16 \<times> u16) option \<Rightarrow> nat option" where
  "terminal_columns size_checked =
    (case size_checked of
       None \<Rightarrow> None
     | Some (rows, columns) \<Rightarrow> if 0 < columns then Some (unat columns) else None)"

definition columns_env :: "string option \<Rightarrow> nat option" where
  "columns_env var =
    (case var of
       None \<Rightarrow> None
     | Some text \<Rightarrow>
         (case parse_unsigned (2 ^ 64 - 1) text of
            None \<Rightarrow> None
          | Some columns \<Rightarrow> if 0 < columns then Some columns else None))"

definition status_columns :: "(u16 \<times> u16) option \<Rightarrow> string option \<Rightarrow> nat" where
  "status_columns size_checked var =
    (case terminal_columns size_checked of
       Some columns \<Rightarrow> columns
     | None \<Rightarrow> (case columns_env var of Some columns \<Rightarrow> columns | None \<Rightarrow> DEFAULT_STATUS_COLUMNS))
    - STATUS_RIGHT_MARGIN"

section \<open>Elapsed time\<close>

text \<open>\<open>format_elapsed\<close> of the whole seconds of a duration.\<close>

definition format_elapsed :: "nat \<Rightarrow> string" where
  "format_elapsed elapsed_secs =
    (let hours = elapsed_secs div 3600;
         minutes = (elapsed_secs mod 3600) div 60;
         seconds = elapsed_secs mod 60
     in
       if hours > 0 then show_nat hours @ '':'' @ pad2 minutes @ '':'' @ pad2 seconds
       else pad2 minutes @ '':'' @ pad2 seconds)"

section \<open>What is visible\<close>

text \<open>The visible characters of a line, as a reference for both loops.\<close>

function shown :: "string list \<Rightarrow> string list" where
  "shown [] = []"
| "shown (ch # chars) =
    (if starts_escape ch chars then shown (snd (escape_span chars)) else ch # shown chars)"
  by pat_completeness auto

termination
  by (relation "measure length") (auto simp: le_imp_less_Suc escape_span_shrinks)

lemma width_loop_shown: "width_loop chars width = width + length (shown chars)"
  by (induction chars width rule: width_loop.induct) simp_all

lemma visible_width_shown: "visible_width line = length (shown (utf8_chars line))"
  by (simp add: visible_width_def width_loop_shown)

text \<open>What the truncation keeps, without the accumulators of the loop.\<close>

function kept :: "nat \<Rightarrow> string list \<Rightarrow> string list" where
  "kept n [] = []"
| "kept n (ch # chars) =
    (if starts_escape ch chars then ch # fst (escape_span chars) @ kept n (snd (escape_span chars))
     else if 0 < n then ch # kept (n - 1) chars
     else [])"
  by pat_completeness auto

termination
  by (relation "measure (\<lambda>(n, chars). length chars)") (auto simp: le_imp_less_Suc escape_span_shrinks)

lemma truncate_loop_kept:
  "fst (truncate_loop columns chars out width saw) = out @ concat (kept (columns - width) chars)"
  by (induction columns chars out width saw rule: truncate_loop.induct) (auto split: prod.splits)

lemma kept_prefix: "\<exists>rest. chars = kept n chars @ rest"
proof (induction n chars rule: kept.induct)
  case (2 n ch chars)
  show ?case
  proof (cases "starts_escape ch chars")
    case True
    obtain taken rest where span: "escape_span chars = (taken, rest)" by fastforce
    with 2(1) True obtain tail where "rest = kept n rest @ tail" by auto
    moreover have "chars = taken @ rest" using span by (rule escape_span_append)
    ultimately have "chars = taken @ kept n rest @ tail" by metis
    with True span show ?thesis by simp
  next
    case False
    with 2(2) show ?thesis by (cases "0 < n") auto
  qed
qed simp

text \<open>An escape stays one when something follows it, and an open one runs into the \<open>RESET\<close>.\<close>

definition reset_chars :: "string list" where
  "reset_chars = [ESC, ''['', ''0'', ''m'']"

lemma reset_span: "escape_span (''['' # ''0'' # ''m'' # cs) = ([''['', ''0'', ''m''], cs)" "escape_span reset_chars = (reset_chars, [])"
  by (simp_all add: is_ascii_alphabetic_def is_ascii_upper_def is_ascii_lower_def is_ascii_def byte_def reset_chars_def ESC_def)

lemma shown_reset: "shown reset_chars = []"
  using reset_span(1) [of "[]"] by (simp add: reset_chars_def starts_escape_def)

lemma escape_span_then:
  "escape_span chars = (taken, rest) \<Longrightarrow> rest \<noteq> [] \<Longrightarrow> escape_span (taken @ more_chars) = (taken, more_chars)"
  by (induction chars arbitrary: taken rest) (auto split: if_splits prod.splits)

lemma escape_span_all:
  "escape_span chars = (chars, []) \<Longrightarrow>
    escape_span (chars @ more_chars) = (chars, more_chars)
    \<or> (\<forall>cs. escape_span (chars @ cs) = (chars @ fst (escape_span cs), snd (escape_span cs)))"
  by (induction chars) (auto split: if_splits prod.splits)

lemma shown_after_escape:
  assumes "starts_escape ch chars" "escape_span chars = (taken, rest)" "tail = [] \<or> tail = reset_chars"
    and "rest = [] \<Longrightarrow> front = []"
  shows "shown (ch # taken @ front @ tail) = shown (front @ tail)"
proof -
  have chars: "chars = taken @ rest" using assms(2) by (rule escape_span_append)
  have st: "starts_escape ch (taken @ front @ tail)"
  proof -
    have "taken \<noteq> []" using assms(1,2) by (cases chars) (auto simp: starts_escape_def split: if_splits prod.splits)
    with assms(1) chars show ?thesis by (cases taken) (auto simp: starts_escape_def)
  qed
  show ?thesis
  proof (cases "rest = []")
    case False
    with st escape_span_then [OF assms(2)] show ?thesis by simp
  next
    case True
    with assms(4) have front: "front = []" by simp
    from True chars assms(2) have "escape_span taken = (taken, [])" by simp
    then have "escape_span (taken @ tail) = (taken, tail)
      \<or> escape_span (taken @ tail) = (taken @ fst (escape_span tail), snd (escape_span tail))"
      using escape_span_all by blast
    with st front assms(3) reset_span(2) shown_reset show ?thesis by auto
  qed
qed

lemma shown_kept: "tail = [] \<or> tail = reset_chars \<Longrightarrow> shown (kept n chars @ tail) = take n (shown chars)"
proof (induction n chars rule: kept.induct)
  case (1 n)
  then show ?case using shown_reset by auto
next
  case (2 n ch chars)
  show ?case
  proof (cases "starts_escape ch chars")
    case True
    let ?rest = "snd (escape_span chars)"
    have "shown (ch # fst (escape_span chars) @ kept n ?rest @ tail) = shown (kept n ?rest @ tail)"
      using True _ 2(3) by (rule shown_after_escape [where rest = ?rest]) simp_all
    with True 2(1) [OF True 2(3)] show ?thesis by simp
  next
    case False
    show ?thesis
    proof (cases n)
      case 0
      with False 2(3) shown_reset show ?thesis by auto
    next
      case (Suc m)
      have "\<not> starts_escape ch (kept m chars @ tail)"
      proof (cases "kept m chars")
        case Nil
        with 2(3) show ?thesis by (auto simp: starts_escape_def reset_chars_def ESC_def)
      next
        case (Cons c cs)
        then have "chars \<noteq> []" "hd chars = c" using kept_prefix [of chars m] by auto
        with False Cons show ?thesis by (simp add: starts_escape_def)
      qed
      with False Suc 2(2) [OF False _ 2(3)] show ?thesis by simp
    qed
  qed
qed

text \<open>Characters of a front of a text stay characters, also before text that starts with one.\<close>

lemma cont_run:
  "list_all is_cont run \<Longrightarrow> r = [] \<or> \<not> is_cont (hd r) \<Longrightarrow> takeWhile is_cont (run @ r) = run \<and> dropWhile is_cont (run @ r) = r"
  by (induction run) (cases r; simp)+

lemma utf8_chars_front:
  "utf8_chars s = front @ behind \<Longrightarrow> r = [] \<or> \<not> is_cont (hd r) \<Longrightarrow> utf8_chars (concat front @ r) = front @ utf8_chars r"
proof (induction s arbitrary: front rule: utf8_chars.induct)
  case (2 b bs)
  show ?case
  proof (cases front)
    case (Cons x xs)
    let ?tw = "takeWhile is_cont bs" and ?dw = "dropWhile is_cont bs"
    from 2(2) Cons have x: "x = b # ?tw" and dw: "utf8_chars ?dw = xs @ behind" by auto
    have split: "?dw = concat xs @ concat behind" using dw by (metis concat_append concat_utf8_chars)
    have head: "?dw = [] \<or> \<not> is_cont (hd ?dw)" using hd_dropWhile by blast
    have "y @ r = [] \<or> \<not> is_cont (hd (y @ r))" if "?dw = y @ z" for y z
      using that head 2(3) by (cases y) auto
    from this [OF split] have "concat xs @ r = [] \<or> \<not> is_cont (hd (concat xs @ r))" .
    moreover have "list_all is_cont ?tw" using set_takeWhileD by (fastforce simp: list_all_iff)
    ultimately have "takeWhile is_cont (?tw @ concat xs @ r) = ?tw" "dropWhile is_cont (?tw @ concat xs @ r) = concat xs @ r"
      using cont_run by blast+
    with x Cons 2(1) [OF dw 2(3)] show ?thesis by simp
  qed simp
qed simp

lemma reset_text: "utf8_chars RESET = reset_chars" "\<not> is_cont (hd RESET)"
  by (simp_all add: RESET_def ESC_def reset_chars_def is_cont_def byte_def)

lemma truncate_visible_text:
  "\<exists>tail. truncate_visible line columns = concat (kept columns (utf8_chars line)) @ tail
    \<and> (tail = [] \<or> tail = RESET)"
proof -
  obtain out saw where "truncate_loop columns (utf8_chars line) [] 0 False = (out, saw)" by fastforce
  moreover from this truncate_loop_kept [of columns "utf8_chars line" "[]" 0 False]
  have "out = concat (kept columns (utf8_chars line))" by simp
  ultimately show ?thesis by (simp add: truncate_visible_def)
qed

lemma fit_line_front:
  "shown (utf8_chars (fit_line columns line)) = take columns (shown (utf8_chars line))
    \<and> (\<exists>front behind tail. line = front @ behind \<and> fit_line columns line = front @ tail \<and> (tail = [] \<or> tail = RESET))"
proof (cases "visible_width line \<le> columns")
  case True
  then have "fit_line columns line = line" by (simp add: fit_line_def)
  moreover from True have "take columns (shown (utf8_chars line)) = shown (utf8_chars line)"
    by (simp add: visible_width_shown)
  ultimately show ?thesis by (metis append_Nil2)
next
  case False
  let ?kept = "kept columns (utf8_chars line)"
  obtain tail where cut: "truncate_visible line columns = concat ?kept @ tail" and tail: "tail = [] \<or> tail = RESET"
    using truncate_visible_text by blast
  obtain behind where behind: "utf8_chars line = ?kept @ behind" using kept_prefix by blast
  then have line: "line = concat ?kept @ concat behind" by (metis concat_append concat_utf8_chars)
  have "utf8_chars (concat ?kept @ tail) = ?kept @ utf8_chars tail"
    using tail reset_text(2) by (intro utf8_chars_front [OF behind]) auto
  moreover have "utf8_chars tail = [] \<or> utf8_chars tail = reset_chars" using tail reset_text(1) by auto
  ultimately have "shown (utf8_chars (fit_line columns line)) = take columns (shown (utf8_chars line))"
    using False cut by (simp add: fit_line_def shown_kept)
  moreover have "fit_line columns line = concat ?kept @ tail" using False cut by (simp add: fit_line_def)
  ultimately show ?thesis using line tail by blast
qed

lemma fit_line_width: "visible_width (fit_line columns line) = min (visible_width line) columns"
  using fit_line_front [of columns line] by (simp add: visible_width_shown)

text \<open>
  A line that is drawn shows the front of the text that fits the columns, and no escape is
  cut open: it is a front of the text, closed with a reset where needed.
\<close>

theorem fit_line_keeps_the_front:
  "shown (utf8_chars (fit_line columns line)) = take columns (shown (utf8_chars line))
    \<and> visible_width (fit_line columns line) = min (visible_width line) columns
    \<and> (\<exists>front behind tail. line = front @ behind \<and> fit_line columns line = front @ tail \<and> (tail = [] \<or> tail = RESET))"
  using fit_line_front [of columns line] fit_line_width [of columns line] by blast

section \<open>Elapsed time is not lost\<close>

text \<open>The seconds a printed time stands for.\<close>

definition elapsed_of :: "string \<Rightarrow> nat" where
  "elapsed_of line = fold (\<lambda>part n. 60 * n + digits_val part) (split_on (CHR '':'') line) 0"

lemma digits_no_colon: "list_all is_ascii_digit d \<Longrightarrow> CHR '':'' \<notin> set d"
  by (auto simp: list_all_iff is_ascii_digit_def byte_def)

text \<open>A printed time stands for exactly the whole seconds that passed.\<close>

theorem elapsed_line_roundtrip: "elapsed_of (format_elapsed n) = n"
proof -
  have colon: "CHR '':'' \<notin> set (pad2 k)" "CHR '':'' \<notin> set (show_nat k)" for k
    by (intro digits_no_colon pad2_digits(1) show_nat_digits)+
  have sum: "60 * (60 * q + m) + r = k" if "r = s" "60 * m + s = t" "3600 * q + t = k" for q m r s t k :: nat
    using that by simp
  have "60 * (60 * (n div 3600) + n mod 3600 div 60) + n mod 60 = n"
    by (rule sum [where s = "n mod 3600 mod 60" and t = "n mod 3600"],
        simp add: mod_mod_cancel, rule mult_div_mod_eq, rule mult_div_mod_eq)
  moreover from this have "60 * (n mod 3600 div 60) + n mod 60 = n" if "n div 3600 = 0" using that by simp
  ultimately show ?thesis
    by (simp add: format_elapsed_def Let_def elapsed_of_def split_on_Cons_line split_on_single colon pad2_digits(2))
qed

end
