(* ===== verification/Status_Line.thy ===== *)
theory Status_Line
  imports Status_Text
begin

text \<open>
  \<open>client_status.rs\<close>: the status line of the client and its transfer counters. The line is shared,
  under a mutex, by the client, the handles of its transfers and a ticker thread that redraws it
  once a second; each of their calls is a step of \<open>line_step\<close>, and the steps may come in any
  order. \<open>suspend\<close> lets go of the mutex while its argument runs, so it is three steps.

  Instants are nanoseconds of a clock that is read once per call of \<open>Instant::now\<close> or
  \<open>elapsed\<close>; \<open>elapsed\<close> saturates, as it does in the library. The size of the terminal is a function
  of the reading, since the window may change. What is printed is kept as a list; \<open>eprint!\<close> is
  taken not to fail. \<open>HumanBytes\<close> is a parameter.
\<close>

section \<open>The state\<close>

datatype terminal_event =
    Erased
  | Drawn string
  | Printed string

text \<open>A phase has its message and start; a transfer its message, the place of its byte counter, the last rate, and
  the bytes and the instant that rate was taken at.\<close>

datatype status =
    Status_Phase string nat
  | Status_Transfer string nat u64 u64 nat

record status_line =
  sl_interactive :: bool
  sl_color :: bool
  sl_visible :: bool
  sl_current :: "status option"
  sl_last_draw :: nat

record line_world =
  the_line :: status_line
  counters :: "u64 list"
  terminal :: "terminal_event list"
  instants :: "nat \<Rightarrow> nat"
  readings :: nat

record line_env =
  le_human :: "u64 \<Rightarrow> string"
  le_size :: "nat \<Rightarrow> (u16 \<times> u16) option"
  le_columns_var :: "string option"

definition status_line_new :: "bool \<Rightarrow> string option \<Rightarrow> nat \<Rightarrow> status_line" where
  "status_line_new is_interactive no_color instant =
    \<lparr>sl_interactive = is_interactive, sl_color = (is_interactive \<and> no_color = None), sl_visible = False,
     sl_current = None, sl_last_draw = instant\<rparr>"

definition instant_now :: "line_world \<Rightarrow> nat \<times> line_world" where
  "instant_now w = (instants w (readings w), w\<lparr>readings := Suc (readings w)\<rparr>)"

definition elapsed_since :: "nat \<Rightarrow> line_world \<Rightarrow> nat \<times> line_world" where
  "elapsed_since instant w = (instants w (readings w) - instant, w\<lparr>readings := Suc (readings w)\<rparr>)"

definition set_current :: "status option \<Rightarrow> line_world \<Rightarrow> line_world" where
  "set_current st w = w\<lparr>the_line := (the_line w)\<lparr>sl_current := st\<rparr>\<rparr>"

section \<open>Drawing\<close>

definition render :: "line_env \<Rightarrow> bool \<Rightarrow> status \<Rightarrow> line_world \<Rightarrow> string \<times> line_world" where
  "render E color st w =
    (case st of
       Status_Phase message started \<Rightarrow>
         (case elapsed_since started w of
            (nanos, w) \<Rightarrow>
              let elapsed = format_elapsed (nanos div 10 ^ 9) in
              (if color then
                 CYAN_BOLD @ ''drv-thru'' @ RESET @ '': '' @ message @ '' '' @ DIM @ ''['' @ elapsed @ '']'' @ RESET
               else ''drv-thru: '' @ message @ '' ['' @ elapsed @ '']'', w))
     | Status_Transfer message c rate rate_bytes rate_at \<Rightarrow>
         let bytes = le_human E (counters w ! c); rate = le_human E rate in
         (if color then
            CYAN_BOLD @ ''drv-thru'' @ RESET @ '': '' @ message @ '': '' @ GREEN_BOLD @ bytes @ RESET
            @ '' ('' @ YELLOW_BOLD @ rate @ ''/s'' @ RESET @ '')''
          else ''drv-thru: '' @ message @ '': '' @ bytes @ '' ('' @ rate @ ''/s)'', w))"

definition clear_line :: "line_world \<Rightarrow> line_world" where
  "clear_line w =
    (if \<not> sl_interactive (the_line w) \<or> \<not> sl_visible (the_line w) then w
     else w\<lparr>terminal := terminal w @ [Erased], the_line := (the_line w)\<lparr>sl_visible := False\<rparr>\<rparr>)"

text \<open>\<open>u64::try_from(u128::from(delta) * 1000 / elapsed_millis).unwrap_or(u64::MAX)\<close>.\<close>

definition transfer_rate :: "u64 \<Rightarrow> nat \<Rightarrow> u64" where
  "transfer_rate delta elapsed_millis =
    (let rate = unat delta * 1000 div elapsed_millis in if rate < 2 ^ 64 then of_nat rate else - 1)"

definition update_transfer_rate :: "line_world \<Rightarrow> line_world" where
  "update_transfer_rate w =
    (case sl_current (the_line w) of
       Some (Status_Transfer message c rate rate_bytes rate_at) \<Rightarrow>
         (case elapsed_since rate_at w of
            (elapsed, w) \<Rightarrow>
              if elapsed < 10 ^ 9 then w
              else
                let current = counters w ! c;
                    delta = saturating_sub current rate_bytes;
                    elapsed_millis = elapsed div 10 ^ 6
                in
                  (case instant_now w of
                     (instant, w) \<Rightarrow>
                       set_current (Some (Status_Transfer message c (transfer_rate delta elapsed_millis) current instant)) w))
     | _ \<Rightarrow> w)"

definition draw_now :: "line_env \<Rightarrow> line_world \<Rightarrow> line_world" where
  "draw_now E w =
    (if \<not> sl_interactive (the_line w) then w
     else
       let w = clear_line (update_transfer_rate w) in
         (case sl_current (the_line w) of
            None \<Rightarrow> w
          | Some current \<Rightarrow>
              (case render E (sl_color (the_line w)) current w of
                 (line, w) \<Rightarrow>
                   let w = w\<lparr>terminal := terminal w @
                         [Drawn (fit_line (status_columns (le_size E (readings w)) (le_columns_var E)) line)]\<rparr> in
                   (case instant_now w of
                      (instant, w) \<Rightarrow> w\<lparr>the_line := (the_line w)\<lparr>sl_visible := True, sl_last_draw := instant\<rparr>\<rparr>))))"

section \<open>What is called\<close>

definition line_phase :: "line_env \<Rightarrow> string \<Rightarrow> line_world \<Rightarrow> line_world" where
  "line_phase E message w =
    (case instant_now w of (instant, w) \<Rightarrow> draw_now E (set_current (Some (Status_Phase message instant)) w))"

text \<open>\<open>ClientStatus::transfer\<close>: a new counter, then the line shows it.\<close>

definition line_transfer :: "line_env \<Rightarrow> string \<Rightarrow> line_world \<Rightarrow> line_world" where
  "line_transfer E message w =
    (let c = length (counters w); w = w\<lparr>counters := counters w @ [0]\<rparr> in
       (case instant_now w of
          (instant, w) \<Rightarrow> draw_now E (set_current (Some (Status_Transfer message c 0 0 instant)) w)))"

definition drawn_lately :: "line_world \<Rightarrow> bool \<times> line_world" where
  "drawn_lately w =
    (case elapsed_since (sl_last_draw (the_line w)) w of (elapsed, w) \<Rightarrow> (elapsed < 100 * 10 ^ 6, w))"

definition transfer_message :: "line_env \<Rightarrow> string \<Rightarrow> line_world \<Rightarrow> line_world" where
  "transfer_message E message w =
    (case sl_current (the_line w) of
       Some (Status_Transfer current c rate rate_bytes rate_at) \<Rightarrow>
         if current = message then w
         else
           (case drawn_lately (set_current (Some (Status_Transfer message c rate rate_bytes rate_at)) w) of
              (lately, w) \<Rightarrow> if lately then w else draw_now E w)
     | _ \<Rightarrow> w)"

definition add_transfer_bytes :: "line_env \<Rightarrow> u64 \<Rightarrow> line_world \<Rightarrow> line_world" where
  "add_transfer_bytes E bytes w =
    (if bytes = 0 then w
     else (case drawn_lately w of (lately, w) \<Rightarrow> if lately then w else draw_now E w))"

text \<open>\<open>TransferProgress::add_bytes\<close>; \<open>fetch_add\<close> wraps.\<close>

definition progress_add :: "line_env \<Rightarrow> nat \<Rightarrow> u64 \<Rightarrow> line_world \<Rightarrow> line_world" where
  "progress_add E c bytes w =
    add_transfer_bytes E bytes (w\<lparr>counters := (counters w)[c := counters w ! c + bytes]\<rparr>)"

definition line_clear :: "line_world \<Rightarrow> line_world" where
  "line_clear w = clear_line (set_current None w)"

definition print_text :: "string \<Rightarrow> line_world \<Rightarrow> line_world" where
  "print_text printed w = w\<lparr>terminal := terminal w @ [Printed printed]\<rparr>"

text \<open>\<open>suspend\<close>, when no other call gets in between.\<close>

definition suspend_print :: "line_env \<Rightarrow> string \<Rightarrow> line_world \<Rightarrow> line_world" where
  "suspend_print E printed w = draw_now E (print_text printed (clear_line w))"

section \<open>Counted streams\<close>

datatype poll = Pending | Ready_Failed | Ready_Moved nat

text \<open>\<open>ProgressReader::poll_read\<close>: the length of the filled part before, and after as what was moved.\<close>

definition progress_read :: "line_env \<Rightarrow> nat \<Rightarrow> nat \<Rightarrow> poll \<Rightarrow> line_world \<Rightarrow> line_world" where
  "progress_read E c before result w =
    (case result of Ready_Moved filled \<Rightarrow> progress_add E c (of_nat (filled - before)) w | _ \<Rightarrow> w)"

definition progress_write :: "line_env \<Rightarrow> nat \<Rightarrow> poll \<Rightarrow> line_world \<Rightarrow> line_world" where
  "progress_write E c result w =
    (case result of Ready_Moved written \<Rightarrow> progress_add E c (of_nat written) w | _ \<Rightarrow> w)"

section \<open>The line as a state machine\<close>

text \<open>The calls on the line; \<open>Call_Tick\<close> is the ticker's, \<open>Call_Print\<close> what runs inside a \<open>suspend\<close>.\<close>

datatype line_call =
    Call_Phase string
  | Call_Clear
  | Call_Transfer string
  | Call_Message string
  | Call_Add nat u64
  | Call_Tick
  | Call_Suspend
  | Call_Print string
  | Call_Resume

inductive line_step :: "line_env \<Rightarrow> line_world \<Rightarrow> line_call \<Rightarrow> line_world \<Rightarrow> bool" for E where
  Phase: "line_step E w (Call_Phase message) (line_phase E message w)"
| Clear: "line_step E w Call_Clear (line_clear w)"
| Transfer: "line_step E w (Call_Transfer message) (line_transfer E message w)"
| Message: "line_step E w (Call_Message message) (transfer_message E message w)"
| Add: "c < length (counters w) \<Longrightarrow> line_step E w (Call_Add c n) (progress_add E c n w)"
| Tick: "line_step E w Call_Tick (draw_now E w)"
| Suspend: "line_step E w Call_Suspend (clear_line w)"
| Print: "line_step E w (Call_Print printed) (print_text printed w)"
| Resume: "line_step E w Call_Resume (draw_now E w)"

inductive_cases line_step_elims:
  "line_step E w Call_Tick w'" "line_step E w Call_Suspend w'" "line_step E w (Call_Print printed) w'"

text \<open>
  What the terminal shows: whether a status line stands on the current line. A line drawn over
  another, or an erasure of nothing, has no result.
\<close>

fun shown_after :: "terminal_event \<Rightarrow> bool option \<Rightarrow> bool option" where
  "shown_after (Drawn line) (Some False) = Some True"
| "shown_after Erased (Some True) = Some False"
| "shown_after (Printed printed) there = there"
| "shown_after event there = None"

definition screen :: "terminal_event list \<Rightarrow> bool option" where
  "screen events = fold shown_after events (Some False)"

lemma screen_simps [simp]: "screen [] = Some False" "screen (es @ [e]) = shown_after e (screen es)"
  by (simp_all add: screen_def)

definition fits :: "line_env \<Rightarrow> terminal_event \<Rightarrow> bool" where
  "fits E event \<longleftrightarrow>
    (case event of Drawn line \<Rightarrow> \<exists>k. visible_width line \<le> status_columns (le_size E k) (le_columns_var E) | _ \<Rightarrow> True)"

text \<open>The invariant: the flag tells what the screen shows, a shown transfer has its counter, lines fit.\<close>

definition line_ok :: "line_env \<Rightarrow> line_world \<Rightarrow> bool" where
  "line_ok E w \<longleftrightarrow>
    screen (terminal w) = Some (sl_visible (the_line w))
    \<and> (sl_visible (the_line w) \<longrightarrow> sl_interactive (the_line w))
    \<and> (\<forall>m c r b a. sl_current (the_line w) = Some (Status_Transfer m c r b a) \<longrightarrow> c < length (counters w))
    \<and> list_all (fits E) (terminal w)"

lemma line_ok_update:
  assumes "line_ok E w" "terminal w' = terminal w" "length (counters w) \<le> length (counters w')"
    "sl_visible (the_line w') = sl_visible (the_line w)" "sl_interactive (the_line w') = sl_interactive (the_line w)"
    "\<And>m c r b a. sl_current (the_line w') = Some (Status_Transfer m c r b a) \<Longrightarrow> c < length (counters w')"
  shows "line_ok E w'"
  using assms by (auto simp: line_ok_def)

lemma line_ok_rate: "line_ok E w \<Longrightarrow> line_ok E (update_transfer_rate w)"
  by (rule line_ok_update)
    (auto simp: update_transfer_rate_def elapsed_since_def instant_now_def set_current_def line_ok_def Let_def
      split: option.splits status.splits if_splits)

lemma line_ok_clear_line: "line_ok E w \<Longrightarrow> line_ok E (clear_line w)"
  by (auto simp: line_ok_def clear_line_def fits_def)

lemma clear_line_facts [simp]:
  "sl_interactive (the_line (clear_line w)) = sl_interactive (the_line w)"
  "counters (clear_line w) = counters w" "sl_current (the_line (clear_line w)) = sl_current (the_line w)"
  by (simp_all add: clear_line_def)

lemma clear_line_hides: "line_ok E w \<Longrightarrow> \<not> sl_visible (the_line (clear_line w))"
  by (auto simp: clear_line_def line_ok_def)

lemma render_world: "snd (render E color st w) = w \<or> snd (render E color st w) = w\<lparr>readings := Suc (readings w)\<rparr>"
  by (auto simp: render_def elapsed_since_def Let_def split: status.split)

lemma line_ok_drawn:
  assumes "line_ok E w" "sl_interactive (the_line w)" "\<not> sl_visible (the_line w)"
    "visible_width l \<le> status_columns (le_size E k) (le_columns_var E)"
  shows "line_ok E (w\<lparr>terminal := terminal w @ [Drawn l], readings := n, the_line := (the_line w)\<lparr>sl_visible := True, sl_last_draw := t\<rparr>\<rparr>)"
  using assms by (auto simp: line_ok_def fits_def)

lemma line_ok_reading: "line_ok E w \<Longrightarrow> line_ok E (w\<lparr>readings := n\<rparr>)"
  by (simp add: line_ok_def)

lemma line_ok_draw:
  assumes "line_ok E w"
  shows "line_ok E (draw_now E w)"
proof (cases "sl_interactive (the_line w)")
  case False
  with assms show ?thesis by (simp add: draw_now_def)
next
  case True
  let ?w = "clear_line (update_transfer_rate w)"
  have ok: "line_ok E (update_transfer_rate w)" using assms by (rule line_ok_rate)
  then have "line_ok E ?w" "\<not> sl_visible (the_line ?w)" by (rule line_ok_clear_line, rule clear_line_hides)
  moreover have "sl_interactive (the_line (update_transfer_rate w)) = sl_interactive (the_line w)"
    by (auto simp: update_transfer_rate_def elapsed_since_def instant_now_def set_current_def Let_def
        split: option.split status.split)
  ultimately have ready: "line_ok E ?w" "\<not> sl_visible (the_line ?w)" "sl_interactive (the_line ?w)"
    using True by simp_all
  show ?thesis
  proof (cases "sl_current (the_line ?w)")
    case None
    with True ready show ?thesis by (simp add: draw_now_def)
  next
    case (Some st)
    obtain l v where r: "render E (sl_color (the_line ?w)) st ?w = (l, v)" by fastforce
    with render_world [of E _ st ?w] have v: "v = ?w \<or> v = ?w\<lparr>readings := Suc (readings ?w)\<rparr>" by (metis snd_conv)
    then have "line_ok E v" "\<not> sl_visible (the_line v)" "sl_interactive (the_line v)"
      using ready line_ok_reading by auto
    moreover have "visible_width (fit_line columns l) \<le> columns" for columns by (simp add: fit_line_width)
    ultimately have "line_ok E (v\<lparr>terminal := terminal v @
          [Drawn (fit_line (status_columns (le_size E (readings v)) (le_columns_var E)) l)],
        readings := Suc (readings v), the_line := (the_line v)\<lparr>sl_visible := True, sl_last_draw := t\<rparr>\<rparr>)" for t
      by (intro line_ok_drawn)
    then show ?thesis using True Some r by (simp add: draw_now_def instant_now_def)
  qed
qed

lemma line_ok_step: "line_step E w call w' \<Longrightarrow> line_ok E w \<Longrightarrow> line_ok E w'"
proof (induction rule: line_step.induct)
  case (Phase w message)
  then have "line_ok E (set_current (Some (Status_Phase message t)) (w\<lparr>readings := n\<rparr>))" for t n
    by (auto simp: line_ok_def set_current_def)
  then show ?case by (simp add: line_phase_def instant_now_def line_ok_draw)
next
  case (Clear w)
  then have "line_ok E (set_current None w)" by (auto simp: line_ok_def set_current_def)
  then show ?case by (simp add: line_clear_def line_ok_clear_line)
next
  case (Transfer w message)
  then have "line_ok E (set_current (Some (Status_Transfer message (length (counters w)) 0 0 t))
      (w\<lparr>counters := counters w @ [0], readings := n\<rparr>))" for t n
    by (auto simp: line_ok_def set_current_def)
  then show ?case by (simp add: line_transfer_def instant_now_def Let_def line_ok_draw)
next
  case (Message w message)
  show ?case
  proof (cases "sl_current (the_line w)")
    case (Some st)
    show ?thesis
    proof (cases st)
      case (Status_Transfer current c rate rate_bytes rate_at)
      with Some Message have "line_ok E (set_current (Some (Status_Transfer message c rate rate_bytes rate_at)) w)"
        by (auto simp: line_ok_def set_current_def)
      then show ?thesis using Some Status_Transfer Message
        by (simp add: transfer_message_def drawn_lately_def elapsed_since_def line_ok_draw line_ok_reading)
    qed (use Some Message in \<open>simp add: transfer_message_def\<close>)
  qed (use Message in \<open>simp add: transfer_message_def\<close>)
next
  case (Add c w n)
  then have "line_ok E (w\<lparr>counters := (counters w)[c := k], readings := m\<rparr>)" for k m
    by (auto simp: line_ok_def)
  moreover from Add have "line_ok E (w\<lparr>counters := (counters w)[c := k]\<rparr>)" for k by (auto simp: line_ok_def)
  ultimately show ?case
    using Add(2) by (simp add: progress_add_def add_transfer_bytes_def drawn_lately_def elapsed_since_def line_ok_draw)
next
  case (Print w printed)
  then show ?case by (simp add: print_text_def line_ok_def fits_def)
qed (simp_all add: line_ok_draw line_ok_clear_line)

lemma line_ok_new:
  "line_ok E \<lparr>the_line = status_line_new is_interactive no_color t, counters = [], terminal = [], instants = clk, readings = n\<rparr>"
  by (simp add: line_ok_def status_line_new_def)

lemma line_runs:
  "runs (line_step E) (line_phase E m w) cs v \<Longrightarrow> runs (line_step E) w (Call_Phase m # cs) v"
  "runs (line_step E) (clear_line w) cs v \<Longrightarrow> runs (line_step E) w (Call_Suspend # cs) v"
  "runs (line_step E) (print_text printed w) cs v \<Longrightarrow> runs (line_step E) w (Call_Print printed # cs) v"
  "runs (line_step E) (draw_now E w) cs v \<Longrightarrow> runs (line_step E) w (Call_Tick # cs) v"
  "runs (line_step E) (draw_now E w) cs v \<Longrightarrow> runs (line_step E) w (Call_Resume # cs) v"
  "runs (line_step E) w [] w"
  by (rule runs_Cons, rule line_step.intros, assumption)+ (rule runs_Nil)

section \<open>What holds of it\<close>

definition fresh_line :: "bool \<Rightarrow> string option \<Rightarrow> (nat \<Rightarrow> nat) \<Rightarrow> line_world" where
  "fresh_line is_interactive no_color clk =
    \<lparr>the_line = status_line_new is_interactive no_color (clk 0), counters = [], terminal = [], instants = clk, readings = 1\<rparr>"

text \<open>Without a terminal the line is never drawn.\<close>

definition is_print :: "terminal_event \<Rightarrow> bool" where
  "is_print event \<longleftrightarrow> (case event of Printed _ \<Rightarrow> True | _ \<Rightarrow> False)"

definition muted :: "line_world \<Rightarrow> bool" where
  "muted w \<longleftrightarrow> \<not> sl_interactive (the_line w) \<and> list_all is_print (terminal w)"

lemma muted_calls [simp]:
  "muted w \<Longrightarrow> draw_now E w = w" "muted w \<Longrightarrow> clear_line w = w" "muted (set_current st w) = muted w"
  "muted (w\<lparr>readings := n\<rparr>) = muted w" "muted (w\<lparr>counters := cs\<rparr>) = muted w"
  "muted (print_text printed w) = muted w"
  by (simp_all add: muted_def draw_now_def clear_line_def set_current_def print_text_def is_print_def)

lemma muted_step: "line_step E w call w' \<Longrightarrow> muted w \<Longrightarrow> muted w'"
  by (induction rule: line_step.induct)
    (simp_all add: line_phase_def instant_now_def line_clear_def line_transfer_def Let_def transfer_message_def
      drawn_lately_def elapsed_since_def progress_add_def add_transfer_bytes_def split: option.split status.split)


text \<open>A witness: a phase is drawn, a log line is printed under it, and the phase is drawn again.\<close>

definition demo_line_env :: line_env where
  "demo_line_env = \<lparr>le_human = show_word, le_size = (\<lambda>k. Some (24, 80)), le_columns_var = None\<rparr>"

definition demo_line :: line_world where
  "demo_line = line_phase demo_line_env ''building'' (fresh_line True (Some ''1'') (\<lambda>k. k * 10 ^ 9))"


section \<open>Suspending\<close>

lemma draw_now_visible:
  "sl_interactive (the_line w) \<Longrightarrow> sl_current (the_line w) \<noteq> None \<Longrightarrow> sl_visible (the_line (draw_now E w))"
proof -
  assume int: "sl_interactive (the_line w)" and cur: "sl_current (the_line w) \<noteq> None"
  have "sl_current (the_line (update_transfer_rate w)) \<noteq> None"
    using cur by (auto simp: update_transfer_rate_def elapsed_since_def instant_now_def set_current_def Let_def
        split: option.split status.split)
  with int show ?thesis
    by (auto simp: draw_now_def instant_now_def Let_def split: prod.split)
qed

lemma line_keeps_screen:
  "runs (line_step E) (fresh_line is_interactive no_color clk) calls w \<Longrightarrow> line_ok E w"
  by (erule runs_invariant) (simp_all add: fresh_line_def line_ok_new line_ok_step)

lemma render_frame: "render E color st u = (l, v) \<Longrightarrow> the_line v = the_line u \<and> counters v = counters u"
  using render_world [of E color st u] by auto

lemma phase_facts:
  "sl_interactive (the_line w) \<Longrightarrow> sl_interactive (the_line (line_phase E m w)) \<and> sl_current (the_line (line_phase E m w)) \<noteq> None"
  by (auto simp: line_phase_def instant_now_def set_current_def draw_now_def update_transfer_rate_def Let_def
      split: prod.split dest: render_frame)

text \<open>
  Text that is printed while the line is suspended stands on a line of its own, unless the ticker
  draws in between: then, whenever there is something to draw, it stands behind the status line.
\<close>

theorem suspended_text_and_the_ticker:
  "(\<nexists>calls w w' es. runs (line_step E) (fresh_line is_interactive no_color clk) calls w
      \<and> runs (line_step E) w [Call_Suspend, Call_Print printed] w'
      \<and> terminal w' = es @ [Printed printed] \<and> screen es \<noteq> Some False)
    \<and> (\<exists>w es. runs (line_step E) (fresh_line True no_color clk) [Call_Phase m, Call_Suspend, Call_Tick, Call_Print printed] w
      \<and> terminal w = es @ [Printed printed] \<and> screen es = Some True)"
proof
  have "es = terminal (clear_line w) \<and> screen es = Some False"
    if "runs (line_step E) (fresh_line is_interactive no_color clk) calls w"
      "runs (line_step E) w [Call_Suspend, Call_Print printed] w'" "terminal w' = es @ [Printed printed]" for calls w w' es
  proof -
    have "line_ok E w" using that(1) by (rule line_keeps_screen)
    then have "line_ok E (clear_line w)" "\<not> sl_visible (the_line (clear_line w))"
      by (rule line_ok_clear_line, rule clear_line_hides)
    then have "screen (terminal (clear_line w)) = Some False" by (simp add: line_ok_def)
    moreover have "w' = print_text printed (clear_line w)" using that(2) by (auto elim!: line_step_elims)
    ultimately show ?thesis using that(3) by (simp add: print_text_def)
  qed
  then show "\<nexists>calls w w' es. runs (line_step E) (fresh_line is_interactive no_color clk) calls w
      \<and> runs (line_step E) w [Call_Suspend, Call_Print printed] w'
      \<and> terminal w' = es @ [Printed printed] \<and> screen es \<noteq> Some False" by blast
next
  let ?w = "line_phase E m (fresh_line True no_color clk)"
  have run: "runs (line_step E) (fresh_line True no_color clk) [Call_Phase m, Call_Suspend, Call_Tick, Call_Print printed]
      (print_text printed (draw_now E (clear_line ?w)))"
    by (rule line_runs)+
  have "runs (line_step E) (fresh_line True no_color clk) [Call_Phase m, Call_Suspend, Call_Tick] (draw_now E (clear_line ?w))"
    by (rule line_runs)+
  then have "line_ok E (draw_now E (clear_line ?w))" by (rule line_keeps_screen)
  moreover have "sl_visible (the_line (draw_now E (clear_line ?w)))"
    using phase_facts [of "fresh_line True no_color clk" E m]
    by (intro draw_now_visible) (simp_all add: fresh_line_def status_line_new_def)
  ultimately have "screen (terminal (draw_now E (clear_line ?w))) = Some True" by (simp add: line_ok_def)
  moreover have "terminal (print_text printed v) = terminal v @ [Printed printed]" for v by (simp add: print_text_def)
  ultimately show "\<exists>w es. runs (line_step E) (fresh_line True no_color clk)
      [Call_Phase m, Call_Suspend, Call_Tick, Call_Print printed] w
      \<and> terminal w = es @ [Printed printed] \<and> screen es = Some True"
    using run by blast
qed

section \<open>Counting\<close>

lemma draw_now_counters [simp]: "counters (draw_now E w) = counters w"
proof -
  have "counters (update_transfer_rate w) = counters w"
    by (auto simp: update_transfer_rate_def elapsed_since_def instant_now_def set_current_def Let_def
        split: option.split status.split)
  then show ?thesis
    by (auto simp: draw_now_def instant_now_def Let_def dest: render_frame split: option.split prod.split)
qed

lemma progress_add_counters: "counters (progress_add E c n w) = (counters w)[c := counters w ! c + n]"
  by (simp add: progress_add_def add_transfer_bytes_def drawn_lately_def elapsed_since_def)

definition moved :: "poll \<Rightarrow> nat" where
  "moved result = (case result of Ready_Moved n \<Rightarrow> n | _ \<Rightarrow> 0)"

text \<open>
  The counter of a transfer holds the bytes its writer passed on, all of them and no others, as
  long as they fit 64 bits; polls that fail or have to wait count nothing.
\<close>

theorem transfer_counts_every_byte:
  "counters (fold (progress_write E c) results w) =
    (counters w)[c := counters w ! c + of_nat (sum_list (map moved results))]"
proof (induction results arbitrary: w)
  case Nil
  show ?case by simp
next
  case (Cons r results)
  have "counters (progress_write E c r w) = (counters w)[c := counters w ! c + of_nat (moved r)]"
    by (simp add: progress_write_def progress_add_counters moved_def split: poll.split)
  with Cons show ?case
    by (cases "c < length (counters w)") (simp_all add: add.assoc list_update_beyond)
qed

text \<open>The rate is the bytes of the last second or more, per second, as far as it fits.\<close>

lemma transfer_rate_exact: "unat (transfer_rate delta millis) = min (unat delta * 1000 div millis) (2 ^ 64 - 1)"
proof -
  have "unat (- 1 :: u64) = 2 ^ 64 - 1" by (simp add: unsigned_minus_1_eq_mask mask_eq_exp_minus_1)
  then show ?thesis
    by (simp add: transfer_rate_def Let_def unsigned_of_nat take_bit_nat_eq_self)
qed

end
