(* ===== verification/Data_Dir.thy ===== *)
theory Data_Dir
  imports World
begin

text \<open>
  \<open>cli/data_dir.rs\<close>: where a command keeps its state when it is not told. A directory is good when a
  probe file can be created, written and removed there. The environment variables are a parameter.
\<close>

text \<open>A command's world: files, clock and faults, and what it prints, which is taken not to fail.\<close>

record cli_world = io_world +
  stdout :: "string list"

definition println :: "string \<Rightarrow> ('z cli_world_scheme, unit) step" where
  "println line w = (Ok (), w\<lparr>stdout := stdout w @ [line]\<rparr>)"

fun println_all :: "string list \<Rightarrow> ('z cli_world_scheme, unit) step" where
  "println_all [] = ret ()"
| "println_all (line # rest) = bind_s (println line) (\<lambda>_. println_all rest)"

definition SYSTEM_DATA_DIR :: string where
  "SYSTEM_DATA_DIR = ''/var/lib/drv-thru''"

text \<open>\<open>OpenOptions::new().write(true).create_new(true).open(p)\<close>.\<close>

definition fs_create_fresh :: "string \<Rightarrow> ('z io_world_scheme, unit) step" where
  "fs_create_fresh p w =
    (case next_fault w of
       Fine \<Rightarrow>
         if files w p \<noteq> None then (Err (lib_error ''open''), ticked w)
         else (Ok (), (ticked w)\<lparr>files := (files w)(p \<mapsto> [])\<rparr>)
     | Fault n \<Rightarrow> (Err (lib_error ''open''), ticked w))"

text \<open>Removing a file that must be there.\<close>

definition fs_remove_there :: "string \<Rightarrow> ('z io_world_scheme, unit) step" where
  "fs_remove_there p =
    bind_s (fs_remove_file p) (\<lambda>there. if there then ret () else lift_r (Err (lib_error ''remove_file'')))"

definition probe_path :: "nat \<Rightarrow> string \<Rightarrow> string" where
  "probe_path pid path = path_join path (''.access-check-'' @ show_nat pid)"

definition ensure_accessible :: "nat \<Rightarrow> string \<Rightarrow> ('z io_world_scheme, unit) step" where
  "ensure_accessible pid path =
    (let probe = probe_path pid path in
     bind_s (context_s (''create '' @ path) (fs_create_dir_all path)) (\<lambda>_.
     bind_s (context_s (''write '' @ probe) (fs_create_fresh probe)) (\<lambda>_.
     bind_s (context_s (''write '' @ probe) (fs_write_all probe ''ok'')) (\<lambda>_.
     context_s (''remove '' @ probe) (fs_remove_there probe)))))"

definition user_data_dir :: "(string \<Rightarrow> string option) \<Rightarrow> string result" where
  "user_data_dir var =
    (case var ''XDG_STATE_HOME'' of
       Some path \<Rightarrow> Ok (path_join path ''drv-thru'')
     | None \<Rightarrow>
         bind_r (ok_or ''HOME is not set; pass --data-dir'' (var ''HOME'')) (\<lambda>home.
         Ok (path_join home ''.local/state/drv-thru'')))"

definition default_data_dir :: "nat \<Rightarrow> (string \<Rightarrow> string option) \<Rightarrow> ('z io_world_scheme, string) step" where
  "default_data_dir pid var =
    match_s (ensure_accessible pid SYSTEM_DATA_DIR) (\<lambda>r.
      if is_ok r then ret SYSTEM_DATA_DIR
      else
        bind_s (lift_r (user_data_dir var)) (\<lambda>dir.
        bind_s (ensure_accessible pid dir) (\<lambda>_. ret dir)))"

text \<open>\<open>data_dir::optional\<close>.\<close>

definition optional_data_dir ::
  "nat \<Rightarrow> (string \<Rightarrow> string option) \<Rightarrow> string option \<Rightarrow> ('z io_world_scheme, string) step" where
  "optional_data_dir pid var dir = (case dir of Some dir \<Rightarrow> ret dir | None \<Rightarrow> default_data_dir pid var)"

section \<open>What probing leaves behind\<close>

lemma probe_frame: "keeps (only_files (\<lambda>p. p = probe_path pid path)) (ensure_accessible pid path)"
  unfolding ensure_accessible_def fs_remove_there_def Let_def
  by (intro frame) (auto simp: keeps_def only_files_def fs_create_fresh_def ticked_def io_defs split: fault.split)

lemma ensure_accessible_Ok:
  assumes "ensure_accessible pid path w = (Ok (), w')"
  shows "files w (probe_path pid path) = None \<and> files w' = files w"
  using assms
  by (auto simp: ensure_accessible_def fs_remove_there_def bind_s_def context_s_def fs_create_fresh_def fs_remove_file_def
      fs_create_dir_all_def io_call_def fs_write_all_def ticked_def Let_def split: fault.splits prod.splits sum.splits if_splits)

lemma only_files_weaken: "only_files P w w' \<Longrightarrow> (\<And>p. P p \<Longrightarrow> Q p) \<Longrightarrow> only_files Q w w'"
  by (auto simp: only_files_def)

text \<open>
  The data directory of a command is the system's if that is accessible, and the user's
  otherwise. Looking for it leaves every file as it was but for probe files, and those too when the
  directory that is returned is the system's.
\<close>

theorem default_data_dir_probes_only:
  "case default_data_dir pid var w of (r, w') \<Rightarrow>
    only_files (\<lambda>p. p = probe_path pid SYSTEM_DATA_DIR \<or> (\<exists>d. user_data_dir var = Ok d \<and> p = probe_path pid d)) w w'
    \<and> (case r of
         Inr dir \<Rightarrow> if is_ok (fst (ensure_accessible pid SYSTEM_DATA_DIR w)) then dir = SYSTEM_DATA_DIR \<and> files w' = files w
                    else user_data_dir var = Ok dir
       | Inl e \<Rightarrow> \<not> is_ok (fst (ensure_accessible pid SYSTEM_DATA_DIR w)))"
proof -
  let ?P = "\<lambda>p. p = probe_path pid SYSTEM_DATA_DIR \<or> (\<exists>d. user_data_dir var = Ok d \<and> p = probe_path pid d)"
  obtain r1 w1 where s: "ensure_accessible pid SYSTEM_DATA_DIR w = (r1, w1)" by fastforce
  with probe_frame have "only_files (\<lambda>p. p = probe_path pid SYSTEM_DATA_DIR) w w1" by (rule keepsD)
  then have w1: "only_files ?P w w1" by (rule only_files_weaken) simp
  show ?thesis
  proof (cases r1)
    case (Inr u)
    with s ensure_accessible_Ok [of pid SYSTEM_DATA_DIR w w1] w1 show ?thesis
      by (simp add: default_data_dir_def match_s_def)
  next
    case (Inl e)
    show ?thesis
    proof (cases "user_data_dir var")
      case (Inl e2)
      with s \<open>r1 = Inl e\<close> w1 show ?thesis by (simp add: default_data_dir_def match_s_def bind_s_def)
    next
      case (Inr dir)
      obtain r2 w2 where u: "ensure_accessible pid dir w1 = (r2, w2)" by fastforce
      with probe_frame have "only_files (\<lambda>p. p = probe_path pid dir) w1 w2" by (rule keepsD)
      then have "only_files ?P w1 w2" by (rule only_files_weaken) (use Inr in simp)
      with w1 have "only_files ?P w w2" by (rule only_files_trans)
      with s u Inr \<open>r1 = Inl e\<close> show ?thesis
        by (cases r2) (simp_all add: default_data_dir_def match_s_def bind_s_def)
    qed
  qed
qed

text \<open>
  A probe whose write fails is left behind, and from then on the directory is refused to every
  process of that id until somebody removes the file.
\<close>

theorem failed_probe_blocks_the_directory:
  "\<exists>w e w'. files (w :: io_world) (probe_path pid path) = None
    \<and> ensure_accessible pid path w = (Inl e, w')
    \<and> (\<nexists>v u. files v = files w' \<and> ensure_accessible pid path (v :: io_world) = (Ok (), u))"
proof -
  let ?w = "\<lparr>files = (\<lambda>p. None), clock = (\<lambda>n. None), faults = (\<lambda>n. if n = 2 then Fault 0 else Fine), ticks = 0\<rparr>"
  obtain r w' where run: "ensure_accessible pid path ?w = (r, w')" by fastforce
  then have "\<not> is_ok r \<and> files w' (probe_path pid path) \<noteq> None"
    by (auto simp: ensure_accessible_def bind_s_def context_s_def fs_create_fresh_def fs_create_dir_all_def io_call_def
        fs_write_all_def next_fault_def ticked_def Let_def)
  then obtain e where "r = Inl e" "files w' (probe_path pid path) \<noteq> None" by (cases r) auto
  moreover from this(2) have "\<nexists>v u. files v = files w' \<and> ensure_accessible pid path (v :: io_world) = (Ok (), u)"
    using ensure_accessible_Ok by metis
  ultimately show ?thesis using run by (intro exI [of _ ?w]) auto
qed

end
