(* ===== verification/Ticket_Command.thy ===== *)
theory Ticket_Command
  imports Data_Dir Ticket_Addr
begin

text \<open>
  \<open>cli/tickets.rs\<close>: the commands that create, list, inspect, reveal and revoke tickets. \<open>clap\<close> parses
  the command line, so the arguments come in parsed.
\<close>

record ('id, 'url, 'sock, 'addr) cli_env =
  cli_tickets :: "('id, 'addr) ticket_env"
  cli_api :: "('id, 'url, 'sock, 'addr) addr_api"
  cli_text :: "('id, 'url, 'sock) addr_text"
  cli_addr_json :: "server_addr_file codec"
  cli_var :: "string \<Rightarrow> string option"

datatype ('id, 'addr) ticket_command =
    Create "string option" "string option" "'id option" string "string option" bool string string
  | List_Tickets "string option"
  | Inspect "string option" "'addr build_ticket"
  | Reveal "string option" string
  | Revoke "string option" string

text \<open>The arguments of \<open>create\<close>.\<close>

record 'id ticket_create_args =
  ta_data_dir :: "string option"
  ta_name :: "string option"
  ta_bind_client :: "'id option"
  ta_expires :: string
  ta_uses :: "string option"
  ta_unlimited :: bool
  ta_max_build_time :: string
  ta_max_upload_bytes :: string

definition data_dir_of ::
  "('id, 'url, 'sock, 'addr) cli_env \<Rightarrow> string option \<Rightarrow> ('z io_world_scheme, string) step" where
  "data_dir_of E dir = optional_data_dir (process_id (cli_tickets E)) (cli_var E) dir"

definition parse_ticket_uses :: "string option \<Rightarrow> bool \<Rightarrow> u64 option result" where
  "parse_ticket_uses uses unlimited =
    (if unlimited then
       (if uses \<noteq> None then bail ''--uses and --unlimited cannot be used together'' else Ok None)
     else
       case uses of
         None \<Rightarrow> Ok (Some 1)
       | Some uses \<Rightarrow>
           if eq_ignore_ascii_case uses ''unlimited'' then Ok None
           else
             (case parse_u64 uses of
                None \<Rightarrow> Err (Context (''parse --uses '' @ uses) (lib_error ''parse::<u64>''))
              | Some n \<Rightarrow> if n = 0 then bail ''--uses must be at least 1 or unlimited'' else Ok (Some n)))"

definition format_uses :: "u64 option \<Rightarrow> string" where
  "format_uses uses = (case uses of Some n \<Rightarrow> show_word n | None \<Rightarrow> ''unlimited'')"

definition ticket_record_status :: "ticket_record \<Rightarrow> u64 \<Rightarrow> string" where
  "ticket_record_status record now =
    (if revoked record then ''revoked''
     else if expires_at_unix record \<le> now then ''expired''
     else if uses_remaining record = Some 0 then ''exhausted''
     else ''active'')"

definition state_advice :: "string \<Rightarrow> string \<Rightarrow> string" where
  "state_advice what dir = what @ '' in '' @ dir @ ''; run as root, a wheel user, or pass --data-dir''"

definition create_options :: "('id, 'url, 'sock, 'addr) cli_env \<Rightarrow> 'id ticket_create_args \<Rightarrow> duration \<Rightarrow> u64 option \<Rightarrow> create_ticket" where
  "create_options E args lifetime uses =
    \<lparr>ct_name = ta_name args, ct_bound_client = map_option (show_id (ids (cli_tickets E))) (ta_bind_client args),
     expires_after = lifetime, ct_uses_remaining = uses,
     ct_max_build_time = ta_max_build_time args, ct_max_upload_bytes = ta_max_upload_bytes args\<rparr>"

text \<open>\<open>create\<close>, given the secret that \<open>BuildTicket::generate\<close> draws.\<close>

definition cli_create ::
  "('id, 'url, 'sock, 'addr) cli_env \<Rightarrow> secret \<Rightarrow> 'id ticket_create_args \<Rightarrow> ('z cli_world_scheme, unit) step" where
  "cli_create E secret args =
    bind_s (data_dir_of E (ta_data_dir args)) (\<lambda>dir.
    bind_s (lift_r (with_context (''parse --expires '' @ ta_expires args) (parse_duration (ta_expires args)))) (\<lambda>lifetime.
    bind_s (lift_r (parse_ticket_uses (ta_uses args) (ta_unlimited args))) (\<lambda>uses.
    bind_s (lift_r (with_context (''parse --max-build-time '' @ ta_max_build_time args)
              (parse_duration (ta_max_build_time args)))) (\<lambda>_.
    bind_s (lift_r (with_context (''parse --max-upload-bytes '' @ ta_max_upload_bytes args)
              (parse_byte_count (ta_max_upload_bytes args)))) (\<lambda>_.
    bind_s (context_s (state_advice ''read server state'' dir)
              (load_server_addr (cli_api E) (cli_text E) (cli_addr_json E) dir)) (\<lambda>server_addr.
    bind_s (context_s (state_advice ''write ticket state'' dir)
              (ticket_create (cli_tickets E) (ticket_store_new dir) secret server_addr
                (create_options E args lifetime uses))) (\<lambda>ticket.
    println (ticket_text (cli_tickets E) ticket))))))))"

definition tab :: string where
  "tab = [CHR 0x09]"

definition list_line :: "u64 \<Rightarrow> string \<times> ticket_record \<Rightarrow> string" where
  "list_line now row =
    (case row of (tid, record) \<Rightarrow>
       join_with tab [tid, case ticket_name record of None \<Rightarrow> ''-'' | Some name \<Rightarrow> name,
         ticket_record_status record now, format_uses (uses_remaining record),
         show_word (expires_at_unix record), case bound_client record of None \<Rightarrow> ''-'' | Some client \<Rightarrow> client])"

definition cli_list ::
  "('id, 'url, 'sock, 'addr) cli_env \<Rightarrow> string option \<Rightarrow> ('z cli_world_scheme, unit) step" where
  "cli_list E dir =
    bind_s (data_dir_of E dir) (\<lambda>dir.
    bind_s (context_s (state_advice ''read ticket state'' dir)
              (ticket_records (cli_tickets E) (ticket_store_new dir))) (\<lambda>records.
    if records = [] then println ''no tickets''
    else
      bind_s read_clock (\<lambda>now.
      bind_s (println (join_with tab [''id'', ''name'', ''status'', ''uses'', ''expires_unix'', ''bound_client''])) (\<lambda>_.
      println_all (map (list_line now) records)))))"

definition record_lines :: "ticket_record \<Rightarrow> string list" where
  "record_lines record =
    [''name: '' @ (case ticket_name record of None \<Rightarrow> ''<none>'' | Some name \<Rightarrow> name),
     ''created unix: '' @ show_word (created_at_unix record),
     ''expires unix: '' @ show_word (expires_at_unix record),
     ''uses remaining: '' @ format_uses (uses_remaining record),
     ''max build time: '' @ max_build_time record,
     ''max upload bytes: '' @ max_upload_bytes record]
    @ (case bound_client record of None \<Rightarrow> [] | Some client \<Rightarrow> [''bound client: '' @ client])
    @ [''revoked: '' @ (if revoked record then ''true'' else ''false'')]"

definition addr_lines :: "('id, 'url, 'sock, 'addr) cli_env \<Rightarrow> 'addr \<Rightarrow> string list" where
  "addr_lines E addr =
    [''server endpoint id: '' @ show_id (ids (cli_tickets E)) (addr_id (cli_api E) addr)]
    @ map (\<lambda>url. ''server relay url: '' @ show_url (cli_text E) url) (relay_urls (cli_api E) addr)
    @ map (\<lambda>sock. ''server direct addr: '' @ show_sock (cli_text E) sock) (ip_addrs (cli_api E) addr)"

definition cli_inspect ::
  "('id, 'url, 'sock, 'addr) cli_env \<Rightarrow> string option \<Rightarrow> 'addr build_ticket \<Rightarrow> ('z cli_world_scheme, unit) step" where
  "cli_inspect E dir ticket =
    bind_s (data_dir_of E dir) (\<lambda>dir.
    let id = ticket_id (cli_tickets E) (ticket_secret ticket) in
    bind_s (println_all ([''ticket: '' @ ticket_text (cli_tickets E) ticket, ''ticket id: '' @ id]
              @ addr_lines E (ticket_addr ticket))) (\<lambda>_.
    bind_s (context_s (state_advice ''read ticket state'' dir)
              (ticket_record_of (cli_tickets E) (ticket_store_new dir) id)) (\<lambda>found.
    case found of
      Some record \<Rightarrow> println_all (record_lines record)
    | None \<Rightarrow> println ''store: ticket record not found'')))"

definition cli_reveal ::
  "('id, 'url, 'sock, 'addr) cli_env \<Rightarrow> string option \<Rightarrow> string \<Rightarrow> ('z cli_world_scheme, unit) step" where
  "cli_reveal E dir tid =
    bind_s (data_dir_of E dir) (\<lambda>dir.
    bind_s (context_s (state_advice ''read ticket state'' dir)
              (ticket_record_of (cli_tickets E) (ticket_store_new dir) tid)) (\<lambda>found.
    bind_s (lift_r (ok_or (''ticket not found: '' @ tid) found)) (\<lambda>record.
    println (encoded_ticket record))))"

definition cli_revoke ::
  "('id, 'url, 'sock, 'addr) cli_env \<Rightarrow> string option \<Rightarrow> string \<Rightarrow> ('z cli_world_scheme, unit) step" where
  "cli_revoke E dir tid =
    bind_s (data_dir_of E dir) (\<lambda>dir.
    bind_s (context_s (state_advice ''revoke ticket'' dir)
              (ticket_revoke (cli_tickets E) (ticket_store_new dir) tid)) (\<lambda>_.
    println (''revoked ticket: '' @ tid)))"

definition run_ticket_command ::
  "('id, 'url, 'sock, 'addr) cli_env \<Rightarrow> secret \<Rightarrow> ('id, 'addr) ticket_command \<Rightarrow> ('z cli_world_scheme, unit) step" where
  "run_ticket_command E secret command =
    (case command of
       Create dir name client expires uses unlimited time bytes \<Rightarrow>
         cli_create E secret \<lparr>ta_data_dir = dir, ta_name = name, ta_bind_client = client, ta_expires = expires,
           ta_uses = uses, ta_unlimited = unlimited, ta_max_build_time = time, ta_max_upload_bytes = bytes\<rparr>
     | List_Tickets dir \<Rightarrow> cli_list E dir
     | Inspect dir ticket \<Rightarrow> cli_inspect E dir ticket
     | Reveal dir tid \<Rightarrow> cli_reveal E dir tid
     | Revoke dir tid \<Rightarrow> cli_revoke E dir tid)"

section \<open>What a listing says of a ticket\<close>

text \<open>
  A ticket is listed as active exactly when the builder would still accept it from some
  client: at that reading of the clock a client exists for which the record is valid, provided
  the client the ticket is bound to, if any, has a readable id.
\<close>

theorem listed_status_is_the_verdict:
  "(\<exists>remote. fst (validate_ticket_record I tid record remote w) = Ok ()) \<longleftrightarrow>
    (\<exists>now. clock w (ticks w) = Some now \<and> ticket_record_status record now = ''active''
      \<and> (case bound_client record of None \<Rightarrow> True | Some b \<Rightarrow> is_ok (parse_id I b)))"
  by (auto simp: validate_ticket_record_eq ticket_verdict_Ok_iff ticket_record_status_def is_ok_iff not_le
      split: option.splits)

text \<open>
  The uses of a new ticket: \<open>--unlimited\<close> or \<open>--uses unlimited\<close> in any case, a number that is at
  least one, or one use when nothing is said.
\<close>

theorem parse_ticket_uses_exact:
  "parse_ticket_uses uses unlimited = Ok n \<longleftrightarrow>
    (case (uses, unlimited) of
       (None, True) \<Rightarrow> n = None
     | (None, False) \<Rightarrow> n = Some 1
     | (Some u, True) \<Rightarrow> False
     | (Some u, False) \<Rightarrow>
         if to_ascii_lowercase u = ''unlimited'' then n = None
         else \<exists>k. parse_u64 u = Some k \<and> k \<noteq> 0 \<and> n = Some k)"
proof -
  have "to_ascii_lowercase ''unlimited'' = ''unlimited''"
    by (simp add: to_ascii_lowercase_def to_ascii_lower_def is_ascii_upper_def byte_def)
  then show ?thesis
    by (auto simp: parse_ticket_uses_def eq_ignore_ascii_case_def split: option.split bool.split)
qed

end
