(* ===== verification/Ticket_Journey.thy ===== *)
theory Ticket_Journey
  imports Ticket_Command Server_Connection
begin

text \<open>
  A ticket from the command that creates it to the builder that admits its bearer: \<open>cli/tickets.rs\<close>,
  \<open>ticket.rs\<close> and \<open>server/auth.rs\<close> together. The command checks the limits it writes down, so the
  builder can always read them; what it prints is the ticket of the record it stored.
\<close>

lemma lock_path_tickets: "\<exists>p. ticket_store_lock_path (store_file (ticket_store_new dir)) = Ok p"
proof -
  have "path_file_name (path_join dir TICKETS_FILE) = Some TICKETS_FILE"
    by (rule path_file_name_join) (simp add: plain_name_def TICKETS_FILE_def)
  then show ?thesis by (simp add: ticket_store_lock_path_def ticket_store_new_def)
qed

text \<open>A check whose calls do not fail decides on the stored record and changes nothing.\<close>

lemma ticket_check_calm:
  assumes "faults v = (\<lambda>n. Fine)" "clock v = (\<lambda>n. Some now)"
    and "stored T (ticket_store_new dir) v = Ok st" "bt_get (ticket_id T secret) (tickets st) = Some rec"
    and "\<not> revoked rec"
  shows "ticket_check T (ticket_store_new dir) secret remote v =
    (case ticket_verdict (ids T) (ticket_id T secret) rec remote (Some now) of
       Inr u \<Rightarrow> Ok rec | Inl e \<Rightarrow> Inl e, v\<lparr>ticks := ticks v + 3\<rparr>)"
proof -
  obtain p where p: "ticket_store_lock_path (store_file (ticket_store_new dir)) = Ok p"
    using lock_path_tickets by blast
  have lock: "lock_file (ticket_store_new dir) v = (Ok (), v\<lparr>ticks := Suc (ticks v)\<rparr>)"
    using assms(1) p by (simp add: lock_file_def context_s_def bind_s_def io_call_def next_fault_def ticked_def)
  have load: "load_unlocked T (ticket_store_new dir) (v\<lparr>ticks := Suc (ticks v)\<rparr>) = (Ok st, v\<lparr>ticks := Suc (Suc (ticks v))\<rparr>)"
    using assms(1,3)
    by (auto simp: load_unlocked_def match_s_def fs_read_to_string_def fs_read_def next_fault_def ticked_def stored_def
        decode_file_def bind_r_Ok_iff split: option.splits)
  show ?thesis
    using assms(2,4,5)
    by (simp add: ticket_check_def bind_s_def lock load find_ticket_def validate_ticket_record_eq ticked_def
        split: sum.split)
qed

lemma cli_create_Ok:
  assumes "cli_create E secret args w = (Ok (), w')" "ta_data_dir args = Some dir"
    and "ticket_env_ok (cli_tickets E)"
  shows "\<exists>lifetime uses time bytes addr created name st rec.
    parse_duration (ta_expires args) = Ok lifetime \<and> parse_duration (ta_max_build_time args) = Ok time
    \<and> parse_byte_count (ta_max_upload_bytes args) = Ok bytes
    \<and> unat created + unat lifetime < 2 ^ 64 \<and> uses \<noteq> Some 0
    \<and> rec = new_ticket_record (cli_tickets E) (ticket_generate (cli_tickets E) addr secret) created (created + lifetime)
        name (create_options E args lifetime uses)
    \<and> stored (cli_tickets E) (ticket_store_new dir) w' = Ok st
    \<and> bt_get (ticket_id (cli_tickets E) secret) (tickets st) = Some rec
    \<and> stdout w' = stdout w @ [ticket_text (cli_tickets E) (ticket_generate (cli_tickets E) addr secret)]"
proof -
  let ?T = "cli_tickets E" and ?S = "ticket_store_new dir"
  from assms(1,2) obtain lifetime uses time bytes addr ticket w1 w2 where
    lt: "parse_duration (ta_expires args) = Ok lifetime" and us: "parse_ticket_uses (ta_uses args) (ta_unlimited args) = Ok uses"
    and tm: "parse_duration (ta_max_build_time args) = Ok time" and bc: "parse_byte_count (ta_max_upload_bytes args) = Ok bytes"
    and ld: "load_server_addr (cli_api E) (cli_text E) (cli_addr_json E) dir w = (Ok addr, w1)"
    and cr: "ticket_create ?T ?S secret addr (create_options E args lifetime uses) w1 = (Ok ticket, w2)"
    and w': "w' = w2\<lparr>stdout := stdout w2 @ [ticket_text ?T ticket]\<rparr>"
    unfolding cli_create_def data_dir_of_def optional_data_dir_def
    by (auto simp: bind_s_Ok_iff context_s_Ok_iff println_def)
  have "keeps untouched (load_server_addr (cli_api E) (cli_text E) (cli_addr_json E) dir)"
    unfolding load_server_addr_def Let_def by (intro frame) (auto intro: frame split: sum.splits option.splits)
  then have "untouched w w1" using ld by (rule keepsD)
  then have out1: "stdout w1 = stdout w"
    by (cases w, cases w1) (simp add: only_files_def)
  from create_outcome [OF cr] obtain st now exp name where
    st: "stored ?T ?S w1 = Ok st" and exp: "checked_add now lifetime = Some exp"
    and fresh: "bt_get (ticket_id ?T secret) (tickets st) = None" and ticket: "ticket = ticket_generate ?T addr secret"
    and inst: "installed ?T ?S (st\<lparr>tickets := bt_insert (ticket_id ?T secret)
               (new_ticket_record ?T (ticket_generate ?T addr secret) now exp name (create_options E args lifetime uses)) (tickets st)\<rparr>) w1 w2"
    by (auto simp: create_options_def)
  let ?rec = "new_ticket_record ?T (ticket_generate ?T addr secret) now exp name (create_options E args lifetime uses)"
  let ?st = "st\<lparr>tickets := bt_insert (ticket_id ?T secret) ?rec (tickets st)\<rparr>"
  have inv: "bt_invar (tickets st)" using assms(3) st by (rule stored_invar)
  then have "stored ?T ?S w2 = Ok ?st" using assms(3) inst by (intro installed_stored) simp_all
  then have st': "stored ?T ?S w' = Ok ?st" by (simp add: w' stored_def)
  have got: "bt_get (ticket_id ?T secret) (tickets ?st) = Some ?rec" using inv by (simp add: bt_simps)
  have "stdout w2 = stdout w1" using inst by (cases w1, cases w2) (auto simp: installed_def only_files_def)
  then have out: "stdout w' = stdout w @ [ticket_text ?T (ticket_generate ?T addr secret)]"
    by (simp add: w' ticket out1)
  have "exp = now + lifetime" "unat now + unat lifetime < 2 ^ 64" using exp by (simp_all add: checked_add_def split: if_splits)
  moreover have "uses \<noteq> Some 0" using us by (auto simp: parse_ticket_uses_def split: if_splits option.splits)
  ultimately show ?thesis using lt tm bc st' got out by blast
qed


text \<open>A ticket for two builds within 95 seconds, made at time 5 and shown to the builder at time 50.\<close>

definition demo_cli :: "(nat, unit, unit, unit) cli_env" where
  "demo_cli =
    \<lparr>cli_tickets = demo_env,
     cli_api = \<lparr>addr_new = (\<lambda>i. ()), with_relay_url = (\<lambda>a u. ()), with_ip_addr = (\<lambda>a s. ()), addr_id = (\<lambda>a. 5),
       relay_urls = (\<lambda>a. []), ip_addrs = (\<lambda>a. [])\<rparr>,
     cli_text = \<lparr>id_text = ids demo_env, show_url = (\<lambda>u. ''u''), parse_url = (\<lambda>s. Ok ()),
       show_sock = (\<lambda>s. ''s''), parse_sock = (\<lambda>s. Ok ())\<rparr>,
     cli_addr_json = \<lparr>to_vec_pretty = (\<lambda>f. Ok ''a''),
       from_str = (\<lambda>t. Ok \<lparr>saf_endpoint_id = ''5'', saf_relay_url = None, saf_direct_addrs = []\<rparr>)\<rparr>,
     cli_var = (\<lambda>v. None)\<rparr>"

definition demo_create_args :: "nat ticket_create_args" where
  "demo_create_args =
    \<lparr>ta_data_dir = Some ''/d'', ta_name = Some ''demo'', ta_bind_client = None, ta_expires = ''95s'',
     ta_uses = Some ''2'', ta_unlimited = False, ta_max_build_time = ''5m'', ta_max_upload_bytes = ''1M''\<rparr>"

definition demo_cli_world :: cli_world where
  "demo_cli_world =
    \<lparr>files = [''/d/server-addr.json'' \<mapsto> ''a''], clock = (\<lambda>n. Some 5), faults = (\<lambda>n. Fine), ticks = 0, stdout = []\<rparr>"

lemma demo_addr_loads:
  "load_server_addr (cli_api demo_cli) (cli_text demo_cli) (cli_addr_json demo_cli) ''/d'' demo_cli_world =
    (Ok (), demo_cli_world\<lparr>ticks := 1\<rparr>)"
  by (simp add: load_server_addr_def match_s_def demo_cli_def demo_cli_world_def SERVER_ADDR_FILE_def saf_into_addr_def drv_eval)

lemma demo_limits:
  "parse_duration ''95s'' = Ok 95" "parse_duration ''5m'' = Ok 300" "parse_byte_count ''1M'' = Ok 1048576"
  "parse_ticket_uses (Some ''2'') False = Ok (Some 2)"
  by (simp_all add: parse_ticket_uses_def drv_eval eq_ignore_ascii_case_def to_ascii_lowercase_def)

lemma demo_ticket_written:
  "\<exists>w'. ticket_create demo_env (ticket_store_new ''/d'') ''s'' () (create_options demo_cli demo_create_args 95 (Some 2))
      (demo_cli_world\<lparr>ticks := 1\<rparr>) = (Ok \<lparr>ticket_addr = (), ticket_secret = ''s''\<rparr>, w')
    \<and> files w' ''/d/tickets.json'' = Some (''2'' @ [CHR 0x0A])"
  by (simp add: create_options_def demo_cli_def demo_create_args_def demo_cli_world_def checked_add_def drv_eval)

lemma demo_create:
  "\<exists>w'. cli_create demo_cli ''s'' demo_create_args demo_cli_world = (Ok (), w')
    \<and> files w' ''/d/tickets.json'' = Some (''2'' @ [CHR 0x0A])"
proof -
  obtain w' where made: "ticket_create demo_env (ticket_store_new ''/d'') ''s'' ()
      (create_options demo_cli demo_create_args 95 (Some 2)) (demo_cli_world\<lparr>ticks := 1\<rparr>) =
      (Ok \<lparr>ticket_addr = (), ticket_secret = ''s''\<rparr>, w')" "files w' ''/d/tickets.json'' = Some (''2'' @ [CHR 0x0A])"
    using demo_ticket_written by blast
  have "ta_data_dir demo_create_args = Some ''/d''" "ta_expires demo_create_args = ''95s''"
    "ta_uses demo_create_args = Some ''2''" "ta_unlimited demo_create_args = False"
    "ta_max_build_time demo_create_args = ''5m''" "ta_max_upload_bytes demo_create_args = ''1M''"
    "cli_tickets demo_cli = demo_env"
    by (simp_all add: demo_create_args_def demo_cli_def)
  with made show ?thesis
    by (simp add: cli_create_def data_dir_of_def optional_data_dir_def bind_s_def demo_limits demo_addr_loads
        context_s_def println_def)
qed


end
