(* ===== verification/Server_Main.thy ===== *)
theory Server_Main
  imports Keys Ticket_Addr Output_Cache Status_Board
begin

text \<open>
  \<open>server/mod.rs\<close>: how \<open>drv-thru serve\<close> comes up, to the point where it accepts connections. The
  endpoint of the networking library is its secret key here, from which its id and address follow;
  binding it may fail. What the server prints is not kept. Connections, once accepted, are the
  subject of \<open>Server_Connection\<close>.
\<close>

datatype 'id serve_mode =
    Mode_Data_Dir string "'id list"
  | Mode_Config string

record 'id resolved_serve_mode =
  rm_data_dir :: string
  rm_secret_key_file :: "string option"
  rm_access_policy :: "'id access_policy"
  rm_max_concurrent_builds :: usize
  rm_max_parallel_fills :: "usize option"
  rm_recent_builds_limit :: usize

record ('id, 'url, 'sock, 'addr, 'n) serve_env =
  sv_keys :: "'n key_env"
  sv_config_json :: "string \<Rightarrow> server_config result"
  sv_tickets :: "('id, 'addr) ticket_env"
  sv_api :: "('id, 'url, 'sock, 'addr) addr_api"
  sv_text :: "('id, 'url, 'sock) addr_text"
  sv_addr_json :: "server_addr_file codec"
  sv_status_json :: "status_snapshot codec"
  sv_parallelism :: "usize option"
  sv_endpoint_addr :: "secret_key \<Rightarrow> 'addr"

text \<open>What the accept loop works with.\<close>

record 'id running_server =
  rs_policy :: "'id access_policy"
  rs_store :: ticket_store
  rs_permits :: nat
  rs_fill_permits :: usize
  rs_cache :: output_cache
  rs_status :: mutable_status

definition read_config_file :: "string \<Rightarrow> ('z io_world_scheme, string result) step" where
  "read_config_file path =
    match_s (fs_read_to_string path) (\<lambda>r.
      ret (case r of
        Inr (Some content) \<Rightarrow> Ok content
      | Inr None \<Rightarrow> Err (lib_error ''read_to_string'')
      | Inl e \<Rightarrow> Inl e))"

definition resolve_serve_mode ::
  "('id, 'url, 'sock, 'addr, 'n) serve_env \<Rightarrow> 'id serve_mode \<Rightarrow> ('z io_world_scheme, 'id resolved_serve_mode) step" where
  "resolve_serve_mode E mode =
    (case mode of
       Mode_Data_Dir dir clients \<Rightarrow>
         ret \<lparr>rm_data_dir = dir, rm_secret_key_file = None,
              rm_access_policy = access_from_endpoint_ids (ids (sv_tickets E)) clients,
              rm_max_concurrent_builds = DEFAULT_MAX_CONCURRENT_BUILDS, rm_max_parallel_fills = None,
              rm_recent_builds_limit = DEFAULT_RECENT_BUILDS_LIMIT\<rparr>
     | Mode_Config path \<Rightarrow>
         bind_s (read_config_file path) (\<lambda>content.
         bind_s (lift_r (load_server_config (sv_config_json E) path content)) (\<lambda>config.
         bind_s (lift_r (access_from_config (ids (sv_tickets E)) config)) (\<lambda>access_policy.
         ret \<lparr>rm_data_dir = data_dir config, rm_secret_key_file = secret_key_file config,
              rm_access_policy = access_policy, rm_max_concurrent_builds = max_concurrent_builds config,
              rm_max_parallel_fills = output_cache_max_parallel_fills config,
              rm_recent_builds_limit = recent_builds_limit config\<rparr>))))"

text \<open>\<open>available_parallelism().map_or(4, usize::from).clamp(1, MAX_AUTO_CACHE_FILLS)\<close>.\<close>

definition default_output_cache_max_parallel_fills :: "usize option \<Rightarrow> usize" where
  "default_output_cache_max_parallel_fills parallelism =
    (let n = (case parallelism of Some n \<Rightarrow> n | None \<Rightarrow> 4) in
     if n < 1 then 1 else if MAX_AUTO_CACHE_FILLS < n then MAX_AUTO_CACHE_FILLS else n)"

definition bind_endpoint ::
  "('id, 'url, 'sock, 'addr, 'n) serve_env \<Rightarrow> string \<Rightarrow> string option \<Rightarrow> ('n key_world, secret_key) step" where
  "bind_endpoint E dir key_file =
    bind_s (load_or_create (sv_keys E) (case key_file of Some path \<Rightarrow> path | None \<Rightarrow> server_key_path dir)) (\<lambda>key.
    bind_s (io_call ''bind'') (\<lambda>_. ret key))"

definition status_env_of :: "('id, 'url, 'sock, 'addr, 'n) serve_env \<Rightarrow> string \<Rightarrow> status_env" where
  "status_env_of E dir =
    \<lparr>status_file = status_path dir, status_json = sv_status_json E, status_pid = process_id (sv_tickets E)\<rparr>"

text \<open>\<open>serve\<close> up to the accept loop.\<close>

definition serve_start ::
  "('id, 'url, 'sock, 'addr, 'n) serve_env \<Rightarrow> 'id serve_mode \<Rightarrow> ('n key_world, 'id running_server) step" where
  "serve_start E mode =
    bind_s (resolve_serve_mode E mode) (\<lambda>m.
    bind_s (load_or_create_signing_key (sv_keys E) (rm_data_dir m)) (\<lambda>pair.
    let fills = (case rm_max_parallel_fills m of
          Some n \<Rightarrow> n | None \<Rightarrow> default_output_cache_max_parallel_fills (sv_parallelism E)) in
    bind_s (output_cache_new (rm_data_dir m)
              \<lparr>key_public = pair_public_key pair, key_secret_path = secret_path pair\<rparr>) (\<lambda>cache.
    bind_s (bind_endpoint E (rm_data_dir m) (rm_secret_key_file m)) (\<lambda>key.
    bind_s (save_server_addr (sv_api E) (sv_text E) (process_id (sv_tickets E)) (sv_addr_json E)
              (rm_data_dir m) (sv_endpoint_addr E key)) (\<lambda>_.
    bind_s (status_new (status_env_of E (rm_data_dir m))
              (show_id (ids (sv_tickets E)) (addr_id (sv_api E) (sv_endpoint_addr E key)))
              (unat (rm_max_concurrent_builds m)) (unat (rm_recent_builds_limit m))) (\<lambda>status.
    let ticket_store = ticket_store_new (rm_data_dir m) in
    bind_s (ticket_load (sv_tickets E) ticket_store) (\<lambda>_.
    ret \<lparr>rs_policy = rm_access_policy m, rs_store = ticket_store, rs_permits = unat (rm_max_concurrent_builds m),
         rs_fill_permits = fills, rs_cache = cache, rs_status = status\<rparr>)))))))"

section \<open>Resolved modes\<close>

lemma resolved_mode_bounds:
  assumes "resolve_serve_mode E mode w = (Ok m, w')"
  shows "0 < unat (rm_max_concurrent_builds m) \<and> 0 < unat (rm_recent_builds_limit m) \<and> rm_max_parallel_fills m \<noteq> Some 0"
proof (cases mode)
  case (Mode_Data_Dir dir clients)
  with assms show ?thesis
    by (auto simp: resolve_serve_mode_def DEFAULT_MAX_CONCURRENT_BUILDS_def DEFAULT_RECENT_BUILDS_LIMIT_def)
next
  case (Mode_Config path)
  with assms show ?thesis
    by (auto simp: resolve_serve_mode_def bind_s_Ok_iff load_server_config_def bind_r_Ok_iff unat_gt_0 split: if_splits)
qed

lemma default_fills_bounds: "1 \<le> unat (default_output_cache_max_parallel_fills p) \<and> unat (default_output_cache_max_parallel_fills p) \<le> 16"
  by (auto simp: default_output_cache_max_parallel_fills_def MAX_AUTO_CACHE_FILLS_def Let_def word_le_nat_alt
      word_less_nat_alt not_less split: option.split)

section \<open>A server that has started\<close>

text \<open>A fresh board is empty, and writing its file touches nothing else below the data directory.\<close>

lemma status_new_Ok:
  assumes "status_new E endpoint concurrency limit w = (Ok st, w')"
  shows "live_ids st = [] \<and> status_inv st \<and> counted st \<and> next_request_seq st = 0
    \<and> recent_limit (server (snapshot st)) = limit \<and> configured_concurrency (server (snapshot st)) = concurrency
    \<and> only_files (\<lambda>p. p = status_file E \<or> temp_path_for (status_pid E) (status_file E) = Ok p) w w'"
proof -
  from assms obtain now w1 now' w2 s0 where clocks: "read_clock w = (Ok now, w1)" "read_clock w1 = (Ok now', w2)"
    and s0: "s0 = \<lparr>next_request_seq = 0, snapshot = \<lparr>snapshot_version = STATUS_VERSION,
                 server = \<lparr>s_endpoint_id = endpoint, configured_concurrency = concurrency,
                   active_count = 0, queued_count = 0, recent_limit = limit,
                   started_at_unix = now, updated_at_unix = now\<rparr>, queued = [], active = [], recent = []\<rparr>\<rparr>"
    and st: "st = refreshed s0 now'"
    and body: "write_atomic (status_pid E) (status_json E) (status_file E) (snapshot st) ''encode status JSON'' w2 = (Ok (), w')"
    by (auto simp: status_new_def persist_current_def Let_def split: prod.splits sum.splits)
  have "only_files (\<lambda>p. False) w w2"
    using keepsD [OF frame_reads(2) clocks(1)] keepsD [OF frame_reads(2) clocks(2)] by (rule only_files_trans)
  moreover have "only_files (\<lambda>p. p = status_file E \<or> temp_path_for (status_pid E) (status_file E) = Ok p) w2 w'"
    using write_atomic_inner_split [OF body [unfolded write_atomic_def]] by (auto elim: only_files_mono)
  moreover have "status_inv s0" "live_ids s0 = []" by (simp_all add: s0 status_inv_def live_ids_def)
  ultimately show ?thesis
    unfolding st s0 using s0
    by (auto simp: refreshed_def refresh_snapshot_def live_ids_def status_inv_def counted_def intro: only_files_False_trans)
qed

lemma serve_start_board:
  assumes "serve_start E mode w = (Ok s, w')"
  shows "live_ids (rs_status s) = [] \<and> status_inv (rs_status s) \<and> counted (rs_status s) \<and> next_request_seq (rs_status s) = 0
    \<and> configured_concurrency (server (snapshot (rs_status s))) = rs_permits s"
  using assms by (auto simp: serve_start_def bind_s_Ok_iff Let_def dest!: status_new_Ok)

text \<open>Neither the board nor its temporary file is the address file.\<close>

lemma address_file_is_apart:
  "path_join dir SERVER_ADDR_FILE \<noteq> status_path dir"
  "temp_path_for pid (status_path dir) \<noteq> Ok (path_join dir SERVER_ADDR_FILE)"
proof -
  have names: "path_file_name (path_join dir SERVER_ADDR_FILE) = Some SERVER_ADDR_FILE"
    "path_file_name (status_path dir) = Some STATUS_FILE"
    unfolding status_path_def by (intro path_file_name_join; simp add: plain_name_def SERVER_ADDR_FILE_def STATUS_FILE_def)+
  then show "path_join dir SERVER_ADDR_FILE \<noteq> status_path dir"
    by (auto simp: SERVER_ADDR_FILE_def STATUS_FILE_def dest: arg_cong [of _ _ path_file_name])
  show "temp_path_for pid (status_path dir) \<noteq> Ok (path_join dir SERVER_ADDR_FILE)"
  proof
    assume eq: "temp_path_for pid (status_path dir) = Ok (path_join dir SERVER_ADDR_FILE)"
    then have "path_join dir SERVER_ADDR_FILE = with_file_name (status_path dir) (temp_name pid STATUS_FILE)"
      by (simp add: temp_path_for_def names)
    moreover have "path_file_name (with_file_name (status_path dir) (temp_name pid STATUS_FILE)) = Some (temp_name pid STATUS_FILE)"
      by (intro with_file_name_file_name plain_temp_name) (simp add: plain_name_def STATUS_FILE_def)
    ultimately show False using names(1) by (simp add: temp_name_def SERVER_ADDR_FILE_def)
  qed
qed


text \<open>A directory with the keys in place.\<close>

definition demo_serve_env :: "(bool, bool, bool, bool \<times> bool list \<times> bool list, unit) serve_env" where
  "demo_serve_env =
    \<lparr>sv_keys = demo_key_env, sv_config_json = (\<lambda>t. bail ''no config''), sv_tickets = demo_bit_env,
     sv_api = demo_addr_api, sv_text = demo_addr_text, sv_addr_json = demo_addr_codec,
     sv_status_json = \<lparr>to_vec_pretty = (\<lambda>s. Ok ''{}''), from_str = (\<lambda>t. bail ''opaque'')\<rparr>,
     sv_parallelism = Some 64, sv_endpoint_addr = (\<lambda>k. (True, [False], [True, False]))\<rparr>"

definition demo_serve_world :: "unit key_world" where
  "demo_serve_world = (demo_key_world (\<lambda>k. Fine))\<lparr>
     files := [''d/secret.key'' \<mapsto> replicate 32 (CHR ''k''), ''d/signing-secret.key'' \<mapsto> ''s'',
               ''d/signing-public.key'' \<mapsto> ''b:k''],
     clock := (\<lambda>n. Some 50)\<rparr>"

lemmas serve_eval = demo_serve_env_def demo_serve_world_def demo_key_world_def demo_key_env_def demo_bit_env_def
  demo_addr_text_def demo_addr_api_def demo_addr_codec_def resolve_serve_mode_def signing_secret_key_path_def
  signing_public_key_path_def server_key_path_def path_exists_def load_or_create_signing_key_def load_signing_key_def
  check_key_permissions_def file_mode_def read_public_signing_key_def bind_endpoint_def load_or_create_def read_key_def
  output_cache_new_def save_server_addr_def saf_from_addr_def first_relay_def bset_collect_def show_bit_def
  SERVER_ADDR_FILE_def status_env_of_def

lemma demo_server_starts:
  obtains s w' where "serve_start demo_serve_env (Mode_Data_Dir ''d'' []) demo_serve_world = (Ok s, w')"
    "clock w' = (\<lambda>n. Some 50)"
proof -
  have "case serve_start demo_serve_env (Mode_Data_Dir ''d'' []) demo_serve_world of
      (r, w') \<Rightarrow> is_ok r \<and> clock w' = (\<lambda>n. Some 50)"
    by (simp add: serve_eval serve_start_def status_new_def persist_current_def ticket_load_def drv_eval)
  then show ?thesis using that by (auto elim!: is_ok.elims split: prod.splits)
qed


end
