(* ===== verification/Builders.thy ===== *)
theory Builders
  imports Client_Session
begin

text \<open>
  \<open>cli/builders.rs\<close> and the build command of \<open>cli/mod.rs\<close>: how the flags of \<open>drv-thru build\<close> and the
  files of named builders say which builder to ask. The environment, the JSON reader and the text
  forms of ids and relay urls are parameters; \<open>clap\<close> parses the command line.
\<close>

definition SYSTEM_BUILDERS_CONFIG_PATH :: string where
  "SYSTEM_BUILDERS_CONFIG_PATH = ''/etc/drv-thru/builders.json''"

definition BUILDERS_CONFIG_ENV :: string where
  "BUILDERS_CONFIG_ENV = ''DRV_THRU_BUILDERS_CONFIG''"

record saved_builder =
  sb_endpoint_id :: "string option"
  sb_endpoint_id_file :: "string option"
  sb_relay_url :: "string option"

type_synonym builders_config = "(string, saved_builder) btree_map"

record ('id, 'url) builder_env =
  be_var :: "string \<Rightarrow> string option"
  be_json :: "string \<Rightarrow> builders_config result"
  be_parse_id :: "string \<Rightarrow> 'id result"
  be_parse_url :: "string \<Rightarrow> 'url result"

section \<open>Named builders\<close>

definition user_config_path :: "('id, 'url) builder_env \<Rightarrow> string option" where
  "user_config_path E =
    (case be_var E ''XDG_CONFIG_HOME'' of
       Some config_home \<Rightarrow> Some (path_join config_home ''drv-thru/builders.json'')
     | None \<Rightarrow> map_option (\<lambda>home. path_join home ''.config/drv-thru/builders.json'') (be_var E ''HOME''))"

definition config_paths :: "('id, 'url) builder_env \<Rightarrow> string option \<Rightarrow> string list" where
  "config_paths E env_config =
    (case env_config of
       Some path \<Rightarrow> [path]
     | None \<Rightarrow>
         [SYSTEM_BUILDERS_CONFIG_PATH] @ (case user_config_path E of Some path \<Rightarrow> [path] | None \<Rightarrow> []))"

definition parse_builders :: "('id, 'url) builder_env \<Rightarrow> string \<Rightarrow> builders_config result" where
  "parse_builders E content = with_context ''decode builder config'' (be_json E content)"

text \<open>The loop over the paths; \<open>optional\<close> tells that a missing file is passed over.\<close>

fun load_configs ::
  "('id, 'url) builder_env \<Rightarrow> bool \<Rightarrow> string list \<Rightarrow> builders_config \<Rightarrow> string list \<Rightarrow>
     ('z io_world_scheme, builders_config \<times> string list) step" where
  "load_configs E optional [] builders loaded = ret (builders, loaded)"
| "load_configs E optional (path # rest) builders loaded =
    match_s (fs_read_to_string path) (\<lambda>r.
      case r of
        Inr (Some content) \<Rightarrow>
          bind_s (lift_r (with_context (''parse '' @ path) (parse_builders E content))) (\<lambda>config.
          load_configs E optional rest (bt_extend builders config) (loaded @ [path]))
      | Inr None \<Rightarrow>
          if optional then load_configs E optional rest builders loaded
          else lift_r (Err (Context (''read '' @ path) (lib_error ''read_to_string'')))
      | Inl err \<Rightarrow> lift_r (Err (Context (''read '' @ path) err)))"

definition load_builders :: "('id, 'url) builder_env \<Rightarrow> ('z io_world_scheme, builders_config) step" where
  "load_builders E =
    (let env_config = be_var E BUILDERS_CONFIG_ENV;
         paths = config_paths E env_config
     in
       bind_s (load_configs E (env_config = None) paths [] []) (\<lambda>(builders, loaded).
       if loaded = [] then
         lift_r (bail (''builder config not found; checked '' @ join_with '', '' paths
           @ ''; configure services.drv-thru.client.builders.<name>, create ~/.config/drv-thru/builders.json, or pass --server''))
       else ret builders))"

definition builder_endpoint_id ::
  "('id, 'url) builder_env \<Rightarrow> string \<Rightarrow> saved_builder \<Rightarrow> ('z io_world_scheme, 'id) step" where
  "builder_endpoint_id E name builder =
    bind_s
      (case (sb_endpoint_id builder, sb_endpoint_id_file builder) of
         (Some _, Some _) \<Rightarrow>
           lift_r (bail (''builder '' @ name @ '' must set only one of endpoint_id or endpoint_id_file''))
       | (Some given, None) \<Rightarrow> ret given
       | (None, Some path) \<Rightarrow>
           bind_s (context_s (''read endpoint_id_file for builder '' @ name @ '': '' @ path)
             (bind_s (fs_read_to_string path) (\<lambda>content.
              lift_r (case content of None \<Rightarrow> Err (lib_error ''read_to_string'') | Some c \<Rightarrow> Ok c)))) (\<lambda>content. ret (trim content))
       | (None, None) \<Rightarrow>
           lift_r (bail (''builder '' @ name @ '' must set endpoint_id or endpoint_id_file'')))
      (\<lambda>given.
    if given = [] then lift_r (bail (''endpoint id for builder '' @ name @ '' is empty''))
    else lift_r (with_context (''parse endpoint id for builder '' @ name) (be_parse_id E given)))"

definition unknown_builder_text :: "string \<Rightarrow> builders_config \<Rightarrow> string" where
  "unknown_builder_text name config =
    (let known = join_with '', '' (map fst config) in
     if known = [] then ''builder '' @ [CHR 0x27] @ name @ [CHR 0x27] @ '' was not found; no builders are configured''
     else ''builder '' @ [CHR 0x27] @ name @ [CHR 0x27] @ '' was not found; configured builders: '' @ known)"

definition builder_auth ::
  "('id, 'url) builder_env \<Rightarrow> string \<Rightarrow> builders_config \<Rightarrow> ('z io_world_scheme, ('id, 'url, 'addr) build_auth) step" where
  "builder_auth E name config =
    bind_s (lift_r (ok_or (unknown_builder_text name config) (bt_get name config))) (\<lambda>builder.
    bind_s (builder_endpoint_id E name builder) (\<lambda>server_id.
    bind_s (lift_r (with_context (''parse relay_url for builder '' @ name)
              (transpose_r (be_parse_url E) (sb_relay_url builder)))) (\<lambda>relay_url.
    ret (TrustedClient server_id relay_url))))"

definition load_builder ::
  "('id, 'url) builder_env \<Rightarrow> string \<Rightarrow> ('z io_world_scheme, ('id, 'url, 'addr) build_auth) step" where
  "load_builder E name = bind_s (load_builders E) (\<lambda>config. builder_auth E name config)"

section \<open>The flags of a build\<close>

definition build_auth_flags ::
  "('id, 'url) builder_env \<Rightarrow> string option \<Rightarrow> 'id option \<Rightarrow> 'url option \<Rightarrow> 'addr build_ticket option \<Rightarrow>
     ('z io_world_scheme, ('id, 'url, 'addr) build_auth option) step" where
  "build_auth_flags E builder server relay_url ticket =
    (if builder \<noteq> None \<and> (server \<noteq> None \<or> relay_url \<noteq> None \<or> ticket \<noteq> None) then
       lift_r (bail ''--builder cannot be used with --server, --relay-url, or --ticket'')
     else if ticket \<noteq> None \<and> relay_url \<noteq> None then
       lift_r (bail ''--relay-url cannot be used with --ticket'')
     else if server = None \<and> relay_url \<noteq> None then
       lift_r (bail ''--relay-url requires --server'')
     else
       (case (builder, server, ticket) of
          (Some name, _, _) \<Rightarrow> bind_s (load_builder E name) (\<lambda>auth. ret (Some auth))
        | (None, Some server_id, None) \<Rightarrow> ret (Some (TrustedClient server_id relay_url))
        | (None, None, Some ticket) \<Rightarrow> ret (Some (Ticket ticket))
        | (None, None, None) \<Rightarrow> ret None
        | (None, Some _, Some _) \<Rightarrow> lift_r (bail ''--server and --ticket cannot be used together'')))"

text \<open>\<open>chunks_exact(2)\<close>: the pairs, and whether something is left over.\<close>

fun pair_up :: "string list \<Rightarrow> override_input list \<times> bool" where
  "pair_up [] = ([], False)"
| "pair_up [x] = ([], True)"
| "pair_up (x # y # rest) =
    (case pair_up rest of (pairs, left) \<Rightarrow> (\<lparr>input_path = x, flake_url = y\<rparr> # pairs, left))"

definition make_eval_options :: "bool \<Rightarrow> bool \<Rightarrow> string list \<Rightarrow> eval_options result" where
  "make_eval_options impure_flag refresh_flag override_input =
    (case pair_up override_input of
       (pairs, left) \<Rightarrow>
         if left then bail ''--override-input requires INPUT_PATH and FLAKE_URL''
         else Ok \<lparr>impure = impure_flag, refresh = refresh_flag, override_inputs = pairs\<rparr>)"

record ('id, 'url, 'addr) build_command_args =
  bc_installable :: string
  bc_builder :: "string option"
  bc_server :: "'id option"
  bc_relay_url :: "'url option"
  bc_ticket :: "'addr build_ticket option"
  bc_no_nom :: bool
  bc_nar_fetches :: "nat option"
  bc_impure :: bool
  bc_refresh :: bool
  bc_override_input :: "string list"
  bc_rebuild :: bool

text \<open>The command; the key of the client is the part of \<open>load_build_key\<close>.\<close>

definition build_command ::
  "('id, 'url) builder_env \<Rightarrow> (('id, 'url, 'addr) build_auth option \<Rightarrow> 'n session_env) \<Rightarrow>
     ('id, 'url, 'addr) build_command_args \<Rightarrow> ('n client_world, unit) step" where
  "build_command B session args =
    (if bc_nar_fetches args = Some 0 then lift_r (bail ''--nar-fetches must be at least 1'')
     else
       bind_s (build_auth_flags B (bc_builder args) (bc_server args) (bc_relay_url args) (bc_ticket args)) (\<lambda>auth.
       bind_s (lift_r (make_eval_options (bc_impure args) (bc_refresh args) (bc_override_input args))) (\<lambda>options.
       client_build (session auth) (bc_installable args) auth (if bc_no_nom args then Plain else Nom)
         (bc_nar_fetches args) options (bc_rebuild args))))"

section \<open>Which builder is asked\<close>

text \<open>
  The flags name at most one way to a builder. Without \<open>--builder\<close> they are accepted exactly as
  a server, with or without its relay, as a ticket alone, or not at all, and nothing is read; with
  \<open>--builder\<close> every other flag is refused before any file is read.
\<close>

theorem build_auth_flags_exact:
  "build_auth_flags E None server relay_url ticket w =
      (case (server, relay_url, ticket) of
         (None, None, None) \<Rightarrow> Ok None
       | (Some s, r, None) \<Rightarrow> Ok (Some (TrustedClient s r))
       | (None, None, Some t) \<Rightarrow> Ok (Some (Ticket t))
       | (Some s, None, Some t) \<Rightarrow> bail ''--server and --ticket cannot be used together''
       | (s, Some r, Some t) \<Rightarrow> bail ''--relay-url cannot be used with --ticket''
       | (None, Some r, None) \<Rightarrow> bail ''--relay-url requires --server'', w)
    \<and> build_auth_flags E (Some name) server relay_url ticket w =
      (if server = None \<and> relay_url = None \<and> ticket = None then bind_s (load_builder E name) (\<lambda>auth. ret (Some auth)) w
       else (bail ''--builder cannot be used with --server, --relay-url, or --ticket'', w))"
  by (cases server; cases relay_url; cases ticket) (simp_all add: build_auth_flags_def)

lemma pair_up_flat: "pair_up (concat (map (\<lambda>i. [input_path i, flake_url i]) inputs)) = (inputs, False)"
  by (induction inputs) simp_all

lemma pair_up_odd: "snd (pair_up words) \<longleftrightarrow> odd (length words)"
  by (induction words rule: pair_up.induct) (simp_all add: case_prod_unfold)

lemma pair_up_pairs: "pair_up words = (pairs, False) \<Longrightarrow> words = concat (map (\<lambda>i. [input_path i, flake_url i]) pairs)"
  by (induction words arbitrary: pairs rule: pair_up.induct) (auto split: prod.splits)

text \<open>
  The overrides of a build are the pairs of the command line in their order, and an odd number
  of words is refused.
\<close>

theorem override_inputs_exact:
  "make_eval_options i r words = Ok options \<longleftrightarrow>
    impure options = i \<and> refresh options = r
    \<and> words = concat (map (\<lambda>ov. [input_path ov, flake_url ov]) (override_inputs options))"
proof (cases "pair_up words")
  case (Pair pairs left)
  show ?thesis
  proof (cases left)
    case True
    then have "odd (length words)" using Pair pair_up_odd [of words] by simp
    moreover have "even (length (concat (map (\<lambda>ov. [input_path ov, flake_url ov]) os)))" for os :: "override_input list"
      by (induction os) simp_all
    ultimately show ?thesis using Pair True by (auto simp: make_eval_options_def)
  next
    case False
    then have "words = concat (map (\<lambda>i. [input_path i, flake_url i]) pairs)" using Pair pair_up_pairs by simp
    moreover have "pairs = os" if "words = concat (map (\<lambda>ov. [input_path ov, flake_url ov]) os)" for os
      using pair_up_flat [of os] Pair that by simp
    ultimately show ?thesis using Pair False by (cases options) (auto simp: make_eval_options_def)
  qed
qed

section \<open>Where a named builder comes from\<close>

text \<open>The builders of a file, none if it is missing.\<close>

definition builders_in :: "('id, 'url) builder_env \<Rightarrow> (string \<Rightarrow> string option) \<Rightarrow> string \<Rightarrow> builders_config" where
  "builders_in E fs path =
    (case fs path of
       None \<Rightarrow> []
     | Some content \<Rightarrow> (case bind_r (from_utf8 content) (be_json E) of Inr config \<Rightarrow> config | Inl _ \<Rightarrow> []))"

lemma read_configs_frame: "keeps untouched (fs_read_to_string path)"
  by (intro frame)

lemma load_configs_Ok:
  "load_configs E optional paths builders loaded w = (Ok (config, seen), w') \<Longrightarrow>
    config = fold (\<lambda>path b. bt_extend b (builders_in E (files w) path)) paths builders
    \<and> untouched w w' \<and> (\<forall>path\<in>set paths. optional \<or> files w path \<noteq> None)"
proof (induction paths arbitrary: builders loaded w)
  case Nil
  then show ?case by simp
next
  case (Cons path rest)
  obtain r w1 where rd: "fs_read_to_string path w = (r, w1)" by fastforce
  with read_configs_frame have u: "untouched w w1" by (rule keepsD)
  then have fs: "files w1 = files w" by (auto simp: only_files_def)
  have content: "r = Ok (files w path) \<or> (\<exists>e. r = Inl e)" "r = Ok (Some s) \<Longrightarrow> from_utf8 s = Ok s" for s
    using rd by (auto simp: fs_read_to_string_def fs_read_def from_utf8_def split: prod.splits fault.splits option.splits if_splits)
  show ?case
  proof (cases r)
    case (Inl e)
    with Cons(2) rd show ?thesis by (simp add: match_s_def)
  next
    case (Inr got)
    show ?thesis
    proof (cases got)
      case None
      with Inr content(1) have none: "files w path = None" by simp
      with Cons(2) rd Inr None have "optional" "load_configs E optional rest builders loaded w1 = (Ok (config, seen), w')"
        by (auto simp: match_s_def split: if_splits)
      with Cons(1) [OF this(2)] u fs none show ?thesis
        by (auto simp: builders_in_def bt_extend_def intro: only_files_trans)
    next
      case (Some s)
      with Inr content have s: "files w path = Some s" "from_utf8 s = Ok s" by auto
      from Cons(2) rd Inr Some obtain c where c: "be_json E s = Ok c"
        "load_configs E optional rest (bt_extend builders c) (loaded @ [path]) w1 = (Ok (config, seen), w')"
        by (auto simp: match_s_def bind_s_Ok_iff parse_builders_def)
      with Cons(1) [OF c(2)] u fs s show ?thesis
        by (auto simp: builders_in_def intro: only_files_trans)
    qed
  qed
qed

lemma bt_get_extend_map:
  assumes "bt_invar m" "bt_invar xs"
  shows "bt_get k (bt_extend m xs) = (case bt_get k xs of Some v \<Rightarrow> Some v | None \<Rightarrow> bt_get k m)"
proof -
  have "distinct (map fst xs)" using assms(2) by (simp add: bt_invar_def strict_sorted_iff)
  then have "map_of (rev xs) = map_of xs" by (intro map_of_inject_set [THEN iffD2]) (simp_all add: rev_map [symmetric])
  with assms(1) show ?thesis by (simp add: bt_get_extend bt_get_map_of [of k xs])
qed

text \<open>
  A named builder is the one of the user's file if that names it, and the system's otherwise,
  whichever of the two files exist; a file named by the environment stands alone. Looking the
  builders up changes no file.
\<close>

theorem user_builders_override_system:
  assumes "load_builders E w = (Ok config, w')"
    and "\<And>content c. be_json E content = Ok c \<Longrightarrow> bt_invar c"
  shows "bt_get name config =
      (case be_var E BUILDERS_CONFIG_ENV of
         Some path \<Rightarrow> bt_get name (builders_in E (files w) path)
       | None \<Rightarrow>
           (case user_config_path E of
              None \<Rightarrow> bt_get name (builders_in E (files w) SYSTEM_BUILDERS_CONFIG_PATH)
            | Some user \<Rightarrow>
                (case bt_get name (builders_in E (files w) user) of
                   Some builder \<Rightarrow> Some builder
                 | None \<Rightarrow> bt_get name (builders_in E (files w) SYSTEM_BUILDERS_CONFIG_PATH))))
    \<and> files w' = files w"
proof -
  from assms(1) obtain seen where
    "load_configs E (be_var E BUILDERS_CONFIG_ENV = None) (config_paths E (be_var E BUILDERS_CONFIG_ENV)) [] [] w =
      (Ok (config, seen), w')"
    by (auto simp: load_builders_def Let_def bind_s_Ok_iff split: if_splits)
  note ld = load_configs_Ok [OF this]
  have inv: "bt_invar (builders_in E (files w) path)" for path
    using assms(2) by (auto simp: builders_in_def bind_r_Ok_iff split: option.split sum.split)
  have get: "bt_get name (bt_extend m (builders_in E (files w) path)) =
      (case bt_get name (builders_in E (files w) path) of Some v \<Rightarrow> Some v | None \<Rightarrow> bt_get name m)" if "bt_invar m" for m path
    using that inv by (rule bt_get_extend_map)
  have "bt_get name config = bt_get name (fold (\<lambda>path b. bt_extend b (builders_in E (files w) path))
      (config_paths E (be_var E BUILDERS_CONFIG_ENV)) [])" using ld by simp
  also have "\<dots> = (case be_var E BUILDERS_CONFIG_ENV of
         Some path \<Rightarrow> bt_get name (builders_in E (files w) path)
       | None \<Rightarrow>
           (case user_config_path E of
              None \<Rightarrow> bt_get name (builders_in E (files w) SYSTEM_BUILDERS_CONFIG_PATH)
            | Some user \<Rightarrow>
                (case bt_get name (builders_in E (files w) user) of
                   Some builder \<Rightarrow> Some builder
                 | None \<Rightarrow> bt_get name (builders_in E (files w) SYSTEM_BUILDERS_CONFIG_PATH))))"
    by (simp add: config_paths_def get split: option.split)
  finally show ?thesis using ld by (auto simp: only_files_def)
qed

text \<open>A system file with two builders, one of which the user's file gives another address.\<close>

definition demo_builders :: "(nat, unit) builder_env" where
  "demo_builders =
    \<lparr>be_var = (\<lambda>v. if v = ''HOME'' then Some ''/h'' else None),
     be_json = (\<lambda>s. if s = ''system''
       then Ok [(''a'', \<lparr>sb_endpoint_id = Some ''1'', sb_endpoint_id_file = None, sb_relay_url = None\<rparr>),
                (''b'', \<lparr>sb_endpoint_id = Some ''2'', sb_endpoint_id_file = None, sb_relay_url = None\<rparr>)]
       else Ok [(''a'', \<lparr>sb_endpoint_id = Some ''3'', sb_endpoint_id_file = None, sb_relay_url = None\<rparr>)]),
     be_parse_id = parse_id (ids demo_env), be_parse_url = (\<lambda>s. Ok ())\<rparr>"

definition demo_builder_files :: io_world where
  "demo_builder_files =
    \<lparr>files = [SYSTEM_BUILDERS_CONFIG_PATH \<mapsto> ''system'', ''/h/.config/drv-thru/builders.json'' \<mapsto> ''user''],
     clock = (\<lambda>n. None), faults = (\<lambda>n. Fine), ticks = 0\<rparr>"

theorem user_builders_override_system_witness:
  "\<exists>config w'. load_builders demo_builders demo_builder_files = (Ok config, w')
    \<and> map_option sb_endpoint_id (bt_get ''a'' config) = Some (Some ''3'')
    \<and> map_option sb_endpoint_id (bt_get ''b'' config) = Some (Some ''2'')"
proof -
  have inv: "bt_invar c" if "be_json demo_builders content = Ok c" for content c
    using that by (auto simp: demo_builders_def bt_invar_def split: if_splits)
  have "\<exists>config w'. load_builders demo_builders demo_builder_files = (Ok config, w')"
    by (simp add: load_builders_def demo_builders_def demo_builder_files_def BUILDERS_CONFIG_ENV_def config_paths_def
        user_config_path_def parse_builders_def drv_eval)
  then obtain config w' where ld: "load_builders demo_builders demo_builder_files = (Ok config, w')" by blast
  from user_builders_override_system [OF ld inv, where name = "''a''"] user_builders_override_system [OF ld inv, where name = "''b''"]
  show ?thesis
    using ld by (simp add: demo_builders_def demo_builder_files_def BUILDERS_CONFIG_ENV_def user_config_path_def
        builders_in_def SYSTEM_BUILDERS_CONFIG_PATH_def drv_eval)
qed

end
