(* ===== verification/Command_Line.thy ===== *)
theory Command_Line
  imports Server_Main Builders Data_Dir
begin

text \<open>
  \<open>cli/mod.rs\<close>, the commands \<open>serve\<close> and \<open>key show\<close>: which flags of \<open>serve\<close> go together and where
  the server then takes its clients from, and the id that \<open>key show\<close> prints. Parsing the command
  line is the part of \<open>clap\<close>. The other commands are in \<open>Builders\<close>, \<open>Ticket_Command\<close> and
  \<open>Status_Command\<close>, the dispatch on all of them in \<open>Cli_Dispatch\<close>.
\<close>

text \<open>The result is the line that is printed.\<close>

definition show_key ::
  "'n key_env \<Rightarrow> (secret_key \<Rightarrow> string) \<Rightarrow> string option \<Rightarrow> ('n key_world, string) step" where
  "show_key K public key_file =
    bind_s (lift_r (case key_file of Some path \<Rightarrow> Ok path | None \<Rightarrow> default_client_key_path K)) (\<lambda>path.
    bind_s (load_or_create K path) (\<lambda>key. ret (public key)))"

definition serve_flags ::
  "nat \<Rightarrow> (string \<Rightarrow> string option) \<Rightarrow> string option \<Rightarrow> string option \<Rightarrow> 'id list \<Rightarrow>
     ('z io_world_scheme, 'id serve_mode) step" where
  "serve_flags pid var dir config trusted_client =
    (if dir \<noteq> None \<and> config \<noteq> None then lift_r (bail ''--data-dir and --config cannot be used together'')
     else if trusted_client \<noteq> [] \<and> config \<noteq> None then lift_r (bail ''--trusted-client cannot be used with --config'')
     else
       (case config of
          None \<Rightarrow> bind_s (optional_data_dir pid var dir) (\<lambda>dir. ret (Mode_Data_Dir dir trusted_client))
        | Some config \<Rightarrow> ret (Mode_Config config)))"

definition cli_serve ::
  "('id, 'url, 'sock, 'addr, 'n) serve_env \<Rightarrow> (string \<Rightarrow> string option) \<Rightarrow> string option \<Rightarrow> string option \<Rightarrow> 'id list \<Rightarrow>
     ('n key_world, 'id running_server) step" where
  "cli_serve E var dir config trusted_client =
    bind_s (serve_flags (process_id (sv_tickets E)) var dir config trusted_client) (\<lambda>mode. serve_start E mode)"

section \<open>Where the clients of a server come from\<close>

lemma serve_start_policy:
  assumes "serve_start E mode w = (Ok s, w')"
  obtains m w1 where "resolve_serve_mode E mode w = (Ok m, w1)" "rs_policy s = rm_access_policy m"
    "rs_store s = ticket_store_new (rm_data_dir m)"
  using assms by (auto simp: serve_start_def bind_s_Ok_iff Let_def)

text \<open>
  C38: serve takes its clients from one place. If it comes up without a configuration file, it
  serves exactly the clients of the command line; if it comes up with one, neither a data
  directory nor clients were given beside it. Flags that do not go together are refused before
  anything is touched.
\<close>

theorem server_takes_clients_from_one_place:
  "case cli_serve E var dir config trusted_client w of
     (Inr s, w') \<Rightarrow>
       (case config of
          None \<Rightarrow> \<forall>peer. access_authorize (rs_policy s) peer \<noteq> None \<longleftrightarrow> peer \<in> set trusted_client
        | Some path \<Rightarrow> dir = None \<and> trusted_client = []
            \<and> (\<exists>c config. load_server_config (sv_config_json E) path c = Ok config
                \<and> access_from_config (ids (sv_tickets E)) config = Ok (rs_policy s)
                \<and> rs_store s = ticket_store_new (data_dir config)))
   | (Inl e, w') \<Rightarrow> if config \<noteq> None \<and> \<not> (dir = None \<and> trusted_client = []) then w' = w else True"
proof (cases "cli_serve E var dir config trusted_client w")
  case (Pair r w')
  show ?thesis
  proof (cases r)
    case (Inl e)
    with Pair show ?thesis by (auto simp: cli_serve_def serve_flags_def bind_s_def bail_def split: if_splits)
  next
    case (Inr s)
    with Pair obtain mode w1 where flags: "serve_flags (process_id (sv_tickets E)) var dir config trusted_client w = (Ok mode, w1)"
      and start: "serve_start E mode w1 = (Ok s, w')"
      by (auto simp: cli_serve_def bind_s_Ok_iff)
    obtain m w2 where m: "resolve_serve_mode E mode w1 = (Ok m, w2)" "rs_policy s = rm_access_policy m"
      "rs_store s = ticket_store_new (rm_data_dir m)"
      using start by (rule serve_start_policy)
    show ?thesis
    proof (cases config)
      case None
      then obtain d where "mode = Mode_Data_Dir d trusted_client"
        using flags by (auto simp: serve_flags_def bind_s_Ok_iff split: if_splits)
      with m have "rs_policy s = access_from_endpoint_ids (ids (sv_tickets E)) trusted_client"
        by (auto simp: resolve_serve_mode_def)
      then show ?thesis using Pair Inr None by (simp add: endpoint_list_authorizes_members)
    next
      case (Some path)
      with flags have "mode = Mode_Config path" "dir = None" "trusted_client = []"
        by (auto simp: serve_flags_def split: if_splits)
      moreover obtain c config' where "load_server_config (sv_config_json E) path c = Ok config'"
        "access_from_config (ids (sv_tickets E)) config' = Ok (rs_policy s)" "rs_store s = ticket_store_new (data_dir config')"
        using m \<open>mode = Mode_Config path\<close> by (auto simp: resolve_serve_mode_def bind_s_Ok_iff)
      ultimately show ?thesis using Pair Inr Some by auto
    qed
  qed
qed

section \<open>The id that is shown\<close>

text \<open>Reading a key depends on its file and the mode of the file alone.\<close>

lemma read_key_again:
  assumes "read_key E path w = (Ok key, w')" "faults v = (\<lambda>n. Fine)" "files v path = files w path" "modes v path = modes w path"
  shows "\<exists>v'. read_key E path v = (Ok key, v')"
proof -
  obtain bytes where bytes: "files w path = Some bytes" "modes w path AND MODE_077 = 0"
    and key: "if length bytes = 32 then key = bytes
      else from_utf8 bytes = Ok bytes \<and> ke_parse E (trim bytes) = Ok key"
    using assms(1)
    by (auto simp: read_key_def check_key_permissions_def file_mode_def fs_read_def bind_s_def context_s_def ticked_def
        split: fault.splits option.splits if_splits sum.splits dest: from_utf8_Ok)
  then show ?thesis using assms(2-4)
    by (auto simp: read_key_def check_key_permissions_def file_mode_def fs_read_def bind_s_def context_s_def ticked_def
        fine_next split: if_splits)
qed

lemma load_or_create_again:
  assumes "load_or_create E path w = (Ok key, w')" "\<And>n. length (ke_generate E n) = 32" "faults w = (\<lambda>n. Fine)"
    and v: "faults v = (\<lambda>n. Fine)" "files v path = files w' path" "modes v path = modes w' path"
  shows "\<exists>v'. load_or_create E path v = (Ok key, v')"
proof -
  have "files v path \<noteq> None \<and> (\<exists>v'. read_key E path (ticked v) = (Ok key, v'))"
  proof (cases "files w path = None")
    case True
    then obtain n where "files w' path = Some key" "modes w' path = MODE_600" "key = ke_generate E n"
      using load_or_create_new [OF assms(3), of path E] assms(1) by auto
    then show ?thesis using v assms(2) by (auto intro!: read_good_key simp: ticked_def)
  next
    case False
    then have read: "read_key E path (ticked w) = (Ok key, w')"
      using assms(1,3) by (simp add: load_or_create_def path_exists_def bind_s_def fine_next)
    note same = read_key_cases [OF read]
    have "\<exists>v'. read_key E path (ticked v) = (Ok key, v')"
      by (rule read_key_again [OF read]) (use v same in \<open>simp_all add: ticked_def\<close>)
    with same v False show ?thesis by (simp add: ticked_def)
  qed
  then show ?thesis using v by (auto simp: load_or_create_def path_exists_def bind_s_def fine_next)
qed

text \<open>Loading a key leaves the locks alone.\<close>

definition locks_kept :: "'n key_world \<Rightarrow> 'n key_world \<Rightarrow> bool" where
  "locks_kept w w' \<longleftrightarrow> faults w' = faults w \<and> lock_entries w' = lock_entries w"

lemma locks_kept_order [simp]: "reflp locks_kept" "transp locks_kept"
  by (auto simp: locks_kept_def reflp_def transp_def)

lemma locks_kept_calls:
  "keeps locks_kept (io_call c)" "keeps locks_kept (path_exists path)" "keeps locks_kept (generate_key E)"
  "keeps locks_kept (file_mode path)" "keeps locks_kept (fs_read path)" "keeps locks_kept (create_new_file mode path)"
  "keeps locks_kept (fs_write_all path body)"
  by (auto simp: keeps_def locks_kept_def io_defs path_exists_def generate_key_def file_mode_def create_new_file_def
      split: fault.splits option.splits if_splits)

lemmas locks_kept_combine = locks_kept_calls keeps_bind_s keeps_ret keeps_lift_r keeps_context_s

lemma load_or_create_locks: "keeps locks_kept (load_or_create E path)"
proof -
  have parent: "keeps locks_kept (create_key_parent path)"
    by (cases "path_parent path") (simp_all add: create_key_parent_def fs_create_dir_all_def locks_kept_combine)
  have read: "keeps locks_kept (read_key E path)"
    unfolding read_key_def check_key_permissions_def
    by (auto intro!: locks_kept_combine split: option.split)
  show ?thesis
    unfolding load_or_create_def write_new_key_def
    by (auto intro!: locks_kept_combine parent read)
qed

lemma create_key_parent_fine:
  "faults w = (\<lambda>n. Fine) \<Longrightarrow> \<exists>n. create_key_parent path w = (Ok (), w\<lparr>ticks := n\<rparr>)"
  by (cases "path_parent path")
    (auto simp: create_key_parent_def context_s_def fs_create_dir_all_def io_call_def ticked_def fine_next
      intro: exI [of _ "ticks w"])

text \<open>A free lock is taken at the first attempt, and no key is touched.\<close>

lemma free_lock_is_taken:
  assumes "faults w = (\<lambda>n. Fine)" "key_file_lock_path path = Ok lock" "lock_entries w lock = None"
  shows "\<exists>w'. lock_key_file E others path w = (Ok (Some \<lparr>lock_path = lock\<rparr>), w')
    \<and> files w' = files w \<and> modes w' = modes w \<and> faults w' = faults w"
proof -
  obtain n where "create_key_parent path w = (Ok (), w\<lparr>ticks := n\<rparr>)" using create_key_parent_fine assms(1) by blast
  with assms show ?thesis
    by (simp add: lock_key_file_def bind_s_def create_key_file_lock_def fine_next ticked_def lock_key_loop.simps)
qed

text \<open>
  C39: The id that key show prints is the id of the next build as a trusted client: with no key
  file named on either command line and the lock of the key free, the build loads the very key
  that was shown, whether it existed before or was created to be shown.
\<close>

theorem shown_key_is_the_build_key:
  assumes "faults w = (\<lambda>n. Fine)" and "\<And>n. length (ke_generate K n) = 32"
    and shown: "show_key K public None w = (Ok line, w1)"
    and "default_client_key_path K = Ok path" "key_file_lock_path path = Ok lock" "lock_entries w1 lock = None"
  shows "\<exists>key w2. load_build_key K others (TrustedClient peer relay_url) None w1
      = (Ok (Some (key, Some \<lparr>lock_path = lock\<rparr>)), w2) \<and> public key = line"
proof -
  obtain key where key: "load_or_create K path w = (Ok key, w1)" "line = public key"
    using shown assms(4) by (auto simp: show_key_def bind_s_Ok_iff)
  have "faults w1 = (\<lambda>n. Fine)"
    using assms(1) keepsD [OF load_or_create_locks key(1)] by (simp add: locks_kept_def)
  from free_lock_is_taken [OF this assms(5,6)] obtain w2 where
    lock: "lock_key_file K others path w1 = (Ok (Some \<lparr>lock_path = lock\<rparr>), w2)"
    and w2: "files w2 = files w1" "modes w2 = modes w1" "faults w2 = (\<lambda>n. Fine)"
    using \<open>faults w1 = (\<lambda>n. Fine)\<close> by auto
  obtain w3 where "load_or_create K path w2 = (Ok key, w3)"
    using load_or_create_again [OF key(1) assms(2,1) w2(3)] w2 by auto
  with lock key(2) assms(4) show ?thesis
    by (simp add: load_build_key_def load_locked_key_def bind_s_def)
qed

theorem shown_key_is_the_build_key_witness:
  "\<exists>line w1 key w2. show_key (demo_key_env\<lparr>ke_home := Some ''h''\<rparr>) (take 4) None (demo_key_world (\<lambda>k. Fine)) = (Ok line, w1)
    \<and> load_build_key (demo_key_env\<lparr>ke_home := Some ''h''\<rparr>) [] (TrustedClient (0::nat) (None :: unit option) :: (nat, unit, unit) build_auth) None w1
        = (Ok (Some (key, Some \<lparr>lock_path = ''h/.config/drv-thru/.secret.key.lock''\<rparr>)), w2)
    \<and> take 4 key = line"
proof -
  let ?K = "demo_key_env\<lparr>ke_home := Some ''h''\<rparr>" and ?w = "demo_key_world (\<lambda>k. Fine)"
  let ?path = "''h/.config/drv-thru/secret.key''"
  have path: "default_client_key_path ?K = Ok ?path"
    by (simp add: default_client_key_path_def drv_eval)
  have lock: "key_file_lock_path ?path = Ok ''h/.config/drv-thru/.secret.key.lock''"
    by (simp add: key_file_lock_path_def utf8_lossy_ascii is_ascii_def byte_def drv_eval)
  obtain key w1 where new: "load_or_create ?K ?path ?w = (Ok key, w1)"
    using load_or_create_new [of ?w ?path ?K] by (auto simp: demo_key_world_def)
  have free: "lock_entries w1 = (\<lambda>p. None)" using keepsD [OF load_or_create_locks new] by (simp add: locks_kept_def demo_key_world_def)
  have "show_key ?K (take 4) None ?w = (Ok (take 4 key), w1)"
    by (simp add: show_key_def path new bind_s_def)
  then show ?thesis
    using shown_key_is_the_build_key [OF _ _ _ path lock, where w = ?w and public = "take 4"
        and line = "take 4 key" and ?w1.0 = w1 and others = "[]" and peer = 0 and relay_url = None] free
    by (auto simp: demo_key_world_def demo_key_env_def)
qed

end
