(* ===== verification/Status_Command.thy ===== *)
theory Status_Command
  imports Status_Board Data_Dir
begin

text \<open>
  \<open>cli/status.rs\<close>: \<open>drv-thru status\<close> reads the file the builder's status registry keeps and prints it,
  once or every second.
\<close>

section \<open>The frame\<close>

definition newline :: string where
  "newline = [CHR 0x0A]"

definition capacity_bar :: "nat \<Rightarrow> nat \<Rightarrow> string" where
  "capacity_bar active_builds total_builds =
    (let total_builds = max total_builds 1; active_builds = min active_builds total_builds in
     ''['' @ replicate active_builds (CHR ''#'') @ replicate (total_builds - active_builds) (CHR ''.'') @ '']'')"

text \<open>\<open>{:>2}\<close>.\<close>

definition right_two :: "nat \<Rightarrow> string" where
  "right_two n = (if n < 10 then '' '' @ show_nat n else show_nat n)"

definition format_duration :: "u64 \<Rightarrow> string" where
  "format_duration seconds =
    (if seconds < 60 then show_word seconds @ ''s''
     else
       let minutes = seconds div 60; rest = seconds mod 60 in
       if minutes < 60 then show_word minutes @ ''m'' @ pad2 (unat rest) @ ''s''
       else show_word (minutes div 60) @ ''h'' @ pad2 (unat (minutes mod 60)) @ ''m'')"

definition queued_text :: "u64 \<Rightarrow> queued_build_status \<Rightarrow> string" where
  "queued_text now build =
    ''  '' @ right_two (q_position build) @ ''. '' @ q_request_id build @ '' '' @ q_client_label build
    @ '' waiting '' @ format_duration (saturating_sub now (q_queued_at_unix build)) @ newline
    @ ''       '' @ q_installable build @ newline"

definition active_text :: "u64 \<Rightarrow> active_build_status \<Rightarrow> string" where
  "active_text now build =
    ''  '' @ a_request_id build @ '' '' @ a_client_label build @ '' '' @ a_phase build
    @ '' elapsed '' @ format_duration (saturating_sub now (a_started_at_unix build)) @ newline
    @ ''       '' @ a_installable build @ newline"

definition render_queued :: "status_snapshot \<Rightarrow> u64 \<Rightarrow> string" where
  "render_queued s now =
    (if queued s = [] then []
     else newline @ ''queued'' @ newline @ concat (map (queued_text now) (queued s)))"

definition render_active :: "status_snapshot \<Rightarrow> u64 \<Rightarrow> string" where
  "render_active s now =
    (if active s = [] then []
     else newline @ ''active'' @ newline @ concat (map (active_text now) (active s)))"

definition status_header :: "server_status \<Rightarrow> string" where
  "status_header s =
    ''server: '' @ s_endpoint_id s @ newline
    @ ''capacity: '' @ capacity_bar (active_count s) (configured_concurrency s)
    @ '' active '' @ show_nat (active_count s) @ ''/'' @ show_nat (configured_concurrency s)
    @ '', queued '' @ show_nat (queued_count s) @ newline"

definition status_frame :: "status_snapshot \<Rightarrow> u64 \<Rightarrow> string" where
  "status_frame s now =
    status_header (server s)
    @ (if active s = [] \<and> queued s = [] then newline @ ''idle'' @ newline
       else render_active s now @ render_queued s now)"

definition render_status :: "status_snapshot \<Rightarrow> ('z io_world_scheme, string) step" where
  "render_status s = bind_s read_clock (\<lambda>now. ret (status_frame s now))"

section \<open>Showing it\<close>

text \<open>
  One turn of the loop; \<open>live\<close> is watching on a terminal. What is written there is kept like what is
  printed.
\<close>

definition show_turn ::
  "status_env \<Rightarrow> string option \<Rightarrow> bool \<Rightarrow> bool \<Rightarrow> ('z cli_world_scheme, unit) step" where
  "show_turn E dir watch is_term =
    (let dir = (case dir of Some dir \<Rightarrow> dir | None \<Rightarrow> SYSTEM_DATA_DIR) in
     bind_s (context_s (''read local builder status from '' @ status_path dir @ ''; is drv-thru serve running?'')
       (read_snapshot E dir)) (\<lambda>snapshot.
     bind_s (render_status snapshot) (\<lambda>frame.
     if watch \<and> is_term then
       bind_s (context_s ''clear status dashboard'' (io_call ''clear_screen'')) (\<lambda>_.
       bind_s (context_s ''write status dashboard'' (io_call ''write_str'')) (\<lambda>_.
       bind_s (println frame) (\<lambda>_.
       context_s ''flush status dashboard'' (io_call ''flush''))))
     else
       bind_s (println frame) (\<lambda>_.
       bind_s (if watch then println [] else ret ()) (\<lambda>_.
       context_s ''flush status output'' (io_call ''flush''))))))"

text \<open>The loop for \<open>n\<close> turns: the result of the command, if it has ended by then.\<close>

fun show_loop ::
  "status_env \<Rightarrow> string option \<Rightarrow> bool \<Rightarrow> bool \<Rightarrow> nat \<Rightarrow> 'z cli_world_scheme \<Rightarrow> unit result option \<times> 'z cli_world_scheme" where
  "show_loop E dir watch is_term 0 w = (None, w)"
| "show_loop E dir watch is_term (Suc n) w =
    (case show_turn E dir watch is_term w of
       (Inl e, w) \<Rightarrow> (Some (Inl e), w)
     | (Inr _, w) \<Rightarrow> if \<not> watch then (Some (Ok ()), w) else show_loop E dir watch is_term n w)"

section \<open>What is shown\<close>

text \<open>What a text contains, every text around it contains.\<close>

lemma contains_around:
  "contains_str p (p @ b)" "contains_str p s \<Longrightarrow> contains_str p (a @ s)" "contains_str p s \<Longrightarrow> contains_str p (s @ b)"
proof -
  show "contains_str p (p @ b)" by (simp add: contains_str_iff) (metis append_Nil)
  assume "contains_str p s"
  then obtain x y where "s = x @ p @ y" by (auto simp: contains_str_iff)
  then have "a @ s = (a @ x) @ p @ y" "s @ b = x @ p @ (y @ b)" by simp_all
  then show "contains_str p (a @ s)" "contains_str p (s @ b)" unfolding contains_str_iff by blast+
qed

lemma contains_concat: "s \<in> set ss \<Longrightarrow> contains_str p s \<Longrightarrow> contains_str p (concat ss)"
  by (induction ss) (auto intro: contains_around)

lemma frame_shows_queued: "b \<in> set (queued s) \<Longrightarrow> contains_str (q_request_id b) (status_frame s now)"
proof -
  assume b: "b \<in> set (queued s)"
  have "contains_str (q_request_id b) (queued_text now b)"
    unfolding queued_text_def by (rule contains_around(2) contains_around(1))+
  then have "contains_str (q_request_id b) (concat (map (queued_text now) (queued s)))"
    using b by (intro contains_concat) auto
  then have "contains_str (q_request_id b) (render_queued s now)"
    using b by (auto simp: render_queued_def intro!: contains_around(2))
  then have "contains_str (q_request_id b) (status_header (server s) @ render_active s now @ render_queued s now)"
    by (intro contains_around(2))
  moreover have "queued s \<noteq> []" using b by auto
  ultimately show ?thesis by (simp add: status_frame_def)
qed

lemma frame_shows_active: "b \<in> set (active s) \<Longrightarrow> contains_str (a_request_id b) (status_frame s now)"
proof -
  assume b: "b \<in> set (active s)"
  have "contains_str (a_request_id b) (active_text now b)"
    unfolding active_text_def by (rule contains_around(2), rule contains_around(1))
  then have "contains_str (a_request_id b) (concat (map (active_text now) (active s)))"
    using b by (intro contains_concat) auto
  then have "contains_str (a_request_id b) (render_active s now)"
    using b by (auto simp: render_active_def intro!: contains_around(2))
  then have "contains_str (a_request_id b) (status_header (server s) @ render_active s now @ render_queued s now)"
    by (intro contains_around(2) contains_around(3))
  moreover have "active s \<noteq> []" using b by auto
  ultimately show ?thesis by (simp add: status_frame_def)
qed

lemma persisted_snapshot:
  assumes "with_status_update S upd st w = (Some x, st', w')" "codec_good (status_json S) (snapshot st')"
  shows "\<exists>body. files w' (status_file S) = Some body \<and> from_utf8 body = Ok body
    \<and> from_str (status_json S) body = Ok (snapshot st')"
proof -
  from assms(1) obtain w1 w2 u where
    wr: "write_atomic (status_pid S) (status_json S) (status_file S) (snapshot st') ''encode status JSON'' w1 = (Inr u, w2)"
    and w': "w' = w2"
    by (auto simp: with_status_update_def Let_def split: prod.splits sum.splits)
  from write_atomic_inner_split [OF wr [unfolded write_atomic_def]] assms(2) w' show ?thesis
    by (auto simp: codec_good_def)
qed

text \<open>
  \<open>drv-thru status\<close> shows the board of the builder: after a change of the registry that reached its
  file, the command prints one frame, made of the registry's snapshot, that names every build that
  waits or runs, and it changes no file.
\<close>

theorem status_command_shows_the_board:
  fixes v :: "'z cli_world_scheme"
  assumes "with_status_update S upd st w = (Some x, st', w')" "codec_good (status_json S) (snapshot st')"
    and "status_file S = status_path dir" "files v (status_path dir) = files w' (status_path dir)"
    and "faults v = (\<lambda>n. Fine)" "clock v = (\<lambda>n. Some now)"
  shows "case show_loop S (Some dir) False is_term 1 v of
      (r, v') \<Rightarrow> r = Some (Ok ()) \<and> stdout v' = stdout v @ [status_frame (snapshot st') now]
        \<and> files v' = files v
        \<and> list_all (\<lambda>i. contains_str i (status_frame (snapshot st') now)) (live_ids st')"
proof -
  obtain body where "files v (status_path dir) = Some body" "from_utf8 body = Ok body"
    "from_str (status_json S) body = Ok (snapshot st')"
    using persisted_snapshot [OF assms(1,2)] assms(3,4) by auto
  then have "read_snapshot S dir v = (Ok (snapshot st'), v\<lparr>ticks := Suc (ticks v)\<rparr>)"
    using assms(5) by (simp add: read_snapshot_def Let_def match_s_def fs_read_to_string_def fs_read_def next_fault_def ticked_def)
  moreover have "list_all (\<lambda>i. contains_str i (status_frame (snapshot st') now)) (live_ids st')"
    by (auto simp: list_all_iff live_ids_def intro: frame_shows_queued frame_shows_active)
  ultimately show ?thesis
    using assms(5,6)
    by (simp add: show_turn_def bind_s_def context_s_def render_status_def read_clock_def println_def io_call_def
        next_fault_def ticked_def)
qed

text \<open>A board with one waiting build, read back from its file.\<close>

definition demo_snapshot_env :: status_env where
  "demo_snapshot_env = demo_status_env\<lparr>status_file := status_path ''/d'',
     status_json := \<lparr>to_vec_pretty = (\<lambda>s. Ok ''{}''),
       from_str = (\<lambda>t. Ok (snapshot (refreshed (snd (enqueue_update ''c'' ''i'' demo_status 50)) 50)))\<rparr>\<rparr>"

theorem status_command_shows_the_board_witness:
  "\<exists>x st' w'. with_status_update demo_snapshot_env (enqueue_update ''c'' ''i'') demo_status calm_world = (Some x, st', w')
    \<and> live_ids st' = [''build-5'']
    \<and> stdout (snd (show_loop demo_snapshot_env (Some ''/d'') False False 1
        \<lparr>files = files w', clock = (\<lambda>n. Some 60), faults = (\<lambda>n. Fine), ticks = 0, stdout = []\<rparr>))
      = [status_frame (snapshot st') 60]"
proof -
  let ?st = "refreshed (snd (enqueue_update ''c'' ''i'' demo_status 50)) 50"
  obtain x w' where up: "with_status_update demo_snapshot_env (enqueue_update ''c'' ''i'') demo_status calm_world = (Some x, ?st, w')"
    by (simp add: demo_snapshot_env_def demo_status_env_def demo_status_def calm_world_def drv_eval)
  have good: "codec_good (status_json demo_snapshot_env) (snapshot ?st)"
    by (simp add: codec_good_def demo_snapshot_env_def from_utf8_ascii is_ascii_def byte_def)
  have "live_ids ?st = [''build-5'']"
    by (simp add: live_ids_def demo_status_def drv_eval show_word_def show_nat.simps digit_char_def char_of_bits)
  moreover from status_command_shows_the_board [OF up good, of "''/d''"
    "\<lparr>files = files w', clock = (\<lambda>n. Some 60), faults = (\<lambda>n. Fine), ticks = 0, stdout = []\<rparr>" 60 False]
  have "stdout (snd (show_loop demo_snapshot_env (Some ''/d'') False False 1
        \<lparr>files = files w', clock = (\<lambda>n. Some 60), faults = (\<lambda>n. Fine), ticks = 0, stdout = []\<rparr>))
      = [status_frame (snapshot ?st) 60]"
    by (simp add: demo_snapshot_env_def case_prod_unfold)
  ultimately show ?thesis using up by blast
qed

end
