(* ===== verification/Cli_Dispatch.thy ===== *)
theory Cli_Dispatch
  imports Command_Line Ticket_Command Status_Command Import_Helper
begin

text \<open>
  \<open>cli/mod.rs\<close>, the command line as a whole: the parsed commands and the dispatch on them, over the
  one process whose parts the components see, with the files, the clock and the faults shared. Two of
  the commands go on after what is modelled here: \<open>serve\<close> with the accept loop of \<open>Server_Life\<close>, the
  import helper with its handler. The lemmas say which files a command can change.
\<close>

section \<open>The process\<close>

text \<open>The files and the clock of \<open>io_world\<close>, and what each component keeps beside them.\<close>

record ('n, 'm, 'h) process = io_world +
  pr_cli :: "unit cli_world_ext"
  pr_keys :: "('n, unit) key_world_ext"
  pr_client :: "('m, unit) client_world_ext chan_world_ext"
  pr_helper :: "('h, unit) helper_world_ext stream_world_ext"

definition seen_with :: "'z io_world_scheme \<Rightarrow> 'e \<Rightarrow> 'e io_world_scheme" where
  "seen_with p part = io_world.extend (io_world.truncate p) part"

definition taken_over :: "'e io_world_scheme \<Rightarrow> 'z io_world_scheme \<Rightarrow> 'z io_world_scheme" where
  "taken_over w p = p\<lparr>files := files w, clock := clock w, faults := faults w, ticks := ticks w\<rparr>"

definition at_cli :: "(cli_world, 'a) step \<Rightarrow> (('n, 'm, 'h) process, 'a) step" where
  "at_cli = on_part (\<lambda>p. seen_with p (pr_cli p)) (\<lambda>w p. (taken_over w p)\<lparr>pr_cli := io_world.more w\<rparr>)"

definition at_keys :: "('n key_world, 'a) step \<Rightarrow> (('n, 'm, 'h) process, 'a) step" where
  "at_keys = on_part (\<lambda>p. seen_with p (pr_keys p)) (\<lambda>w p. (taken_over w p)\<lparr>pr_keys := io_world.more w\<rparr>)"

definition at_client :: "('m client_world, 'a) step \<Rightarrow> (('n, 'm, 'h) process, 'a) step" where
  "at_client = on_part (\<lambda>p. seen_with p (pr_client p)) (\<lambda>w p. (taken_over w p)\<lparr>pr_client := io_world.more w\<rparr>)"

definition at_helper :: "('h helper_world, 'a) step \<Rightarrow> (('n, 'm, 'h) process, 'a) step" where
  "at_helper = on_part (\<lambda>p. seen_with p (pr_helper p)) (\<lambda>w p. (taken_over w p)\<lparr>pr_helper := io_world.more w\<rparr>)"

section \<open>The commands\<close>

datatype ('id, 'url, 'addr) command =
    Key_Show "string option"
  | Serve "string option" "string option" "'id list"
  | Build "('id, 'url, 'addr) build_command_args" "string option"
  | Ticket_Command "('id, 'addr) ticket_command"
  | Status "string option" bool
  | Import_Helper string string

text \<open>Where a command that ended without error stands.\<close>

datatype 'id standing =
    Returned
  | Serving "'id running_server"
  | Watching
  | Helping key_set

text \<open>
  What the commands are given: the parameters of the components, the secret a new ticket draws,
  whether the output is a terminal, and how many frames a watched status shows. The parameters of a
  session depend on the key file, whose key gives the client its id.
\<close>

record ('id, 'url, 'sock, 'addr, 'n, 'm) program_env =
  pg_serve :: "('id, 'url, 'sock, 'addr, 'n) serve_env"
  pg_cli :: "('id, 'url, 'sock, 'addr) cli_env"
  pg_public :: "secret_key \<Rightarrow> string"
  pg_builders :: "('id, 'url) builder_env"
  pg_session :: "string option \<Rightarrow> ('id, 'url, 'addr) build_auth option \<Rightarrow> 'm session_env"
  pg_status :: status_env
  pg_secret :: secret
  pg_terminal :: bool
  pg_frames :: nat

definition status_show :: "('id, 'url, 'sock, 'addr, 'n, 'm) program_env \<Rightarrow> string option \<Rightarrow> bool \<Rightarrow> (cli_world, 'id standing) step" where
  "status_show E dir watch w =
    (case show_loop (pg_status E) dir watch (pg_terminal E) (pg_frames E) w of
       (None, w) \<Rightarrow> (Ok Watching, w)
     | (Some r, w) \<Rightarrow> (bind_r r (\<lambda>_. Ok Returned), w))"

definition dispatch ::
  "('id, 'url, 'sock, 'addr, 'n, 'm) program_env \<Rightarrow> ('id, 'url, 'addr) command \<Rightarrow>
     (('n, 'm, 'h) process, 'id standing) step" where
  "dispatch E command =
    (case command of
       Key_Show key_file \<Rightarrow>
         bind_s (at_keys (show_key (sv_keys (pg_serve E)) (pg_public E) key_file)) (\<lambda>line.
         bind_s (at_cli (println line)) (\<lambda>_. ret Returned))
     | Serve dir config trusted_client \<Rightarrow>
         bind_s (at_keys (cli_serve (pg_serve E) (cli_var (pg_cli E)) dir config trusted_client)) (\<lambda>server.
         ret (Serving server))
     | Build args key_file \<Rightarrow>
         bind_s (at_client (build_command (pg_builders E) (pg_session E key_file) args)) (\<lambda>_. ret Returned)
     | Ticket_Command command \<Rightarrow>
         bind_s (at_cli (run_ticket_command (pg_cli E) (pg_secret E) command)) (\<lambda>_. ret Returned)
     | Status dir watch \<Rightarrow> at_cli (status_show E dir watch)
     | Import_Helper socket trusted_public_key_file \<Rightarrow>
         bind_s (load_trusted_public_keys trusted_public_key_file) (\<lambda>keys.
         bind_s (at_helper (helper_listen socket keys)) (\<lambda>_. ret (Helping keys))))"

section \<open>Which files a command can change\<close>

text \<open>The directories a command may settle on, and the probes it may make there.\<close>

definition data_dirs :: "('id, 'url, 'sock, 'addr) cli_env \<Rightarrow> string option \<Rightarrow> string list" where
  "data_dirs E dir =
    (case dir of
       Some dir \<Rightarrow> [dir]
     | None \<Rightarrow> SYSTEM_DATA_DIR # (case user_data_dir (cli_var E) of Inr d \<Rightarrow> [d] | Inl _ \<Rightarrow> []))"

definition probes :: "('id, 'url, 'sock, 'addr) cli_env \<Rightarrow> string option \<Rightarrow> string list" where
  "probes E dir =
    (if dir = None then map (probe_path (process_id (cli_tickets E))) (data_dirs E None) else [])"

definition ticket_files :: "('id, 'url, 'sock, 'addr) cli_env \<Rightarrow> string \<Rightarrow> string list" where
  "ticket_files E dir =
    (let path = store_file (ticket_store_new dir) in
     path # (case temp_path_for (process_id (cli_tickets E)) path of Inr tmp \<Rightarrow> [tmp] | Inl _ \<Rightarrow> []))"

text \<open>
  The files of a command, and \<open>None\<close> for the two that hand on to Nix, which may change any file
  it is let to.
\<close>

fun command_files ::
  "('id, 'url, 'sock, 'addr, 'n, 'm) program_env \<Rightarrow> ('id, 'url, 'addr) command \<Rightarrow> string list option" where
  "command_files E (Key_Show (Some path)) = Some [path]"
| "command_files E (Key_Show None) =
    Some (case default_client_key_path (sv_keys (pg_serve E)) of Inr path \<Rightarrow> [path] | Inl _ \<Rightarrow> [])"
| "command_files E (Serve dir config trusted_client) = None"
| "command_files E (Build args key_file) = None"
| "command_files E (Ticket_Command (Create dir name client expires uses unlimited time bytes)) =
    Some (probes (pg_cli E) dir @ concat (map (ticket_files (pg_cli E)) (data_dirs (pg_cli E) dir)))"
| "command_files E (Ticket_Command (List_Tickets dir)) = Some (probes (pg_cli E) dir)"
| "command_files E (Ticket_Command (Inspect dir ticket)) = Some (probes (pg_cli E) dir)"
| "command_files E (Ticket_Command (Reveal dir tid)) = Some (probes (pg_cli E) dir)"
| "command_files E (Ticket_Command (Revoke dir tid)) =
    Some (probes (pg_cli E) dir @ concat (map (ticket_files (pg_cli E)) (data_dirs (pg_cli E) dir)))"
| "command_files E (Status dir watch) = Some []"
| "command_files E (Import_Helper socket trusted_public_key_file) = Some []"

text \<open>What a step leaves of the files, whatever it does to the rest.\<close>

definition writes_only :: "string list \<Rightarrow> 'z io_world_scheme \<Rightarrow> 'z io_world_scheme \<Rightarrow> bool" where
  "writes_only ps w w' \<longleftrightarrow> files w' |` (- set ps) = files w |` (- set ps)"

lemma writes_only_order [simp]: "reflp (writes_only ps)" "transp (writes_only ps)"
  by (auto simp: writes_only_def reflp_def transp_def)

named_theorems writing

lemma writes_only_iff: "writes_only ps w w' \<longleftrightarrow> (\<forall>q. q \<notin> set ps \<longrightarrow> files w' q = files w q)"
  by (auto simp: writes_only_def restrict_map_def fun_eq_iff)

lemma only_files_writing: "keeps (only_files (\<lambda>q. q \<in> set ps)) m \<Longrightarrow> keeps (writes_only ps) m"
  by (auto simp: keeps_def only_files_def writes_only_iff)

lemma writing_combine [writing]:
  "keeps (writes_only ps) (ret x)" "keeps (writes_only ps) (lift_r r)"
  "keeps (writes_only ps) m \<Longrightarrow> (\<And>x. keeps (writes_only ps) (f x)) \<Longrightarrow> keeps (writes_only ps) (bind_s m f)"
  "keeps (writes_only ps) m \<Longrightarrow> (\<And>x. keeps (writes_only ps) (g x)) \<Longrightarrow> keeps (writes_only ps) (match_s m g)"
  "keeps (writes_only ps) m \<Longrightarrow> keeps (writes_only ps) (context_s c m)"
  by (simp_all add: keeps_ret keeps_lift_r keeps_bind_s keeps_match_s keeps_context_s)

lemma writing_println [writing]: "keeps (writes_only ps) (println line)"
  by (simp add: keeps_def println_def writes_only_def)

lemma writing_calls [writing]:
  "keeps (writes_only ps) (io_call c)" "keeps (writes_only ps) read_clock"
  "keeps (writes_only ps) (fs_read_to_string path)" "keeps (writes_only ps) (fs_create_dir_all path)"
  "keeps (writes_only ps) (fs_set_permissions path)"
  by (intro only_files_writing frame)+

lemma writing_println_all [writing]: "keeps (writes_only ps) (println_all lines)"
proof (induction lines)
  case Nil
  then show ?case by (simp add: keeps_def writes_only_def)
next
  case (Cons line lines)
  then show ?case unfolding println_all.simps by (intro writing)
qed

text \<open>A part of the process changes no more files than it does by itself.\<close>

lemma writing_on_part:
  assumes "keeps (writes_only ps) m" "\<And>p. files (view p) = files p" "\<And>w p. files (put w p) = files w"
  shows "keeps (writes_only ps) (on_part view put m)"
proof (rule keepsI)
  fix p r p'
  assume "on_part view put m p = (r, p')"
  then obtain w where "m (view p) = (r, w)" "p' = put w p" by (auto simp: on_part_def split: prod.splits)
  with keepsD [OF assms(1), of "view p"] show "writes_only ps p p'" by (simp add: writes_only_def assms(2,3))
qed

lemma writing_parts [writing]:
  "keeps (writes_only ps) m \<Longrightarrow> keeps (writes_only ps) (at_cli m)"
  "keeps (writes_only ps) k \<Longrightarrow> keeps (writes_only ps) (at_keys k)"
  "keeps (writes_only ps) h \<Longrightarrow> keeps (writes_only ps) (at_helper h)"
  by (simp_all add: at_cli_def at_keys_def at_helper_def writing_on_part taken_over_def seen_with_def io_world.defs)

section \<open>The files of each command\<close>

lemma in_probes:
  "q \<in> set (probes E None) \<longleftrightarrow> q = probe_path (process_id (cli_tickets E)) SYSTEM_DATA_DIR
    \<or> (\<exists>d. user_data_dir (cli_var E) = Ok d \<and> q = probe_path (process_id (cli_tickets E)) d)"
  by (cases "user_data_dir (cli_var E)") (auto simp: probes_def data_dirs_def)

lemma default_data_dir_files:
  assumes "default_data_dir (process_id (cli_tickets E)) (cli_var E) w = (r, w')"
  shows "set (probes E None) \<subseteq> set ps \<Longrightarrow> writes_only ps w w'" "r = Ok d \<Longrightarrow> d \<in> set (data_dirs E None)"
proof -
  note run = default_data_dir_probes_only [of "process_id (cli_tickets E)" "cli_var E" w]
  then have "only_files (\<lambda>q. q \<in> set (probes E None)) w w'" by (simp add: assms in_probes)
  then show "set (probes E None) \<subseteq> set ps \<Longrightarrow> writes_only ps w w'" unfolding only_files_def writes_only_iff by blast
  show "r = Ok d \<Longrightarrow> d \<in> set (data_dirs E None)"
    using run by (auto simp: assms data_dirs_def split: if_splits)
qed

lemma writing_data_dir: "set (probes E dir) \<subseteq> set ps \<Longrightarrow> keeps (writes_only ps) (data_dir_of E dir)"
proof (cases dir)
  case None
  moreover assume "set (probes E dir) \<subseteq> set ps"
  ultimately show ?thesis by (auto simp: data_dir_of_def optional_data_dir_def intro!: keepsI default_data_dir_files(1))
qed (simp add: data_dir_of_def optional_data_dir_def writing)

lemma data_dir_of_Ok: "data_dir_of E dir w = (Ok d, w') \<Longrightarrow> d \<in> set (data_dirs E dir)"
  by (cases dir) (auto simp: data_dir_of_def optional_data_dir_def data_dirs_def dest: default_data_dir_files(2))

text \<open>After the data directory is found, the rest only has to keep to that directory.\<close>

lemma writing_in_data_dir:
  assumes "set (probes E dir) \<subseteq> set ps"
    and "\<And>d. d \<in> set (data_dirs E dir) \<Longrightarrow> keeps (writes_only ps) (f d)"
  shows "keeps (writes_only ps) (bind_s (data_dir_of E dir) f)"
proof (rule keepsI)
  fix w r w'
  assume run: "bind_s (data_dir_of E dir) f w = (r, w')"
  obtain r1 w1 where dir: "data_dir_of E dir w = (r1, w1)" by fastforce
  then have w1: "writes_only ps w w1" by (rule keepsD [OF writing_data_dir [OF assms(1)]])
  show "writes_only ps w w'"
  proof (cases r1)
    case (Inl e)
    with run dir w1 show ?thesis by (simp add: bind_s_def)
  next
    case (Inr d)
    with run dir have "f d w1 = (r, w')" by (simp add: bind_s_def)
    with assms(2) dir Inr have "writes_only ps w1 w'" by (blast dest: data_dir_of_Ok keepsD)
    with w1 show ?thesis by (simp add: writes_only_def)
  qed
qed

lemma untouched_writing: "keeps untouched m \<Longrightarrow> keeps (writes_only ps) m"
  by (rule only_files_writing, erule keeps_only_files_mono) simp

lemma writing_ticket_reads [writing]:
  "keeps (writes_only ps) (lock_file self)" "keeps (writes_only ps) (load_unlocked T self)"
  "keeps (writes_only ps) (ticket_records T self)" "keeps (writes_only ps) (ticket_record_of T self tid)"
  unfolding ticket_records_def ticket_record_of_def ticket_load_def
  by (intro writing untouched_writing lock_file_frame load_unlocked_frame)+

lemma writing_write_unlocked:
  assumes "set (ticket_files E d) \<subseteq> set ps"
  shows "keeps (writes_only ps) (write_unlocked (cli_tickets E) (ticket_store_new d) state)"
proof (rule keepsI)
  fix w r w'
  let ?P = "\<lambda>p. p = store_file (ticket_store_new d) \<or> temp_path_for (process_id (cli_tickets E)) (store_file (ticket_store_new d)) = Ok p"
  assume "write_unlocked (cli_tickets E) (ticket_store_new d) state w = (r, w')"
  then have "only_files ?P w w'"
    by (auto dest!: write_unlocked_cases simp: installed_def not_installed_def elim: only_files_mono)
  moreover have "q \<in> set ps" if "?P q" for q using assms that by (auto simp: ticket_files_def Let_def)
  ultimately show "writes_only ps w w'" unfolding writes_only_iff only_files_def by blast
qed

lemma writing_server_addr [writing]: "keeps (writes_only ps) (load_server_addr A T json dir)"
  unfolding load_server_addr_def Let_def by (auto intro!: writing split: sum.split option.split)

lemma writing_ticket_writes:
  assumes "set (ticket_files E d) \<subseteq> set ps"
  shows "keeps (writes_only ps) (ticket_create (cli_tickets E) (ticket_store_new d) secret addr options)"
    "keeps (writes_only ps) (ticket_revoke (cli_tickets E) (ticket_store_new d) tid)"
  unfolding ticket_create_def ticket_revoke_def Let_def
  by (auto intro!: writing writing_write_unlocked assms)

lemma writing_ticket_command:
  assumes "command_files E (Ticket_Command command) = Some ps"
  shows "keeps (writes_only ps) (run_ticket_command (pg_cli E) secret command)"
proof -
  have files: "set (ticket_files C d) \<subseteq> set (probes C dir @ concat (map (ticket_files C) (data_dirs C dir)))"
    if "d \<in> set (data_dirs C dir)" for C :: "('id, 'url, 'sock, 'addr) cli_env" and d dir using that by auto
  note cmd = run_ticket_command_def cli_create_def cli_list_def cli_inspect_def cli_reveal_def cli_revoke_def
  show ?thesis
  proof (cases command)
    case (Create dir name client expires uses unlimited time bytes)
    show ?thesis
      unfolding Create cmd ticket_command.case ticket_create_args.simps
      by (rule writing_in_data_dir) (use assms Create in \<open>auto intro!: writing writing_ticket_writes dest: files\<close>)
  next
    case (List_Tickets dir)
    show ?thesis
      unfolding List_Tickets cmd ticket_command.case
      by (rule writing_in_data_dir) (use assms List_Tickets in \<open>auto intro!: writing\<close>)
  next
    case (Inspect dir ticket)
    show ?thesis
      unfolding Inspect cmd ticket_command.case
      by (rule writing_in_data_dir) (use assms Inspect in \<open>auto simp: Let_def intro!: writing split: option.split\<close>)
  next
    case (Reveal dir tid)
    show ?thesis
      unfolding Reveal cmd ticket_command.case
      by (rule writing_in_data_dir) (use assms Reveal in \<open>auto intro!: writing\<close>)
  next
    case (Revoke dir tid)
    show ?thesis
      unfolding Revoke cmd ticket_command.case
      by (rule writing_in_data_dir) (use assms Revoke in \<open>auto intro!: writing writing_ticket_writes dest: files\<close>)
  qed
qed

section \<open>The other commands\<close>

lemma writing_show_turn [writing]: "keeps (writes_only ps) (show_turn E dir watch is_term)"
proof -
  have "keeps (writes_only ps) (read_snapshot E dir)" for dir
    unfolding read_snapshot_def Let_def by (auto intro!: writing split: sum.split option.split)
  then show ?thesis
    unfolding show_turn_def render_status_def Let_def by (auto intro!: writing)
qed

lemma writing_show_loop: "show_loop E dir watch is_term n w = (r, w') \<Longrightarrow> writes_only ps w w'"
proof (induction n arbitrary: w)
  case 0
  then show ?case by (simp add: writes_only_def)
next
  case (Suc n)
  obtain r1 w1 where turn: "show_turn E dir watch is_term w = (r1, w1)" by fastforce
  then have "writes_only ps w w1" by (rule keepsD [OF writing_show_turn])
  moreover have "writes_only ps w1 w'" if "show_loop E dir watch is_term n w1 = (r, w')" using that by (rule Suc.IH)
  ultimately show ?case using Suc.prems turn
    by (auto simp: writes_only_def split: sum.splits if_splits)
qed

lemma writing_status_show [writing]: "keeps (writes_only ps) (status_show E dir watch)"
  by (rule keepsI) (auto simp: status_show_def split: prod.splits option.splits dest: writing_show_loop)

lemma bind_lifted: "bind_s (lift_r (Inr x)) f = f x" "bind_s (lift_r (Inl e)) f = lift_r (Inl e)"
  by (simp_all add: fun_eq_iff bind_s_def)

lemma writing_load_or_create: "keeps (writes_only [path]) (load_or_create K path)"
proof (rule keepsI)
  fix w r w'
  assume "load_or_create K path w = (r, w')"
  from load_or_create_cases [OF this] show "writes_only [path] w w'"
    by (cases r) (auto simp: only_key_def writes_only_iff)
qed

lemma writing_helper_listen [writing]: "keeps (writes_only ps) (helper_listen socket keys)"
proof -
  have "keeps (writes_only ps) (remove_stale_socket socket)" "keeps (writes_only ps) (bind_socket socket)"
    "keeps (writes_only ps) (log_helper line)" for line
    by (auto simp: keeps_def remove_stale_socket_def bind_socket_def log_helper_def context_s_def io_call_def ticked_def
        writes_only_def split: sum.splits option.splits bool.splits fault.splits prod.splits)
  then show ?thesis unfolding helper_listen_def by (auto intro!: writing split: option.split)
qed

lemma writing_load_keys [writing]: "keeps (writes_only ps) (load_trusted_public_keys path)"
  unfolding load_trusted_public_keys_def by (auto intro!: writing split: option.split)


end
