(* ===== verification/Permit_Pool.thy ===== *)
theory Permit_Pool
  imports Prelude
begin

text \<open>
  A semaphore whose permits are guards of tasks (\<open>tokio::sync::Semaphore\<close> with \<open>acquire_owned\<close>), as an
  interface: a step changes one task, and takes a permit or gives it back exactly if the task comes
  to hold one or ceases to. What a client gets is that no permit is lost or made, along any run.
\<close>

definition held :: "('t \<Rightarrow> bool) \<Rightarrow> 't option \<Rightarrow> bool" where
  "held holds x = (case x of None \<Rightarrow> False | Some t \<Rightarrow> holds t)"

lemma held_simps [simp]: "held holds None = False" "held holds (Some t) = holds t"
  by (simp_all add: held_def)

definition holders :: "('t \<Rightarrow> bool) \<Rightarrow> (nat \<Rightarrow> 't option) \<Rightarrow> nat set" where
  "holders holds T = {c. held holds (T c)}"

lemma holders_upd: "holders holds (T(c := x)) = (if held holds x then insert c (holders holds T) else holders holds T - {c})"
  by (auto simp: holders_def)

lemma holders_none [simp]: "holders holds (\<lambda>c. None) = {}"
  by (simp add: holders_def)

lemma holders_finite: "finite (dom T) \<Longrightarrow> finite (holders holds T)"
  by (rule finite_subset [of _ "dom T"]) (auto simp: holders_def held_def split: option.splits)

lemma card_holders_upd:
  assumes "finite (dom T)"
  shows "card (holders holds (T(c := x))) + of_bool (held holds (T c)) = card (holders holds T) + of_bool (held holds x)"
proof -
  have fin: "finite (holders holds T)" using assms by (rule holders_finite)
  have here: "c \<in> holders holds T \<longleftrightarrow> held holds (T c)" by (simp add: holders_def)
  have "0 < card (holders holds T)" if "held holds (T c)" using fin here that by (auto simp: card_gt_0_iff)
  then show ?thesis using fin here by (auto simp: holders_upd insert_absorb)
qed

locale permit_pool =
  fixes step :: "'s \<Rightarrow> 'e \<Rightarrow> 's \<Rightarrow> bool"
    and tasks :: "'s \<Rightarrow> nat \<Rightarrow> 't option"
    and free :: "'s \<Rightarrow> nat"
    and holds :: "'t \<Rightarrow> bool"
  assumes one_task: "step s e s' \<Longrightarrow> \<exists>c x. tasks s' = (tasks s)(c := x)
    \<and> free s' + of_bool (held holds x) = free s + of_bool (held holds (tasks s c))"
begin

lemma conserved_step:
  assumes "step s e s'" "finite (dom (tasks s))"
  shows "finite (dom (tasks s')) \<and> free s' + card (holders holds (tasks s')) = free s + card (holders holds (tasks s))"
proof -
  from one_task [OF assms(1)] obtain c x where x: "tasks s' = (tasks s)(c := x)"
    "free s' + of_bool (held holds x) = free s + of_bool (held holds (tasks s c))" by blast
  have "finite (dom ((tasks s)(c := x)))" using assms(2) by (cases x) simp_all
  with x card_holders_upd [OF assms(2), of holds c x] show ?thesis by simp
qed

lemma conserved:
  assumes "runs step s es s'" "finite (dom (tasks s))"
  shows "finite (dom (tasks s')) \<and> free s' + card (holders holds (tasks s')) = free s + card (holders holds (tasks s))"
proof -
  have "finite (dom (tasks s')) \<and> free s' + card (holders holds (tasks s')) = free s + card (holders holds (tasks s))"
    if "runs step s es s'" for s'
    by (rule runs_invariant [OF that]) (use assms(2) conserved_step in \<open>auto dest: conserved_step\<close>)
  then show ?thesis using assms(1) .
qed

text \<open>From a start with nobody at work, no more tasks hold a permit than there are.\<close>

lemma never_too_many:
  assumes "runs step s es s'" "tasks s = (\<lambda>c. None)"
  shows "finite (dom (tasks s'))" "free s' + card (holders holds (tasks s')) = free s"
  using conserved [OF assms(1)] assms(2) by simp_all

end

end
