(* ===== verification/Build_Floor.thy ===== *)
theory Build_Floor
  imports Server_Main Permit_Pool
begin

text \<open>
  Several connections at one builder (\<open>server/mod.rs\<close>, \<open>server/connection.rs\<close>). Each accepted
  connection runs in a task of its own; what they share is the semaphore of the build queue and the
  status registry. A connection that has its build request is in one of the states of \<open>turn\<close>, and
  each of its calls on what is shared is a step of \<open>floor_step\<close>; the steps of different connections
  come in any order. What one connection does by itself is \<open>Server_Connection\<close>.
\<close>

section \<open>The steps\<close>

datatype turn =
    In_Queue string
  | Permitted string
  | Building string
  | Ended string build_result "string option"

fun turn_id :: "turn \<Rightarrow> string" where
  "turn_id (In_Queue i) = i"
| "turn_id (Permitted i) = i"
| "turn_id (Building i) = i"
| "turn_id (Ended i r e) = i"

fun holds_permit :: "turn \<Rightarrow> bool" where
  "holds_permit (Permitted i) = True"
| "holds_permit (Building i) = True"
| "holds_permit t = False"

record 'w floor =
  board :: mutable_status
  outside :: 'w
  free_permits :: nat
  turns :: "nat \<Rightarrow> turn option"

text \<open>
  \<open>Queue\<close> is \<open>enqueue\<close>, \<open>Unsent\<close> a failed \<open>BuildQueued\<close>, \<open>Acquire\<close> and \<open>Begin\<close> the permit and the start,
  \<open>Move\<close> a phase of the running build, \<open>Leave\<close> the end of \<open>run_when_permitted\<close>, which drops the permit,
  \<open>Record\<close> the recording of the result after it, and \<open>Heartbeat\<close> the task that refreshes the file.
\<close>

datatype floor_event =
    Queue nat string string
  | Unsent nat string
  | Acquire nat
  | Begin nat
  | Move nat string
  | Leave nat build_result "string option"
  | Record nat
  | Heartbeat

definition onto :: "mutable_status \<times> 'w \<Rightarrow> nat \<Rightarrow> turn option \<Rightarrow> 'w floor \<Rightarrow> 'w floor" where
  "onto sw c t s = s\<lparr>board := fst sw, outside := snd sw, turns := (turns s)(c := t)\<rparr>"

inductive floor_step ::
  "status_env \<Rightarrow> 'z io_world_scheme floor \<Rightarrow> floor_event \<Rightarrow> 'z io_world_scheme floor \<Rightarrow> bool" for E where
  Queue: "turns s c = None \<Longrightarrow> status_enqueue E label inst (board s) (outside s) = (i, sw) \<Longrightarrow>
    floor_step E s (Queue c label inst) (onto sw c (Some (In_Queue i)) s)"
| Unsent: "turns s c = Some (In_Queue i) \<Longrightarrow>
    floor_step E s (Unsent c msg) (onto (status_finish E i Build_Error (Some msg) (board s) (outside s)) c None s)"
| Acquire: "turns s c = Some (In_Queue i) \<Longrightarrow> 0 < free_permits s \<Longrightarrow>
    floor_step E s (Acquire c) (s\<lparr>free_permits := free_permits s - 1, turns := (turns s)(c \<mapsto> Permitted i)\<rparr>)"
| Begin: "turns s c = Some (Permitted i) \<Longrightarrow>
    floor_step E s (Begin c) (onto (status_start E i (board s) (outside s)) c (Some (Building i)) s)"
| Move: "turns s c = Some (Building i) \<Longrightarrow>
    floor_step E s (Move c p) (onto (status_phase E i p (board s) (outside s)) c (Some (Building i)) s)"
| Leave: "turns s c = Some (Building i) \<Longrightarrow>
    floor_step E s (Leave c r e) (s\<lparr>free_permits := free_permits s + 1, turns := (turns s)(c \<mapsto> Ended i r e)\<rparr>)"
| Record: "turns s c = Some (Ended i r e) \<Longrightarrow>
    floor_step E s (Record c) (onto (status_finish E i r e (board s) (outside s)) c None s)"
| Heartbeat: "heartbeat_turn E (board s) (outside s) = (st, w) \<Longrightarrow>
    floor_step E s Heartbeat (s\<lparr>board := st, outside := w\<rparr>)"

text \<open>The semaphore of the build queue.\<close>

interpretation queue: permit_pool "floor_step E" turns free_permits holds_permit for E
proof
  show "\<exists>c x. turns s' = (turns s)(c := x)
      \<and> free_permits s' + of_bool (held holds_permit x) = free_permits s + of_bool (held holds_permit (turns s c))"
    if "floor_step E s e s'" for s e and s' :: "'b io_world_scheme floor"
    using that
  proof (induction rule: floor_step.induct)
    case (Heartbeat s st w)
    show ?case by (intro exI [of _ 0] exI [of _ "turns s 0"]) simp
  qed (fastforce simp: onto_def)+
qed

definition opened :: "nat \<Rightarrow> mutable_status \<Rightarrow> 'w \<Rightarrow> 'w floor" where
  "opened permits st w = \<lparr>board = st, outside = w, free_permits = permits, turns = (\<lambda>c. None)\<rparr>"

section \<open>The invariant\<close>

abbreviation known :: "string \<Rightarrow> bool" where
  "known i \<equiv> i \<noteq> ''build-unknown''"

fun fits_stage :: "turn \<Rightarrow> stage option \<Rightarrow> bool" where
  "fits_stage (In_Queue i) s = (s = Some Waiting)"
| "fits_stage (Permitted i) s = (s = Some Waiting)"
| "fits_stage (Building i) s = (\<exists>p. s = Some (Working p))"
| "fits_stage (Ended i r e) s = (\<exists>p. s = Some (Working p))"

text \<open>Connections whose enqueue could not write the status file know no id of theirs.\<close>

definition seated :: "(nat \<Rightarrow> turn option) \<Rightarrow> (string \<Rightarrow> stage option) \<Rightarrow> bool" where
  "seated T m \<longleftrightarrow>
    (\<forall>c t. T c = Some t \<longrightarrow> known (turn_id t) \<longrightarrow> fits_stage t (m (turn_id t)))
    \<and> (\<forall>i p. m i = Some (Working p) \<longrightarrow> (\<exists>c t. T c = Some t \<and> turn_id t = i))
    \<and> (\<forall>c d t u. T c = Some t \<longrightarrow> T d = Some u \<longrightarrow> turn_id t = turn_id u \<longrightarrow> known (turn_id t) \<longrightarrow> c = d)
    \<and> m ''build-unknown'' = None"

lemma seated_queue:
  assumes "seated T m" "T c = None" "m j = None" "known j" "i = j \<or> \<not> known i"
  shows "seated (T(c \<mapsto> In_Queue i)) (m(j \<mapsto> Waiting))"
proof -
  have fresh: "turn_id t \<noteq> j" if "T d = Some t" for d t
    using that assms(1,3,4) by (cases t) (fastforce simp: seated_def)+
  show ?thesis
    unfolding seated_def
  proof (intro conjI allI impI, goal_cases)
    case (2 k p)
    then obtain d t where "T d = Some t" "turn_id t = k" using assms(1) by (auto simp: seated_def split: if_splits)
    then show ?case using assms(2) by (intro exI [of _ d] exI [of _ t]) auto
  next
    case (3 d e t u)
    then show ?case using assms fresh [of d] fresh [of e] by (auto simp: seated_def split: if_splits)
  qed (use assms fresh in \<open>auto simp: seated_def split: if_splits\<close>)
qed

text \<open>One connection moves on.\<close>

lemma seated_move:
  assumes "seated T m" "T c = Some t" "turn_id t' = turn_id t" "known (turn_id t) \<Longrightarrow> fits_stage t' (m' (turn_id t))"
    and "\<And>j. j \<noteq> turn_id t \<Longrightarrow> m' j = m j" "m' ''build-unknown'' = None"
  shows "seated (T(c \<mapsto> t')) m'"
  unfolding seated_def
proof (intro conjI allI impI, goal_cases)
  case (1 d u)
  then show ?case
    using assms by (cases "turn_id u = turn_id t") (auto simp: seated_def split: if_splits)
next
  case (2 k p)
  show ?case
  proof (cases "k = turn_id t")
    case True
    then show ?thesis using assms(3) by (intro exI [of _ c] exI [of _ t']) simp
  next
    case False
    then obtain d u where "T d = Some u" "turn_id u = k" using assms(1,5) 2 by (auto simp: seated_def)
    then show ?thesis using assms(2) False by (intro exI [of _ d] exI [of _ u]) auto
  qed
next
  case (3 d e u v)
  then show ?case using assms(1-3) by (auto simp: seated_def split: if_splits)
qed (rule assms(6))

lemma seated_leave:
  assumes "seated T m" "T c = Some t"
  shows "seated (T(c := None)) (m(turn_id t := None))"
  unfolding seated_def
proof (intro conjI allI impI, goal_cases)
  case (1 d u)
  then show ?case using assms by (auto simp: seated_def split: if_splits)
next
  case (2 k p)
  then obtain d u where "T d = Some u" "turn_id u = k" "k \<noteq> turn_id t" using assms(1)
    by (auto simp: seated_def split: if_splits)
  then show ?case using assms(2) by (intro exI [of _ d] exI [of _ u]) auto
next
  case (3 d e u v)
  then show ?case using assms(1) by (auto simp: seated_def split: if_splits)
qed (use assms in \<open>simp add: seated_def\<close>)

lemma seatedD:
  "seated T m \<Longrightarrow> T c = Some t \<Longrightarrow> known (turn_id t) \<Longrightarrow> fits_stage t (m (turn_id t))"
  "seated T m \<Longrightarrow> m ''build-unknown'' = None"
  by (simp_all add: seated_def)

section \<open>The registry's side\<close>

lemma with_status_update_world:
  "clock (snd (snd (with_status_update E upd st w))) = clock w \<and> faults (snd (snd (with_status_update E upd st w))) = faults w"
proof (cases "clock w (ticks w)")
  case None
  then show ?thesis by (simp add: with_status_update_def read_clock_def ticked_def)
next
  case (Some now)
  let ?st = "refreshed (snd (upd st now)) now"
  obtain r w2 where wr: "write_atomic (status_pid E) (status_json E) (status_file E) (snapshot ?st) ''encode status JSON'' (ticked w) = (r, w2)"
    by fastforce
  have "clock w2 = clock (ticked w)" "faults w2 = faults (ticked w)"
    using write_atomic_inner_split [OF wr [unfolded write_atomic_def]] by (auto simp: only_files_def)
  with Some wr show ?thesis
    by (simp add: with_status_update_def read_clock_def case_prod_unfold Let_def split: sum.split)
      (simp add: ticked_def)
qed

lemma persist_current_world:
  "clock (snd (snd (persist_current E st w))) = clock w \<and> faults (snd (snd (persist_current E st w))) = faults w"
proof (cases "clock w (ticks w)")
  case None
  then show ?thesis by (simp add: persist_current_def read_clock_def ticked_def)
next
  case (Some now)
  obtain r w2 where wr: "write_atomic (status_pid E) (status_json E) (status_file E) (snapshot (refreshed st now))
      ''encode status JSON'' (ticked w) = (r, w2)"
    by fastforce
  have "clock w2 = clock (ticked w)" "faults w2 = faults (ticked w)"
    using write_atomic_inner_split [OF wr [unfolded write_atomic_def]] by (auto simp: only_files_def)
  with Some wr show ?thesis by (simp add: persist_current_def read_clock_def ticked_def Let_def)
qed

lemma run_status_op_world:
  "clock (snd (run_status_op E op (st, w))) = clock w \<and> faults (snd (run_status_op E op (st, w))) = faults w"
proof (cases op)
  case (Enqueue label inst)
  then show ?thesis using with_status_update_world [of E "enqueue_update label inst" st w]
    by (simp add: run_status_op_def status_enqueue_def split: prod.split option.split) (metis snd_conv)
next
  case Beat
  then show ?thesis using persist_current_world [of E st w] by (simp add: run_status_op_def heartbeat_turn_def)
qed (simp_all add: run_status_op_def status_op_defs(2-4) with_status_update_world)

text \<open>The id an enqueue returns: that of the new build, or the one of no build.\<close>

lemma status_enqueue_id:
  assumes "status_room st" "clock w (ticks w) = Some now" "status_enqueue E label inst st w = (i, sw)"
  shows "i = build_id (unat (next_request_seq st) + 1) \<or> i = ''build-unknown''"
proof -
  obtain j t where "enqueue_update label inst st now = (j, t)" by fastforce
  with assms enqueue_update_eq [OF assms(1) this] show ?thesis
    by (auto simp: status_enqueue_def with_status_update_def read_clock_def Let_def split: prod.splits sum.splits)
qed

section \<open>What holds of every interleaving\<close>

definition floor_ok :: "nat \<Rightarrow> 'z io_world_scheme floor \<Rightarrow> bool" where
  "floor_ok room s \<longleftrightarrow>
    status_inv (board s) \<and> counted (board s) \<and> unat (next_request_seq (board s)) + room < 2 ^ 64
    \<and> (\<forall>k. clock (outside s) k \<noteq> None)
    \<and> seated (turns s) (stage_of (board s))"

text \<open>What a status operation of a step does to the board.\<close>

lemma floor_status_op:
  assumes "floor_ok (Suc room) s" "run_status_op E op (board s, outside s) = (st, w)"
  shows "status_inv st \<and> counted st \<and> unat (next_request_seq st) + room < 2 ^ 64 \<and> (\<forall>k. clock w k \<noteq> None)
    \<and> stage_of st = board_move (next_request_seq (board s)) op (stage_of (board s))"
proof -
  have rm: "status_room (board s)" using assms(1) by (simp add: floor_ok_def status_room_def)
  note ok = assms(1) [unfolded floor_ok_def]
  have inv: "status_inv (board s)" "counted (board s)" using ok by blast+
  note move = run_status_op_move [OF inv(1) rm assms(2)] and cnt = run_status_op_counted [OF inv(2) assms(2)]
  have clk: "clock w = clock (outside s)" using run_status_op_world [of E op "board s" "outside s"] assms(2) by simp
  have "unat (next_request_seq st) \<le> Suc (unat (next_request_seq (board s)))"
    using move by (auto simp: next_seq [OF rm])
  moreover have "stage_of st = board_move (next_request_seq (board s)) op (stage_of (board s))"
    using move ok by (cases "op = Beat") auto
  ultimately show ?thesis using move cnt clk ok by simp
qed

lemma floor_ok_step: "floor_step E s e s' \<Longrightarrow> floor_ok (Suc room) s \<Longrightarrow> floor_ok room s'"
proof (induction rule: floor_step.induct)
  case (Queue s c label inst i sw)
  note ok = Queue(3) [unfolded floor_ok_def]
  have rm: "status_room (board s)" using ok by (simp add: status_room_def)
  obtain now where now: "clock (outside s) (ticks (outside s)) = Some now" using ok by blast
  obtain st w where sw: "sw = (st, w)" by fastforce
  have run: "run_status_op E (Enqueue label inst) (board s, outside s) = (st, w)"
    using Queue(2) sw by (simp add: run_status_op_def)
  note op = floor_status_op [OF Queue(3) run]
  let ?j = "build_id (unat (next_request_seq (board s)) + 1)"
  have "seated ((turns s)(c \<mapsto> In_Queue i)) ((stage_of (board s))(?j \<mapsto> Waiting))"
  proof (rule seated_queue)
    show "stage_of (board s) ?j = None" using not_live_new [of "board s"] ok by (simp add: stage_of_None_iff)
    show "known ?j" by (rule build_id_not_unknown)
    show "i = ?j \<or> \<not> known i" using status_enqueue_id [OF rm now Queue(2)] by blast
  qed (use ok Queue(1) in blast)+
  then show ?case
    using ok op Queue(1) sw by (simp add: floor_ok_def onto_def)
next
  case (Unsent s c i msg)
  note ok = Unsent(2) [unfolded floor_ok_def]
  obtain st w where sw: "status_finish E i Build_Error (Some msg) (board s) (outside s) = (st, w)" by fastforce
  have "run_status_op E (Finish i Build_Error (Some msg)) (board s, outside s) = (st, w)"
    using sw by (simp add: run_status_op_def)
  note op = floor_status_op [OF Unsent(2) this]
  have "seated ((turns s)(c := None)) ((stage_of (board s))(i := None))"
    using seated_leave [of "turns s" "stage_of (board s)" c "In_Queue i"] ok Unsent(1) by simp
  then show ?case
    using ok op Unsent(1) sw by (simp add: floor_ok_def onto_def)
next
  case (Acquire s c i)
  note ok = Acquire(3) [unfolded floor_ok_def]
  have "seated ((turns s)(c \<mapsto> Permitted i)) (stage_of (board s))"
    using ok Acquire(1) by (intro seated_move [of _ _ _ "In_Queue i"]) (auto dest: seatedD)
  with ok show ?case by (simp add: floor_ok_def)
next
  case (Begin s c i)
  note ok = Begin(2) [unfolded floor_ok_def]
  obtain st w where sw: "status_start E i (board s) (outside s) = (st, w)" by fastforce
  have "run_status_op E (Start i) (board s, outside s) = (st, w)" using sw by (simp add: run_status_op_def)
  note op = floor_status_op [OF Begin(2) this]
  have seat: "seated (turns s) (stage_of (board s))" using ok by blast
  have "known i \<Longrightarrow> stage_of (board s) i = Some Waiting" using seatedD(1) [OF seat Begin(1)] by simp
  then have "seated ((turns s)(c \<mapsto> Building i)) (stage_of st)"
    using op Begin(1) seatedD(2) [OF seat] by (intro seated_move [OF seat, of _ "Permitted i"]) auto
  then show ?case
    using ok op Begin(1) sw by (simp add: floor_ok_def onto_def)
next
  case (Move s c i p)
  note ok = Move(2) [unfolded floor_ok_def]
  obtain st w where sw: "status_phase E i p (board s) (outside s) = (st, w)" by fastforce
  have "run_status_op E (Phase i p) (board s, outside s) = (st, w)" using sw by (simp add: run_status_op_def)
  note op = floor_status_op [OF Move(2) this]
  have seat: "seated (turns s) (stage_of (board s))" using ok by blast
  have "known i \<Longrightarrow> \<exists>q. stage_of (board s) i = Some (Working q)" using seatedD(1) [OF seat Move(1)] by simp
  then have "seated ((turns s)(c \<mapsto> Building i)) (stage_of st)"
    using op Move(1) seatedD(2) [OF seat]
    by (intro seated_move [OF seat, of _ "Building i"]) (auto split: option.splits stage.splits)
  then show ?case
    using ok op Move(1) sw by (simp add: floor_ok_def onto_def)
next
  case (Leave s c i r e)
  note ok = Leave(2) [unfolded floor_ok_def]
  have "seated ((turns s)(c \<mapsto> Ended i r e)) (stage_of (board s))"
    using ok Leave(1) by (intro seated_move [of _ _ _ "Building i"]) (auto dest: seatedD)
  with ok show ?case by (simp add: floor_ok_def)
next
  case (Record s c i r e)
  note ok = Record(2) [unfolded floor_ok_def]
  obtain st w where sw: "status_finish E i r e (board s) (outside s) = (st, w)" by fastforce
  have "run_status_op E (Finish i r e) (board s, outside s) = (st, w)" using sw by (simp add: run_status_op_def)
  note op = floor_status_op [OF Record(2) this]
  have "seated ((turns s)(c := None)) ((stage_of (board s))(i := None))"
    using seated_leave [of "turns s" "stage_of (board s)" c "Ended i r e"] ok Record(1) by simp
  then show ?case
    using ok op Record(1) sw by (simp add: floor_ok_def onto_def)
next
  case (Heartbeat s st w)
  have "run_status_op E Beat (board s, outside s) = (st, w)" using Heartbeat(1) by (simp add: run_status_op_def)
  from floor_status_op [OF Heartbeat(2) this] Heartbeat(2) show ?case by (simp add: floor_ok_def)
qed

section \<open>Permits and the board\<close>

definition on_board :: "(nat \<Rightarrow> turn option) \<Rightarrow> nat set" where
  "on_board T = {c. \<exists>i. T c = Some (Building i) \<or> (\<exists>r e. T c = Some (Ended i r e))}"

definition unrecorded :: "(nat \<Rightarrow> turn option) \<Rightarrow> nat set" where
  "unrecorded T = {c. \<exists>i r e. T c = Some (Ended i r e)}"

lemma floor_ok_opened:
  assumes "live_ids st = []" "status_inv st" "counted st" "unat (next_request_seq st) + room < 2 ^ 64"
    "\<And>k. clock w k \<noteq> None"
  shows "floor_ok room (opened n st w)"
proof -
  have "stage_of st i = None" for i by (simp add: stage_of_None_iff assms(1))
  then show ?thesis using assms by (simp add: floor_ok_def opened_def seated_def)
qed

lemma floor_ok_runs:
  "runs (floor_step E) s events s' \<Longrightarrow> floor_ok (length events + room) s \<Longrightarrow> floor_ok room s'"
proof (induction rule: runs.induct)
  case (runs_Cons s e t es u)
  have "floor_ok (Suc (length es + room)) s" using runs_Cons.prems by simp
  with floor_ok_step [OF runs_Cons.hyps(1)] runs_Cons.IH show ?case by blast
qed simp

text \<open>What the board shows as active belongs to connections that run a build or have just ended one.\<close>

lemma floor_active:
  assumes "floor_ok room s" "finite (dom (turns s))"
  shows "active_count (server (snapshot (board s))) \<le> card (on_board (turns s))"
proof -
  note ok = assms(1) [unfolded floor_ok_def]
  let ?ids = "map a_request_id (active (snapshot (board s)))" and ?who = "\<lambda>c. turn_id (the (turns s c))"
  have inv: "status_inv (board s)" and seat: "seated (turns s) (stage_of (board s))" using ok by blast+
  have "set ?ids \<subseteq> ?who ` on_board (turns s)"
  proof
    fix i assume i: "i \<in> set ?ids"
    then have "i \<notin> q_request_id ` set (queued (snapshot (board s)))" using status_invD(3) [OF inv] by auto
    moreover have "find (\<lambda>a. a_request_id a = i) (active (snapshot (board s))) \<noteq> None"
      using i by (auto simp: find_None_iff)
    ultimately obtain p where working: "stage_of (board s) i = Some (Working p)" by (auto simp: stage_of_def)
    then obtain c t where t: "turns s c = Some t" "turn_id t = i" using seat by (auto simp: seated_def)
    have "known i" using working seatedD(2) [OF seat] by auto
    then have "fits_stage t (Some (Working p))" using seatedD(1) [OF seat t(1)] t(2) working by simp
    then have "c \<in> on_board (turns s)" using t(1) by (cases t) (auto simp: on_board_def)
    with t show "i \<in> ?who ` on_board (turns s)" by force
  qed
  moreover have "finite (on_board (turns s))"
    by (rule finite_subset [of _ "dom (turns s)"]) (use assms(2) in \<open>auto simp: on_board_def\<close>)
  ultimately have "card (set ?ids) \<le> card (on_board (turns s))" by (meson card_image_le card_mono finite_imageI order_trans)
  moreover have "card (set ?ids) = length (active (snapshot (board s)))"
    using distinct_card [OF status_invD(2) [OF inv]] by (simp del: set_map)
  ultimately show ?thesis using ok by (simp add: counted_def)
qed

lemma on_board_split: "finite (dom T) \<Longrightarrow> card (on_board T) \<le> card (holders holds_permit T) + card (unrecorded T)"
proof -
  assume fin: "finite (dom T)"
  have "on_board T \<subseteq> holders holds_permit T \<union> unrecorded T" by (auto simp: on_board_def holders_def unrecorded_def)
  moreover have "finite (holders holds_permit T \<union> unrecorded T)"
    by (rule finite_subset [OF _ fin]) (auto simp: holders_def held_def unrecorded_def split: option.splits)
  ultimately show ?thesis by (meson card_Un_le card_mono order_trans)
qed

text \<open>
  C11: Several connections at one builder, their steps in any order: as long as the build
  numbers last and the clock can be read, the permits held and left are always those the builder
  started with, the active builds the board counts exceed them by no more than the builds that
  have ended and are not recorded yet, and every connection that knows its id finds its build on
  the board at its stage.
\<close>

theorem builds_stay_within_permits:
  assumes "serve_start E mode w0 = (Ok srv, w)" "\<And>k. clock w k \<noteq> None"
    and "runs (floor_step S) (opened (rs_permits srv) (rs_status srv) w) events s" "length events < 2 ^ 64"
  shows "free_permits s + card (holders holds_permit (turns s)) = rs_permits srv
    \<and> active_count (server (snapshot (board s))) \<le> rs_permits srv + card (unrecorded (turns s))
    \<and> (\<nexists>c t. turns s c = Some t \<and> turn_id t \<noteq> ''build-unknown''
          \<and> \<not> fits_stage t (stage_of (board s) (turn_id t)))"
proof -
  have "floor_ok (length events + 0) (opened (rs_permits srv) (rs_status srv) w)"
    using serve_start_board [OF assms(1)] assms(2,4) by (intro floor_ok_opened) auto
  with assms(3) have ok: "floor_ok 0 s" by (rule floor_ok_runs)
  then have seat: "seated (turns s) (stage_of (board s))" unfolding floor_ok_def by blast
  have pool: "finite (dom (turns s))" "free_permits s + card (holders holds_permit (turns s)) = rs_permits srv"
    using queue.never_too_many [OF assms(3)] by (simp_all add: opened_def)
  show ?thesis
    using floor_active [OF ok pool(1)] on_board_split [OF pool(1)] pool(2) seatedD(1) [OF seat] by fastforce
qed

theorem builds_stay_within_permits_witness:
  "\<exists>srv w s. serve_start demo_serve_env (Mode_Data_Dir ''d'' []) demo_serve_world = (Ok srv, w)
    \<and> runs (floor_step demo_status_env) (opened (rs_permits srv) (rs_status srv) w) [Queue 0 ''c'' ''i'', Acquire 0] s
    \<and> free_permits s + card (holders holds_permit (turns s)) = rs_permits srv"
proof -
  obtain srv w where start: "serve_start demo_serve_env (Mode_Data_Dir ''d'' []) demo_serve_world = (Ok srv, w)"
    and clk: "clock w = (\<lambda>n. Some 50)"
    by (rule demo_server_starts)
  have permits: "0 < rs_permits srv"
    using start by (auto simp: serve_start_def bind_s_Ok_iff Let_def dest!: resolved_mode_bounds)
  let ?s = "opened (rs_permits srv) (rs_status srv) w"
  obtain i sw where enq: "status_enqueue demo_status_env ''c'' ''i'' (board ?s) (outside ?s) = (i, sw)"
    by (meson surj_pair)
  have one: "floor_step demo_status_env ?s (Queue 0 ''c'' ''i'') (onto sw 0 (Some (In_Queue i)) ?s)"
    by (rule floor_step.Queue [OF _ enq]) (simp add: opened_def)
  have two: "floor_step demo_status_env (onto sw 0 (Some (In_Queue i)) ?s) (Acquire 0) s"
    if "s = (onto sw 0 (Some (In_Queue i)) ?s)\<lparr>free_permits := rs_permits srv - 1,
      turns := (turns (onto sw 0 (Some (In_Queue i)) ?s))(0 \<mapsto> Permitted i)\<rparr>" for s
    using floor_step.Acquire [of "onto sw 0 (Some (In_Queue i)) ?s" 0 i demo_status_env] permits that
    by (simp add: onto_def opened_def)
  from one two have "\<exists>s. runs (floor_step demo_status_env) ?s [Queue 0 ''c'' ''i'', Acquire 0] s" by auto
  then obtain s where "runs (floor_step demo_status_env) ?s [Queue 0 ''c'' ''i'', Acquire 0] s" by blast
  with builds_stay_within_permits [OF start _ this] clk start show ?thesis by auto
qed

section \<open>More active builds than permits\<close>

lemma write_atomic_fine:
  assumes "faults w = (\<lambda>n. Fine)" "to_vec_pretty json v = Ok body" "temp_path_for pid p = Ok tmp"
  shows "fst (write_atomic pid json p v c w) = Ok ()"
  using assms
  by (simp add: write_atomic_def write_atomic_inner_def create_parent_def install_body_def write_temp_file_def
      set_existing_temp_permissions_def bind_s_def match_s_def context_s_def io_defs split: option.split)

text \<open>When its file can be written, a build knows its id.\<close>

lemma status_enqueue_known:
  assumes "status_enqueue E label inst st w = (i, sw)" "status_room st" "faults w = (\<lambda>n. Fine)" "clock w (ticks w) \<noteq> None"
    and "\<And>v. to_vec_pretty (status_json E) v = Ok body" "temp_path_for (status_pid E) (status_file E) = Ok tmp"
  shows "known i"
proof -
  obtain now where now: "clock w (ticks w) = Some now" using assms(4) by blast
  obtain j t where upd: "enqueue_update label inst st now = (j, t)" by fastforce
  have "faults (ticked w) = (\<lambda>n. Fine)" using assms(3) by (simp add: ticked_def)
  from write_atomic_fine [OF this assms(5,6)]
  have wr: "fst (write_atomic (status_pid E) (status_json E) (status_file E) (snapshot (refreshed t now))
      ''encode status JSON'' (ticked w)) = Ok ()" .
  have "i = j"
    using assms(1) now upd wr
    by (auto simp: status_enqueue_def with_status_update_def read_clock_def Let_def split: prod.splits sum.splits)
  then show ?thesis using enqueue_update_eq [OF assms(2) upd] build_id_not_unknown by simp
qed

lemma floor_active_two:
  assumes "floor_ok room s" "turns s c = Some t" "turns s d = Some u" "c \<noteq> d"
    and "known (turn_id t)" "known (turn_id u)"
    and "fits_stage t = (\<lambda>m. \<exists>p. m = Some (Working p))" "fits_stage u = (\<lambda>m. \<exists>p. m = Some (Working p))"
  shows "1 < active_count (server (snapshot (board s)))"
proof -
  let ?as = "active (snapshot (board s))"
  have seat: "seated (turns s) (stage_of (board s))" and cnt: "counted (board s)" using assms(1) by (simp_all add: floor_ok_def)
  have "stage_of (board s) i = Some (Working p) \<Longrightarrow> i \<in> a_request_id ` set ?as" for i p
    by (auto simp: stage_of_def find_Some_iff split: if_splits)
  then have two: "turn_id t \<in> a_request_id ` set ?as" "turn_id u \<in> a_request_id ` set ?as"
    using seatedD(1) [OF seat assms(2,5)] seatedD(1) [OF seat assms(3,6)] assms(7,8) by auto
  have "turn_id t \<noteq> turn_id u" using seat assms(2-5) by (auto simp: seated_def)
  then have "2 = card {turn_id t, turn_id u}" by simp
  also have "\<dots> \<le> card (a_request_id ` set ?as)" using two by (intro card_mono) auto
  also have "\<dots> \<le> card (set ?as)" by (rule card_image_le) simp
  also have "\<dots> \<le> length ?as" by (rule card_length)
  finally show ?thesis using cnt by (simp add: counted_def)
qed

text \<open>The first build ends and the second begins before the end of the first is recorded.\<close>

definition overtaking :: "floor_event list" where
  "overtaking = [Queue 0 ''c'' ''i'', Queue 1 ''d'' ''j'', Acquire 0, Begin 0, Leave 0 Success None, Acquire 1, Begin 1]"

lemma overtaking_run:
  assumes q0: "status_enqueue E ''c'' ''i'' st w = (i, st0, w0)" and q1: "status_enqueue E ''d'' ''j'' st0 w0 = (j, st1, w1)"
  shows "\<exists>s. runs (floor_step E) (opened 1 st w) overtaking s
    \<and> turns s 0 = Some (Ended i Success None) \<and> turns s 1 = Some (Building j)"
proof -
  obtain st2 w2 where b0: "status_start E i st1 w1 = (st2, w2)" by fastforce
  obtain st3 w3 where b1: "status_start E j st2 w2 = (st3, w3)" by fastforce
  let ?s0 = "opened 1 st w"
  let ?s1 = "onto (st0, w0) 0 (Some (In_Queue i)) ?s0"
  let ?s2 = "onto (st1, w1) 1 (Some (In_Queue j)) ?s1"
  let ?s3 = "?s2\<lparr>free_permits := 0, turns := (turns ?s2)(0 \<mapsto> Permitted i)\<rparr>"
  let ?s4 = "onto (st2, w2) 0 (Some (Building i)) ?s3"
  let ?s5 = "?s4\<lparr>free_permits := 1, turns := (turns ?s4)(0 \<mapsto> Ended i Success None)\<rparr>"
  let ?s6 = "?s5\<lparr>free_permits := 0, turns := (turns ?s5)(1 \<mapsto> Permitted j)\<rparr>"
  let ?s7 = "onto (st3, w3) 1 (Some (Building j)) ?s6"
  note onto = opened_def onto_def
  have "floor_step E ?s0 (Queue 0 ''c'' ''i'') ?s1" "floor_step E ?s1 (Queue 1 ''d'' ''j'') ?s2"
    by (rule floor_step.Queue; simp add: onto q0 q1)+
  moreover have "floor_step E ?s2 (Acquire 0) ?s3" "floor_step E ?s5 (Acquire 1) ?s6"
    using floor_step.Acquire [of ?s2 0 i E] floor_step.Acquire [of ?s5 1 j E] by (simp_all add: onto)
  moreover have "floor_step E ?s3 (Begin 0) ?s4" "floor_step E ?s6 (Begin 1) ?s7"
    using floor_step.Begin [of ?s3 0 i E] floor_step.Begin [of ?s6 1 j E] b0 b1 by (simp_all add: onto)
  moreover have "floor_step E ?s4 (Leave 0 Success None) ?s5"
    using floor_step.Leave [of ?s4 0 i E Success None] by (simp add: onto)
  ultimately have "runs (floor_step E) ?s0 overtaking ?s7"
    unfolding overtaking_def by (intro runs_Cons [OF _ runs_Nil] runs.intros)
  then show ?thesis by (intro exI [of _ ?s7]) (simp add: onto)
qed

text \<open>
  The permit of a build is dropped before its end is recorded. In between the next build is started,
  so the board, and whoever looks at it, sees two active builds of a builder that runs one at a time.
\<close>

theorem board_can_show_more_than_the_permits:
  "\<exists>s. runs (floor_step demo_status_env) (opened 1 demo_status calm_world) overtaking s
    \<and> 1 < active_count (server (snapshot (board s)))"
proof -
  let ?E = demo_status_env
  have tmp: "temp_path_for (status_pid ?E) (status_file ?E) = Ok ''/d/.status.json.7.tmp''"
    by (simp add: demo_status_env_def drv_eval)
  have enc: "to_vec_pretty (status_json ?E) v = Ok ''{}''" for v by (simp add: demo_status_env_def)
  obtain i st0 w0 where q0: "status_enqueue ?E ''c'' ''i'' demo_status calm_world = (i, st0, w0)" by (meson prod_cases3)
  obtain j st1 w1 where q1: "status_enqueue ?E ''d'' ''j'' st0 w0 = (j, st1, w1)" by (meson prod_cases3)
  have ok: "floor_ok (length overtaking + 0) (opened 1 demo_status calm_world)"
    by (rule floor_ok_opened) (simp_all add: demo_status_facts calm_world_def,
        simp_all add: demo_status_def live_ids_def counted_def overtaking_def)
  from overtaking_run [OF q0 q1] obtain s where run: "runs (floor_step ?E) (opened 1 demo_status calm_world) overtaking s"
    and s: "turns s 0 = Some (Ended i Success None)" "turns s 1 = Some (Building j)" by blast
  have known: "known i" by (rule status_enqueue_known [OF q0 _ _ _ enc tmp]) (simp_all add: demo_status_facts calm_world_def)
  have "known j"
  proof (rule status_enqueue_known [OF q1 _ _ _ enc tmp])
    have one: "run_status_op ?E (Enqueue ''c'' ''i'') (demo_status, calm_world) = (st0, w0)"
      using q0 by (simp add: run_status_op_def)
    then show "faults w0 = (\<lambda>n. Fine)" "clock w0 (ticks w0) \<noteq> None"
      using run_status_op_world [of ?E "Enqueue ''c'' ''i''" demo_status calm_world] by (simp_all add: calm_world_def)
    show "status_room st0"
      using run_status_op_move [OF demo_status_facts one] by (auto simp: demo_status_def status_room_def)
  qed
  with known s have "1 < active_count (server (snapshot (board s)))"
    by (intro floor_active_two [OF floor_ok_runs [OF run ok], of 0 "Ended i Success None" 1 "Building j"]) (auto simp: fun_eq_iff)
  with run show ?thesis by blast
qed

end
