(* ===== verification/Fill_Tasks.thy ===== *)
theory Fill_Tasks
  imports Server_Connection Permit_Pool
begin

text \<open>
  Parallel fills of the output cache (\<open>server/output_cache.rs\<close>: \<open>ensure_cache_entry\<close>). The streams of
  all connections and their prewarm tasks call it at once; what keeps them apart is a lock per hash of
  a store path and a semaphore of fill permits. A task is at one of the points of \<open>fill_pc\<close>, and one
  turn takes it over the next await. A guard is given back when its scope ends, that is when the task
  ends. A task set that is dropped, as the one of \<open>serve_output_cache\<close> when it returns an error, drops its
  tasks at the await they are at; a child process of theirs runs on, since \<open>run_nix_command\<close> does not
  set \<open>kill_on_drop\<close>. \<open>Output_Cache\<close> models one call by itself.
\<close>

section \<open>The tasks\<close>

datatype fill_pc =
    Looking          \<comment> \<open>before the first \<open>cache_entry_ready\<close>\<close>
  | Lock_Wanted      \<comment> \<open>waits for the lock of its hash\<close>
  | Looking_Again    \<comment> \<open>with the lock, before the second \<open>cache_entry_ready\<close>\<close>
  | Permit_Wanted    \<comment> \<open>waits for a permit\<close>
  | Clearing         \<comment> \<open>with a permit, before \<open>remove_stale_narinfo\<close>\<close>
  | Making           \<comment> \<open>before \<open>create_dir_all\<close>\<close>
  | Copying          \<comment> \<open>before \<open>copy_to_signed_binary_cache\<close>\<close>
  | Checking         \<comment> \<open>before the last \<open>cache_entry_ready\<close>\<close>
  | Filled
  | Refused anyhow

fun has_lock :: "fill_pc \<Rightarrow> bool" where
  "has_lock Looking_Again = True"
| "has_lock Permit_Wanted = True"
| "has_lock Clearing = True"
| "has_lock Making = True"
| "has_lock Copying = True"
| "has_lock Checking = True"
| "has_lock pc = False"

fun has_permit :: "fill_pc \<Rightarrow> bool" where
  "has_permit Clearing = True"
| "has_permit Making = True"
| "has_permit Copying = True"
| "has_permit Checking = True"
| "has_permit pc = False"

fun ended :: "fill_pc \<Rightarrow> bool" where
  "ended Filled = True"
| "ended (Refused e) = True"
| "ended pc = False"

text \<open>Where a step that succeeded or failed leads.\<close>

definition on_ready :: "fill_pc \<Rightarrow> bool result \<times> 'w \<Rightarrow> fill_pc \<times> 'w" where
  "on_ready pc rw = (case fst rw of Inl e \<Rightarrow> Refused e | Inr ready \<Rightarrow> if ready then Filled else pc, snd rw)"

definition on_done :: "fill_pc \<Rightarrow> unit result \<times> 'w \<Rightarrow> fill_pc \<times> 'w" where
  "on_done pc rw = (case fst rw of Inl e \<Rightarrow> Refused e | Inr u \<Rightarrow> pc, snd rw)"

text \<open>One turn of a task that fills the entry of \<open>p\<close>.\<close>

fun fill_turn ::
  "('id, 'addr, 'n) server_env \<Rightarrow> store_path \<Rightarrow> fill_pc \<Rightarrow> 'n srv_world \<Rightarrow> fill_pc \<times> 'n srv_world" where
  "fill_turn E p Looking w = on_ready Lock_Wanted (cache_entry_ready (env_cache E) (narinfo_file (env_cache E) p) w)"
| "fill_turn E p Lock_Wanted w = (Looking_Again, w)"
| "fill_turn E p Looking_Again w = on_ready Permit_Wanted (cache_entry_ready (env_cache E) (narinfo_file (env_cache E) p) w)"
| "fill_turn E p Permit_Wanted w =
    on_done Clearing (context_s ''cache fill semaphore closed'' (io_call ''acquire_owned'') w)"
| "fill_turn E p Clearing w = on_done Making (remove_stale_narinfo (narinfo_file (env_cache E) p) w)"
| "fill_turn E p Making w =
    on_done Copying (context_s (''create '' @ cache_dir (env_cache E)) (fs_create_dir_all (cache_dir (env_cache E))) w)"
| "fill_turn E p Copying w =
    on_done Checking (copy_to_signed_binary_cache (nixc E) [p] (cache_dir (env_cache E))
      (key_secret_path (cache_key (env_cache E))) w)"
| "fill_turn E p Checking w =
    on_ready (Refused (Msg (''cache entry was not ready after fill: '' @ as_str p)))
      (cache_entry_ready (env_cache E) (narinfo_file (env_cache E) p) w)"
| "fill_turn E p pc w = (pc, w)"

record 'w fills =
  fill_tasks :: "nat \<Rightarrow> (store_path \<times> fill_pc) option"
  fill_permits :: nat
  orphans :: "store_path list"   \<comment> \<open>copies that run on after their task was dropped\<close>
  fill_world :: 'w

definition lock_free :: "string \<Rightarrow> 'w fills \<Rightarrow> bool" where
  "lock_free h s \<longleftrightarrow> (\<nexists>t q pc. fill_tasks s t = Some (q, pc) \<and> store_path_hash q = h \<and> has_lock pc)"

text \<open>Whether a task at this point may take its turn.\<close>

fun may_turn :: "'w fills \<Rightarrow> store_path \<Rightarrow> fill_pc \<Rightarrow> bool" where
  "may_turn s p Lock_Wanted = lock_free (store_path_hash p) s"
| "may_turn s p Permit_Wanted = (0 < fill_permits s)"
| "may_turn s p pc = (\<not> ended pc)"

datatype fill_event = Spawn nat store_path | Turn nat | Drop nat | Orphan_Ends store_path

inductive fill_step ::
  "('id, 'addr, 'n) server_env \<Rightarrow> 'n srv_world fills \<Rightarrow> fill_event \<Rightarrow> 'n srv_world fills \<Rightarrow> bool" for E where
  Spawn: "fill_tasks s t = None \<Longrightarrow>
    fill_step E s (Spawn t p) (s\<lparr>fill_tasks := (fill_tasks s)(t \<mapsto> (p, Looking))\<rparr>)"
| Turn: "fill_tasks s t = Some (p, pc) \<Longrightarrow> may_turn s p pc \<Longrightarrow> fill_turn E p pc (fill_world s) = (pc', w) \<Longrightarrow>
    fill_step E s (Turn t)
      (s\<lparr>fill_tasks := (fill_tasks s)(t \<mapsto> (p, pc')), fill_world := w,
         fill_permits := fill_permits s + of_bool (has_permit pc) - of_bool (has_permit pc')\<rparr>)"
| Drop: "fill_tasks s t = Some (p, pc) \<Longrightarrow> \<not> ended pc \<Longrightarrow>
    fill_step E s (Drop t)
      (s\<lparr>fill_tasks := (fill_tasks s)(t := None), fill_permits := fill_permits s + of_bool (has_permit pc),
         orphans := (if pc = Copying then p # orphans s else orphans s)\<rparr>)"
| Orphan_Ends: "orphans s = ps @ p # qs \<Longrightarrow> fill_turn E p Copying (fill_world s) = (pc', w) \<Longrightarrow>
    fill_step E s (Orphan_Ends p) (s\<lparr>orphans := ps @ qs, fill_world := w\<rparr>)"

definition no_fills :: "nat \<Rightarrow> 'w \<Rightarrow> 'w fills" where
  "no_fills n w = \<lparr>fill_tasks = (\<lambda>t. None), fill_permits = n, orphans = [], fill_world = w\<rparr>"

section \<open>A task by itself\<close>

definition fill_alone ::
  "('id, 'addr, 'n) server_env \<Rightarrow> store_path \<Rightarrow> fill_pc \<times> 'n srv_world \<Rightarrow> fill_pc \<times> 'n srv_world" where
  "fill_alone E p s = (case s of (pc, w) \<Rightarrow> fill_turn E p pc w)"


section \<open>Permits and locks\<close>

lemma on_result [simp]:
  "fst (on_ready pc rw) = (case fst rw of Inl e \<Rightarrow> Refused e | Inr ready \<Rightarrow> if ready then Filled else pc)"
  "fst (on_done pc dw) = (case fst dw of Inl e \<Rightarrow> Refused e | Inr u \<Rightarrow> pc)"
  by (simp_all add: on_ready_def on_done_def)

text \<open>A turn ends the task or takes it one point on.\<close>

fun next_pc :: "fill_pc \<Rightarrow> fill_pc" where
  "next_pc Looking = Lock_Wanted"
| "next_pc Lock_Wanted = Looking_Again"
| "next_pc Looking_Again = Permit_Wanted"
| "next_pc Permit_Wanted = Clearing"
| "next_pc Clearing = Making"
| "next_pc Making = Copying"
| "next_pc Copying = Checking"
| "next_pc pc = Filled"

lemma fill_turn_next: "ended (fst (fill_turn E p pc w)) \<or> fst (fill_turn E p pc w) = next_pc pc"
  by (cases pc) (auto split: sum.split)

lemma has_permit_next:
  "has_permit (fst (fill_turn E p pc w)) \<Longrightarrow> has_permit pc \<or> pc = Permit_Wanted"
  using fill_turn_next [of E p pc w] by (cases pc; auto elim: ended.elims)

lemma has_lock_next: "has_lock (fst (fill_turn E p pc w)) \<Longrightarrow> has_lock pc \<or> pc = Lock_Wanted"
  using fill_turn_next [of E p pc w] by (cases pc; auto elim: ended.elims)

interpretation fill: permit_pool "fill_step E" fill_tasks fill_permits "\<lambda>(p, pc). has_permit pc" for E
proof
  show "\<exists>c x. fill_tasks s' = (fill_tasks s)(c := x)
      \<and> fill_permits s' + of_bool (held (\<lambda>(p, pc). has_permit pc) x)
        = fill_permits s + of_bool (held (\<lambda>(p, pc). has_permit pc) (fill_tasks s c))"
    if "fill_step E s e s'" for s e and s' :: "'c srv_world fills"
    using that
  proof (induction rule: fill_step.induct)
    case (Spawn s t p)
    then show ?case by (intro exI [of _ t] exI [of _ "Some (p, Looking)"]) simp
  next
    case (Turn s t p pc pc' w)
    have "has_permit pc' \<Longrightarrow> has_permit pc \<or> 0 < fill_permits s"
      using has_permit_next [of E p pc "fill_world s"] Turn(2,3) by auto
    then show ?case using Turn(1) by (intro exI [of _ t] exI [of _ "Some (p, pc')"]) (auto simp: of_bool_def)
  next
    case (Drop s t p pc)
    then show ?case by (intro exI [of _ t] exI [of _ None]) simp
  next
    case (Orphan_Ends s ps p qs pc' w)
    show ?case by (intro exI [of _ 0] exI [of _ "fill_tasks s 0"]) simp
  qed
qed

text \<open>At most one task at a time holds the lock of a hash.\<close>

definition one_per_hash :: "'w fills \<Rightarrow> bool" where
  "one_per_hash s \<longleftrightarrow>
    (\<forall>t u p q pc qc. fill_tasks s t = Some (p, pc) \<longrightarrow> fill_tasks s u = Some (q, qc) \<longrightarrow>
      store_path_hash p = store_path_hash q \<longrightarrow> has_lock pc \<longrightarrow> has_lock qc \<longrightarrow> t = u)"

lemma one_per_hash_step: "fill_step E s e s' \<Longrightarrow> one_per_hash s \<Longrightarrow> one_per_hash s'"
proof (induction rule: fill_step.induct)
  case (Spawn s t p)
  then show ?case by (auto simp: one_per_hash_def)
next
  case (Turn s t p pc pc' w)
  have lock: "has_lock pc \<or> lock_free (store_path_hash p) s" if "has_lock pc'"
    using has_lock_next [of E p pc "fill_world s"] Turn(2,3) that by auto
  have alone: "u = t" if "has_lock pc'" "fill_tasks s u = Some (q, qc)" "store_path_hash p = store_path_hash q" "has_lock qc" for u q qc
    using lock [OF that(1)] that Turn(1,4) unfolding one_per_hash_def lock_free_def by metis
  show ?case
    unfolding one_per_hash_def using alone Turn(4) by (auto simp: one_per_hash_def)
qed (auto simp: one_per_hash_def split: if_splits)

text \<open>The copies that run: those of the tasks and those that run on.\<close>

fun is_drop :: "fill_event \<Rightarrow> bool" where
  "is_drop (Drop t) = True"
| "is_drop e = False"

definition copies :: "'w fills \<Rightarrow> nat" where
  "copies s = card {t. \<exists>p. fill_tasks s t = Some (p, Copying)} + length (orphans s)"

lemma orphans_runs: "runs (fill_step E) s events s' \<Longrightarrow> length (orphans s') \<le> length (orphans s) + length (filter is_drop events)"
proof (induction rule: runs.induct)
  case (runs_Cons s e t es u)
  from runs_Cons.hyps(1) have "length (orphans t) \<le> length (orphans s) + (if is_drop e then 1 else 0)"
    by (cases rule: fill_step.cases) auto
  with runs_Cons.IH show ?case by auto
qed simp


section \<open>The tasks come to an end\<close>

fun turns_left :: "fill_pc \<Rightarrow> nat" where
  "turns_left Looking = 8"
| "turns_left Lock_Wanted = 7"
| "turns_left Looking_Again = 6"
| "turns_left Permit_Wanted = 5"
| "turns_left Clearing = 4"
| "turns_left Making = 3"
| "turns_left Copying = 2"
| "turns_left Checking = 1"
| "turns_left pc = 0"

definition weight :: "(nat \<Rightarrow> (store_path \<times> fill_pc) option) \<Rightarrow> nat" where
  "weight T = (\<Sum>t\<in>dom T. turns_left (snd (the (T t))))"

abbreviation work :: "'w fills \<Rightarrow> nat" where
  "work s \<equiv> weight (fill_tasks s)"

lemma fill_turn_counts: "\<not> ended pc \<Longrightarrow> turns_left (fst (fill_turn E p pc w)) < turns_left pc"
  by (cases pc) (auto split: sum.split)

lemma weight_upd:
  assumes "finite (dom T)"
  shows "weight (T(t \<mapsto> x)) = turns_left (snd x) + weight (T(t := None))"
proof -
  have "(\<Sum>u\<in>dom T - {t}. turns_left (snd (the ((T(t \<mapsto> x)) u)))) = weight (T(t := None))"
    unfolding weight_def by (rule sum.cong) auto
  then show ?thesis using assms by (simp add: weight_def sum.insert_remove)
qed

lemma weight_at: "finite (dom T) \<Longrightarrow> T t = Some x \<Longrightarrow> weight T = turns_left (snd x) + weight (T(t := None))"
  using weight_upd [of T t x] by (simp add: fun_upd_idem)

fun is_turn :: "fill_event \<Rightarrow> bool" where
  "is_turn (Turn t) = True"
| "is_turn e = False"

fun is_spawn :: "fill_event \<Rightarrow> bool" where
  "is_spawn (Spawn t p) = True"
| "is_spawn e = False"

lemma work_step:
  assumes "fill_step E s e s'" "finite (dom (fill_tasks s))"
  shows "work s' + (if is_turn e then 1 else 0) \<le> work s + (if is_spawn e then 8 else 0)"
  using assms
proof (induction rule: fill_step.induct)
  case (Spawn s t p)
  then have "(fill_tasks s)(t := None) = fill_tasks s" by (simp add: fun_upd_idem)
  with weight_upd [OF Spawn(2), of t "(p, Looking)"] show ?case by (simp del: fun_upd_apply)
next
  case (Turn s t p pc pc' w)
  have "\<not> ended pc" using Turn(2) by (cases pc) simp_all
  then have "turns_left pc' < turns_left pc" using fill_turn_counts [of pc E p "fill_world s"] Turn(3) by simp
  then show ?case using weight_at [OF Turn(4,1)] weight_upd [OF Turn(4), of t "(p, pc')"] by (simp del: fun_upd_apply)
next
  case (Drop s t p pc)
  then show ?case using weight_at [OF Drop(3,1)] by (simp del: fun_upd_apply)
qed simp

lemma work_runs:
  "runs (fill_step E) s events s' \<Longrightarrow> finite (dom (fill_tasks s)) \<Longrightarrow>
    work s' + length (filter is_turn events) \<le> work s + 8 * length (filter is_spawn events)"
proof (induction rule: runs.induct)
  case (runs_Cons s e t es u)
  have "finite (dom (fill_tasks t))" using fill.conserved_step [OF runs_Cons.hyps(1) runs_Cons.prems] by simp
  with runs_Cons.IH work_step [OF runs_Cons.hyps(1) runs_Cons.prems] show ?case by (auto split: if_splits)
qed simp

text \<open>Whoever waits, waits for somebody who can move.\<close>

lemma fill_progress:
  assumes "fill_permits s + card (holders (\<lambda>(p, pc). has_permit pc) (fill_tasks s)) = n" "0 < n"
    and "fill_tasks s t = Some (p, pc)" "\<not> ended pc"
  shows "\<exists>u q qc. fill_tasks s u = Some (q, qc) \<and> may_turn s q qc"
proof (rule ccontr)
  assume stuck: "\<not> ?thesis"
  have waits: "ended qc \<or> qc = Lock_Wanted \<or> qc = Permit_Wanted" if "fill_tasks s u = Some (q, qc)" for u q qc
    using stuck that by (cases qc) force+
  have "holders (\<lambda>(p, pc). has_permit pc) (fill_tasks s) = {}"
    using waits by (force simp: holders_def held_def split: option.splits elim: ended.elims)
  then have "0 < fill_permits s" using assms(1,2) by simp
  then have locks: "ended qc \<or> qc = Lock_Wanted" if "fill_tasks s u = Some (q, qc)" for u q qc
    using waits [OF that] stuck that by force
  then have "lock_free h s" for h
    unfolding lock_free_def by (metis ended.elims(2) has_lock.simps)
  then show False using locks [OF assms(3)] assms(3,4) stuck by force
qed

text \<open>
  C27: The locks and permits of the fills never block each other: as long as a task has not
  ended, some task can take its turn, and a run has at most eight turns for each task that was
  spawned.
\<close>

theorem fills_come_to_an_end:
  assumes "runs (fill_step E) (no_fills n w) events s" "0 < n"
  shows "length (filter is_turn events) \<le> 8 * length (filter is_spawn events)
    \<and> (if \<exists>t p pc. fill_tasks s t = Some (p, pc) \<and> \<not> ended pc then \<exists>t s'. fill_step E s (Turn t) s' else True)"
proof -
  have "finite (dom (fill_tasks (no_fills n w)))" "work (no_fills n w) = 0"
    by (simp_all add: no_fills_def weight_def)
  with work_runs [OF assms(1)] have "length (filter is_turn events) \<le> 8 * length (filter is_spawn events)"
    by simp
  moreover have "\<exists>t s'. fill_step E s (Turn t) s'" if "fill_tasks s t = Some (p, pc)" "\<not> ended pc" for t p pc
  proof -
    have "fill_permits s + card (holders (\<lambda>(p, pc). has_permit pc) (fill_tasks s)) = n"
      using fill.never_too_many [OF assms(1)] by (simp add: no_fills_def)
    from fill_progress [OF this assms(2) that] obtain u q qc where "fill_tasks s u = Some (q, qc)" "may_turn s q qc"
      by blast
    then show ?thesis using fill_step.Turn [of s u q qc E] by (metis surj_pair)
  qed
  ultimately show ?thesis by auto
qed

section \<open>Two tasks for one path\<close>

lemma demo_fills:
  "\<exists>s. runs (fill_step demo_server) (no_fills 1 (demo_srv_world (\<lambda>n. Fine) []))
    [Spawn 0 (demo_path ''out''), Spawn 1 (demo_path ''out''), Turn 0] s"
proof -
  let ?s0 = "no_fills 1 (demo_srv_world (\<lambda>n. Fine) [])" and ?p = "demo_path ''out''"
  let ?s1 = "?s0\<lparr>fill_tasks := (fill_tasks ?s0)(0 \<mapsto> (?p, Looking))\<rparr>"
  let ?s2 = "?s1\<lparr>fill_tasks := (fill_tasks ?s1)(1 \<mapsto> (?p, Looking))\<rparr>"
  obtain pc w where turn: "fill_turn demo_server ?p Looking (fill_world ?s2) = (pc, w)" by (meson surj_pair)
  have "fill_step demo_server ?s0 (Spawn 0 ?p) ?s1" "fill_step demo_server ?s1 (Spawn 1 ?p) ?s2"
    by (rule fill_step.Spawn; simp add: no_fills_def)+
  moreover have "\<exists>s. fill_step demo_server ?s2 (Turn 0) s"
    using fill_step.Turn [OF _ _ turn, of 0] by (force simp: no_fills_def)
  ultimately show ?thesis by (blast intro: runs.intros)
qed


theorem fills_come_to_an_end_witness:
  "\<exists>s. runs (fill_step demo_server) (no_fills 1 (demo_srv_world (\<lambda>n. Fine) []))
      [Spawn 0 (demo_path ''out''), Spawn 1 (demo_path ''out''), Turn 0] s
    \<and> (if \<exists>t p pc. fill_tasks s t = Some (p, pc) \<and> \<not> ended pc then \<exists>t s'. fill_step demo_server s (Turn t) s' else True)"
  using demo_fills fills_come_to_an_end [of demo_server 1] by (metis zero_less_one)

section \<open>A dropped fill copies on\<close>

text \<open>An empty cache, and no system call that fails.\<close>

definition empty_disk :: "'z io_world_scheme \<Rightarrow> bool" where
  "empty_disk w \<longleftrightarrow> files w = (\<lambda>p. None) \<and> faults w = (\<lambda>k. Fine)"

fun before_copy :: "fill_pc \<Rightarrow> bool" where
  "before_copy Copying = False"
| "before_copy Checking = False"
| "before_copy pc = (\<not> ended pc)"

lemma turn_on_empty_disk:
  "before_copy pc \<Longrightarrow> empty_disk w \<Longrightarrow> \<exists>w'. fill_turn E p pc w = (next_pc pc, w') \<and> empty_disk w'"
  by (cases pc) (auto simp: empty_disk_def on_ready_def on_done_def cache_entry_ready_def remove_stale_narinfo_def
      bind_s_def context_s_def io_defs)

text \<open>The only task of the cache, at one of its points.\<close>

abbreviation only_at :: "store_path list \<Rightarrow> nat \<Rightarrow> store_path \<Rightarrow> fill_pc \<Rightarrow> nat \<Rightarrow> 'w \<Rightarrow> 'w fills" where
  "only_at ps t p pc k w \<equiv> \<lparr>fill_tasks = [t \<mapsto> (p, pc)], fill_permits = k, orphans = ps, fill_world = w\<rparr>"

lemma lone_task_turn:
  assumes "before_copy pc" "empty_disk w" "pc = Permit_Wanted \<Longrightarrow> 0 < k"
  shows "\<exists>w'. fill_step E (only_at ps t p pc k w) (Turn t) (only_at ps t p (next_pc pc) (if pc = Permit_Wanted then k - 1 else k) w')
    \<and> empty_disk w'"
proof -
  obtain w' where turn: "fill_turn E p pc w = (next_pc pc, w')" "empty_disk w'"
    using turn_on_empty_disk [OF assms(1,2)] by blast
  have "may_turn (only_at ps t p pc k w) p pc" using assms(1,3) by (cases pc) (simp_all add: lock_free_def)
  then have "fill_step E (only_at ps t p pc k w) (Turn t) (only_at ps t p (next_pc pc) (if pc = Permit_Wanted then k - 1 else k) w')"
    using fill_step.Turn [of "only_at ps t p pc k w" t p pc E "next_pc pc" w'] turn(1) assms(1) by (cases pc) simp_all
  with turn(2) show ?thesis by blast
qed

lemma lone_task_copies:
  assumes "empty_disk w"
  shows "\<exists>w'. runs (fill_step E) (only_at ps t p Looking (Suc k) w) (replicate 6 (Turn t)) (only_at ps t p Copying k w') \<and> empty_disk w'"
proof -
  note next_turn = runs_Cons [of "fill_step E"]
  note turn = lone_task_turn [where E = E and ps = ps and t = t and p = p]
  obtain w1 where s1: "fill_step E (only_at ps t p Looking (Suc k) w)
      (Turn t) (only_at ps t p Lock_Wanted (Suc k) w1)"
    and e1: "empty_disk w1"
    using turn [where pc = Looking and w = w and k = "Suc k"] assms by auto
  obtain w2 where s2: "fill_step E (only_at ps t p Lock_Wanted (Suc k) w1)
      (Turn t) (only_at ps t p Looking_Again (Suc k) w2)"
    and e2: "empty_disk w2"
    using turn [where pc = Lock_Wanted and w = w1 and k = "Suc k"] e1 by auto
  obtain w3 where s3: "fill_step E (only_at ps t p Looking_Again (Suc k) w2)
      (Turn t) (only_at ps t p Permit_Wanted (Suc k) w3)"
    and e3: "empty_disk w3"
    using turn [where pc = Looking_Again and w = w2 and k = "Suc k"] e2 by auto
  obtain w4 where s4: "fill_step E (only_at ps t p Permit_Wanted (Suc k) w3)
      (Turn t) (only_at ps t p Clearing (k) w4)"
    and e4: "empty_disk w4"
    using turn [where pc = Permit_Wanted and w = w3 and k = "Suc k"] e3 by auto
  obtain w5 where s5: "fill_step E (only_at ps t p Clearing (k) w4)
      (Turn t) (only_at ps t p Making (k) w5)"
    and e5: "empty_disk w5"
    using turn [where pc = Clearing and w = w4 and k = "k"] e4 by auto
  obtain w6 where s6: "fill_step E (only_at ps t p Making (k) w5)
      (Turn t) (only_at ps t p Copying (k) w6)"
    and e6: "empty_disk w6"
    using turn [where pc = Making and w = w5 and k = "k"] e5 by auto
  have "replicate 6 (Turn t) = [Turn t, Turn t, Turn t, Turn t, Turn t, Turn t]" by (simp add: eval_nat_numeral)
  moreover have "runs (fill_step E) (only_at ps t p Looking (Suc k) w) [Turn t, Turn t, Turn t, Turn t, Turn t, Turn t] (only_at ps t p Copying k w6)"
    by (rule next_turn [OF s1] next_turn [OF s2] next_turn [OF s3] next_turn [OF s4] next_turn [OF s5] next_turn [OF s6] runs_Nil)+
  ultimately show ?thesis using e6 by (intro exI [of _ w6]) (simp del: runs_simps)
qed

text \<open>
  A connection that fails while a fill copies drops the fill, which gives back its lock and its permit.
  The copy runs on, and the next task for the path copies to the same place beside it: two copies
  of one path under one permit.
\<close>

theorem dropped_fill_copies_on:
  "\<exists>s. runs (fill_step demo_server) (no_fills 1 (demo_srv_world (\<lambda>n. Fine) []))
      (Spawn 0 (demo_path ''out'') # replicate 6 (Turn 0) @ [Drop 0, Spawn 1 (demo_path ''out'')] @ replicate 6 (Turn 1)) s
    \<and> fill_tasks s = [1 \<mapsto> (demo_path ''out'', Copying)] \<and> orphans s = [demo_path ''out''] \<and> copies s = 2"
proof -
  let ?p = "demo_path ''out''" and ?w = "demo_srv_world (\<lambda>n. Fine) []"
  let ?s0 = "no_fills 1 ?w :: unit srv_world fills"
  have "empty_disk ?w" by (simp add: empty_disk_def demo_srv_world_def)
  then obtain w1 where one: "runs (fill_step demo_server) (only_at [] 0 ?p Looking 1 ?w) (replicate 6 (Turn 0)) (only_at [] 0 ?p Copying 0 w1)"
    "empty_disk w1" using lone_task_copies [of ?w demo_server 0 ?p 0 "[]"] by auto
  then obtain w2 where two: "runs (fill_step demo_server) (only_at [?p] 1 ?p Looking 1 w1) (replicate 6 (Turn 1)) (only_at [?p] 1 ?p Copying 0 w2)"
    using lone_task_copies [of w1 demo_server 1 ?p 0 "[?p]"] by auto
  let ?s2 = "\<lparr>fill_tasks = Map.empty, fill_permits = 1, orphans = [?p], fill_world = w1\<rparr>"
  have spawn: "fill_step demo_server ?s0 (Spawn 0 ?p) (only_at [] 0 ?p Looking 1 ?w)"
    using fill_step.Spawn [of ?s0 0 demo_server ?p] by (simp add: no_fills_def)
  have cut: "fill_step demo_server (only_at [] 0 ?p Copying 0 w1) (Drop 0) ?s2"
    using fill_step.Drop [of "only_at [] 0 ?p Copying 0 w1" 0 ?p Copying demo_server] by (simp add: no_fills_def)
  have again: "fill_step demo_server ?s2 (Spawn 1 ?p) (only_at [?p] 1 ?p Looking 1 w1)"
    using fill_step.Spawn [of ?s2 1 demo_server ?p] by (simp add: no_fills_def)
  have "runs (fill_step demo_server) ?s0
      (Spawn 0 ?p # replicate 6 (Turn 0) @ [Drop 0, Spawn 1 ?p] @ replicate 6 (Turn 1)) (only_at [?p] 1 ?p Copying 0 w2)"
    using runs_Cons [of "fill_step demo_server", OF spawn runs_append [OF one(1) runs_Cons [OF cut runs_Cons [OF again two]]]]
    by (simp only: append_Cons append_Nil)
  then show ?thesis by (intro exI [of _ "only_at [?p] 1 ?p Copying 0 w2"]) (simp add: copies_def no_fills_def)
qed

end
