(* ===== verification/Interrupted_Read.thy ===== *)
theory Interrupted_Read
  imports Wire
begin

text \<open>
  The control stream while the output cache is served (\<open>server/output_cache.rs\<close>:
  \<open>serve_output_cache\<close>). The read of a message is one arm of a \<open>tokio::select!\<close>; when another arm
  wins, the read is dropped and started anew, and the bytes it had taken off the stream are gone
  (\<open>RecvStream::read_exact\<close> is documented as not safe to cancel). \<open>Output_Cache\<close> models the loop
  on whole messages, that is with reads that are dropped only before their first byte.
\<close>

text \<open>A read that is dropped after it has taken \<open>k\<close> bytes.\<close>

definition dropped_read :: "nat \<Rightarrow> ('z stream_world_scheme) \<Rightarrow> 'z stream_world_scheme" where
  "dropped_read k w = w\<lparr>incoming := drop k (incoming w)\<rparr>"

text \<open>The read of the loop, after other arms have won with \<open>k\<close> bytes taken, for every \<open>k\<close> of \<open>ks\<close>.\<close>

fun select_control :: "(string \<Rightarrow> 'm result) \<Rightarrow> nat list \<Rightarrow> ('z stream_world_scheme, 'm) step" where
  "select_control de [] w = read_json de w"
| "select_control de (k # ks) w = select_control de ks (dropped_read k w)"

lemma select_control_eq: "select_control de ks w = read_json de (dropped_read (sum_list ks) w)"
  by (induction ks arbitrary: w) (simp_all add: dropped_read_def add.commute)

text \<open>A length of which one of the first three bytes is not zero is at least 256.\<close>

lemma four_bytes_large:
  assumes "4 \<le> length s" "i < 3" "0 < byte (s ! i)"
  shows "256 \<le> unat (from_be_bytes (take 4 s))"
proof -
  obtain a b c d t where s: "s = a # b # c # d # t"
    using assms(1) by (auto simp: eval_nat_numeral Suc_le_length_iff)
  have less: "byte a < 256" "byte b < 256" "byte c < 256" "byte d < 256" by (simp_all add: byte_def)
  have n: "unat (from_be_bytes (take 4 s)) = ((byte a * 256 + byte b) * 256 + byte c) * 256 + byte d"
  proof -
    have "((byte a * 256 + byte b) * 256 + byte c) * 256 + byte d < 2 ^ 32" using less by simp
    moreover have "from_be_bytes (take 4 s) = of_nat (((byte a * 256 + byte b) * 256 + byte c) * 256 + byte d)"
      by (simp add: s from_be_bytes_def algebra_simps)
    ultimately show ?thesis by (simp add: unat_of_nat del: of_nat_add of_nat_mult)
  qed
  have "0 < byte a \<or> 0 < byte b \<or> 0 < byte c"
    using assms(2,3) by (auto simp: s less_Suc_eq numeral_3_eq_3)
  then show ?thesis unfolding n by auto
qed

lemma unframe1_short:
  assumes "length s \<le> 259" "4 \<le> length s \<Longrightarrow> \<exists>i<3. 0 < byte (s ! i)"
  shows "\<not> is_ok (fst (unframe1 de s))"
proof (cases "4 \<le> length s")
  case True
  with assms(2) four_bytes_large have "256 \<le> unat (from_be_bytes (take 4 s))" by blast
  with assms(1) have "length s - 4 < unat (from_be_bytes (take 4 s))" by linarith
  with True show ?thesis by (simp add: unframe1_def Let_def)
qed (simp add: unframe1_def)

text \<open>Whatever is left of a short frame of text, it does not begin with a length that fits.\<close>

lemma frame_rest:
  assumes "body \<noteq> []" "length body < 256" "\<forall>c\<in>set body. 0 < byte c" "0 < n"
  shows "\<not> is_ok (fst (unframe1 de (drop n (frame_of body))))"
proof (rule unframe1_short)
  let ?l = "char_of (length body) :: char"
  have frame: "frame_of body = [char_of (0::nat), char_of (0::nat), char_of (0::nat), ?l] @ body"
    using assms(2) by (simp add: frame_of_def to_be_bytes_def length_frame)
  have l: "0 < byte ?l" using assms(1,2) by (simp add: byte_def)
  show "length (drop n (frame_of body)) \<le> 259" using assms(2,4) by (simp add: frame)
  assume four: "4 \<le> length (drop n (frame_of body))"
  consider "n = 1" | "n = 2" | "n = 3" | "4 \<le> n" using assms(4) by linarith
  then show "\<exists>i<3. 0 < byte (drop n (frame_of body) ! i)"
  proof cases
    case 4
    then have "drop n (frame_of body) = drop (n - 4) body" by (simp add: frame drop_Cons split: nat.split)
    with four assms(3) show ?thesis by (intro exI [of _ 0]) (simp add: nth_drop)
  qed (use l in \<open>auto simp: frame eval_nat_numeral intro: exI [of _ 0] exI [of _ 1] exI [of _ 2]\<close>)
qed

text \<open>
  C28: While cache files are served, a short control message gets through exactly if no read of
  it was dropped after its first byte; otherwise the rest of the message is taken for a length
  and the conversation fails.
\<close>

theorem control_message_needs_an_unbroken_read:
  assumes "quiet w" "incoming w = frame_of body" "de body = Ok m"
    and "body \<noteq> []" "length body < 256" "\<forall>c\<in>set body. 0 < byte c"
  shows "if sum_list ks = 0 then fst (select_control de ks w) = Ok m else \<not> is_ok (fst (select_control de ks w))"
proof -
  have read: "fst (select_control de ks w) = fst (unframe1 de (drop (sum_list ks) (frame_of body)))"
  proof -
    have "quiet (dropped_read (sum_list ks) w)" using assms(1) by (simp add: quiet_def dropped_read_def)
    from read_json_eq [OF this, of de] show ?thesis
      by (auto simp: select_control_eq dropped_read_def assms(2))
  qed
  have "unframe1 de (frame_of body @ []) = (with_context ''decode wire message'' (de body), [])"
    using assms(5) by (intro unframe1_frame) (simp add: MAX_MESSAGE_LEN_def)
  then have "fst (unframe1 de (frame_of body)) = Ok m" by (simp add: assms(3))
  then show ?thesis using frame_rest [OF assms(4-6), of "sum_list ks" de] unfolding read by (cases "sum_list ks = 0") (simp_all del: sum_list_eq_0_iff)
qed

text \<open>The end of a conversation, undisturbed and with a stream accepted after its length was read.\<close>

theorem control_message_needs_an_unbroken_read_witness:
  "fst (select_control (\<lambda>s. Ok OutputCacheDone) [0, 0] (demo_stream (frame_of ''{\"type\":\"output_cache_done\"}''))) = Ok OutputCacheDone
    \<and> \<not> is_ok (fst (select_control (\<lambda>s. Ok OutputCacheDone) [0, 4] (demo_stream (frame_of ''{\"type\":\"output_cache_done\"}''))))"
proof -
  let ?body = "''{\"type\":\"output_cache_done\"}''"
  have body: "?body \<noteq> []" "length ?body < 256" "\<forall>c\<in>set ?body. 0 < byte c" by (simp_all add: byte_def)
  note read = control_message_needs_an_unbroken_read [OF quiet_demo_stream _ _ body, of _ "\<lambda>s. Ok OutputCacheDone" OutputCacheDone]
  from read [of "frame_of ?body" "[0, 0]"] read [of "frame_of ?body" "[0, 4]"] show ?thesis
    by (simp only: demo_stream_def stream_world.simps) simp
qed

end
