(* ===== verification/Server_Life.thy ===== *)
theory Server_Life
  imports Server_Connection
begin

text \<open>
  The life of a builder (\<open>server/mod.rs\<close>: \<open>accept_loop\<close>): the connections it accepts one after the
  other, and ticket commands that other processes run between them. Each connection is handled
  here before the next is accepted; connections that overlap are the subject of \<open>Build_Floor\<close>.
\<close>

section \<open>The accept loop\<close>

datatype ('id, 'addr) arrival =
    Ctrl_C
  | Endpoint_Closed
  | Handshake_Failed
  | Arrived 'id "message result list" "upload list" "serve_event list"
  | Elsewhere "('id, 'addr) ticket_op"   \<comment> \<open>another process works on the ticket store\<close>

text \<open>A new connection has streams of its own. An error of its handler is printed and forgotten.\<close>

definition fresh_streams :: "message result list \<Rightarrow> upload list \<Rightarrow> serve_event list \<Rightarrow> 'n srv_world \<Rightarrow> 'n srv_world" where
  "fresh_streams msgs ups evs w =
    w\<lparr>rx := msgs, tx := [], uploads := ups, serve_events := evs, body_out := [], fin := False,
      allowed_nar := [], served := []\<rparr>"

fun accept_loop :: "('id, 'addr, 'n) server_env \<Rightarrow> ('id, 'addr) arrival list \<Rightarrow> 'n srv_world \<Rightarrow> 'n srv_world" where
  "accept_loop E [] w = w"
| "accept_loop E (Ctrl_C # rest) w = w"
| "accept_loop E (Endpoint_Closed # rest) w = w"
| "accept_loop E (Handshake_Failed # rest) w = accept_loop E rest w"
| "accept_loop E (Arrived peer msgs ups evs # rest) w =
    accept_loop E rest (snd (handle_incoming E peer (fresh_streams msgs ups evs w)))"
| "accept_loop E (Elsewhere op # rest) w =
    accept_loop E rest (snd (run_ticket_op (env_tickets E) (env_store E) op w))"

section \<open>Who writes which file\<close>

text \<open>Commands that leave a file alone: Nix does not write the files of the builder.\<close>

definition leaves :: "string \<Rightarrow> ('n sys, 'a) step \<Rightarrow> bool" where
  "leaves p m \<longleftrightarrow> (\<forall>s. fst (snd (m s)) p = fst s p)"

definition nix_leaves :: "string \<Rightarrow> ('id, 'addr, 'n) server_env \<Rightarrow> bool" where
  "nix_leaves p E \<longleftrightarrow>
    (\<forall>program args. leaves p (output_of (env_commands E) program args))
    \<and> (\<forall>args. leaves p (spawn_realise (env_children E) args))
    \<and> (\<forall>args. leaves p (spawn_import (env_children E) args))
    \<and> (\<forall>bytes. leaves p (import_stdin (env_children E) bytes))
    \<and> leaves p (wait_import (env_children E)) \<and> leaves p (kill_import (env_children E))"

text \<open>Where \<open>serve\<close> puts the files of a builder.\<close>

definition below_data_dir :: "string \<Rightarrow> ('id, 'addr, 'n) server_env \<Rightarrow> bool" where
  "below_data_dir dir E \<longleftrightarrow>
    env_store E = ticket_store_new dir \<and> status_file (env_status E) = status_path dir"

text \<open>A file that is neither the status file, nor in the output cache, nor written by Nix.\<close>

definition set_apart :: "('id, 'addr, 'n) server_env \<Rightarrow> string \<Rightarrow> bool" where
  "set_apart E p \<longleftrightarrow>
    nix_leaves p E
    \<and> status_file (env_status E) \<noteq> p \<and> temp_path_for (status_pid (env_status E)) (status_file (env_status E)) \<noteq> Ok p
    \<and> (\<forall>sp. narinfo_file (env_cache E) sp \<noteq> p) \<and> cache_file_path (cache_dir (env_cache E)) ''nix-cache-info'' \<noteq> Ok p"

definition same_file :: "('id, 'addr, 'n) server_env \<Rightarrow> string \<Rightarrow> 'n srv_world \<Rightarrow> 'n srv_world \<Rightarrow> bool" where
  "same_file E p w w' \<longleftrightarrow> (set_apart E p \<longrightarrow> files w' p = files w p)"

lemma same_file_reflp [simp]: "reflp (same_file E p)"
  by (simp add: reflp_def same_file_def)

lemma same_file_transp [simp]: "transp (same_file E p)"
  by (simp add: transp_def same_file_def)

lemma same_file_trans: "same_file E p u v \<Longrightarrow> same_file E p v w \<Longrightarrow> same_file E p u w"
  by (simp add: same_file_def)

lemma talks_same_file: "keeps only_talks m \<Longrightarrow> keeps (same_file E p) m"
  unfolding keeps_def only_talks_def same_file_def by metis

lemma only_files_same_file: "keeps (only_files P) (m :: ('n srv_world, 'a) step) \<Longrightarrow> (set_apart E p \<Longrightarrow> \<not> P p) \<Longrightarrow> keeps (same_file E p) m"
  unfolding keeps_def only_files_def same_file_def by blast

named_theorems spares

lemma spares_combine [spares]:
  "keeps (same_file E p) (ret x)" "keeps (same_file E p) (lift_r r)"
  "keeps (same_file E p) m \<Longrightarrow> (\<And>x. keeps (same_file E p) (f x)) \<Longrightarrow> keeps (same_file E p) (bind_s m f)"
  "keeps (same_file E p) m \<Longrightarrow> (\<And>x. keeps (same_file E p) (h x)) \<Longrightarrow> keeps (same_file E p) (match_s m h)"
  "keeps (same_file E p) m \<Longrightarrow> keeps (same_file E p) (context_s c m)"
  by (simp_all add: keeps_ret keeps_lift_r keeps_bind_s keeps_match_s keeps_context_s)

lemma spares_talk [spares]:
  "keeps (same_file E p) (send_message m)" "keeps (same_file E p) recv_message" "keeps (same_file E p) recv_timed"
  "keeps (same_file E p) finish_stream" "keeps (same_file E p) (send_error t)"
  by (rule talks_same_file, rule talks)+

lemma spares_disk [spares]:
  "keeps (same_file E p) (fs_read q :: ('n srv_world, _) step)" "keeps (same_file E p) (io_call c :: ('n srv_world, _) step)"
  "keeps (same_file E p) (fs_create_dir_all q :: ('n srv_world, _) step)"
  "keeps (same_file E p) (cache_entry_ready cache q :: ('n srv_world, _) step)"
  "keeps (same_file E p) (cache_file_exists q :: ('n srv_world, _) step)" "keeps (same_file E p) (file_len q :: ('n srv_world, _) step)"
  by (rule only_files_same_file [where P = "\<lambda>_. False"], rule frame, simp)+

lemma spares_writes [spares]:
  assumes "set_apart E p \<Longrightarrow> q \<noteq> p"
  shows "keeps (same_file E p) (fs_remove_file q :: ('n srv_world, _) step)"
    "keeps (same_file E p) (fs_create_new q :: ('n srv_world, _) step)"
    "keeps (same_file E p) (fs_write_all q b :: ('n srv_world, _) step)"
  using assms by (auto intro!: only_files_same_file [where P = "\<lambda>x. x = q"] frame)

lemma spares_lists [spares]:
  "keeps (same_file E p) (write_paths ps mk)" "keeps (same_file E p) (read_with_timeout d kind l c)"
  by (rule keeps_write_paths keeps_read_with_timeout; intro spares same_file_reflp same_file_transp)+

section \<open>A build spares the ticket file\<close>

lemma spares_sys: "(set_apart E p \<Longrightarrow> leaves p m) \<Longrightarrow> keeps (same_file E p) (sys_step m)"
proof (rule keepsI)
  fix w r t
  assume m: "set_apart E p \<Longrightarrow> leaves p m" "sys_step m w = (r, t)"
  obtain x fs n where "m (files w, sys_state w) = (x, fs, n)" by (rule prod_cases3)
  moreover from m(1) have "set_apart E p \<Longrightarrow> fst (snd (m (files w, sys_state w))) p = files w p" by (simp add: leaves_def)
  ultimately show "same_file E p w t"
    using m(2) by (auto simp: sys_step_def same_file_def)
qed

lemma spares_commands [spares]: "keeps (same_file E p) (output_of (nixc E) program args)"
  unfolding nixc_def lift_commands_def by (auto simp: set_apart_def nix_leaves_def intro!: spares_sys)

lemma spares_children [spares]:
  "keeps (same_file E p) (spawn_realise (nixp E) args)" "keeps (same_file E p) (spawn_import (nixp E) args)"
  "keeps (same_file E p) (import_stdin (nixp E) bytes)" "keeps (same_file E p) (wait_import (nixp E))"
  "keeps (same_file E p) (kill_import (nixp E))"
  unfolding nixp_def lift_children_def by (auto simp: set_apart_def nix_leaves_def intro!: spares_sys)

lemma spares_queries [spares]: "keeps (same_file E p) (query_closure (nixc E) ps)" "keeps (same_file E p) (missing_paths (nixc E) ps)"
  by (rule keeps_query_closure keeps_missing_paths; intro spares same_file_reflp same_file_transp)+

lemma spares_entry [spares]: "keeps (same_file E p) (ensure_cache_entry E sp)"
proof -
  have "keeps (same_file E p) (copy_to_chunks (nixc E) url chunks)" for url chunks
  proof (induction chunks)
    case Nil
    show ?case by (simp only: copy_to_chunks.simps spares)
  next
    case (Cons c cs)
    then show ?case unfolding copy_to_chunks.simps run_nix_command_def Let_def by (auto intro!: spares)
  qed
  then have "keeps (same_file E p) (copy_to_signed_binary_cache (nixc E) ps d k)" for ps d k
    by (simp add: copy_to_signed_binary_cache_def spares)
  with spares_writes(1) [of E p "narinfo_file (env_cache E) sp"] show ?thesis
    unfolding ensure_cache_entry_def fill_cache_entry_def Let_def remove_stale_narinfo_def by (auto intro!: spares simp: set_apart_def)
qed

lemma spares_info [spares]:
  fixes E :: "('id, 'addr, 'n) server_env"
  shows "keeps (same_file E p) (ensure_nix_cache_info (cache_dir (env_cache E)) :: ('n srv_world, string) step)"
proof (cases "cache_file_path (cache_dir (env_cache E)) ''nix-cache-info''")
  case (Inl e)
  then have "ensure_nix_cache_info (cache_dir (env_cache E)) = (lift_r (Inl e) :: ('n srv_world, string) step)"
    by (simp add: ensure_nix_cache_info_def bind_s_def fun_eq_iff)
  then show ?thesis by (simp add: spares)
next
  case (Inr q)
  then have "set_apart E p \<Longrightarrow> q \<noteq> p" by (auto simp: set_apart_def)
  moreover from Inr have "ensure_nix_cache_info (cache_dir (env_cache E)) =
    (bind_s (cache_file_exists q) (\<lambda>exists.
    if exists then ret q
    else
      bind_s (context_s (''create '' @ cache_dir (env_cache E)) (fs_create_dir_all (cache_dir (env_cache E)))) (\<lambda>_.
      bind_s (context_s (''create '' @ q) (fs_create_new q)) (\<lambda>created.
      bind_s (if created then context_s (''write '' @ q) (fs_write_all q NIX_CACHE_INFO) else ret ()) (\<lambda>_.
      ret q)))) :: ('n srv_world, string) step)"
    by (simp add: ensure_nix_cache_info_def bind_s_def fun_eq_iff)
  ultimately show ?thesis by (auto intro!: spares)
qed

lemma spares_stream: "same_file E p w (snd (handle_cache_file_stream E access w))"
proof -
  have c: "keeps (same_file E p) (write_cache_file_response f n)" for f n by (simp add: write_cache_file_response_def spares)
  have b: "keeps (same_file E p) (write_body s)" for s
    by (auto simp: keeps_def write_body_def same_file_def ticked_def split: fault.splits)
  have cb: "keeps (same_file E p) (copy_body f n)" for f n
    by (auto simp: keeps_def copy_body_def bind_s_def write_body_def same_file_def ticked_def split: fault.splits)
  have sf: "keeps (same_file E p) (stream_cache_file f r s)" for f r s
    unfolding stream_cache_file_def by (auto intro!: spares c cb split: option.splits)
  have sb: "keeps (same_file E p) (stream_cache_bytes r s' s)" for r s' s
    unfolding stream_cache_bytes_def by (auto intro!: spares c b)
  have an: "keeps (same_file E p) (allow_nar n)" for n
    by (auto simp: keeps_def allow_nar_def same_file_def split: option.splits)
  have rf: "keeps (same_file E p) refuse_file" unfolding refuse_file_def by (intro spares c)
  have sn: "keeps (same_file E p) (send_narinfo f s cf co)" for f s cf co
    unfolding send_narinfo_def by (auto intro!: spares sb an split: option.splits)
  then have ni: "keeps (same_file E p) (serve_narinfo E access f s)" for f s
    unfolding serve_narinfo_def by (auto intro!: spares rf sn split: option.splits)
  have nar: "keeps (same_file E p) (\<lambda>w. if f \<notin> set (allowed_nar w) then refuse_file w
      else bind_s (lift_r (cache_file_path d f)) (\<lambda>cf. bind_s (stream_cache_file cf f s) (\<lambda>_. finish_stream)) w)" for f d s
    by (intro keeps_if rf spares sf)
  have "keeps (same_file E p) (handle_cache_file_stream E access)"
    unfolding handle_cache_file_stream_def read_message_def by (auto intro!: spares sf ni nar split: message.splits)
  then show ?thesis by (simp add: keeps_def)
qed

lemma spares_control [spares]: "keeps (same_file E p) (control_message E)"
  unfolding control_message_def by (auto intro!: spares split: message.splits)

lemma spares_on_stream: "same_file E p w (on_stream msgs (handle_cache_file_stream E access) w)"
  using spares_stream [where w = "w\<lparr>rx := msgs, tx := [], body_out := [], fin := False\<rparr>"]
  unfolding on_stream_def Let_def by (simp add: same_file_def)

lemma spares_prewarm: "same_file E p w (prewarm_fill E sp w)"
  unfolding prewarm_fill_def by (rule keeps_snd) (intro spares)

lemma spares_serve_loop: "same_file E p w (snd (serve_loop E access pending events w))"
proof (induction events arbitrary: pending w)
  case Nil
  show ?case using keeps_snd [OF spares_control] by simp
next
  case (Cons event events)
  show ?case
  proof (cases event)
    case Control_Message
    then show ?thesis using keeps_snd [OF spares_control] by simp
  next
    case (Stream_Accepted msgs)
    show ?thesis unfolding Stream_Accepted serve_loop.simps by (rule same_file_trans [OF spares_on_stream Cons.IH])
  next
    case Prewarm_Turn
    show ?thesis
    proof (cases pending)
      case Nil
      show ?thesis unfolding Prewarm_Turn Nil serve_loop.simps list.case by (rule Cons.IH)
    next
      case p: (Cons sp rest)
      show ?thesis unfolding Prewarm_Turn p serve_loop.simps list.case by (rule same_file_trans [OF spares_prewarm Cons.IH])
    qed
  next
    case Stream_Failed
    then show ?thesis by (simp add: same_file_def)
  qed
qed

lemma spares_outputs [spares]: "keeps (same_file E p) (export_outputs E ps)"
proof -
  have "keeps (same_file E p) (serve_output_cache E access pending)" for access pending
  proof (rule keepsI)
    fix w r t
    assume "serve_output_cache E access pending w = (r, t)"
    with spares_serve_loop [of E p "w\<lparr>allowed_nar := [], serve_events := []\<rparr>" access pending "serve_events w"]
    show "same_file E p w t" by (simp add: serve_output_cache_def same_file_def)
  qed
  then show ?thesis unfolding export_outputs_def output_closure_def by (auto intro!: spares)
qed

lemma spares_build [spares]: "keeps (same_file E p) (run_build E drv mode again deadline requested)"
proof -
  have sink: "keeps (same_file E p) (wire_log_sink l)" for l by (simp add: wire_log_sink_def spares)
  have "keeps (same_file E p) (stream_child_lines wire_log_sink turns sched out err od ed)" for turns sched out err od ed
    by (rule keeps_stream_child_lines) (simp_all add: sink)
  then have "keeps (same_file E p) (realise (nixc E) (nixp E) deadline drv mode again wire_log_sink)"
    unfolding realise_def query_outputs_def run_command_def command_output_def by (auto intro!: spares)
  then show ?thesis unfolding run_build_def by (auto intro!: spares)
qed

lemma spares_inputs [spares]: "keeps (same_file E p) (import_missing_inputs E missing limit)"
proof (rule keeps_import_missing_inputs)
  show "keeps (same_file E p) accept_upload"
    by (auto simp: keeps_def accept_upload_def same_file_def ticked_def split: fault.splits list.splits)
qed (simp_all add: spares, simp add: same_file_def ticked_def)

lemma spares_status_update:
  fixes w :: "'n srv_world"
  shows "same_file E p w (snd (snd (with_status_update (env_status E) upd st w)))"
proof (cases "read_clock w")
  case (Pair r w1)
  have "keeps (same_file E p) (read_clock :: ('n srv_world, u64) step)"
    by (rule only_files_same_file [where P = "\<lambda>_. False"]) (rule frame, simp)
  then have o1: "same_file E p w w1" using Pair by (rule keepsD)
  show ?thesis
  proof (cases r)
    case (Inl e)
    with Pair o1 show ?thesis by (simp add: with_status_update_def)
  next
    case (Inr now)
    obtain x st1 where u: "upd st now = (x, st1)" by fastforce
    obtain r2 w2 where wr: "write_atomic (status_pid (env_status E)) (status_json (env_status E)) (status_file (env_status E))
      (snapshot (refreshed st1 now)) ''encode status JSON'' w1 = (r2, w2)" by fastforce
    from write_atomic_inner_split [OF wr [unfolded write_atomic_def]]
    have "same_file E p w1 w2" by (auto simp: only_files_def same_file_def set_apart_def)
    with o1 have "same_file E p w w2" by (rule same_file_trans)
    with Pair Inr u wr show ?thesis by (simp add: with_status_update_def Let_def split: sum.splits)
  qed
qed

lemma spares_registry_step:
  assumes "\<And>st (v :: 'n srv_world). f st v = snd (with_status_update (env_status E) upd st v)"
  shows "same_file E p w (on_registry f w)"
  using spares_status_update [of E p w upd "registry w"] assms by (simp add: on_registry_def case_prod_unfold same_file_def)

lemma spares_registry [spares]:
  "keeps (same_file E p) (start_status E i)" "keeps (same_file E p) (enter_phase E i ph)" "keeps (same_file E p) (finish_status E i res err)"
  "keeps (same_file E p) (enqueue_build E label inst)"
proof -
  show "keeps (same_file E p) (start_status E i)"
    by (rule keepsI) (auto simp: start_status_def status_start_def intro: spares_registry_step)
  show "keeps (same_file E p) (enter_phase E i ph)"
    by (rule keepsI) (auto simp: enter_phase_def status_phase_def intro: spares_registry_step)
  show "keeps (same_file E p) (finish_status E i res err)"
    by (rule keepsI) (auto simp: finish_status_def status_finish_def intro: spares_registry_step)
  show "keeps (same_file E p) (enqueue_build E label inst)"
  proof (rule keepsI)
    fix w r t
    assume "enqueue_build E label inst w = (r, t)"
    then show "same_file E p w t"
      using spares_status_update [of E p w "enqueue_update label inst" "registry w"]
      by (auto simp: enqueue_build_def status_enqueue_def same_file_def split: prod.splits option.splits)
  qed
qed

lemma spares_queue_and_run: "keeps (same_file E p) (queue_and_run E b a)"
proof -
  have "keeps (same_file E p) (run_queued_build E b a i)" for i
    unfolding run_queued_build_def by (auto intro!: spares)
  then have "keeps (same_file E p) (run_when_permitted E i b a)" for i
    unfolding run_when_permitted_def finish_control_def by (auto intro!: spares)
  moreover have "keeps (same_file E p) (send_build_queued E i)" for i
    unfolding send_build_queued_def by (auto intro!: spares split: sum.split)
  moreover have "keeps (same_file E p) (record_build_result E i r)" for i r
    unfolding record_build_result_def by (auto intro!: spares split: sum.split bool.split)
  ultimately show ?thesis
    unfolding queue_and_run_def finish_control_def by (auto intro!: spares split: run_outcome.split)
qed

text \<open>Where \<open>serve\<close> puts its files, the ticket file is apart from what a build writes.\<close>

lemma ticket_file_set_apart:
  assumes "below_data_dir dir E" "nix_leaves (store_file (env_store E)) E"
  shows "set_apart E (store_file (env_store E))"
proof -
  let ?p = "path_join dir TICKETS_FILE"
  have store: "store_file (env_store E) = ?p" and status: "status_file (env_status E) = status_path dir"
    using assms(1) by (simp_all add: below_data_dir_def ticket_store_new_def)
  have name: "path_file_name ?p = Some ''tickets.json''"
    by (subst path_file_name_join) (simp_all add: TICKETS_FILE_def plain_name_def)
  have status_name: "path_file_name (status_path dir) = Some STATUS_FILE"
    unfolding status_path_def by (rule path_file_name_join) (simp add: plain_name_def STATUS_FILE_def)
  have "status_path dir \<noteq> ?p"
    using name status_name by (auto simp: STATUS_FILE_def)
  moreover have "temp_path_for pid (status_path dir) \<noteq> Ok ?p" for pid
  proof
    assume "temp_path_for pid (status_path dir) = Ok ?p"
    then have "?p = with_file_name (status_path dir) (temp_name pid STATUS_FILE)"
      by (simp add: temp_path_for_def status_name)
    moreover have "path_file_name (with_file_name (status_path dir) (temp_name pid STATUS_FILE)) = Some (temp_name pid STATUS_FILE)"
      by (intro with_file_name_file_name plain_temp_name) (simp add: plain_name_def STATUS_FILE_def)
    ultimately show False using name by (simp add: temp_name_def)
  qed
  moreover have "narinfo_file (env_cache E) sp \<noteq> ?p" for sp
  proof -
    have h: "good_hash (store_path_hash sp)" using store_path_text by blast
    then have "\<not> base32_char (CHR ''/'') \<and> list_all base32_char (store_path_hash sp)"
      by (simp add: base32_char_def NIX_BASE32_def good_hash_def)
    then have "plain_name (store_path_hash sp @ ''.narinfo'')" by (auto simp: plain_name_def list_all_iff)
    from path_file_name_join [OF this] have "path_file_name (narinfo_file (env_cache E) sp) = Some (store_path_hash sp @ ''.narinfo'')"
      by (simp add: narinfo_file_def)
    moreover have "store_path_hash sp @ ''.narinfo'' \<noteq> ''tickets.json''"
      by (rule notI, drule arg_cong [of _ _ last]) simp
    ultimately show ?thesis using name by force
  qed
  moreover have "cache_file_path (cache_dir (env_cache E)) ''nix-cache-info'' \<noteq> Ok ?p"
  proof
    assume "cache_file_path (cache_dir (env_cache E)) ''nix-cache-info'' = Ok ?p"
    then have "?p = path_join (cache_dir (env_cache E)) ''nix-cache-info''"
      by (simp add: cache_file_path_def sanitize_cache_path_def)
    moreover have "path_file_name (path_join (cache_dir (env_cache E)) ''nix-cache-info'') = Some ''nix-cache-info''"
      by (rule path_file_name_join) (simp add: plain_name_def)
    ultimately show False using name by simp
  qed
  ultimately show ?thesis using assms(2) by (simp add: set_apart_def store status)
qed

section \<open>Tickets over the life of a builder\<close>

text \<open>The connection presents a ticket with this id; it was more than talk.\<close>

fun presents :: "('id, 'addr, 'n) server_env \<Rightarrow> string \<Rightarrow> message result list \<Rightarrow> bool" where
  "presents E tid (greeting # Inr (AuthTicket t) # rest) = (ticket_id (env_tickets E) (auth_secret t) = tid)"
| "presents E tid msgs = False"

definition put_to_work :: "'n srv_world \<Rightarrow> 'n srv_world \<Rightarrow> bool" where
  "put_to_work w w' \<longleftrightarrow> registry w' \<noteq> registry w \<or> sys_state w' \<noteq> sys_state w \<or> uploads w' \<noteq> uploads w"

fun works_on_ticket :: "('id, 'addr, 'n) server_env \<Rightarrow> string \<Rightarrow> ('id, 'addr) arrival list \<Rightarrow> 'n srv_world \<Rightarrow> nat" where
  "works_on_ticket E tid (Handshake_Failed # rest) w = works_on_ticket E tid rest w"
| "works_on_ticket E tid (Arrived peer msgs ups evs # rest) w =
    (let w0 = fresh_streams msgs ups evs w; w' = snd (handle_incoming E peer w0) in
     of_bool (presents E tid msgs \<and> put_to_work w0 w') + works_on_ticket E tid rest w')"
| "works_on_ticket E tid (Elsewhere op # rest) w =
    works_on_ticket E tid rest (snd (run_ticket_op (env_tickets E) (env_store E) op w))"
| "works_on_ticket E tid arrivals w = 0"

lemma same_files_hold: "files w' (store_file self) = files w (store_file self) \<Longrightarrow> holds_table T self w' m = holds_table T self w m"
  by (simp add: holds_table_def stored_def)

lemma redeem_refused:
  fixes w :: "'n srv_world"
  assumes "ticket_redeem T self secret peer w = (Inl e, w')"
  shows "\<not> put_to_work w w'"
proof -
  have "io_world.more w' = io_world.more w"
    using redeem_outcome [OF assms] by (auto simp: not_installed_def only_files_def split: option.splits)
  then show ?thesis by (cases w; cases w') (simp add: put_to_work_def)
qed

lemma talks_not_work: "only_talks w w' \<Longrightarrow> \<not> put_to_work w w'"
  by (simp add: only_talks_def put_to_work_def)

lemma put_to_work_trans: "put_to_work u w \<Longrightarrow> put_to_work u v \<or> put_to_work v w"
  by (auto simp: put_to_work_def)

lemma presents_grant:
  assumes "admitted E peer w a b" "presents E tid (rx w)"
  shows "\<exists>secret. spend_secret a = Some secret \<and> ticket_id (env_tickets E) secret = tid"
  using assms by (auto simp: admitted_def trusted_grant_def ticket_grant_def)

lemma bind_match: "bind_s (match_s m h) g w = (case m w of (r, w') \<Rightarrow> bind_s (h r) g w')"
  by (simp add: bind_s_def match_s_def split: prod.split)

text \<open>A connection is a few steps of the abstract ticket store, and one that works on a ticket redeems it.\<close>

lemma request_simulates:
  fixes w :: "'n srv_world"
  assumes env: "ticket_env_ok (env_tickets E)" "set_apart E (store_file (env_store E))"
    and m: "holds_table (env_tickets E) (env_store E) w m"
    and run: "serve_request E peer a b w = (r, w')"
  shows "\<exists>m' log. holds_table (env_tickets E) (env_store E) w' m' \<and> runs (ticket_step (env_tickets E)) m log m'
    \<and> (put_to_work w w' \<longrightarrow> (\<forall>secret. spend_secret a = Some secret \<longrightarrow> log = [(Op_redeem secret peer, True)]))"
proof -
  let ?T = "env_tickets E" and ?S = "env_store E"
  have holds: "holds_table ?T ?S v' n" if "holds_table ?T ?S v n" "keeps (same_file E (store_file ?S)) f" "f v = (x, v')"
    for v v' :: "'n srv_world" and n x and f :: "('n srv_world, 'x) step"
    using that env(2) same_files_hold [of v' ?S v ?T n] by (auto simp: same_file_def dest!: keepsD)
  show ?thesis
  proof (cases "spend_secret a")
    case None
    then have "queue_and_run E b a w = (r, w')" using run by (simp add: serve_request_def redeem_ticket_if_needed_def)
    from holds [OF m spares_queue_and_run this] None show ?thesis
      by (intro exI [of _ m] exI [of _ "[]"]) simp
  next
    case (Some secret)
    obtain r5 w5 where red: "ticket_redeem ?T ?S secret peer w = (r5, w5)" by fastforce
    from simulate_redeem [OF env(1) m red] obtain m5 where m5: "holds_table ?T ?S w5 m5"
      "ticket_step ?T m (Op_redeem secret peer, is_ok r5) m5" by blast
    define answer :: "ticket_record result \<Rightarrow> ('n srv_world, authorized_connection option) step" where
      "answer r = (case r of
        Inl err \<Rightarrow> bind_s (send_error (err_text err)) (\<lambda>_. ret None)
      | Inr record \<Rightarrow>
          bind_s (lift_r (parse_duration (max_build_time record))) (\<lambda>time.
          bind_s (lift_r (parse_byte_count (max_upload_bytes record))) (\<lambda>bytes.
          ret (Some (a\<lparr>spend_secret := None, max_time := Some time, max_upload := Some bytes\<rparr>)))))" for r
    define rest :: "('n srv_world, unit) step" where
      "rest = bind_s (answer r5) (\<lambda>redeemed.
        case redeemed of None \<Rightarrow> finish_control | Some authorized \<Rightarrow> queue_and_run E b authorized)"
    have "serve_request E peer a b w = rest w5"
      by (simp add: serve_request_def redeem_ticket_if_needed_def Some rest_def bind_match red flip: answer_def)
    with run have step: "rest w5 = (r, w')" by simp
    have "keeps (same_file E (store_file ?S)) rest"
      unfolding rest_def answer_def finish_control_def
      by (auto intro!: spares spares_queue_and_run split: sum.split option.split)
    from holds [OF m5(1) this step] have last: "holds_table ?T ?S w' m5" .
    have "is_ok r5" if "put_to_work w w'"
    proof (rule ccontr)
      assume "\<not> is_ok r5"
      then obtain e where e: "r5 = Inl e" by (cases r5) auto
      have "rest w5 = bind_s (send_error (err_text e)) (\<lambda>_. finish_control) w5"
        by (simp add: rest_def answer_def e bind_s_def split: prod.split sum.split)
      moreover have "keeps only_talks (bind_s (send_error (err_text e)) (\<lambda>_. finish_control))" by (intro talks)
      ultimately have "\<not> put_to_work w5 w'" using talks_not_work step keepsD by metis
      then show False using that redeem_refused [OF red [unfolded e]] put_to_work_trans by blast
    qed
    with last m5(2) Some show ?thesis by (intro exI [of _ m5] exI [of _ "[(Op_redeem secret peer, is_ok r5)]"]) auto
  qed
qed

lemma connection_simulates:
  fixes w :: "'n srv_world"
  assumes env: "ticket_env_ok (env_tickets E)" "set_apart E (store_file (env_store E))"
    and m: "holds_table (env_tickets E) (env_store E) w m"
    and run: "handle_incoming E peer w = (r, w')"
  shows "\<exists>m' log. holds_table (env_tickets E) (env_store E) w' m' \<and> runs (ticket_step (env_tickets E)) m log m'
    \<and> of_bool (presents E tid (rx w) \<and> put_to_work w w') \<le> length (filter (redeems (env_tickets E) tid) log)"
proof -
  from incoming_cases [OF run only_talks_reflp only_talks_transp talks_accept talks_hello
      authorize_connection_talks talks_build talks_finish]
  show ?thesis
  proof (elim disjE exE conjE)
    assume talk: "only_talks w w'"
    then have "files w' = files w" by (simp add: only_talks_def)
    with m have "holds_table (env_tickets E) (env_store E) w' m" by (simp add: same_files_hold [of w' _ w])
    then show ?thesis using talks_not_work [OF talk] by (intro exI [of _ m] exI [of _ "[]"]) simp
  next
    fix a b w3
    assume adm: "admitted E peer w a b" and talk: "only_talks w w3" and req: "serve_request E peer a b w3 = (r, w')"
    have "files w3 = files w" using talk by (simp add: only_talks_def)
    with m have "holds_table (env_tickets E) (env_store E) w3 m" by (simp add: same_files_hold [of w3 _ w])
    from request_simulates [OF env this req] obtain m' log where log: "holds_table (env_tickets E) (env_store E) w' m'"
      "runs (ticket_step (env_tickets E)) m log m'"
      "put_to_work w3 w' \<longrightarrow> (\<forall>secret. spend_secret a = Some secret \<longrightarrow> log = [(Op_redeem secret peer, True)])" by blast
    have "of_bool (presents E tid (rx w) \<and> put_to_work w w') \<le> length (filter (redeems (env_tickets E) tid) log)"
    proof (cases "presents E tid (rx w) \<and> put_to_work w w'")
      case True
      then have "put_to_work w3 w'" using talks_not_work [OF talk] put_to_work_trans by blast
      moreover obtain secret where "spend_secret a = Some secret" "ticket_id (env_tickets E) secret = tid"
        using presents_grant [OF adm] True by blast
      ultimately show ?thesis using log(3) by simp
    next
      case False
      then show ?thesis by auto
    qed
    with log(1,2) show ?thesis by blast
  qed
qed

lemma life_simulates:
  fixes w :: "'n srv_world"
  assumes env: "ticket_env_ok (env_tickets E)" "set_apart E (store_file (env_store E))"
  shows "holds_table (env_tickets E) (env_store E) w m \<Longrightarrow>
    \<exists>m' log. holds_table (env_tickets E) (env_store E) (accept_loop E arrivals w) m' \<and> runs (ticket_step (env_tickets E)) m log m'
      \<and> works_on_ticket E tid arrivals w \<le> length (filter (redeems (env_tickets E) tid) log)"
proof (induction arrivals arbitrary: w m)
  case Nil
  then show ?case by (intro exI [of _ m] exI [of _ "[]"]) simp
next
  case (Cons arrival rest)
  show ?case
  proof (cases arrival)
    case (Arrived peer msgs ups evs)
    let ?w = "fresh_streams msgs ups evs w"
    obtain r w1 where run: "handle_incoming E peer ?w = (r, w1)" by fastforce
    have "files ?w = files w" by (simp add: fresh_streams_def)
    with Cons.prems have "holds_table (env_tickets E) (env_store E) ?w m" by (simp add: same_files_hold [of ?w _ w])
    from connection_simulates [OF env this run, of tid] obtain m1 log1 where one: "holds_table (env_tickets E) (env_store E) w1 m1"
      "runs (ticket_step (env_tickets E)) m log1 m1"
      "of_bool (presents E tid msgs \<and> put_to_work ?w w1) \<le> length (filter (redeems (env_tickets E) tid) log1)"
      by (auto simp: fresh_streams_def)
    from Cons.IH [OF one(1)] obtain m2 log2 where two: "holds_table (env_tickets E) (env_store E) (accept_loop E rest w1) m2"
      "runs (ticket_step (env_tickets E)) m1 log2 m2"
      "works_on_ticket E tid rest w1 \<le> length (filter (redeems (env_tickets E) tid) log2)" by blast
    then show ?thesis using runs_append [OF one(2) two(2)] one(3) run
      by (intro exI [of _ m2] exI [of _ "log1 @ log2"]) (simp add: Arrived Let_def)
  next
    case (Elsewhere op)
    obtain ok w1 where run: "run_ticket_op (env_tickets E) (env_store E) op w = (ok, w1)" by fastforce
    from simulate_op [OF env(1) Cons.prems run] obtain m1 where one: "holds_table (env_tickets E) (env_store E) w1 m1"
      "ticket_step (env_tickets E) m (op, ok) m1" by blast
    from Cons.IH [OF one(1)] obtain m2 log2 where two: "holds_table (env_tickets E) (env_store E) (accept_loop E rest w1) m2"
      "runs (ticket_step (env_tickets E)) m1 log2 m2"
      "works_on_ticket E tid rest w1 \<le> length (filter (redeems (env_tickets E) tid) log2)" by blast
    then show ?thesis using runs_Cons [OF one(2) two(2)] run
      by (intro exI [of _ m2] exI [of _ "(op, ok) # log2"]) (auto simp: Elsewhere)
  next
    case Handshake_Failed
    then show ?thesis using Cons by simp
  qed (use Cons.prems in \<open>auto intro!: exI [of _ m] exI [of _ "[]"]\<close>)
qed

lemma redeems_accepts: "redeems T tid e \<Longrightarrow> accepts T tid e"
  by (cases e; cases "fst e") auto


section \<open>A ticket at work\<close>

text \<open>
  A connection with a ticket for two builds; every system call fails once the ticket is spent. The
  builder has worked on the ticket: a build was queued.
\<close>

definition demo_ticket_request :: "message list" where
  "demo_ticket_request = [Hello \<lparr>hello_version = 5, node_id = ''3''\<rparr>, AuthTicket \<lparr>auth_secret = ''s''\<rparr>] @ drop 2 demo_request"

definition demo_ticket_world :: "unit srv_world" where
  "demo_ticket_world =
    (demo_srv_world (\<lambda>n. if n < 18 then Fine else Fault 0) [])\<lparr>files := [''/d/tickets.json'' \<mapsto> ''2'' @ [CHR 0x0A]]\<rparr>"

lemma demo_server_parts:
  "env_tickets demo_server = demo_env" "env_store demo_server = demo_store" "env_status demo_server = demo_status_env"
  "key_public (cache_key (env_cache demo_server)) = ''k:1''" "env_debug demo_server = (\<lambda>m. [])"
  by (simp_all add: demo_server_def)

definition cut_off :: "'n srv_world \<Rightarrow> bool" where
  "cut_off w \<longleftrightarrow> clock w = (\<lambda>n. Some 50) \<and> (\<forall>n. ticks w \<le> n \<longrightarrow> faults w n = Fault 0)"

lemma demo_update_cut_off:
  "cut_off w \<Longrightarrow> with_status_update demo_status_env upd st w = (None, refreshed (snd (upd st 50)) 50, w\<lparr>ticks := ticks w + 2\<rparr>)"
  by (simp add: cut_off_def with_status_update_def write_atomic_def write_atomic_inner_def create_parent_def demo_status_env_def
      bind_s_def context_s_def drv_eval split: prod.split)

lemma demo_queued_cut_off:
  fixes w :: "unit srv_world"
  assumes "cut_off w" "registry w = demo_status"
  shows "next_request_seq (registry (snd (queue_and_run demo_server b a w))) = 5"
proof -
  have later: "cut_off (w\<lparr>registry := st, ticks := Suc (Suc (Suc (ticks w)))\<rparr>)" for st
    using assms(1) by (auto simp: cut_off_def)
  have seq: "next_request_seq (snd (finish_update i res e st now)) = next_request_seq st" for i res e st now
    by (simp add: finish_update_def Let_def split: option.split prod.split)
  have five: "next_request_seq (snd (enqueue_update l inst demo_status 50)) = 5" for l inst
    by (simp add: enqueue_update_def Let_def demo_status_def)
  have "faults w (Suc (Suc (ticks w))) = Fault 0" using assms(1) by (simp add: cut_off_def)
  then show ?thesis
    using assms(2) by (simp add: queue_and_run_def enqueue_build_def bind_s_def status_enqueue_def demo_server_parts
        demo_update_cut_off [OF assms(1)] demo_update_cut_off [OF later] send_build_queued_def match_s_def send_message_def
        next_fault_def ticked_def finish_status_def on_registry_def status_finish_def seq five)
qed

lemma demo_path_texts:
  "as_str (demo_path ''out'') = store_text (replicate 32 (CHR ''a'')) ''out''"
  "as_str (demo_path ''pkg.drv'') = store_text (replicate 32 (CHR ''a'')) ''pkg.drv''"
  by (rule as_str_demo_path, simp add: drv_eval good_name_def)+

lemma one_path_fits: "check_limits [] \<lparr>chunk_paths = [as_str (demo_path ''pkg.drv'')], chunk_done = True\<rparr>
      \<lparr>state_chunks = 0, path_bytes = 0\<rparr> PATH_LIST_LIMITS =
    Ok \<lparr>state_chunks = 1, path_bytes = length (as_str (demo_path ''pkg.drv''))\<rparr>"
  by (simp_all add: check_limits_def drv_eval total_bytes_def demo_path_texts store_text_def USIZE_MAX_def)

lemmas one_path_fits_limits = one_path_fits [unfolded PATH_LIST_LIMITS_def MAX_PATH_LIST_CHUNKS_def MAX_PATH_LIST_PATHS_def MAX_PATH_LIST_BYTES_def, simplified]

text \<open>The greeting, the ticket and the request are accepted, and the ticket is spent.\<close>

lemma demo_ticket_admitted:
  "\<exists>b a v. handle_incoming demo_server 3 (fresh_streams (map Inr demo_ticket_request) [] [] demo_ticket_world) =
      queue_and_run demo_server b a v \<and> cut_off v \<and> registry v = demo_status"
  by (simp add: demo_server_parts demo_ticket_world_def fresh_streams_def demo_srv_world_def handle_incoming_def bind_s_def read_hello_def
      read_message_def recv_timed_def recv_message_def next_fault_def demo_request_def demo_ticket_request_def ticked_def
      io_call_def send_message_def authorize_connection_def authorize_ticket_def write_auth_ok_def serve_authorized_def
      read_build_or_report_def VERSION_def read_with_timeout_def read_paths_def read_loop.simps read_chunk_def
      read_message_opt_def match_s_def read_checked_build_request_def check_build_request_def serve_request_def
      one_path_fits one_path_fits_limits redeem_ticket_if_needed_def check_hello_def drv_eval)
    (intro exI conjI, rule refl, simp_all add: cut_off_def)

lemma demo_ticket_works:
  "works_on_ticket demo_server ''id'' [Arrived 3 (map Inr demo_ticket_request) [] []] demo_ticket_world = 1"
proof -
  let ?w = "fresh_streams (map Inr demo_ticket_request) [] [] demo_ticket_world"
  obtain b a v where run: "handle_incoming demo_server 3 ?w = queue_and_run demo_server b a v" and v: "cut_off v" "registry v = demo_status"
    using demo_ticket_admitted by blast
  have "next_request_seq (registry (snd (handle_incoming demo_server 3 ?w))) = 5"
    using demo_queued_cut_off [OF v] by (simp add: run)
  moreover have "next_request_seq (registry ?w) = 4"
    by (simp add: fresh_streams_def demo_ticket_world_def demo_srv_world_def demo_status_def)
  ultimately have "registry (snd (handle_incoming demo_server 3 ?w)) \<noteq> registry ?w" by auto
  then have "put_to_work ?w (snd (handle_incoming demo_server 3 ?w))" by (simp add: put_to_work_def)
  moreover have "presents demo_server ''id'' (map Inr demo_ticket_request)"
    by (simp add: demo_ticket_request_def demo_server_parts ticket_id_def demo_env_def)
  ultimately show ?thesis by (simp add: Let_def)
qed


end
