(* ===== verification/Cache_Bridge.thy ===== *)
theory Cache_Bridge
  imports Local_Cache "HOL-Library.Sublist"
begin

text \<open>
  The loop of the local bridge (\<open>client_cache/local_server.rs\<close>: \<open>run_local_cache_server\<close>). Every accepted
  connection is handled in a task of its own. A task is dropped when its time is over or when the
  bridge is told to stop, after it has written some of its answer. The tasks only read files, so
  they are taken in the order of their acceptance; panics are not modelled.
\<close>

section \<open>The loop\<close>

datatype bridge_event =
    Told_To_Stop
  | Bridge_Accept_Failed
  | Bridge_Accepted "string result list" "nat option"   \<comment> \<open>what it says, and where its task is dropped\<close>

text \<open>One task: the answer its connection has seen.\<close>

definition http_task ::
  "string \<Rightarrow> string result list \<Rightarrow> nat option \<Rightarrow> 'z http_world_scheme \<Rightarrow> string \<times> 'z http_world_scheme" where
  "http_task cache_dir chunks dropped_at w =
    (let w1 = snd (handle_local_cache_http cache_dir (w\<lparr>chunks_in := chunks, http_out := []\<rparr>)) in
     (case dropped_at of None \<Rightarrow> http_out w1 | Some n \<Rightarrow> take n (http_out w1),
      w1\<lparr>chunks_in := chunks_in w, http_out := http_out w\<rparr>))"

fun run_local_cache_server ::
  "string \<Rightarrow> bridge_event list \<Rightarrow> string list \<Rightarrow> 'z http_world_scheme \<Rightarrow>
     unit result \<times> string list \<times> 'z http_world_scheme" where
  "run_local_cache_server cache_dir [] answers w = (Ok (), answers, w)"
| "run_local_cache_server cache_dir (Told_To_Stop # events) answers w = (Ok (), answers, w)"
| "run_local_cache_server cache_dir (Bridge_Accept_Failed # events) answers w =
    (Err (Context ''accept local cache HTTP connection'' (lib_error ''accept'')), answers, w)"
| "run_local_cache_server cache_dir (Bridge_Accepted chunks dropped_at # events) answers w =
    (case http_task cache_dir chunks dropped_at w of (answer, w1) \<Rightarrow>
       run_local_cache_server cache_dir events (answers @ [answer]) w1)"

section \<open>What is answered\<close>

definition request_of :: "string result list \<Rightarrow> http_request result" where
  "request_of chunks = (case fst (read_head [] chunks) of Inl e \<Rightarrow> Inl e | Inr buf \<Rightarrow> parse_http_request buf)"

lemma request_of_eq: "request_of (chunks_in w) = fst (read_http_request w)"
  by (simp add: request_of_def read_http_request_def split: prod.split sum.split)

lemma read_http_request_world:
  "read_http_request w = (q, w1) \<Longrightarrow> files w1 = files w \<and> faults w1 = faults w \<and> http_out w1 = http_out w"
  by (auto simp: read_http_request_def split: prod.splits sum.splits)

text \<open>Whatever calls fail, what has been written is a front of the answer, and all of it on success.\<close>

definition writes :: "'z http_world_scheme \<Rightarrow> string \<Rightarrow> ('z http_world_scheme, 'a) step \<Rightarrow> bool" where
  "writes w s m \<longleftrightarrow>
    (case m w of (r, w') \<Rightarrow>
      files w' = files w \<and> (\<exists>front. http_out w' = http_out w @ front \<and> prefix front s \<and> (is_ok r \<longrightarrow> front = s)))"

lemma writes_bind:
  assumes "writes w s m" "\<And>x w1. m w = (Inr x, w1) \<Longrightarrow> files w1 = files w \<Longrightarrow> writes w1 t (f x)"
  shows "writes w (s @ t) (bind_s m f)"
proof (cases "m w")
  case (Pair r w1)
  show ?thesis
  proof (cases r)
    case (Inl e)
    with assms(1) Pair show ?thesis by (auto simp: writes_def bind_s_def intro: prefix_prefix)
  next
    case (Inr x)
    with assms Pair have "writes w1 t (f x)" "files w1 = files w" "http_out w1 = http_out w @ s"
      by (auto simp: writes_def)
    with Inr Pair show ?thesis by (auto simp: writes_def bind_s_def split: prod.splits)
  qed
qed

lemma writes_context: "writes w s m \<Longrightarrow> writes w s (context_s c m)"
  by (auto simp: writes_def context_s_def split: prod.splits sum.splits)

lemma writes_nothing:
  "writes w [] (ret x)" "writes w [] (lift_r r)" "writes w [] (io_call c)" "writes w [] (fs_read p)" "writes w [] (http_file_len p)"
  by (auto simp: writes_def io_call_def fs_read_def http_file_len_def ticked_def split: fault.splits)

lemma writes_write: "writes w s (http_write s)"
  by (auto simp: writes_def http_write_def ticked_def take_is_prefix split: fault.splits)

lemma writes_head: "writes w (http_head code n) (write_http_head code n)"
  unfolding write_http_head_def by (intro writes_context writes_write)

lemma writes_error: "writes w (http_head code (length m) @ m) (write_http_error code m)"
  unfolding write_http_error_def by (intro writes_bind writes_head writes_context writes_write)

lemma writes_front: "writes w s m \<Longrightarrow> writes w (s @ t) (bind_s m (\<lambda>x. lift_r (Inl e)))"
  by (auto simp: writes_def bind_s_def split: prod.splits sum.splits intro: prefix_prefix)

lemma writes_file_body:
  assumes "files w f = Some bytes"
  shows "writes w bytes (send_file_body f p n)"
proof -
  have "writes w ([] @ bytes) (send_file_body f p n)"
    unfolding send_file_body_def
  proof (rule writes_bind [OF writes_context [OF writes_nothing(4)]])
    fix content w1
    assume "context_s (''open '' @ f) (fs_read f) w = (Inr content, w1)"
    then have "content = Some bytes" using assms by (auto simp: context_s_def fs_read_def split: fault.splits prod.splits sum.splits)
    moreover have "writes w1 (bytes @ []) (bind_s (context_s c (http_write bytes)) (\<lambda>_. if length bytes \<noteq> n then lift_r r else ret ()))" for c r
      by (rule writes_bind [OF writes_context [OF writes_write]]) (simp add: writes_nothing)
    ultimately show "writes w1 bytes (case content of None \<Rightarrow> lift_r (Err (Context (''open '' @ f) (lib_error ''open'')))
       | Some bytes \<Rightarrow> bind_s (context_s (''serve local cache file '' @ p) (http_write bytes)) (\<lambda>_.
          if length bytes \<noteq> n then lift_r (bail (''short local cache response: '' @ show_nat (length bytes) @ '' of '' @ show_nat n @ '' bytes''))
          else ret ()))" by simp
  qed
  then show ?thesis by simp
qed

lemma writes_local_file:
  "writes w (case files w f of
       None \<Rightarrow> (let body = ''cache file not found: '' @ p @ [CHR 0x0A] in http_head 404 (length body) @ body)
     | Some bytes \<Rightarrow> http_head 200 (length bytes) @ (if verb = Http_Get then bytes else []))
   (serve_local_file verb f p)"
  (is "writes w ?s _")
proof -
  have "writes w ([] @ ?s) (serve_local_file verb f p)"
    unfolding serve_local_file_def
  proof (rule writes_bind [OF writes_context [OF writes_nothing(5)]])
    fix metadata w1
    assume "context_s (''stat '' @ f) (http_file_len f) w = (Inr metadata, w1)" and same: "files w1 = files w"
    then have len: "metadata = map_option length (files w f)"
      by (auto simp: context_s_def http_file_len_def split: fault.splits prod.splits sum.splits)
    show "writes w1 ?s (case metadata of None \<Rightarrow> write_http_error 404 (''cache file not found: '' @ p @ [CHR 0x0A])
      | Some len \<Rightarrow> bind_s (write_http_head 200 len) (\<lambda>_.
          bind_s (if verb = Http_Get then send_file_body f p len else ret ()) (\<lambda>_.
          context_s ''close HTTP response'' (io_call ''shutdown''))))"
    proof (cases "files w f")
      case None
      then show ?thesis using writes_error [of w1 404 "''cache file not found: '' @ p @ [CHR 0x0A]"] by (simp add: len Let_def)
    next
      case (Some bytes)
      have body: "writes v (if verb = Http_Get then bytes else []) (if verb = Http_Get then send_file_body f p n else ret ())"
        if "files v = files w1" for v n
        using writes_file_body [of v f bytes] that same Some by (simp add: writes_nothing)
      have "writes w1 (http_head 200 (length bytes) @ (if verb = Http_Get then bytes else []) @ [])
        (bind_s (write_http_head 200 (length bytes)) (\<lambda>_.
          bind_s (if verb = Http_Get then send_file_body f p (length bytes) else ret ()) (\<lambda>_.
          context_s ''close HTTP response'' (io_call ''shutdown''))))"
        by (intro writes_bind writes_head body writes_context writes_nothing)
      then show ?thesis by (simp add: Some len)
    qed
  qed
  then show ?thesis by simp
qed

lemma handle_http_front:
  assumes "handle_local_cache_http dir w = (r, w')"
  shows "files w' = files w \<and> (\<exists>front. http_out w' = http_out w @ front \<and> prefix front (local_answer dir (files w) (request_of (chunks_in w))))"
proof -
  obtain q w1 where rd: "read_http_request w = (q, w1)" by fastforce
  note same = read_http_request_world [OF rd]
  have q: "request_of (chunks_in w) = q" using rd by (simp add: request_of_eq)
  have front: "files v' = files w \<and> (\<exists>front. http_out v' = http_out w @ front \<and> prefix front s)"
    if "writes w1 s m" "m w1 = (x, v')" for s x v' and m :: "('a http_world_scheme, unit) step"
    using that same by (auto simp: writes_def)
  show ?thesis
  proof (cases q)
    case (Inl err)
    obtain x v where "write_http_head 400 0 w1 = (x, v)" by fastforce
    with front [OF writes_head this] show ?thesis
      using assms rd by (auto simp: handle_local_cache_http_def match_s_def q local_answer_def Inl)
  next
    case (Inr request)
    have "writes w1 (local_answer dir (files w) q)
      (if http_method request = Http_Other then write_http_head 405 0
        else
          (case sanitize_http_cache_path (http_target request) of
             Inl _ \<Rightarrow> write_http_head 400 0
           | Inr path \<Rightarrow>
               bind_s (lift_r (cache_file_path dir path)) (\<lambda>file_path.
               serve_local_file (http_method request) file_path path)))"
    proof (cases "sanitize_http_cache_path (http_target request)")
      case (Inl e)
      then show ?thesis by (simp add: Inr local_answer_def writes_head)
    next
      case path: (Inr path)
      have eq: "serve_local_file v (path_join dir path) path = bind_s (lift_r (cache_file_path dir path)) (\<lambda>file_path.
               serve_local_file v file_path path)" for v
        by (simp add: sanitized_file_path [OF path] bind_s_def fun_eq_iff)
      with writes_local_file [where w = w1 and f = "path_join dir path" and p = path and verb = "http_method request"] same path show ?thesis
        by (cases "http_method request = Http_Other") (simp_all add: Inr local_answer_def writes_head flip: eq)
    qed
    from front [OF this] show ?thesis
      using assms rd by (auto simp: handle_local_cache_http_def match_s_def q Inr)
  qed
qed

section \<open>The bridge\<close>

text \<open>The connections the loop accepts, and whether it ends because accepting failed.\<close>

fun accepted :: "bridge_event list \<Rightarrow> (string result list \<times> nat option) list" where
  "accepted (Bridge_Accepted chunks dropped_at # events) = (chunks, dropped_at) # accepted events"
| "accepted events = []"

fun accept_fails :: "bridge_event list \<Rightarrow> bool" where
  "accept_fails (Bridge_Accepted chunks dropped_at # events) = accept_fails events"
| "accept_fails (Bridge_Accept_Failed # events) = True"
| "accept_fails events = False"

definition rightly_answered ::
  "string \<Rightarrow> (string \<Rightarrow> string option) \<Rightarrow> bool \<Rightarrow> string result list \<times> nat option \<Rightarrow> string \<Rightarrow> bool" where
  "rightly_answered dir fs undisturbed c answer \<longleftrightarrow>
    (case c of (chunks, dropped_at) \<Rightarrow>
      prefix answer (local_answer dir fs (request_of chunks))
      \<and> (if undisturbed \<and> dropped_at = None then answer = local_answer dir fs (request_of chunks) else True))"

lemma handle_http_faults: "handle_local_cache_http dir w = (r, w') \<Longrightarrow> faults w' = faults w"
proof -
  assume run: "handle_local_cache_http dir w = (r, w')"
  define R where "R = (\<lambda>u v. faults (v :: 'a http_world_scheme) = faults (u :: 'a http_world_scheme))"
  have rel: "reflp R" "transp R" by (simp_all add: R_def reflp_def transp_def)
  have calls: "keeps R (http_write b)" "keeps R (http_file_len p)" "keeps R (fs_read p)" "keeps R (io_call c)" "keeps R read_http_request"
    for b p c
    by (auto simp: R_def keeps_def http_write_def http_file_len_def fs_read_def io_call_def read_http_request_def ticked_def
        split: fault.splits prod.splits sum.splits)
  note comb = keeps_ret [OF rel(1)] keeps_lift_r [OF rel(1)] keeps_bind_s [OF rel(2)] keeps_match_s [OF rel(2)] keeps_context_s
  have head: "keeps R (write_http_head code n)" for code n
    unfolding write_http_head_def by (intro comb calls)
  then have err: "keeps R (write_http_error code m)" for code m
    unfolding write_http_error_def by (intro comb head calls)
  have body: "keeps R (send_file_body f p n)" for f p n
    unfolding send_file_body_def by (auto intro!: comb calls split: option.split)
  have "keeps R (serve_local_file v f p)" for v f p
    unfolding serve_local_file_def by (auto intro!: comb calls head err body split: option.split)
  then have "keeps R (handle_local_cache_http dir)"
    unfolding handle_local_cache_http_def by (auto intro!: comb calls head split: sum.split)
  then show ?thesis using run by (auto simp: R_def dest: keepsD)
qed

lemma http_task_answers:
  assumes "http_task dir chunks dropped_at w = (answer, w')"
  shows "files w' = files w \<and> faults w' = faults w
    \<and> rightly_answered dir (files w) (faults w = (\<lambda>n. Fine)) (chunks, dropped_at) answer"
proof -
  let ?w = "w\<lparr>chunks_in := chunks, http_out := []\<rparr>"
  obtain r w1 where run: "handle_local_cache_http dir ?w = (r, w1)" by fastforce
  note whole = local_server_serves_only_cache_files [of ?w dir]
  from handle_http_front [OF run] handle_http_faults [OF run] whole assms run request_of_eq [of ?w] show ?thesis
    by (auto simp: http_task_def Let_def rightly_answered_def split: option.splits if_splits
        intro: prefix_order.trans [OF take_is_prefix])
qed

text \<open>What has been answered before stays.\<close>

lemma bridge_loop:
  assumes "run_local_cache_server dir events answers w = (r, answers', w')"
  shows "files w' = files w \<and> (is_ok r \<longleftrightarrow> \<not> accept_fails events)
    \<and> (\<exists>new. answers' = answers @ new
        \<and> list_all2 (rightly_answered dir (files w) (faults w = (\<lambda>n. Fine))) (accepted events) new)"
  using assms
proof (induction dir events answers w rule: run_local_cache_server.induct [case_names Waits Stop Fails Takes])
  case (Takes dir chunks dropped_at events answers w)
  obtain answer w1 where t: "http_task dir chunks dropped_at w = (answer, w1)" by fastforce
  from Takes.IH [OF t [symmetric]] Takes.prems t http_task_answers [OF t] show ?case by auto
qed auto

text \<open>
  C18: Whatever connections the local bridge accepts and wherever their tasks are dropped: it
  changes no file, it fails only when accepting fails, and each connection sees a front of the
  right answer, the file of the mirror its request names or the right error, and all of it if no
  call fails and its task is not dropped.
\<close>

theorem bridge_answers_from_the_mirror:
  "case run_local_cache_server dir events [] w of (r, answers, w') \<Rightarrow>
    files w' = files w \<and> is_ok r = (\<not> accept_fails events)
    \<and> list_all2 (rightly_answered dir (files w) (faults w = (\<lambda>n. Fine))) (accepted events) answers"
proof -
  obtain r answers w' where run: "run_local_cache_server dir events [] w = (r, answers, w')" by (rule prod_cases3)
  from bridge_loop [OF run] run show ?thesis by auto
qed

end
